(* ===== verification/Prelude.thy ===== *)
theory Prelude
  imports Complex_Main "HOL-Library.AList"
begin

text \<open>
  What the components of the SwarmDeck model share: Python's floats (with their three
  non-finite values and the comparison rules of \<^verbatim>\<open>min\<close> and \<^verbatim>\<open>max\<close>), JSON values as
  \<^verbatim>\<open>json.loads\<close> returns them, insertion-ordered dictionaries, decimal rounding, the
  errors a handler can raise, and the locales that state the contracts several
  components have in common (a machine with an invariant, an insertion-ordered store,
  a generation counter that retires stale answers).

  A finite float is a \<^typ>\<open>real\<close>: the rounding of binary arithmetic is not modelled, the
  comparisons, clamps and non-finite cases are.
\<close>

named_theorems dict_simps \<open>facts on insertion-ordered dictionaries\<close>
named_theorems step_inv \<open>operations keep the invariant of their component\<close>

subsection \<open>Errors\<close>

datatype pyerr =
    TypeError | ValueError | KeyError | IndexError | OverflowError
  | PermissionError | AttributeError | RuntimeError | ZeroDivisionError

text \<open>Sequencing of computations that may raise, and \<^verbatim>\<open>except\<close> clauses.\<close>

definition ebind :: "(pyerr + 'a) \<Rightarrow> ('a \<Rightarrow> pyerr + 'b) \<Rightarrow> pyerr + 'b" where
  "ebind m f = (case m of Inl e \<Rightarrow> Inl e | Inr x \<Rightarrow> f x)"

lemma ebind_simps [simp]: "ebind (Inl e) f = Inl e" "ebind (Inr x) f = f x"
  by (simp_all add: ebind_def)

definition catching :: "pyerr set \<Rightarrow> 'a \<Rightarrow> (pyerr + 'a) \<Rightarrow> pyerr + 'a" where
  "catching es d m = (case m of Inl e \<Rightarrow> if e \<in> es then Inr d else Inl e | Inr x \<Rightarrow> Inr x)"

lemma catching_simps [simp]:
  "catching es d (Inr x) = Inr x" "catching es d (Inl e) = (if e \<in> es then Inr d else Inl e)"
  by (simp_all add: catching_def)

fun emap :: "('a \<Rightarrow> pyerr + 'b) \<Rightarrow> 'a list \<Rightarrow> pyerr + 'b list" where
  "emap f [] = Inr []"
| "emap f (x # xs) = ebind (f x) (\<lambda>y. ebind (emap f xs) (\<lambda>ys. Inr (y # ys)))"

lemma emap_Inr: "(\<And>x. x \<in> set xs \<Longrightarrow> f x = Inr (g x)) \<Longrightarrow> emap f xs = Inr (map g xs)"
  by (induction xs) auto

subsection \<open>Floats\<close>

datatype pyfloat = Fin real | PInf | NInf | NaN

fun flt :: "pyfloat \<Rightarrow> pyfloat \<Rightarrow> bool" where
  "flt NaN y = False"
| "flt x NaN = False"
| "flt (Fin a) (Fin b) = (a < b)"
| "flt NInf y = (y \<noteq> NInf)"
| "flt x PInf = (x \<noteq> PInf)"
| "flt PInf y = False"
| "flt x NInf = False"

fun fle :: "pyfloat \<Rightarrow> pyfloat \<Rightarrow> bool" where
  "fle NaN y = False"
| "fle x NaN = False"
| "fle (Fin a) (Fin b) = (a \<le> b)"
| "fle NInf y = True"
| "fle x PInf = True"
| "fle PInf y = False"
| "fle x NInf = False"

fun is_finite :: "pyfloat \<Rightarrow> bool" where
  "is_finite (Fin a) = True"
| "is_finite x = False"

text \<open>Python's two-argument \<^verbatim>\<open>min\<close> and \<^verbatim>\<open>max\<close> keep the first argument unless the second
  compares strictly better, so a \<open>NaN\<close> in second place is dropped.\<close>

definition py_min :: "pyfloat \<Rightarrow> pyfloat \<Rightarrow> pyfloat" where
  "py_min a b = (if flt b a then b else a)"

definition py_max :: "pyfloat \<Rightarrow> pyfloat \<Rightarrow> pyfloat" where
  "py_max a b = (if flt a b then b else a)"

definition clampf :: "real \<Rightarrow> real \<Rightarrow> pyfloat \<Rightarrow> pyfloat" where
  "clampf lo hi x = py_max (Fin lo) (py_min (Fin hi) x)"

lemma clampf_simps [simp]:
  "clampf lo hi (Fin x) = Fin (max lo (min hi x))"
  "clampf lo hi PInf = Fin (max lo hi)"
  "clampf lo hi NInf = Fin lo"
  "clampf lo hi NaN = Fin (max lo hi)"
  by (auto simp: clampf_def py_min_def py_max_def max_def min_def)

lemma clampf_range: "lo \<le> hi \<Longrightarrow> \<exists>r. clampf lo hi x = Fin r \<and> lo \<le> r \<and> r \<le> hi"
  by (cases x) auto

text \<open>The largest magnitude that still converts to a finite double.\<close>

definition float_overflow :: int where
  "float_overflow = 2 ^ 1024 - 2 ^ 970"

definition fabs :: "pyfloat \<Rightarrow> pyfloat" where
  "fabs x = (case x of Fin a \<Rightarrow> Fin \<bar>a\<bar> | NInf \<Rightarrow> PInf | y \<Rightarrow> y)"

fun fsub :: "pyfloat \<Rightarrow> pyfloat \<Rightarrow> pyfloat" where
  "fsub (Fin a) (Fin b) = Fin (a - b)"
| "fsub NaN y = NaN"
| "fsub x NaN = NaN"
| "fsub PInf PInf = NaN"
| "fsub NInf NInf = NaN"
| "fsub PInf y = PInf"
| "fsub NInf y = NInf"
| "fsub (Fin a) PInf = NInf"
| "fsub (Fin a) NInf = PInf"

definition to_float :: "real \<Rightarrow> pyfloat" where
  "to_float r = (if r \<ge> of_int float_overflow then PInf
                 else if r \<le> - of_int float_overflow then NInf else Fin r)"

subsection \<open>Decimal rounding and distances\<close>

definition round_even :: "real \<Rightarrow> int" where
  "round_even x = (let f = \<lfloor>x\<rfloor>; d = x - of_int f in
     if d < 1 / 2 then f else if d > 1 / 2 then f + 1 else if even f then f else f + 1)"

definition py_round :: "nat \<Rightarrow> real \<Rightarrow> real" where
  "py_round n x = of_int (round_even (x * 10 ^ n)) / 10 ^ n"

lemma round_even_of_int [simp]: "round_even (of_int n) = n"
  by (simp add: round_even_def)

lemma round_even_close: "\<bar>of_int (round_even x) - x\<bar> \<le> 1 / 2"
  unfolding round_even_def Let_def by (auto split: if_splits)

lemma round_even_mono_bounds:
  "of_int a \<le> x \<Longrightarrow> a \<le> round_even x" "x \<le> of_int b \<Longrightarrow> round_even x \<le> b"
  unfolding round_even_def Let_def by (auto split: if_splits) linarith+

lemma py_round_ge: "of_int a \<le> x * 10 ^ n \<Longrightarrow> of_int a / 10 ^ n \<le> py_round n x"
  using round_even_mono_bounds(1) [of a "x * 10 ^ n"] by (simp add: py_round_def divide_right_mono)

lemma py_round_le: "x * 10 ^ n \<le> of_int b \<Longrightarrow> py_round n x \<le> of_int b / 10 ^ n"
  using round_even_mono_bounds(2) [of "x * 10 ^ n" b] by (simp add: py_round_def divide_right_mono)

lemma py_round_idem [simp]: "py_round n (py_round n x) = py_round n x"
  by (simp add: py_round_def)

definition hypot :: "real \<Rightarrow> real \<Rightarrow> real" where
  "hypot dx dy = sqrt (dx\<^sup>2 + dy\<^sup>2)"

lemma hypot_le_iff: "0 \<le> r \<Longrightarrow> hypot dx dy \<le> r \<longleftrightarrow> dx\<^sup>2 + dy\<^sup>2 \<le> r\<^sup>2"
  unfolding hypot_def
  by (metis real_sqrt_le_iff real_sqrt_unique)

lemma hypot_less_iff: "0 \<le> r \<Longrightarrow> hypot dx dy < r \<longleftrightarrow> dx\<^sup>2 + dy\<^sup>2 < r\<^sup>2"
  unfolding hypot_def
  by (metis real_sqrt_less_iff real_sqrt_unique)

lemma hypot_nonneg [simp]: "0 \<le> hypot dx dy"
  by (simp add: hypot_def)

lemma hypot_axis [simp]: "hypot dx 0 = \<bar>dx\<bar>" "hypot 0 dy = \<bar>dy\<bar>"
  by (simp_all add: hypot_def)

text \<open>Evaluation along the axes; elsewhere the square root has no executable form.\<close>

lemma hypot_code [code]:
  "hypot dx dy = (if dy = 0 then \<bar>dx\<bar> else if dx = 0 then \<bar>dy\<bar>
     else Code.abort (STR ''irrational distance'') (\<lambda>_. hypot dx dy))"
  by (simp add: Code.abort_def)

subsection \<open>JSON values\<close>

datatype json =
    JNull | JBool bool | JInt int | JFloat pyfloat | JStr string
  | JList "json list" | JObj "(string \<times> json) list"

fun truthy :: "json \<Rightarrow> bool" where
  "truthy JNull = False"
| "truthy (JBool b) = b"
| "truthy (JInt i) = (i \<noteq> 0)"
| "truthy (JFloat f) = (f \<noteq> Fin 0)"
| "truthy (JStr s) = (s \<noteq> [])"
| "truthy (JList xs) = (xs \<noteq> [])"
| "truthy (JObj kvs) = (kvs \<noteq> [])"

fun is_obj :: "json \<Rightarrow> bool" where
  "is_obj (JObj kvs) = True"
| "is_obj v = False"

fun obj_fields :: "json \<Rightarrow> (string \<times> json) list" where
  "obj_fields (JObj kvs) = kvs"
| "obj_fields v = []"

text \<open>\<open>d.get(key, default)\<close> and \<open>key in d\<close> for a dictionary; \<open>v["key"]\<close> for any value.\<close>

definition jget :: "(string \<times> json) list \<Rightarrow> string \<Rightarrow> json \<Rightarrow> json" where
  "jget kvs k d = (case map_of kvs k of None \<Rightarrow> d | Some v \<Rightarrow> v)"

definition jhas :: "(string \<times> json) list \<Rightarrow> string \<Rightarrow> bool" where
  "jhas kvs k = (map_of kvs k \<noteq> None)"

fun jindex :: "json \<Rightarrow> string \<Rightarrow> pyerr + json" where
  "jindex (JObj kvs) k = (case map_of kvs k of None \<Rightarrow> Inl KeyError | Some v \<Rightarrow> Inr v)"
| "jindex v k = Inl TypeError"

text \<open>\<open>float(v)\<close>; text is read as Python reads a decimal literal.\<close>

definition is_digit :: "char \<Rightarrow> bool" where
  "is_digit c = (of_char c \<ge> (48::nat) \<and> of_char c \<le> (57::nat))"

definition digit_val :: "char \<Rightarrow> nat" where
  "digit_val c = of_char c - 48"

definition is_space :: "char \<Rightarrow> bool" where
  "is_space c = (of_char c \<in> {9, 10, 11, 12, 13, 28, 29, 30, 31, 32::nat})"

definition strip :: "string \<Rightarrow> string" where
  "strip s = rev (dropWhile is_space (rev (dropWhile is_space s)))"

definition lower_char :: "char \<Rightarrow> char" where
  "lower_char c = (if of_char c \<ge> (65::nat) \<and> of_char c \<le> (90::nat)
                   then char_of (of_char c + 32::nat) else c)"

definition lower :: "string \<Rightarrow> string" where
  "lower = map lower_char"

fun scan_digits :: "nat \<Rightarrow> nat \<Rightarrow> string \<Rightarrow> nat \<times> nat \<times> string" where
  "scan_digits v n [] = (v, n, [])"
| "scan_digits v n (c # cs) =
     (if is_digit c then scan_digits (10 * v + digit_val c) (Suc n) cs
      else if c = CHR ''_'' \<and> 0 < n \<and> (case cs of [] \<Rightarrow> False | d # _ \<Rightarrow> is_digit d)
      then scan_digits v n cs
      else (v, n, c # cs))"

definition split_sign :: "string \<Rightarrow> bool \<times> string" where
  "split_sign s = (case s of [] \<Rightarrow> (False, []) | c # cs \<Rightarrow>
     if c = CHR ''-'' then (True, cs) else if c = CHR ''+'' then (False, cs)
     else (False, s))"

definition scan_exponent :: "string \<Rightarrow> int option" where
  "scan_exponent s = (case s of [] \<Rightarrow> Some 0 | c # cs \<Rightarrow>
     if lower_char c = CHR ''e'' then
       let (neg, t) = split_sign cs; (v, n, rest) = scan_digits 0 0 t in
       if 0 < n \<and> rest = [] then Some (if neg then - int v else int v) else None
     else None)"

definition pow10 :: "int \<Rightarrow> real" where
  "pow10 e = (if 0 \<le> e then 10 ^ nat e else 1 / 10 ^ nat (- e))"

definition scan_number :: "string \<Rightarrow> real option" where
  "scan_number s =
     (let (iv, ni, r1) = scan_digits 0 0 s;
          (fv, nf, r2) = (case r1 of [] \<Rightarrow> (0, 0, []) | c # cs \<Rightarrow>
             if c = CHR ''.'' then scan_digits 0 0 cs else (0, 0, r1)) in
      if ni + nf = 0 then None
      else case scan_exponent r2 of None \<Rightarrow> None
        | Some e \<Rightarrow> Some ((real iv + real fv / 10 ^ nf) * pow10 e))"

definition float_of_string :: "string \<Rightarrow> pyerr + pyfloat" where
  "float_of_string str =
     (let (neg, s) = split_sign (strip str) in
      if lower s \<in> {''inf'', ''infinity''} then Inr (if neg then NInf else PInf)
      else if lower s = ''nan'' then Inr NaN
      else case scan_number s of None \<Rightarrow> Inl ValueError
        | Some r \<Rightarrow> Inr (to_float (if neg then - r else r)))"

fun float_of :: "json \<Rightarrow> pyerr + pyfloat" where
  "float_of (JBool b) = Inr (Fin (of_bool b))"
| "float_of (JInt i) = (if \<bar>i\<bar> < float_overflow then Inr (Fin (of_int i)) else Inl OverflowError)"
| "float_of (JFloat f) = Inr f"
| "float_of (JStr s) = float_of_string s"
| "float_of v = Inl TypeError"

text \<open>The value of a number in an arithmetic expression; \<open>bool\<close> counts as a number.\<close>

fun number :: "json \<Rightarrow> pyerr + pyfloat" where
  "number (JBool b) = Inr (Fin (of_bool b))"
| "number (JInt i) = Inr (Fin (of_int i))"
| "number (JFloat f) = Inr f"
| "number v = Inl TypeError"

text \<open>\<^verbatim>\<open>abs(a["k"] - b["k"]) < tol\<close>\<close>

definition coord_near :: "real \<Rightarrow> string \<Rightarrow> json \<Rightarrow> json \<Rightarrow> pyerr + bool" where
  "coord_near tol k a b =
     (case jindex a k of Inl e \<Rightarrow> Inl e | Inr u \<Rightarrow>
      (case jindex b k of Inl e \<Rightarrow> Inl e | Inr v \<Rightarrow>
      (case number u of Inl e \<Rightarrow> Inl e | Inr x \<Rightarrow>
      (case number v of Inl e \<Rightarrow> Inl e | Inr y \<Rightarrow> Inr (flt (fabs (fsub x y)) (Fin tol))))))"

text \<open>Decimal numerals: \<open>str(n)\<close>, \<^verbatim>\<open>s.isdigit()\<close> and \<open>int(v)\<close>. Text is ASCII.\<close>

definition digit :: "nat \<Rightarrow> char" where
  "digit n = char_of (48 + n)"

fun dec :: "nat \<Rightarrow> string" where
  "dec n = (if n < 10 then [digit n] else dec (n div 10) @ [digit (n mod 10)])"

declare dec.simps [simp del]

definition dec_int :: "int \<Rightarrow> string" where
  "dec_int i = (if i < 0 then CHR ''-'' # dec (nat (- i)) else dec (nat i))"

definition val_dec :: "string \<Rightarrow> nat" where
  "val_dec s = foldl (\<lambda>v c. 10 * v + digit_val c) 0 s"

definition all_digits :: "string \<Rightarrow> bool" where
  "all_digits s = (s \<noteq> [] \<and> list_all is_digit s)"

lemma digit_props:
  assumes "n < 10"
  shows "is_digit (digit n)" "digit_val (digit n) = n"
  using assms by (auto simp: is_digit_def digit_val_def digit_def of_char_of)

lemma val_dec_dec [simp]: "val_dec (dec n) = n"
  by (induction n rule: dec.induct) (subst dec.simps, auto simp: val_dec_def digit_props)

lemma all_digits_dec [simp]: "all_digits (dec n)"
proof (induction n rule: dec.induct)
  case (1 n)
  then show ?case by (subst dec.simps) (auto simp: all_digits_def digit_props)
qed

fun py_int :: "json \<Rightarrow> pyerr + int" where
  "py_int (JBool b) = Inr (of_bool b)"
| "py_int (JInt i) = Inr i"
| "py_int (JFloat (Fin x)) = Inr (if x < 0 then - \<lfloor>- x\<rfloor> else \<lfloor>x\<rfloor>)"
| "py_int (JFloat NaN) = Inl ValueError"
| "py_int (JFloat f) = Inl OverflowError"
| "py_int (JStr s) = (let (neg, t) = split_sign (strip s); (v, n, rest) = scan_digits 0 0 t in
     if 0 < n \<and> rest = [] then Inr (if neg then - int v else int v) else Inl ValueError)"
| "py_int v = Inl TypeError"

text \<open>\<open>str(v)\<close>; the text of floats, lists and dictionaries is left to the parameter.\<close>

fun py_str :: "(json \<Rightarrow> string) \<Rightarrow> json \<Rightarrow> string" where
  "py_str rep (JStr s) = s"
| "py_str rep (JInt i) = dec_int i"
| "py_str rep (JBool b) = (if b then ''True'' else ''False'')"
| "py_str rep JNull = ''None''"
| "py_str rep v = rep v"

text \<open>A float read where the model keeps finite numbers only.\<close>

definition real_of :: "json \<Rightarrow> pyerr + real" where
  "real_of v = ebind (float_of v) (\<lambda>f. case f of Fin x \<Rightarrow> Inr x | _ \<Rightarrow> Inl ValueError)"

lemma real_of_num [simp]: "real_of (JFloat (Fin x)) = Inr x"
  by (simp add: real_of_def)

text \<open>\<open>list(v)\<close> and \<open>str(v)\<close>: text yields its characters, a dictionary its keys.\<close>

fun py_list :: "json \<Rightarrow> pyerr + json list" where
  "py_list (JList xs) = Inr xs"
| "py_list (JStr s) = Inr (map (\<lambda>c. JStr [c]) s)"
| "py_list (JObj kvs) = Inr (map (JStr \<circ> fst) kvs)"
| "py_list v = Inl TypeError"

fun hashable :: "json \<Rightarrow> bool" where
  "hashable (JList xs) = False"
| "hashable (JObj kvs) = False"
| "hashable v = True"

subsection \<open>Object updates that may stop half way\<close>

text \<open>
  A handler that assigns fields one after another and raises in the middle leaves the
  fields it has assigned. A step returns the object as it stands and the error, if any.
\<close>

type_synonym 's update = "'s \<Rightarrow> 's \<times> pyerr option"

fun seq_steps :: "'s update list \<Rightarrow> 's update" where
  "seq_steps [] s = (s, None)"
| "seq_steps (f # fs) s = (case f s of (s', Some e) \<Rightarrow> (s', Some e) | (s', None) \<Rightarrow> seq_steps fs s')"

definition assign :: "('a \<Rightarrow> 's \<Rightarrow> 's) \<Rightarrow> (pyerr + 'a) \<Rightarrow> 's update" where
  "assign put v s = (case v of Inl e \<Rightarrow> (s, Some e) | Inr x \<Rightarrow> (put x s, None))"

text \<open>An update keeps a property of the object on every path, the ones that raise included.\<close>

definition keeps :: "('s \<Rightarrow> bool) \<Rightarrow> 's update \<Rightarrow> bool" where
  "keeps P f = (\<forall>s. P s \<longrightarrow> P (fst (f s)))"

lemma keepsI [intro]: "(\<And>s. P s \<Longrightarrow> P (fst (f s))) \<Longrightarrow> keeps P f"
  by (simp add: keeps_def)

lemma keepsD: "keeps P f \<Longrightarrow> P s \<Longrightarrow> P (fst (f s))"
  by (simp add: keeps_def)

lemma keeps_skip [step_inv]: "keeps P (\<lambda>s. (s, e))"
  by (simp add: keeps_def)

lemma keeps_set [step_inv]: "(\<And>s. P s \<Longrightarrow> P (g s)) \<Longrightarrow> keeps P (\<lambda>s. (g s, None))"
  by (simp add: keeps_def)

lemma keeps_assign [step_inv]:
  "(\<And>x s. v = Inr x \<Longrightarrow> P s \<Longrightarrow> P (put x s)) \<Longrightarrow> keeps P (assign put v)"
  by (cases v) (simp_all add: keeps_def assign_def)

lemma keeps_if [step_inv]: "keeps P f \<Longrightarrow> keeps P g \<Longrightarrow> keeps P (if b then f else g)"
  by simp

lemma keeps_seq [step_inv]:
  assumes "list_all (keeps P) fs"
  shows "keeps P (seq_steps fs)"
proof (rule keepsI)
  fix s assume "P s"
  with assms show "P (fst (seq_steps fs s))"
  proof (induction fs arbitrary: s)
    case (Cons f fs)
    obtain t err where f: "f s = (t, err)" by (cases "f s")
    have t: "P t" using keepsD [of P f s] Cons.prems f by simp
    have rest: "P (fst (seq_steps fs t))" using Cons.IH [of t] Cons.prems(1) t by simp
    show ?case by (cases err) (simp_all add: f t rest)
  qed simp
qed

lemma seq_steps_append:
  "seq_steps (fs @ gs) s = (case seq_steps fs s of (t, Some e) \<Rightarrow> (t, Some e) | (t, None) \<Rightarrow> seq_steps gs t)"
proof (induction fs arbitrary: s)
  case Nil
  then show ?case by simp
next
  case (Cons f fs)
  obtain t err where f: "f s = (t, err)" by (cases "f s")
  show ?case by (cases err) (simp_all add: f Cons.IH)
qed

subsection \<open>Lists indexed as Python indexes them\<close>

definition py_nth :: "'a list \<Rightarrow> int \<Rightarrow> pyerr + 'a" where
  "py_nth xs i = (let j = (if i < 0 then i + int (length xs) else i) in
     if 0 \<le> j \<and> j < int (length xs) then Inr (xs ! nat j) else Inl IndexError)"

lemma py_nth_nat [simp]: "i < length xs \<Longrightarrow> py_nth xs (int i) = Inr (xs ! i)"
  by (simp add: py_nth_def)

subsection \<open>Insertion-ordered dictionaries\<close>

text \<open>
  A Python \<^verbatim>\<open>dict\<close> keeps insertion order; assigning an existing key keeps its place. That
  is \<^const>\<open>AList.update\<close>, and \<open>d.pop(k, None)\<close> is \<^const>\<open>AList.delete\<close>.
\<close>

type_synonym ('k, 'v) dict = "('k \<times> 'v) list"

abbreviation dget :: "('k, 'v) dict \<Rightarrow> 'k \<Rightarrow> 'v option" where
  "dget \<equiv> map_of"

abbreviation dput :: "'k \<Rightarrow> 'v \<Rightarrow> ('k, 'v) dict \<Rightarrow> ('k, 'v) dict" where
  "dput \<equiv> AList.update"

abbreviation ddel :: "'k \<Rightarrow> ('k, 'v) dict \<Rightarrow> ('k, 'v) dict" where
  "ddel \<equiv> AList.delete"

definition keys :: "('k, 'v) dict \<Rightarrow> 'k list" where
  "keys d = map fst d"

definition wf_dict :: "('k, 'v) dict \<Rightarrow> bool" where
  "wf_dict d = distinct (map fst d)"

lemma dget_dput [dict_simps]: "dget (dput k v d) k' = (if k' = k then Some v else dget d k')"
  by (simp add: update_conv')

lemma dget_ddel [dict_simps]: "dget (ddel k d) k' = (if k' = k then None else dget d k')"
  by (simp add: delete_conv')

lemma wf_dict_nil [simp]: "wf_dict []"
  by (simp add: wf_dict_def)

lemma wf_dict_dput [simp]: "wf_dict d \<Longrightarrow> wf_dict (dput k v d)"
  by (simp add: wf_dict_def distinct_update)

lemma wf_dict_ddel [simp]: "wf_dict d \<Longrightarrow> wf_dict (ddel k d)"
  unfolding wf_dict_def by (rule distinct_delete)

lemma wf_dict_filter [simp]: "wf_dict d \<Longrightarrow> wf_dict (filter P d)"
  by (simp add: wf_dict_def distinct_map_filter)

lemma wf_dict_dget: "wf_dict d \<Longrightarrow> (k, v) \<in> set d \<longleftrightarrow> dget d k = Some v"
  by (simp add: wf_dict_def)

lemma dget_filter_fst: "dget (filter (\<lambda>p. P (fst p)) d) k = (if P k then dget d k else None)"
  by (induction d) auto

lemma set_ddel: "set (ddel k d) = {p \<in> set d. fst p \<noteq> k}"
  by (induction d) auto

lemma set_dput_subset: "set (dput k v d) \<subseteq> insert (k, v) (set d)"
  by (induction d) auto

lemma dput_new: "k \<notin> fst ` set d \<Longrightarrow> dput k v d = d @ [(k, v)]"
  by (induction d) auto

text \<open>Replacing every value of a dictionary, with its key in view.\<close>

definition dmap :: "('k \<Rightarrow> 'v \<Rightarrow> 'w) \<Rightarrow> ('k, 'v) dict \<Rightarrow> ('k, 'w) dict" where
  "dmap f d = map (\<lambda>(k, v). (k, f k v)) d"

lemma dget_dmap [dict_simps]: "dget (dmap f d) k = map_option (f k) (dget d k)"
  by (induction d) (auto simp: dmap_def)

lemma fst_dmap [simp]: "map fst (dmap f d) = map fst d"
  by (induction d) (auto simp: dmap_def)

lemma wf_dict_dmap [simp]: "wf_dict (dmap f d) = wf_dict d"
  by (simp add: wf_dict_def)

subsection \<open>Choosing the first best element\<close>

text \<open>Python's \<open>max(xs, key=f)\<close> and \<open>min(xs, key=f)\<close> return the first best element.\<close>

fun first_max :: "('a \<Rightarrow> 'b::linorder) \<Rightarrow> 'a \<Rightarrow> 'a list \<Rightarrow> 'a" where
  "first_max f b [] = b"
| "first_max f b (x # xs) = first_max f (if f b < f x then x else b) xs"

lemma first_max_in: "first_max f b xs \<in> insert b (set xs)"
  by (induction xs arbitrary: b) auto

lemma first_max_ge: "y \<in> insert b (set xs) \<Longrightarrow> f y \<le> f (first_max f b xs)"
proof (induction xs arbitrary: b y)
  case Nil
  then show ?case by simp
next
  case (Cons x xs)
  have "f b \<le> f (first_max f (if f b < f x then x else b) xs)"
    by (rule order_trans [OF _ Cons.IH [of "if f b < f x then x else b"]]) auto
  moreover have "f x \<le> f (first_max f (if f b < f x then x else b) xs)"
    by (rule order_trans [OF _ Cons.IH [of "if f b < f x then x else b"]]) auto
  moreover have "y \<in> set xs \<Longrightarrow> f y \<le> f (first_max f (if f b < f x then x else b) xs)"
    by (rule Cons.IH) simp
  ultimately show ?case using Cons.prems by auto
qed

subsection \<open>Contracts shared by the components\<close>

text \<open>A component whose operations, as steps on its state, all keep an invariant: the
  invariant holds after any sequence of operations, in whatever order they arrive.\<close>

locale machine =
  fixes step :: "'e \<Rightarrow> 's \<Rightarrow> 's"
    and allowed :: "'e \<Rightarrow> bool"
    and inv :: "'s \<Rightarrow> bool"
  assumes inv_step: "allowed e \<Longrightarrow> inv s \<Longrightarrow> inv (step e s)"
begin

lemma inv_run: "list_all allowed es \<Longrightarrow> inv s \<Longrightarrow> inv (fold step es s)"
  by (induction es arbitrary: s) (auto intro: inv_step)

lemma inv_prefix: "list_all allowed (es @ es') \<Longrightarrow> inv s \<Longrightarrow> inv (fold step es s)"
  by (rule inv_run) simp_all

end

text \<open>A machine with a counter that no step lowers: an answer tagged with an older value
  of the counter can be told from a current one for ever after.\<close>

locale generation_machine = machine +
  fixes gen :: "'s \<Rightarrow> nat"
  assumes gen_mono: "allowed e \<Longrightarrow> inv s \<Longrightarrow> gen s \<le> gen (step e s)"
begin

lemma gen_run: "list_all allowed es \<Longrightarrow> inv s \<Longrightarrow> gen s \<le> gen (fold step es s)"
proof (induction es arbitrary: s)
  case Nil
  show ?case by simp
next
  case (Cons e es)
  have e: "allowed e" and es: "list_all allowed es" using Cons.prems(1) by simp_all
  have "gen s \<le> gen (step e s)" by (rule gen_mono [OF e Cons.prems(2)])
  also have "\<dots> \<le> gen (fold step es (step e s))"
    by (rule Cons.IH [OF es inv_step [OF e Cons.prems(2)]])
  finally show ?case by simp
qed

lemma stale_for_ever:
  "list_all allowed es \<Longrightarrow> inv s \<Longrightarrow> tag < gen s \<Longrightarrow> tag \<noteq> gen (fold step es s)"
  using gen_run [of es s] by simp

end

end
