(* ===== verification/Trajectory.thy ===== *)
theory Trajectory
  imports Prelude "HOL-Library.List_Lexorder" "HOL-Library.Char_ord" "HOL-Library.Product_Lexorder"
begin

unbundle bit_operations_syntax

text \<open>
  Identity in the collaborative pose graph (\<^verbatim>\<open>slam/swarmdeck_slam/types.py\<close>): a trajectory
  is one continuous run of one robot, a keyframe is a sequence number on a trajectory, and
  the key registry is the bijection between keyframes and the solver's integer keys.
\<close>

subsection \<open>Trajectory and keyframe ids\<close>

datatype trajectory = Traj (robot_of: string) (session_of: string)

datatype kf_id = Kf (kf_robot: string) (kf_seq: int) (kf_session: string)

definition kf_trajectory :: "kf_id \<Rightarrow> trajectory" where
  "kf_trajectory k = Traj (kf_robot k) (kf_session k)"

text \<open>Named tuples compare field by field, in order.\<close>

instantiation trajectory :: linorder
begin

definition less_eq_trajectory :: "trajectory \<Rightarrow> trajectory \<Rightarrow> bool" where
  "less_eq_trajectory a b \<longleftrightarrow> (robot_of a, session_of a) \<le> (robot_of b, session_of b)"

definition less_trajectory :: "trajectory \<Rightarrow> trajectory \<Rightarrow> bool" where
  "less_trajectory a b \<longleftrightarrow> (robot_of a, session_of a) < (robot_of b, session_of b)"

instance
proof
  fix x y z :: trajectory
  show "(x < y) = (x \<le> y \<and> \<not> y \<le> x)"
    unfolding less_trajectory_def less_eq_trajectory_def by (rule less_le_not_le)
  show "x \<le> x"
    unfolding less_eq_trajectory_def by (rule order_refl)
  show "x \<le> y \<Longrightarrow> y \<le> z \<Longrightarrow> x \<le> z"
    unfolding less_eq_trajectory_def by (rule order_trans)
  show "x \<le> y \<Longrightarrow> y \<le> x \<Longrightarrow> x = y"
    unfolding less_eq_trajectory_def by (cases x; cases y) (auto dest: order_antisym)
  show "x \<le> y \<or> y \<le> x"
    unfolding less_eq_trajectory_def by (rule linear)
qed

end

definition trajectory_str :: "trajectory \<Rightarrow> string" where
  "trajectory_str t = (if session_of t = [] then robot_of t
                       else robot_of t @ ''@'' @ session_of t)"

definition trajectory_parse :: "string \<Rightarrow> pyerr + trajectory" where
  "trajectory_parse s =
     (let robot = takeWhile (\<lambda>c. c \<noteq> CHR ''@'') s;
          session = tl (dropWhile (\<lambda>c. c \<noteq> CHR ''@'') s)
      in if robot = [] then Inl ValueError else Inr (Traj robot session))"



lemma take_until_at:
  assumes "CHR ''@'' \<notin> set r"
  shows "takeWhile (\<lambda>c. c \<noteq> CHR ''@'') (r @ CHR ''@'' # s) = r"
    and "dropWhile (\<lambda>c. c \<noteq> CHR ''@'') (r @ CHR ''@'' # s) = CHR ''@'' # s"
    and "takeWhile (\<lambda>c. c \<noteq> CHR ''@'') r = r"
    and "dropWhile (\<lambda>c. c \<noteq> CHR ''@'') r = []"
  using assms by (induction r) auto

lemma parse_at: "CHR ''@'' \<notin> set r \<Longrightarrow> trajectory_parse (r @ CHR ''@'' # s) =
    (if r = [] then Inl ValueError else Inr (Traj r s))"
  by (simp add: trajectory_parse_def take_until_at)

lemma parse_plain: "CHR ''@'' \<notin> set r \<Longrightarrow> trajectory_parse r =
    (if r = [] then Inl ValueError else Inr (Traj r []))"
  by (simp add: trajectory_parse_def take_until_at)

text \<open>printing a trajectory id and parsing the text gives the id back, for every robot id
  that is not empty and holds no at-sign, whatever its session is.\<close>

lemma trajectory_str_roundtrip:
  assumes "robot_of t \<noteq> []" and "CHR ''@'' \<notin> set (robot_of t)"
  shows "trajectory_parse (trajectory_str t) = Inr t"
  using assms by (cases t) (simp add: trajectory_str_def parse_at parse_plain)

lemma trajectory_str_roundtrip_witness:
  "trajectory_parse (trajectory_str (Traj ''botman'' ''b@7'')) = Inr (Traj ''botman'' ''b@7'')"
  by (rule trajectory_str_roundtrip) simp_all

lemma parse_str:
  assumes "trajectory_parse s = Inr t"
  shows "s = trajectory_str t \<or> s = trajectory_str t @ ''@'' \<and> session_of t = []"
proof (cases "CHR ''@'' \<in> set s")
  case True
  then obtain r u where s: "s = r @ CHR ''@'' # u" and r: "CHR ''@'' \<notin> set r"
    by (metis split_list_first)
  with assms show ?thesis by (auto simp: parse_at trajectory_str_def split: if_splits)
next
  case False
  with assms show ?thesis by (auto simp: parse_plain trajectory_str_def split: if_splits)
qed

subsection \<open>The key registry\<close>

record key_registry =
  kr_index :: "(trajectory, nat) dict"
  kr_trajectories :: "trajectory list"

definition empty_registry :: key_registry where
  "empty_registry = \<lparr>kr_index = [], kr_trajectories = []\<rparr>"

definition seq_bits :: nat where "seq_bits = 48"

definition max_robots :: nat where "max_robots = 2 ^ 16"

definition trajectory_index :: "trajectory \<Rightarrow> key_registry \<Rightarrow> pyerr + (nat \<times> key_registry)" where
  "trajectory_index t r =
     (case dget (kr_index r) t of
        Some i \<Rightarrow> Inr (i, r)
      | None \<Rightarrow>
          if max_robots \<le> length (kr_trajectories r) then Inl ValueError
          else let i = length (kr_trajectories r) in
            Inr (i, r\<lparr>kr_index := dput t i (kr_index r),
                      kr_trajectories := kr_trajectories r @ [t]\<rparr>))"

definition registry_key :: "kf_id \<Rightarrow> key_registry \<Rightarrow> pyerr + (int \<times> key_registry)" where
  "registry_key k r =
     (if \<not> (0 \<le> kf_seq k \<and> kf_seq k < 2 ^ seq_bits) then Inl ValueError
      else case trajectory_index (kf_trajectory k) r of
        Inl e \<Rightarrow> Inl e
      | Inr (i, r') \<Rightarrow> Inr (push_bit seq_bits (int i) OR kf_seq k, r'))"

definition registry_unkey :: "int \<Rightarrow> key_registry \<Rightarrow> pyerr + kf_id" where
  "registry_unkey key r =
     (let i = drop_bit seq_bits key in
      if int (length (kr_trajectories r)) \<le> i then Inl KeyError
      else case py_nth (kr_trajectories r) i of
        Inl e \<Rightarrow> Inl e
      | Inr t \<Rightarrow> Inr (Kf (robot_of t) (key AND (2 ^ seq_bits - 1)) (session_of t)))"

definition registry_robots :: "key_registry \<Rightarrow> string list" where
  "registry_robots r = keys (foldl (\<lambda>seen t. case dget seen (robot_of t) of
       None \<Rightarrow> dput (robot_of t) () seen | Some _ \<Rightarrow> seen) [] (kr_trajectories r))"

definition registry_wf :: "key_registry \<Rightarrow> bool" where
  "registry_wf r \<longleftrightarrow>
     (\<forall>t i. dget (kr_index r) t = Some i \<longleftrightarrow>
        i < length (kr_trajectories r) \<and> kr_trajectories r ! i = t)
     \<and> length (kr_trajectories r) \<le> max_robots"

lemma empty_registry_wf: "registry_wf empty_registry"
  by (simp add: registry_wf_def empty_registry_def max_robots_def)

lemma trajectory_index_wf:
  assumes "registry_wf r" and "trajectory_index t r = Inr (i, r')"
  shows "registry_wf r'" and "i < length (kr_trajectories r')"
    and "kr_trajectories r' ! i = t"
    and "\<exists>new. kr_trajectories r' = kr_trajectories r @ new"
proof -
  show "registry_wf r'"
    using assms unfolding registry_wf_def trajectory_index_def Let_def
    by (auto simp: dict_simps nth_append less_Suc_eq split: option.splits if_splits)
      (metis option.distinct(1))
  show "i < length (kr_trajectories r')" "kr_trajectories r' ! i = t"
    "\<exists>new. kr_trajectories r' = kr_trajectories r @ new"
    using assms unfolding registry_wf_def trajectory_index_def Let_def
    by (auto split: option.splits if_splits)
qed

lemma pack_unpack:
  fixes seq :: int
  assumes "0 \<le> seq" and "seq < 2 ^ n"
  shows "drop_bit n (push_bit n a OR seq) = a"
    and "(push_bit n a OR seq) AND (2 ^ n - 1) = seq"
proof -
  have seq: "take_bit n seq = seq" using assms by (simp add: take_bit_int_eq_self)
  have "drop_bit n seq = 0" using assms by (simp add: drop_bit_eq_div)
  moreover have "drop_bit n (push_bit n a) = a"
    by (simp add: drop_bit_eq_div push_bit_eq_mult)
  ultimately show "drop_bit n (push_bit n a OR seq) = a" by simp
  have "(push_bit n a OR seq) AND mask n = take_bit n (push_bit n a OR seq)"
    by (simp only: take_bit_eq_mask)
  also have "\<dots> = seq" by (simp add: seq take_bit_push_bit)
  finally show "(push_bit n a OR seq) AND (2 ^ n - 1) = seq" by (simp add: mask_eq_exp_minus_1)
qed

lemma unkey_extend:
  assumes "registry_unkey key r = Inr k" and "0 \<le> key"
    and "kr_trajectories r' = kr_trajectories r @ new"
  shows "registry_unkey key r' = Inr k"
proof -
  have "0 \<le> drop_bit seq_bits key" using assms(2) by simp
  then show ?thesis using assms(1,3)
    by (auto simp: registry_unkey_def py_nth_def Let_def nth_append nat_less_iff
      split: if_splits)
qed

lemma registry_key_wf:
  "registry_wf r \<Longrightarrow> registry_key k r = Inr (key, r') \<Longrightarrow> registry_wf r'"
  by (auto simp: registry_key_def split: if_splits sum.splits dest: trajectory_index_wf(1))

lemma registry_key_nonneg: "registry_key k r = Inr (key, r') \<Longrightarrow> 0 \<le> key"
  by (auto simp: registry_key_def split: if_splits sum.splits)

lemma registry_key_grows:
  "registry_wf r \<Longrightarrow> registry_key k r = Inr (key, r') \<Longrightarrow>
     \<exists>new. kr_trajectories r' = kr_trajectories r @ new"
  by (auto simp: registry_key_def split: if_splits sum.splits dest: trajectory_index_wf(4))

lemma unkey_key:
  assumes "registry_wf r" and "registry_key k r = Inr (key, r')"
  shows "registry_unkey key r' = Inr k"
proof -
  from assms(2) obtain i where range: "0 \<le> kf_seq k" "kf_seq k < 2 ^ seq_bits"
    and idx: "trajectory_index (kf_trajectory k) r = Inr (i, r')"
    and key: "key = push_bit seq_bits (int i) OR kf_seq k"
    by (auto simp: registry_key_def split: if_splits sum.splits)
  note wf = trajectory_index_wf [OF assms(1) idx]
  show ?thesis
    unfolding registry_unkey_def key pack_unpack [OF range]
    using wf(2,3) by (cases k) (simp add: kf_trajectory_def)
qed

text \<open>Asking for the keys of a whole list of keyframes, one after another.\<close>

fun registry_keys :: "kf_id list \<Rightarrow> key_registry \<Rightarrow> pyerr + (int list \<times> key_registry)" where
  "registry_keys [] r = Inr ([], r)"
| "registry_keys (k # ks) r = (case registry_key k r of
     Inl e \<Rightarrow> Inl e
   | Inr (key, r') \<Rightarrow> (case registry_keys ks r' of
       Inl e \<Rightarrow> Inl e
     | Inr (rest, r'') \<Rightarrow> Inr (key # rest, r'')))"

lemma registry_keys_wf:
  "registry_wf r \<Longrightarrow> registry_keys ks r = Inr (out, r') \<Longrightarrow>
     registry_wf r' \<and> (\<exists>new. kr_trajectories r' = kr_trajectories r @ new)"
proof (induction ks arbitrary: r out)
  case Nil
  then show ?case by auto
next
  case (Cons k ks)
  from Cons.prems(2) obtain key r1 rest where k: "registry_key k r = Inr (key, r1)"
    and ks: "registry_keys ks r1 = Inr (rest, r')"
    by (auto split: sum.splits)
  show ?case
    using Cons.IH [OF registry_key_wf [OF Cons.prems(1) k] ks]
      registry_key_grows [OF Cons.prems(1) k] by auto
qed

text \<open>however many keyframes are registered after it, an integer key the registry handed
  out decodes to the keyframe it was handed out for; so two different keyframes (a rebooted
  robot's sequence numbers included) never share a key.\<close>

lemma registry_keys_decode:
  assumes "registry_wf r" and "registry_keys ks r = Inr (out, r')"
  shows "map (\<lambda>key. registry_unkey key r') out = map Inr ks"
  using assms
proof (induction ks arbitrary: r out)
  case Nil
  then show ?case by simp
next
  case (Cons k ks)
  from Cons.prems(2) obtain key r1 rest where k: "registry_key k r = Inr (key, r1)"
    and ks: "registry_keys ks r1 = Inr (rest, r')" and out: "out = key # rest"
    by (auto split: sum.splits)
  note wf1 = registry_key_wf [OF Cons.prems(1) k]
  obtain new where "kr_trajectories r' = kr_trajectories r1 @ new"
    using registry_keys_wf [OF wf1 ks] by blast
  then have "registry_unkey key r' = Inr k"
    by (rule unkey_extend [OF unkey_key [OF Cons.prems(1) k] registry_key_nonneg [OF k]])
  with Cons.IH [OF wf1 ks] show ?case by (simp add: out)
qed

definition reboot_run :: "kf_id list" where
  "reboot_run = [Kf ''tars'' 0 ''a'', Kf ''tars'' 0 ''b'', Kf ''tars'' 1 ''a'']"

lemma reboot_keys:
  "registry_keys reboot_run empty_registry = Inr ([0, 2 ^ 48, 1],
     \<lparr>kr_index = [(Traj ''tars'' ''a'', 0), (Traj ''tars'' ''b'', 1)],
      kr_trajectories = [Traj ''tars'' ''a'', Traj ''tars'' ''b'']\<rparr>)"
  by (simp add: reboot_run_def registry_key_def trajectory_index_def empty_registry_def
      kf_trajectory_def seq_bits_def max_robots_def push_bit_eq_mult)

lemma registry_keys_decode_witness:
  "map (\<lambda>key. registry_unkey key \<lparr>kr_index = [(Traj ''tars'' ''a'', 0), (Traj ''tars'' ''b'', 1)],
      kr_trajectories = [Traj ''tars'' ''a'', Traj ''tars'' ''b'']\<rparr>) [0, 2 ^ 48, 1]
   = map Inr reboot_run"
  by (rule registry_keys_decode [OF empty_registry_wf reboot_keys])

end
