(* ===== verification/Consistency.thy ===== *)
theory Consistency
  imports Trajectory "HOL-Library.Multiset"
begin

text \<open>
  Pairwise consistency maximisation over candidate loop closures
  (\<^verbatim>\<open>slam/swarmdeck_slam/graph.py\<close>: \<^verbatim>\<open>_canonical_pair\<close>, \<^verbatim>\<open>_orient\<close>, \<^verbatim>\<open>_loop_residual\<close>,
  \<^verbatim>\<open>_greedy_max_clique\<close>, \<^verbatim>\<open>_pcm_filter\<close>). Rigid transforms are an abstract type with the
  matrix product and inverse as arguments (NumPy), and the chi-squared gate on the composed
  loop is an argument (GTSAM's logarithm, SciPy's quantile). The clique search is a loop
  that only ends because no candidate is its own neighbour, so it returns an option.
\<close>

subsection \<open>Edges\<close>

datatype edge_kind = Odometry | Intra_Loop | Inter_Loop | Anchor_Prior

definition is_loop_closure :: "edge_kind \<Rightarrow> bool" where
  "is_loop_closure k = (k \<in> {Intra_Loop, Inter_Loop})"

record ('m, 'i) edge =
  e_kind :: edge_kind
  e_src :: kf_id
  e_dst :: kf_id
  e_t :: 'm
  e_info :: 'i

definition is_inter_robot :: "('m, 'i) edge \<Rightarrow> bool" where
  "is_inter_robot e = (kf_robot (e_src e) \<noteq> kf_robot (e_dst e))"

definition is_inter_trajectory :: "('m, 'i) edge \<Rightarrow> bool" where
  "is_inter_trajectory e = (kf_trajectory (e_src e) \<noteq> kf_trajectory (e_dst e))"

definition src_traj :: "('m, 'i) edge \<Rightarrow> trajectory" where
  "src_traj e = kf_trajectory (e_src e)"

definition dst_traj :: "('m, 'i) edge \<Rightarrow> trajectory" where
  "dst_traj e = kf_trajectory (e_dst e)"

text \<open>The unordered pair of trajectories of an edge, as the sorted tuple it is ordered by.\<close>

definition canonical_pair :: "('m, 'i) edge \<Rightarrow> trajectory list" where
  "canonical_pair e =
     (if src_traj e = dst_traj e then [src_traj e]
      else [min (src_traj e) (dst_traj e), max (src_traj e) (dst_traj e)])"

subsection \<open>The loop two closures make\<close>

definition orient :: "('m \<Rightarrow> 'm) \<Rightarrow> ('m, 'i) edge \<Rightarrow> trajectory \<Rightarrow> kf_id \<times> kf_id \<times> 'm" where
  "orient minv e t =
     (if src_traj e = t then (e_src e, e_dst e, e_t e)
      else (e_dst e, e_src e, minv (e_t e)))"

definition se3_relative :: "('m \<Rightarrow> 'm \<Rightarrow> 'm) \<Rightarrow> ('m \<Rightarrow> 'm) \<Rightarrow> 'm \<Rightarrow> 'm \<Rightarrow> 'm" where
  "se3_relative mul minv a b = mul (minv a) b"

definition loop_transform ::
  "('m \<Rightarrow> 'm \<Rightarrow> 'm) \<Rightarrow> ('m \<Rightarrow> 'm) \<Rightarrow> (kf_id \<Rightarrow> 'm) \<Rightarrow> ('m, 'i) edge \<Rightarrow> ('m, 'i) edge \<Rightarrow> 'm" where
  "loop_transform mul minv odom ei ej =
     (let ta = src_traj ei;
          (ai, bi, t_i) = orient minv ei ta;
          (aj, bj, t_j) = orient minv ej ta;
          t_ai_aj = se3_relative mul minv (odom ai) (odom aj);
          t_bj_bi = se3_relative mul minv (odom bj) (odom bi)
      in mul (mul (mul (minv t_i) t_ai_aj) t_j) t_bj_bi)"

text \<open>The consistency test: compose the loop, gate it with both information matrices.\<close>

definition closures_consistent ::
  "('m \<Rightarrow> 'm \<Rightarrow> 'm) \<Rightarrow> ('m \<Rightarrow> 'm) \<Rightarrow> ('m \<Rightarrow> 'i \<Rightarrow> 'i \<Rightarrow> bool) \<Rightarrow> (kf_id \<Rightarrow> 'm)
     \<Rightarrow> ('m, 'i) edge \<Rightarrow> ('m, 'i) edge \<Rightarrow> bool" where
  "closures_consistent mul minv gate odom ei ej =
     gate (loop_transform mul minv odom ei ej) (e_info ei) (e_info ej)"

subsection \<open>The greedy clique\<close>

partial_function (option) greedy_clique ::
  "(nat \<Rightarrow> nat list) \<Rightarrow> nat list \<Rightarrow> nat list \<Rightarrow> nat list option" where
  "greedy_clique adj remaining clique =
     (case remaining of [] \<Rightarrow> Some clique
      | r # rs \<Rightarrow>
          (let best = first_max (\<lambda>n. (length (filter (\<lambda>m. m \<in> set (adj n)) remaining), - int n)) r rs
           in greedy_clique adj (filter (\<lambda>m. m \<in> set (adj best)) remaining) (clique @ [best])))"

lemma greedy_clique_code [code]:
  "greedy_clique adj [] clique = Some clique"
  "greedy_clique adj (r # rs) clique =
     (let best = first_max (\<lambda>n. (length (filter (\<lambda>m. m \<in> set (adj n)) (r # rs)), - int n)) r rs
      in greedy_clique adj (filter (\<lambda>m. m \<in> set (adj best)) (r # rs)) (clique @ [best]))"
  by (simp_all add: greedy_clique.simps)

lemma greedy_clique_spec:
  assumes irrefl: "\<forall>n \<in> set remaining. n \<notin> set (adj n)"
  shows "\<exists>c. greedy_clique adj remaining clique = Some (clique @ c)
     \<and> set c \<subseteq> set remaining \<and> distinct c \<and> (remaining \<noteq> [] \<longrightarrow> c \<noteq> [])
     \<and> (\<forall>i j. i < j \<longrightarrow> j < length c \<longrightarrow> c ! j \<in> set (adj (c ! i)))
     \<and> (\<forall>v \<in> set remaining - set c. \<exists>b \<in> set c. v \<notin> set (adj b))"
  using irrefl
proof (induction "length remaining" arbitrary: remaining clique rule: less_induct)
  case less
  show ?case
  proof (cases remaining)
    case Nil
    then show ?thesis by (simp add: greedy_clique.simps)
  next
    case (Cons r rs)
    define best where
      "best = first_max (\<lambda>n. (length (filter (\<lambda>m. m \<in> set (adj n)) remaining), - int n)) r rs"
    define rest where "rest = filter (\<lambda>m. m \<in> set (adj best)) remaining"
    have best_in: "best \<in> set remaining"
      using first_max_in [of _ r rs] by (simp add: best_def Cons)
    have best_out: "best \<notin> set rest"
      using less.prems best_in by (simp add: rest_def)
    have "length rest < length remaining"
      unfolding rest_def using best_in less.prems
      by (intro length_filter_less [of best]) auto
    moreover have "\<forall>n \<in> set rest. n \<notin> set (adj n)"
      using less.prems by (simp add: rest_def)
    ultimately obtain c where c: "greedy_clique adj rest (clique @ [best]) = Some ((clique @ [best]) @ c)"
      "set c \<subseteq> set rest" "distinct c"
      "\<forall>i j. i < j \<longrightarrow> j < length c \<longrightarrow> c ! j \<in> set (adj (c ! i))"
      "\<forall>v \<in> set rest - set c. \<exists>b \<in> set c. v \<notin> set (adj b)"
      using less.hyps [of rest "clique @ [best]"] by blast
    have "greedy_clique adj remaining clique = Some (clique @ (best # c))"
      using c(1) by (subst greedy_clique.simps) (simp add: Cons best_def rest_def Let_def)
    moreover have "set (best # c) \<subseteq> set remaining"
      using best_in c(2) by (auto simp: rest_def)
    moreover have "distinct (best # c)" using c(2,3) best_out by auto
    moreover have "(best # c) ! j \<in> set (adj ((best # c) ! i))"
      if "i < j" "j < length (best # c)" for i j
    proof (cases i)
      case 0
      with that have "(best # c) ! j \<in> set c" by (cases j) auto
      with c(2) have "(best # c) ! j \<in> set rest" by blast
      with 0 show ?thesis by (simp add: rest_def)
    next
      case (Suc i')
      with that obtain j' where "j = Suc j'" by (cases j) auto
      with Suc that c(4) show ?thesis by auto
    qed
    moreover have "\<exists>b \<in> set (best # c). v \<notin> set (adj b)"
      if "v \<in> set remaining - set (best # c)" for v
      using that c(5) by (cases "v \<in> set (adj best)") (auto simp: rest_def)
    ultimately show ?thesis by blast
  qed
qed

subsection \<open>The consistency graph of one group\<close>

definition consistency_graph :: "('e \<Rightarrow> 'e \<Rightarrow> bool) \<Rightarrow> 'e list \<Rightarrow> nat \<Rightarrow> nat list" where
  "consistency_graph test es i = filter (\<lambda>j.
     i < j \<and> test (es ! i) (es ! j) \<or> j < i \<and> test (es ! j) (es ! i)) [0..<length es]"

lemma consistency_graph_irrefl: "i \<notin> set (consistency_graph test es i)"
  by (simp add: consistency_graph_def)

lemma consistency_graph_sym:
  "j \<in> set (consistency_graph test es i) \<Longrightarrow> i < length es \<Longrightarrow>
     i \<in> set (consistency_graph test es j)"
  by (auto simp: consistency_graph_def)

definition pcm_kept :: "('e \<Rightarrow> 'e \<Rightarrow> bool) \<Rightarrow> nat \<Rightarrow> 'e list \<Rightarrow> nat list option" where
  "pcm_kept test min_size es =
     map_option (\<lambda>kept. if length kept < min_size then [] else kept)
       (greedy_clique (consistency_graph test es) [0..<length es] [])"

lemma pcm_kept_spec:
  "\<exists>kept. pcm_kept test m es = Some kept \<and> set kept \<subseteq> {0..<length es} \<and> distinct kept
     \<and> (kept \<noteq> [] \<longrightarrow> m \<le> length kept)
     \<and> (\<forall>i \<in> set kept. \<forall>j \<in> set kept. i < j \<longrightarrow> test (es ! i) (es ! j))"
proof -
  let ?adj = "consistency_graph test es"
  have "\<forall>n \<in> set [0..<length es]. n \<notin> set (?adj n)"
    by (simp add: consistency_graph_irrefl)
  then obtain c where c: "greedy_clique ?adj [0..<length es] [] = Some c"
    "set c \<subseteq> {0..<length es}" "distinct c"
    "\<forall>i j. i < j \<longrightarrow> j < length c \<longrightarrow> c ! j \<in> set (?adj (c ! i))"
    using greedy_clique_spec [of "[0..<length es]" ?adj "[]"] by auto
  have "test (es ! i) (es ! j)" if ij: "i \<in> set c" "j \<in> set c" "i < j" for i j
  proof -
    from ij obtain a b where a: "a < length c" "c ! a = i" and b: "b < length c" "c ! b = j"
      by (metis in_set_conv_nth)
    with ij have "a \<noteq> b" by auto
    then have "j \<in> set (?adj i) \<or> i \<in> set (?adj j)"
      using c(4) a b by (metis linorder_neqE_nat)
    then show ?thesis using ij(3) by (auto simp: consistency_graph_def)
  qed
  then show ?thesis using c by (auto simp: pcm_kept_def)
qed

subsection \<open>All groups\<close>

definition group_edges :: "('m, 'i) edge list \<Rightarrow> (trajectory list, ('m, 'i) edge list) dict" where
  "group_edges es = foldl (\<lambda>d e. dput (canonical_pair e)
     (case dget d (canonical_pair e) of None \<Rightarrow> [e] | Some g \<Rightarrow> g @ [e]) d) [] es"

definition select :: "nat list \<Rightarrow> bool \<Rightarrow> 'e list \<Rightarrow> 'e list" where
  "select kept keep es = map (nth es) (filter (\<lambda>i. (i \<in> set kept) = keep) [0..<length es])"

fun pcm_groups :: "(('m, 'i) edge \<Rightarrow> ('m, 'i) edge \<Rightarrow> bool) \<Rightarrow> nat
    \<Rightarrow> ('m, 'i) edge list list \<Rightarrow> (('m, 'i) edge list \<times> ('m, 'i) edge list) option" where
  "pcm_groups test m [] = Some ([], [])"
| "pcm_groups test m (g # gs) =
     (case pcm_kept test m g of None \<Rightarrow> None | Some kept \<Rightarrow>
       (case pcm_groups test m gs of None \<Rightarrow> None
        | Some (acc, rej) \<Rightarrow> Some (select kept True g @ acc, select kept False g @ rej)))"

definition pcm_filter :: "(('m, 'i) edge \<Rightarrow> ('m, 'i) edge \<Rightarrow> bool) \<Rightarrow> nat
    \<Rightarrow> ('m, 'i) edge list \<Rightarrow> (('m, 'i) edge list \<times> ('m, 'i) edge list) option" where
  "pcm_filter test m es =
     (let d = group_edges es in
      pcm_groups test m (map (\<lambda>p. the (dget d p)) (sort (keys d))))"

lemma group_edges_dget:
  "dget (group_edges es) p =
     (let g = filter (\<lambda>e. canonical_pair e = p) es in if g = [] then None else Some g)"
proof (induction es rule: rev_induct)
  case Nil
  then show ?case by (simp add: group_edges_def)
next
  case (snoc e es)
  have "group_edges (es @ [e]) = dput (canonical_pair e)
     (case dget (group_edges es) (canonical_pair e) of None \<Rightarrow> [e] | Some g \<Rightarrow> g @ [e]) (group_edges es)"
    by (simp add: group_edges_def)
  then show ?case using snoc.IH by (auto simp: dict_simps Let_def)
qed

lemma wf_group_edges: "wf_dict (group_edges es)"
  by (induction es rule: rev_induct) (auto simp: group_edges_def)

lemma keys_group_edges:
  "set (keys (group_edges es)) = canonical_pair ` set es" "distinct (keys (group_edges es))"
proof -
  have "p \<in> set (keys (group_edges es)) \<longleftrightarrow> dget (group_edges es) p \<noteq> None" for p
    by (simp add: keys_def map_of_eq_None_iff)
  then show "set (keys (group_edges es)) = canonical_pair ` set es"
    by (fastforce simp: group_edges_dget Let_def filter_empty_conv image_iff split: if_splits)
  show "distinct (keys (group_edges es))"
    using wf_group_edges by (simp add: wf_dict_def keys_def)
qed

lemma group_lists:
  "map (\<lambda>p. the (dget (group_edges es) p)) (sort (keys (group_edges es))) =
   map (\<lambda>p. filter (\<lambda>e. canonical_pair e = p) es) (sort (keys (group_edges es)))"
proof (rule map_cong [OF refl])
  fix p assume "p \<in> set (sort (keys (group_edges es)))"
  then have "filter (\<lambda>e. canonical_pair e = p) es \<noteq> []"
    by (auto simp: keys_group_edges filter_empty_conv)
  then show "the (dget (group_edges es) p) = filter (\<lambda>e. canonical_pair e = p) es"
    by (simp add: group_edges_dget Let_def)
qed

lemma mset_split: "mset (map f (filter P xs)) + mset (map f (filter (\<lambda>x. \<not> P x) xs)) = mset (map f xs)"
  by (induction xs) auto

lemma mset_select: "mset (select kept True g) + mset (select kept False g) = mset g"
  using mset_split [of "nth g" "\<lambda>i. i \<in> set kept" "[0..<length g]"]
  by (simp add: select_def map_nth)

lemma pcm_groups_spec:
  "\<exists>acc rej. pcm_groups test m gs = Some (acc, rej)
     \<and> mset acc + mset rej = mset (concat gs)
     \<and> (\<forall>e \<in> set acc. \<exists>g \<in> set gs. \<exists>kept. pcm_kept test m g = Some kept
           \<and> e \<in> set (select kept True g) \<and> set (select kept True g) \<subseteq> set acc)"
proof (induction gs)
  case Nil
  then show ?case by simp
next
  case (Cons g gs)
  then obtain acc rej where IH: "pcm_groups test m gs = Some (acc, rej)"
    "mset acc + mset rej = mset (concat gs)"
    "\<forall>e \<in> set acc. \<exists>g \<in> set gs. \<exists>kept. pcm_kept test m g = Some kept
           \<and> e \<in> set (select kept True g) \<and> set (select kept True g) \<subseteq> set acc"
    by blast
  obtain kept where k: "pcm_kept test m g = Some kept" using pcm_kept_spec by blast
  have "mset (select kept True g @ acc) + mset (select kept False g @ rej) =
        (mset (select kept True g) + mset (select kept False g)) + (mset acc + mset rej)"
    by (simp add: ac_simps)
  also have "\<dots> = mset (concat (g # gs))" by (simp only: mset_select IH(2)) simp
  finally have parts: "mset (select kept True g @ acc) + mset (select kept False g @ rej)
      = mset (concat (g # gs))" .
  have from_group: "\<exists>g' \<in> set (g # gs). \<exists>k. pcm_kept test m g' = Some k
      \<and> e \<in> set (select k True g') \<and> set (select k True g') \<subseteq> set (select kept True g @ acc)"
    if "e \<in> set (select kept True g @ acc)" for e
  proof (cases "e \<in> set (select kept True g)")
    case True
    then show ?thesis using k by (intro bexI [of _ g] exI [of _ kept]) auto
  next
    case False
    with that have "e \<in> set acc" by simp
    with IH(3) obtain h kept' where "h \<in> set gs" "pcm_kept test m h = Some kept'"
      "e \<in> set (select kept' True h)" "set (select kept' True h) \<subseteq> set acc" by blast
    then show ?thesis by (intro bexI [of _ h] exI [of _ kept']) auto
  qed
  have result: "pcm_groups test m (g # gs) =
      Some (select kept True g @ acc, select kept False g @ rej)"
    by (simp add: k IH(1))
  show ?case
  proof (intro exI conjI ballI)
    show "pcm_groups test m (g # gs) = Some (select kept True g @ acc, select kept False g @ rej)"
      by (rule result)
    show "mset (select kept True g @ acc) + mset (select kept False g @ rej) = mset (concat (g # gs))"
      by (rule parts)
  next
    fix e assume "e \<in> set (select kept True g @ acc)"
    then show "\<exists>g' \<in> set (g # gs). \<exists>k. pcm_kept test m g' = Some k
      \<and> e \<in> set (select k True g') \<and> set (select k True g') \<subseteq> set (select kept True g @ acc)"
      by (rule from_group)
  qed
qed

lemma mset_grouped:
  "distinct ps \<Longrightarrow> mset (concat (map (\<lambda>p. filter (\<lambda>e. f e = p) es) ps)) =
     filter_mset (\<lambda>e. f e \<in> set ps) (mset es)"
proof (induction ps)
  case Nil
  then show ?case by simp
next
  case (Cons p ps)
  then show ?case by (auto intro!: multiset_eqI)
qed

lemma mset_groups:
  "mset (concat (map (\<lambda>p. filter (\<lambda>e. canonical_pair e = p) es) (sort (keys (group_edges es)))))
   = mset es"
proof -
  have "filter_mset (\<lambda>e. canonical_pair e \<in> set (sort (keys (group_edges es)))) (mset es) = mset es"
    by (simp add: keys_group_edges flip: mset_filter)
  then show ?thesis using keys_group_edges(2) by (subst mset_grouped) auto
qed

lemma pcm_filter_total: "\<exists>acc rej. pcm_filter test m es = Some (acc, rej) \<and> mset acc + mset rej = mset es"
  using pcm_groups_spec [of test m "map (\<lambda>p. filter (\<lambda>e. canonical_pair e = p) es)
      (sort (keys (group_edges es)))"]
  unfolding pcm_filter_def Let_def group_lists mset_groups by blast

text \<open>the filter always returns (the clique search ends, as no closure neighbours itself),
  and every candidate closure comes out exactly once, accepted or rejected.\<close>

lemma pcm_filter_partition:
  "\<exists>acc rej. pcm_filter test m es = Some (acc, rej) \<and> mset acc + mset rej = mset es"
  by (rule pcm_filter_total)

text \<open>A closure is accepted only as one of at least \<open>m\<close> accepted closures over the same two trajectories, any two of
  which are consistent. Closures are counted by their positions: two that are alike are still two.\<close>

definition corroborated :: "('e \<Rightarrow> 'e \<Rightarrow> bool) \<Rightarrow> ('e \<Rightarrow> 'p) \<Rightarrow> nat \<Rightarrow> 'e list \<Rightarrow> 'e \<Rightarrow> bool" where
  "corroborated test pair m acc e \<longleftrightarrow> (\<exists>S \<in> Pow {..<length acc}. e \<in> (nth acc) ` S \<and> m \<le> card S
     \<and> (\<forall>i \<in> S. pair (acc ! i) = pair e) \<and> (\<forall>i \<in> S. \<forall>j \<in> S. i < j \<longrightarrow> test (acc ! i) (acc ! j)))"

lemma pcm_groups_blocks:
  assumes "pcm_groups test m gs = Some (acc, rej)" and "e \<in> set acc"
  shows "\<exists>g \<in> set gs. \<exists>kept pre post. pcm_kept test m g = Some kept \<and> e \<in> set (select kept True g)
    \<and> acc = pre @ select kept True g @ post"
  using assms
proof (induction gs arbitrary: acc rej)
  case (Cons g gs)
  obtain kept acc1 rej1 where k: "pcm_kept test m g = Some kept" "pcm_groups test m gs = Some (acc1, rej1)"
    "acc = select kept True g @ acc1" using Cons.prems(1) by (auto split: option.splits)
  show ?case
  proof (cases "e \<in> set (select kept True g)")
    case True
    then show ?thesis using k by (intro bexI [of _ g] exI [of _ kept] exI [of _ "[]"] exI [of _ acc1]) simp_all
  next
    case False
    then have "e \<in> set acc1" using Cons.prems(2) k(3) by simp
    then obtain h kept1 pre post where "h \<in> set gs" "pcm_kept test m h = Some kept1" "e \<in> set (select kept1 True h)"
      "acc1 = pre @ select kept1 True h @ post" using Cons.IH [OF k(2)] by blast
    then show ?thesis using k(3)
      by (intro bexI [of _ h] exI [of _ kept1] exI [of _ "select kept True g @ pre"] exI [of _ post]) simp_all
  qed
qed simp

lemma select_kept:
  assumes "set kept \<subseteq> {0..<length g}" and "distinct kept"
    and "\<forall>i \<in> set kept. \<forall>j \<in> set kept. i < j \<longrightarrow> test (g ! i) (g ! j)"
  shows "length (select kept True g) = length kept"
    and "a < b \<Longrightarrow> b < length (select kept True g) \<Longrightarrow> test (select kept True g ! a) (select kept True g ! b)"
proof -
  let ?is = "filter (\<lambda>i. i \<in> set kept) [0..<length g]"
  have sel: "select kept True g = map (nth g) ?is" by (simp add: select_def)
  have "set ?is = set kept" using assms(1) by auto
  then have "card (set ?is) = card (set kept)" by simp
  then show "length (select kept True g) = length kept"
    using distinct_card [of ?is] distinct_card [OF assms(2)] by (simp add: sel)
  assume ab: "a < b" "b < length (select kept True g)"
  have "sorted_wrt (<) ?is" by (intro sorted_wrt_filter) simp
  then have "?is ! a < ?is ! b" using ab by (intro sorted_wrt_nth_less) (simp_all add: sel)
  moreover have "?is ! a \<in> set ?is" "?is ! b \<in> set ?is" using ab by (auto simp only: sel length_map intro!: nth_mem)
  ultimately show "test (select kept True g ! a) (select kept True g ! b)"
    using assms(3) ab by (simp add: sel)
qed

lemma pcm_accepts_corroborated:
  assumes "pcm_filter test m es = Some (acc, rej)" and "e \<in> set acc"
  shows "corroborated test canonical_pair m acc e"
proof -
  let ?groups = "map (\<lambda>p. filter (\<lambda>e. canonical_pair e = p) es) (sort (keys (group_edges es)))"
  from assms(1) have "pcm_groups test m ?groups = Some (acc, rej)"
    unfolding pcm_filter_def Let_def group_lists .
  from pcm_groups_blocks [OF this assms(2)] obtain g kept pre post where g: "g \<in> set ?groups"
    and k: "pcm_kept test m g = Some kept" and e: "e \<in> set (select kept True g)"
    and acc: "acc = pre @ select kept True g @ post" by blast
  from g obtain p where p: "g = filter (\<lambda>e. canonical_pair e = p) es" by auto
  have kept: "set kept \<subseteq> {0..<length g}" "distinct kept" "kept \<noteq> [] \<longrightarrow> m \<le> length kept"
    "\<forall>i \<in> set kept. \<forall>j \<in> set kept. i < j \<longrightarrow> test (g ! i) (g ! j)"
    using pcm_kept_spec [of test m g] k by auto
  note sel = select_kept [OF kept(1,2,4)]
  define b where "b = select kept True g"
  let ?S = "(\<lambda>i. length pre + i) ` {..<length b}"
  have at_block: "acc ! (length pre + i) = b ! i" if "i < length b" for i using that by (simp add: acc b_def nth_append)
  have pair: "canonical_pair x = p" if "x \<in> set b" for x
    using that kept(1) unfolding b_def select_def p by (auto dest: nth_mem)
  have "e \<in> set b" using e by (simp add: b_def)
  then obtain n where n: "n < length b" "b ! n = e" by (auto simp: in_set_conv_nth)
  have "kept \<noteq> []" using e by (auto simp: select_def)
  then have "m \<le> card ?S" using kept(3) sel(1) by (simp add: card_image b_def)
  moreover have "e \<in> (nth acc) ` ?S" unfolding image_image
    using n(1) at_block [OF n(1)] n(2) [symmetric] by (intro image_eqI [of _ _ n]) simp_all
  moreover have "?S \<in> Pow {..<length acc}" by (auto simp: acc b_def)
  moreover have "canonical_pair (acc ! i) = canonical_pair e" if "i \<in> ?S" for i
  proof -
    from that obtain a where "i = length pre + a" "a \<in> {..<length b}" by (rule imageE)
    then have a: "a < length b" "i = length pre + a" by simp_all
    then show ?thesis using at_block [OF a(1)] pair [OF nth_mem [OF a(1)]] pair [OF \<open>e \<in> set b\<close>] by simp
  qed
  moreover have "test (acc ! i) (acc ! j)" if ij: "i \<in> ?S" "j \<in> ?S" "i < j" for i j
  proof -
    from ij(1) obtain a where "i = length pre + a" "a \<in> {..<length b}" by (rule imageE)
    then have a: "a < length b" "i = length pre + a" by simp_all
    from ij(2) obtain c where "j = length pre + c" "c \<in> {..<length b}" by (rule imageE)
    then have c: "c < length b" "j = length pre + c" by simp_all
    have "test (b ! a) (b ! c)" using sel(2) [of a c] a(2) c ij(3) unfolding b_def by simp
    then show ?thesis using at_block [OF a(1)] at_block [OF c(1)] a(2) c(2) by simp
  qed
  ultimately show ?thesis unfolding corroborated_def by (intro bexI [of _ ?S] conjI ballI impI)
qed

definition closure_ab :: "int \<Rightarrow> int \<Rightarrow> (int, unit) edge" where
  "closure_ab n t = \<lparr>e_kind = Inter_Loop, e_src = Kf ''a'' n [], e_dst = Kf ''b'' n [],
     e_t = t, e_info = ()\<rparr>"

definition agree :: "(int, unit) edge \<Rightarrow> (int, unit) edge \<Rightarrow> bool" where
  "agree = closures_consistent (+) uminus (\<lambda>loop _ _. loop = 0) kf_seq"

lemma pcm_example:
  "pcm_filter agree 2 [closure_ab 0 5, closure_ab 3 5, closure_ab 1 9]
   = Some ([closure_ab 0 5, closure_ab 3 5], [closure_ab 1 9])"
  by code_simp

end
