(* ===== verification/Components.thy ===== *)
theory Components
  imports Consistency "HOL-Library.Option_ord"
begin

text \<open>
  Which trajectories share a frame (\<^verbatim>\<open>slam/swarmdeck_slam/graph.py\<close>: \<^verbatim>\<open>_components\<close>): the
  union-find with path halving, the numbered components with their anchors, the frame
  each robot is published in (\<^verbatim>\<open>_current_t_world_map\<close>), and the front half of
  \<^verbatim>\<open>optimize\<close> that decides them. The find loop has no bound of its own, so it returns an
  option; its invariant makes it return.
\<close>

subsection \<open>Union-find\<close>

partial_function (option) uf_find :: "('a \<Rightarrow> 'a) \<Rightarrow> 'a \<Rightarrow> (('a \<Rightarrow> 'a) \<times> 'a) option" where
  "uf_find parent t =
     (if parent t = t then Some (parent, t)
      else let parent' = parent(t := parent (parent t)) in uf_find parent' (parent' t))"

declare uf_find.simps [code]

fun uf_unions :: "('a::linorder \<times> 'a) list \<Rightarrow> ('a \<Rightarrow> 'a) \<Rightarrow> ('a \<Rightarrow> 'a) option" where
  "uf_unions [] parent = Some parent"
| "uf_unions ((a, b) # es) parent =
     (case uf_find parent a of None \<Rightarrow> None | Some (p1, ra) \<Rightarrow>
       (case uf_find p1 b of None \<Rightarrow> None | Some (p2, rb) \<Rightarrow>
          uf_unions es (if ra \<noteq> rb then p2(max ra rb := min ra rb) else p2)))"

fun uf_group :: "'a list \<Rightarrow> ('a \<Rightarrow> 'a) \<Rightarrow> ('a, 'a list) dict \<Rightarrow> ('a, 'a list) dict option" where
  "uf_group [] parent d = Some d"
| "uf_group (t # ts) parent d =
     (case uf_find parent t of None \<Rightarrow> None | Some (p, r) \<Rightarrow>
        uf_group ts p (dput r ((case dget d r of None \<Rightarrow> [] | Some g \<Rightarrow> g) @ [t]) d))"

text \<open>What the parent map means: a labelling that gives every node the root of its tree. The
  parents decrease inside a finite set, which is what ends the find loop.\<close>

definition uf_inv :: "'a::linorder set \<Rightarrow> ('a \<Rightarrow> 'a) \<Rightarrow> ('a \<Rightarrow> 'a) \<Rightarrow> bool" where
  "uf_inv T parent rep \<longleftrightarrow>
     finite T
     \<and> (\<forall>t \<in> T. parent t \<in> T \<and> parent t \<le> t \<and> rep t \<in> T \<and> rep t \<le> t)
     \<and> (\<forall>t. rep (parent t) = rep t)
     \<and> (\<forall>t. parent t = t \<longrightarrow> rep t = t)"

lemma uf_invD:
  assumes "uf_inv T p rep"
  shows "t \<in> T \<Longrightarrow> p t \<in> T" "t \<in> T \<Longrightarrow> p t \<le> t" "t \<in> T \<Longrightarrow> rep t \<in> T" "t \<in> T \<Longrightarrow> rep t \<le> t"
    and "rep (p t) = rep t" and "p t = t \<Longrightarrow> rep t = t" and "finite T"
  using assms by (auto simp: uf_inv_def)

lemma uf_inv_id: "finite T \<Longrightarrow> uf_inv T (\<lambda>t. t) (\<lambda>t. t)"
  by (simp add: uf_inv_def)

lemma uf_halve:
  assumes "uf_inv T parent rep" and "t \<in> T" and "parent t \<noteq> t"
  shows "uf_inv T (parent(t := parent (parent t))) rep"
proof -
  have p: "\<And>s. s \<in> T \<Longrightarrow> parent s \<in> T \<and> parent s \<le> s \<and> rep s \<in> T \<and> rep s \<le> s"
    and r: "\<And>s. rep (parent s) = rep s" "\<And>s. parent s = s \<Longrightarrow> rep s = s" and fin: "finite T"
    using assms(1) by (auto simp: uf_inv_def)
  have le: "parent (parent t) \<in> T" "parent (parent t) \<le> parent t" "parent t \<le> t"
    using p assms(2) by blast+
  then have "parent (parent t) \<noteq> t" using assms(3) by auto
  note ne = this
  let ?p = "parent(t := parent (parent t))"
  have "?p s \<in> T \<and> ?p s \<le> s \<and> rep s \<in> T \<and> rep s \<le> s" if "s \<in> T" for s
    using p [OF that] le order_trans [OF le(2,3)] by (cases "s = t") simp_all
  then have A: "\<forall>s \<in> T. ?p s \<in> T \<and> ?p s \<le> s \<and> rep s \<in> T \<and> rep s \<le> s" by (rule ballI)
  have "rep (?p s) = rep s" for s
    using r(1) by (cases "s = t") simp_all
  then have B: "\<forall>s. rep (?p s) = rep s" by (rule allI)
  have "?p s = s \<longrightarrow> rep s = s" for s
    using ne r(2) by (cases "s = t") simp_all
  then have C: "\<forall>s. ?p s = s \<longrightarrow> rep s = s" by (rule allI)
  show ?thesis unfolding uf_inv_def by (intro conjI fin A B C)
qed

lemma uf_find_spec:
  assumes "uf_inv T parent rep" and "t \<in> T"
  shows "\<exists>p. uf_find parent t = Some (p, rep t) \<and> uf_inv T p rep \<and> p (rep t) = rep t"
  using assms
proof (induction "card {s \<in> T. s < t}" arbitrary: parent t rule: less_induct)
  case less
  show ?case
  proof (cases "parent t = t")
    case True
    with less.prems have "rep t = t" by (simp add: uf_inv_def)
    with True less.prems show ?thesis by (simp add: uf_find.simps)
  next
    case False
    let ?p = "parent(t := parent (parent t))"
    let ?u = "parent (parent t)"
    have inv: "uf_inv T ?p rep" by (rule uf_halve [OF less.prems False])
    have u: "?u \<in> T" "?u < t" "rep ?u = rep t"
    proof -
      note d = uf_invD [OF less.prems(1)]
      have pt: "parent t \<in> T" "parent t < t"
        using d(1,2) [OF less.prems(2)] False by (auto simp: order.strict_iff_order)
      show "?u \<in> T" by (rule d(1) [OF pt(1)])
      show "?u < t" using d(2) [OF pt(1)] pt(2) by simp
      show "rep ?u = rep t" by (simp only: d(5))
    qed
    have fin: "finite {s \<in> T. s < t}" using less.prems by (simp add: uf_inv_def)
    have "{s \<in> T. s < ?u} \<subset> {s \<in> T. s < t}" using u by auto
    then have "card {s \<in> T. s < ?u} < card {s \<in> T. s < t}"
      using fin by (rule psubset_card_mono [rotated])
    from less.hyps [OF this inv u(1)] u(3) False show ?thesis
      by (subst uf_find.simps) (simp add: Let_def)
  qed
qed

definition merge_rep :: "'a \<Rightarrow> 'a \<Rightarrow> ('a \<Rightarrow> 'a) \<Rightarrow> 'a::linorder \<Rightarrow> 'a" where
  "merge_rep ra rb rep t = (if ra \<noteq> rb \<and> rep t = max ra rb then min ra rb else rep t)"

lemma uf_inv_merge:
  assumes inv: "uf_inv T p rep" and r: "ra \<in> T" "rb \<in> T" "p ra = ra" "p rb = rb"
  shows "uf_inv T (if ra \<noteq> rb then p(max ra rb := min ra rb) else p) (merge_rep ra rb rep)"
proof (cases "ra = rb")
  case True
  then have "merge_rep ra rb rep = rep" by (auto simp: merge_rep_def)
  with True inv show ?thesis by simp
next
  case False
  define hi lo where "hi = max ra rb" and "lo = min ra rb"
  have hl: "lo < hi" "hi \<in> T" "lo \<in> T" "p hi = hi" "p lo = lo" "rep hi = hi" "rep lo = lo"
    using False r inv unfolding hi_def lo_def uf_inv_def by (auto simp: max_def min_def)
  have "uf_inv T (p(hi := lo)) (\<lambda>t. if rep t = hi then lo else rep t)"
    using inv hl unfolding uf_inv_def by (auto; metis less_imp_le order_trans)
  moreover have "merge_rep ra rb rep = (\<lambda>t. if rep t = hi then lo else rep t)"
    using False by (auto simp: merge_rep_def hi_def lo_def)
  ultimately show ?thesis using False by (simp add: hi_def lo_def)
qed

text \<open>The reference: two nodes belong together when a chain of edges joins them.\<close>

definition joined :: "('a \<times> 'a) list \<Rightarrow> 'a \<Rightarrow> 'a \<Rightarrow> bool" where
  "joined es = equivclp (\<lambda>x y. (x, y) \<in> set es)"

lemma joined_refl [simp]: "joined es x x"
  by (simp add: joined_def equivclp_def)

lemma joined_sym: "joined es x y \<Longrightarrow> joined es y x"
  unfolding joined_def by (rule equivclp_sym)

lemma joined_trans: "joined es x y \<Longrightarrow> joined es y z \<Longrightarrow> joined es x z"
  unfolding joined_def by (rule equivclp_trans)

lemma joined_edge: "(x, y) \<in> set es \<Longrightarrow> joined es x y"
  unfolding joined_def by (rule r_into_equivclp)

lemma joined_rep:
  assumes "joined es x y" and "\<And>a b. (a, b) \<in> set es \<Longrightarrow> f a = f b"
  shows "f x = f y"
  using assms(1) unfolding joined_def
  by (induction rule: equivclp_induct) (auto dest: assms(2))

lemma uf_unions_spec:
  assumes "uf_inv T p rep" and "set es \<subseteq> T \<times> T" and "\<forall>t. joined all t (rep t)"
    and "set es \<subseteq> set all"
  shows "\<exists>p' rep'. uf_unions es p = Some p' \<and> uf_inv T p' rep'
     \<and> (\<forall>t. joined all t (rep' t))
     \<and> (\<forall>x y. rep x = rep y \<longrightarrow> rep' x = rep' y)
     \<and> (\<forall>(a, b) \<in> set es. rep' a = rep' b)"
  using assms
proof (induction es arbitrary: p rep)
  case Nil
  then show ?case by auto
next
  case (Cons e es)
  obtain a b where e: "e = (a, b)" by (cases e)
  from Cons.prems(2) e have ab: "a \<in> T" "b \<in> T" by auto
  obtain p1 where p1: "uf_find p a = Some (p1, rep a)" "uf_inv T p1 rep" "p1 (rep a) = rep a"
    using uf_find_spec [OF Cons.prems(1) ab(1)] by blast
  obtain p2 where p2: "uf_find p1 b = Some (p2, rep b)" "uf_inv T p2 rep" "p2 (rep b) = rep b"
    using uf_find_spec [OF p1(2) ab(2)] by blast
  let ?rep = "merge_rep (rep a) (rep b) rep"
  have roots: "rep a \<in> T" "rep b \<in> T" "rep (rep a) = rep a"
    using uf_invD(3) [OF p2(2)] ab uf_invD(6) [OF p1(2,3)] by auto
  have "p2 (rep a) = rep a"
  proof -
    have "p2 (rep a) \<le> rep a" "rep (p2 (rep a)) = rep a" "rep (p2 (rep a)) \<le> p2 (rep a)"
      using uf_invD(1-6) [OF p2(2), of "rep a"] uf_invD(4) [OF p2(2), of "p2 (rep a)"] roots by auto
    then show ?thesis by simp
  qed
  define pm where "pm = (if rep a \<noteq> rep b then p2(max (rep a) (rep b) := min (rep a) (rep b)) else p2)"
  from \<open>p2 (rep a) = rep a\<close> have inv: "uf_inv T pm ?rep"
    unfolding pm_def
    by (rule uf_inv_merge [OF p2(2) roots(1,2) _ p2(3)])
  have ab_joined: "joined all (rep a) (rep b)"
    using Cons.prems(3,4) e by (meson joined_edge joined_sym joined_trans list.set_intros(1) subsetD)
  have j: "\<forall>t. joined all t (?rep t)"
  proof
    fix t
    have "joined all (rep t) (?rep t)"
      using ab_joined joined_sym [OF ab_joined] by (auto simp: merge_rep_def max_def min_def)
    with Cons.prems(3) show "joined all t (?rep t)" by (blast intro: joined_trans)
  qed
  have sub: "set es \<subseteq> T \<times> T" "set es \<subseteq> set all" using Cons.prems(2,4) by auto
  obtain p' rep' where IH: "uf_unions es pm = Some p'"
    "uf_inv T p' rep'" "\<forall>t. joined all t (rep' t)" "\<forall>x y. ?rep x = ?rep y \<longrightarrow> rep' x = rep' y"
    "\<forall>(a, b) \<in> set es. rep' a = rep' b"
    using Cons.IH [OF inv sub(1) j sub(2)] by blast
  have "?rep a = ?rep b" by (auto simp: merge_rep_def max_def min_def)
  with IH(4) have "rep' a = rep' b" by blast
  moreover have "\<forall>x y. rep x = rep y \<longrightarrow> rep' x = rep' y"
  proof (intro allI impI)
    fix x y assume "rep x = rep y"
    then have "?rep x = ?rep y" by (simp add: merge_rep_def)
    with IH(4) show "rep' x = rep' y" by blast
  qed
  moreover have "uf_unions (e # es) p = Some p'" using p1(1) p2(1) IH(1) by (simp add: e pm_def)
  moreover have "\<forall>(a, b) \<in> set (e # es). rep' a = rep' b"
    using IH(5) \<open>rep' a = rep' b\<close> by (simp add: e)
  ultimately show ?case using IH(2,3) by (intro exI conjI)
qed

lemma uf_group_spec:
  assumes "uf_inv T p rep" and "set ts \<subseteq> T"
  shows "\<exists>d'. uf_group ts p d = Some d' \<and>
     (\<forall>r. dget d' r = (let g = filter (\<lambda>t. rep t = r) ts in
        if g = [] then dget d r else Some ((case dget d r of None \<Rightarrow> [] | Some g0 \<Rightarrow> g0) @ g)))
     \<and> (wf_dict d \<longrightarrow> wf_dict d')"
  using assms
proof (induction ts arbitrary: p d)
  case Nil
  then show ?case by simp
next
  case (Cons t ts)
  then obtain p1 where f: "uf_find p t = Some (p1, rep t)" "uf_inv T p1 rep"
    using uf_find_spec [OF Cons.prems(1), of t] by auto
  let ?d = "dput (rep t) ((case dget d (rep t) of None \<Rightarrow> [] | Some g \<Rightarrow> g) @ [t]) d"
  obtain d' where d': "uf_group ts p1 ?d = Some d'"
    "\<forall>r. dget d' r = (let g = filter (\<lambda>t. rep t = r) ts in
        if g = [] then dget ?d r else Some ((case dget ?d r of None \<Rightarrow> [] | Some g0 \<Rightarrow> g0) @ g))"
    "wf_dict ?d \<longrightarrow> wf_dict d'"
    using Cons.IH [OF f(2), of ?d] Cons.prems(2) by auto
  have "dget d' r = (let g = filter (\<lambda>t. rep t = r) (t # ts) in
        if g = [] then dget d r else Some ((case dget d r of None \<Rightarrow> [] | Some g0 \<Rightarrow> g0) @ g))" for r
    using spec [OF d'(2), of r] by (cases "rep t = r") (auto simp: dict_simps Let_def)
  with d' f show ?case by (intro exI [of _ d']) simp
qed

subsection \<open>Components\<close>

record component =
  c_id :: nat
  c_robots :: "string list"
  c_anchor :: kf_id
  c_trajectories :: "trajectory list"

definition trajectories_of :: "kf_id list \<Rightarrow> trajectory list" where
  "trajectories_of kfs = sort (remdups (map kf_trajectory kfs))"

definition min_of :: "'a::linorder list \<Rightarrow> 'a" where
  "min_of xs = foldl min (hd xs) (tl xs)"

definition make_component ::
  "string option \<Rightarrow> kf_id list \<Rightarrow> nat \<Rightarrow> trajectory list \<Rightarrow> component" where
  "make_component preferred kfs cid members =
     (let pref = filter (\<lambda>t. Some (robot_of t) = preferred) members;
          anchor = min_of (if pref \<noteq> [] then pref else members);
          seq = min_of (map kf_seq (filter (\<lambda>k. kf_trajectory k = anchor) kfs))
      in \<lparr>c_id = cid, c_robots = remdups (map robot_of members),
          c_anchor = Kf (robot_of anchor) seq (session_of anchor),
          c_trajectories = members\<rparr>)"

definition components ::
  "string option \<Rightarrow> kf_id list \<Rightarrow> ('m, 'i) edge list \<Rightarrow> component list option" where
  "components preferred kfs accepted =
     (let ts = trajectories_of kfs in
      case uf_unions (map (\<lambda>e. (src_traj e, dst_traj e)) accepted) (\<lambda>t. t) of
        None \<Rightarrow> None
      | Some parent \<Rightarrow>
          (case uf_group ts parent [] of None \<Rightarrow> None
           | Some groups \<Rightarrow> Some (map (\<lambda>(i, r). make_component preferred kfs i (the (dget groups r)))
               (enumerate 0 (sort (keys groups))))))"

lemma min_of_in: "xs \<noteq> [] \<Longrightarrow> min_of xs \<in> set xs"
proof -
  have "foldl min a ys \<in> insert a (set ys)" for a :: 'a and ys
    by (induction ys arbitrary: a) (auto simp: min_def)
  then show "xs \<noteq> [] \<Longrightarrow> min_of xs \<in> set xs" by (cases xs) (auto simp: min_of_def)
qed

lemma min_of_le: "x \<in> set xs \<Longrightarrow> min_of xs \<le> x"
proof -
  have "foldl min a ys \<le> a \<and> (\<forall>y \<in> set ys. foldl min a ys \<le> y)" for a :: 'a and ys
    by (induction ys arbitrary: a) (auto, (meson min.boundedE)+)
  then show "x \<in> set xs \<Longrightarrow> min_of xs \<le> x" by (cases xs) (auto simp: min_of_def)
qed

definition closure_pairs :: "('m, 'i) edge list \<Rightarrow> (trajectory \<times> trajectory) list" where
  "closure_pairs es = map (\<lambda>e. (src_traj e, dst_traj e)) es"

definition in_component :: "trajectory \<Rightarrow> component \<Rightarrow> bool" where
  "in_component t c = (t \<in> set (c_trajectories c))"

lemma set_trajectories_of [simp]: "set (trajectories_of kfs) = kf_trajectory ` set kfs"
  by (auto simp: trajectories_of_def)

lemma components_by_label:
  assumes "\<forall>e \<in> set es. src_traj e \<in> set (trajectories_of kfs) \<and> dst_traj e \<in> set (trajectories_of kfs)"
  shows "\<exists>(rep :: trajectory \<Rightarrow> trajectory) rs. components pref kfs es = Some (map (\<lambda>(i, r).
            make_component pref kfs i (filter (\<lambda>t. rep t = r) (trajectories_of kfs))) (enumerate 0 rs))
       \<and> distinct rs \<and> set rs = rep ` set (trajectories_of kfs)
       \<and> (\<forall>x \<in> set (trajectories_of kfs). \<forall>y \<in> set (trajectories_of kfs).
            rep x = rep y \<longleftrightarrow> joined (closure_pairs es) x y)"
proof -
  define ts where "ts = trajectories_of kfs"
  have sub: "set (closure_pairs es) \<subseteq> set ts \<times> set ts"
    using assms by (auto simp: closure_pairs_def ts_def)
  obtain p rep where p: "uf_unions (closure_pairs es) (\<lambda>t. t) = Some p" "uf_inv (set ts) p rep"
    "\<forall>t. joined (closure_pairs es) t (rep t)" "\<forall>(a, b) \<in> set (closure_pairs es). rep a = rep b"
    using uf_unions_spec [OF uf_inv_id sub, of "closure_pairs es"] by auto
  obtain d where d: "uf_group ts p [] = Some d"
    "\<forall>r. dget d r = (let g = filter (\<lambda>t. rep t = r) ts in if g = [] then None else Some g)"
    "wf_dict d"
    using uf_group_spec [OF p(2), of ts "[]"] by (auto simp: Let_def)
  have keys_d: "set (keys d) = rep ` set ts"
  proof -
    have "r \<in> set (keys d) \<longleftrightarrow> dget d r \<noteq> None" for r
      by (simp add: keys_def map_of_eq_None_iff)
    then have "r \<in> set (keys d) \<longleftrightarrow> (\<exists>t \<in> set ts. rep t = r)" for r
      using spec [OF d(2), of r] by (simp add: Let_def filter_empty_conv)
    then show ?thesis by auto
  qed
  have lookup: "the (dget d r) = filter (\<lambda>t. rep t = r) ts" if "r \<in> set (keys d)" for r
    using that d(2) unfolding keys_d by (auto simp: Let_def filter_empty_conv)
  have "components pref kfs es = Some (map (\<lambda>(i, r). make_component pref kfs i (the (dget d r)))
      (enumerate 0 (sort (keys d))))"
    using p(1) d(1) by (simp add: components_def closure_pairs_def ts_def)
  also have "map (\<lambda>(i, r). make_component pref kfs i (the (dget d r))) (enumerate 0 (sort (keys d)))
      = map (\<lambda>(i, r). make_component pref kfs i (filter (\<lambda>t. rep t = r) ts)) (enumerate 0 (sort (keys d)))"
    by (rule map_cong) (auto simp: lookup in_set_enumerate_eq, metis lookup nth_mem set_sort length_sort)
  finally have comps: "components pref kfs es = Some (map (\<lambda>(i, r).
      make_component pref kfs i (filter (\<lambda>t. rep t = r) ts)) (enumerate 0 (sort (keys d))))" .
  have "rep x = rep y \<longleftrightarrow> joined (closure_pairs es) x y" for x y
  proof
    assume "rep x = rep y"
    with p(3) show "joined (closure_pairs es) x y" by (metis joined_sym joined_trans)
  next
    assume "joined (closure_pairs es) x y"
    then show "rep x = rep y" by (rule joined_rep) (use p(4) in auto)
  qed
  moreover have "distinct (sort (keys d))" using d(3) by (simp add: wf_dict_def keys_def)
  ultimately show ?thesis using comps keys_d unfolding ts_def
    by (intro exI [of _ rep] exI [of _ "sort (keys d)"] conjI ballI) simp_all
qed

lemma components_members:
  assumes cs: "components pref kfs es = Some cs"
    and ends: "\<forall>e \<in> set es. src_traj e \<in> set (trajectories_of kfs) \<and> dst_traj e \<in> set (trajectories_of kfs)"
  obtains rep :: "trajectory \<Rightarrow> trajectory" and rs where
    "\<And>c. c \<in> set cs \<longleftrightarrow> (\<exists>i < length rs. c = make_component pref kfs i
        (filter (\<lambda>t. rep t = rs ! i) (trajectories_of kfs)))"
    "distinct rs" "set rs = rep ` set (trajectories_of kfs)"
    "\<And>x y. x \<in> set (trajectories_of kfs) \<Longrightarrow> y \<in> set (trajectories_of kfs) \<Longrightarrow>
        rep x = rep y \<longleftrightarrow> joined (closure_pairs es) x y"
proof -
  obtain rep :: "trajectory \<Rightarrow> trajectory" and rs where l: "cs = map (\<lambda>(i, r). make_component pref kfs i
      (filter (\<lambda>t. rep t = r) (trajectories_of kfs))) (enumerate 0 rs)"
    and r: "distinct rs" "set rs = rep ` set (trajectories_of kfs)"
      "\<forall>x \<in> set (trajectories_of kfs). \<forall>y \<in> set (trajectories_of kfs).
            rep x = rep y \<longleftrightarrow> joined (closure_pairs es) x y"
    using components_by_label [OF ends, of pref] cs by auto
  have "c \<in> set cs \<longleftrightarrow> (\<exists>i < length rs. c = make_component pref kfs i
        (filter (\<lambda>t. rep t = rs ! i) (trajectories_of kfs)))" for c
    by (auto simp: l in_set_enumerate_eq image_iff Bex_def)
  then show thesis using r by (intro that [of rs rep]) auto
qed

lemma c_trajectories_make [simp]: "c_trajectories (make_component pref kfs i ms) = ms"
  by (simp add: make_component_def Let_def)

text \<open>C33: two trajectories are placed in one component exactly when a chain of accepted
  closures joins them. Sharing a robot id joins nothing: the two runs of a rebooted robot
  stay apart until accepted closures tie them together.\<close>

theorem components_iff_joined:
  assumes "components pref kfs es = Some cs"
    and "\<forall>e \<in> set es. src_traj e \<in> set (trajectories_of kfs) \<and> dst_traj e \<in> set (trajectories_of kfs)"
    and "x \<in> set (trajectories_of kfs)" and "y \<in> set (trajectories_of kfs)"
  shows "(\<exists>c \<in> set cs. in_component x c \<and> in_component y c) \<longleftrightarrow> joined (closure_pairs es) x y"
proof -
  obtain rep :: "trajectory \<Rightarrow> trajectory" and rs where m: "\<And>c. c \<in> set cs \<longleftrightarrow> (\<exists>i < length rs. c = make_component pref kfs i
        (filter (\<lambda>t. rep t = rs ! i) (trajectories_of kfs)))"
    "set rs = rep ` set (trajectories_of kfs)"
    "rep x = rep y \<longleftrightarrow> joined (closure_pairs es) x y"
    using components_members [OF assms(1,2)] assms(3,4) by metis
  have "rep x \<in> set rs" using m(2) assms(3) by auto
  then obtain i where i: "i < length rs" "rs ! i = rep x" by (auto simp: in_set_conv_nth)
  define ms where "ms = filter (\<lambda>t. rep t = rs ! i) (trajectories_of kfs)"
  show ?thesis
  proof
    assume "\<exists>c \<in> set cs. in_component x c \<and> in_component y c"
    then have "rep x = rep y" using m(1) by (auto simp: in_component_def)
    with m(3) show "joined (closure_pairs es) x y" by simp
  next
    assume "joined (closure_pairs es) x y"
    with m(3) i assms(3,4) have "x \<in> set ms" "y \<in> set ms" by (auto simp: ms_def)
    moreover have "make_component pref kfs i ms \<in> set cs" using m(1) i(1) by (auto simp: ms_def)
    ultimately show "\<exists>c \<in> set cs. in_component x c \<and> in_component y c"
      by (intro bexI [of _ "make_component pref kfs i ms"]) (simp_all add: in_component_def)
  qed
qed

definition reboot_kfs :: "kf_id list" where
  "reboot_kfs = [Kf ''a'' 0 ''x'', Kf ''a'' 0 ''y'', Kf ''b'' 0 [], Kf ''b'' 3 []]"

definition reboot_closures :: "(int, unit) edge list" where
  "reboot_closures = [\<lparr>e_kind = Inter_Loop, e_src = Kf ''a'' 0 ''y'', e_dst = Kf ''b'' 0 [],
      e_t = 5, e_info = ()\<rparr>]"

lemma reboot_components:
  "components None reboot_kfs reboot_closures = Some
     [\<lparr>c_id = 0, c_robots = [''a''], c_anchor = Kf ''a'' 0 ''x'', c_trajectories = [Traj ''a'' ''x'']\<rparr>,
      \<lparr>c_id = 1, c_robots = [''a'', ''b''], c_anchor = Kf ''a'' 0 ''y'',
       c_trajectories = [Traj ''a'' ''y'', Traj ''b'' []]\<rparr>]"
  by code_simp

theorem components_iff_joined_witness:
  "(\<exists>c \<in> set (the (components None reboot_kfs reboot_closures)).
      in_component (Traj ''a'' ''x'') c \<and> in_component (Traj ''a'' ''y'') c)
   \<longleftrightarrow> joined (closure_pairs reboot_closures) (Traj ''a'' ''x'') (Traj ''a'' ''y'')"
  by (rule components_iff_joined [of None reboot_kfs]) (code_simp+)

subsection \<open>Deciding the frames of a graph\<close>

text \<open>The front half of \<^verbatim>\<open>optimize\<close>: endpoints are validated, the loop closures that
  span two trajectories go through the filter, and its verdict fixes the components.\<close>

definition missing_endpoints :: "kf_id list \<Rightarrow> ('m, 'i) edge list \<Rightarrow> kf_id list" where
  "missing_endpoints kfs es =
     filter (\<lambda>k. k \<notin> set kfs) (concat (map (\<lambda>e. [e_src e, e_dst e]) es))"

definition decide_frames ::
  "(('m, 'i) edge \<Rightarrow> ('m, 'i) edge \<Rightarrow> bool) \<Rightarrow> nat \<Rightarrow> string option \<Rightarrow> kf_id list
     \<Rightarrow> ('m, 'i) edge list
     \<Rightarrow> (pyerr + component list \<times> ('m, 'i) edge list \<times> ('m, 'i) edge list) option" where
  "decide_frames test m pref kfs edges =
     (if kfs = [] then Some (Inr ([], [], []))
      else
        let odometry = filter (\<lambda>e. e_kind e = Odometry) edges;
            loops = filter (\<lambda>e. is_loop_closure (e_kind e)) edges in
        if missing_endpoints kfs (odometry @ loops) \<noteq> [] then Some (Inl ValueError)
        else case pcm_filter test m (filter is_inter_trajectory loops) of
          None \<Rightarrow> None
        | Some (acc, rej) \<Rightarrow> (case components pref kfs acc of
            None \<Rightarrow> None
          | Some cs \<Rightarrow> Some (Inr (cs, acc, rej))))"

lemma endpoints_known:
  assumes "missing_endpoints kfs es = []" and "e \<in> set es"
  shows "src_traj e \<in> set (trajectories_of kfs)" "dst_traj e \<in> set (trajectories_of kfs)"
  using assms by (auto simp: missing_endpoints_def filter_empty_conv src_traj_def dst_traj_def)

lemma pcm_accepted_subset:
  assumes "pcm_filter test m es = Some (acc, rej)"
  shows "set acc \<subseteq> set es"
proof -
  from assms have "mset acc + mset rej = mset es"
    using pcm_filter_total [of test m es] by auto
  then have "set_mset (mset acc) \<subseteq> set_mset (mset es)" by (metis mset_subset_eq_add_left set_mset_mono)
  then show ?thesis by simp
qed

lemma pcm_known:
  assumes "pcm_filter test m (filter is_inter_trajectory loops) = Some (acc, rej)"
    and "missing_endpoints kfs (odometry @ loops) = []"
  shows "\<forall>e \<in> set acc. src_traj e \<in> set (trajectories_of kfs) \<and> dst_traj e \<in> set (trajectories_of kfs)"
  using pcm_accepted_subset [OF assms(1)] endpoints_known [OF assms(2)] by fastforce

text \<open>deciding the frames always returns: the components, or the error that names edges
  whose keyframes were never added. The clique search and the find loop both end.\<close>

lemma decide_frames_returns:
  "\<exists>r. decide_frames test m pref kfs edges = Some r"
proof -
  define loops where "loops = filter (\<lambda>e. is_loop_closure (e_kind e)) edges"
  define odo where "odo = filter (\<lambda>e. e_kind e = Odometry) edges"
  obtain acc rej where f: "pcm_filter test m (filter is_inter_trajectory loops) = Some (acc, rej)"
    using pcm_filter_total by blast
  show ?thesis
  proof (cases "kfs = [] \<or> missing_endpoints kfs (odo @ loops) \<noteq> []")
    case True
    then show ?thesis by (auto simp: decide_frames_def loops_def odo_def)
  next
    case False
    with pcm_known [OF f] components_by_label [of acc kfs pref]
    obtain cs where "components pref kfs acc = Some cs" by blast
    with f show ?thesis
      by (simp add: decide_frames_def loops_def odo_def Let_def del: filter_filter)
  qed
qed

text \<open>C2: when two trajectories end up in one component, a chain of accepted closures joins them in which every closure
  is one of at least \<open>m\<close> accepted closures over the same two trajectories (\<open>m\<close> is the configured minimum, counted by
  position), any two of which are consistent with each other.\<close>

theorem merged_frames_are_corroborated:
  assumes "decide_frames test m pref kfs edges = Some (Inr (cs, acc, rej))"
    and "c \<in> set cs" and "x \<in> set (c_trajectories c)" and "y \<in> set (c_trajectories c)"
  shows "joined (closure_pairs (filter (corroborated test canonical_pair m acc) acc)) x y"
proof -
  have "kfs \<noteq> []" using assms(1,2) by (auto simp: decide_frames_def)
  then obtain loops odo where f: "pcm_filter test m (filter is_inter_trajectory loops) = Some (acc, rej)"
    and cs: "components pref kfs acc = Some cs" and ok: "missing_endpoints kfs (odo @ loops) = []"
    using assms(1) by (auto simp: decide_frames_def Let_def simp del: filter_filter
        split: if_splits option.splits)
  note known = pcm_known [OF f ok]
  obtain rep :: "trajectory \<Rightarrow> trajectory" and rs where
    m: "\<And>c. c \<in> set cs \<longleftrightarrow> (\<exists>i < length rs. c = make_component pref kfs i
        (filter (\<lambda>t. rep t = rs ! i) (trajectories_of kfs)))"
    and j: "\<And>x y. x \<in> set (trajectories_of kfs) \<Longrightarrow> y \<in> set (trajectories_of kfs) \<Longrightarrow>
        rep x = rep y \<longleftrightarrow> joined (closure_pairs acc) x y"
    using components_members [OF cs known] by metis
  have xy: "x \<in> set (trajectories_of kfs)" "y \<in> set (trajectories_of kfs)"
    using assms(2-4) m by auto
  then have "joined (closure_pairs acc) x y"
    using j [OF xy] m assms(2-4) by auto
  moreover have "filter (corroborated test canonical_pair m acc) acc = acc"
    using pcm_accepts_corroborated [OF f] by (simp add: filter_id_conv)
  ultimately show ?thesis by simp
qed

definition closure_ab :: "int \<Rightarrow> int \<Rightarrow> (int, unit) edge" where
  "closure_ab n t = \<lparr>e_kind = Inter_Loop, e_src = Kf ''a'' n [], e_dst = Kf ''b'' n [],
     e_t = t, e_info = ()\<rparr>"

definition agree :: "(int, unit) edge \<Rightarrow> (int, unit) edge \<Rightarrow> bool" where
  "agree = closures_consistent (+) uminus (\<lambda>loop _ _. loop = 0) kf_seq"

definition meeting :: "kf_id list \<times> (int, unit) edge list" where
  "meeting = ([Kf ''a'' 0 [], Kf ''a'' 1 [], Kf ''b'' 0 [], Kf ''b'' 1 [], Kf ''b'' 3 [], Kf ''a'' 3 []],
     [closure_ab 0 5, closure_ab 3 5, closure_ab 1 9])"

lemma meeting_frames:
  "decide_frames agree 2 None (fst meeting) (snd meeting) = Some (Inr (
     [\<lparr>c_id = 0, c_robots = [''a'', ''b''], c_anchor = Kf ''a'' 0 [],
       c_trajectories = [Traj ''a'' [], Traj ''b'' []]\<rparr>],
     [closure_ab 0 5, closure_ab 3 5], [closure_ab 1 9]))"
  by code_simp

theorem merged_frames_are_corroborated_witness:
  "joined (closure_pairs (filter (corroborated agree canonical_pair 2 [closure_ab 0 5, closure_ab 3 5])
     [closure_ab 0 5, closure_ab 3 5])) (Traj ''a'' []) (Traj ''b'' [])"
  by (rule merged_frames_are_corroborated [OF meeting_frames list.set_intros(1)]) simp+

subsection \<open>The frame a robot is published in\<close>

text \<open>Stamps of keyframes are finite; a trajectory with no keyframe ranks below all others,
  as minus infinity does in the code.\<close>

definition latest_stamps :: "(kf_id \<times> real) list \<Rightarrow> (trajectory, real) dict" where
  "latest_stamps kfs = foldl (\<lambda>d (k, stamp).
     if (case dget d (kf_trajectory k) of None \<Rightarrow> True | Some s \<Rightarrow> s < stamp)
     then dput (kf_trajectory k) stamp d else d) [] kfs"

type_synonym rank = "real option \<times> trajectory"

definition newest_per_robot ::
  "(trajectory, real) dict \<Rightarrow> trajectory list \<Rightarrow> (string, rank) dict" where
  "newest_per_robot latest ts = foldl (\<lambda>best t.
     let rank = (dget latest t, t) in
     if (case dget best (robot_of t) of None \<Rightarrow> True | Some cur \<Rightarrow> cur < rank)
     then dput (robot_of t) rank best else best) [] ts"

definition current_t_world_map ::
  "(kf_id \<times> real) list \<Rightarrow> (trajectory, 'm) dict \<Rightarrow> (string, 'm) dict" where
  "current_t_world_map kfs fits =
     map (\<lambda>(r, rank). (r, the (dget fits (snd rank))))
       (newest_per_robot (latest_stamps kfs) (keys fits))"

lemma newest_per_robot_spec:
  "dget (newest_per_robot latest ts) r =
     (let mine = filter (\<lambda>t. robot_of t = r) ts in
      if mine = [] then None else Some (Max ((\<lambda>t. (dget latest t, t)) ` set mine)))"
proof (induction ts rule: rev_induct)
  case Nil
  then show ?case by (simp add: newest_per_robot_def)
next
  case (snoc t ts)
  let ?f = "\<lambda>t. (dget latest t, t)"
  have step: "newest_per_robot latest (ts @ [t]) =
     (if (case dget (newest_per_robot latest ts) (robot_of t) of None \<Rightarrow> True | Some cur \<Rightarrow> cur < ?f t)
      then dput (robot_of t) (?f t) (newest_per_robot latest ts) else newest_per_robot latest ts)"
    by (simp add: newest_per_robot_def Let_def)
  show ?case
  proof (cases "robot_of t = r")
    case False
    then show ?thesis using snoc.IH by (auto simp: step dict_simps Let_def)
  next
    case True
    define mine where "mine = filter (\<lambda>t. robot_of t = r) ts"
    show ?thesis
    proof (cases "mine = []")
      case True
      then show ?thesis using snoc.IH \<open>robot_of t = r\<close>
        by (simp add: step dict_simps Let_def mine_def)
    next
      case False
      have "Max (?f ` set (mine @ [t])) = max (?f t) (Max (?f ` set mine))"
        using False by simp
      then show ?thesis using snoc.IH \<open>robot_of t = r\<close> False
        by (auto simp: step dict_simps Let_def mine_def max_def less_le_not_le)
    qed
  qed
qed

text \<open>the transform published for a robot is the fit of one of its own trajectories, and no
  other trajectory of that robot has a later keyframe: after a reboot the robot is shown in
  the frame it drives in now, never in the frame of an earlier run.\<close>

lemma current_map_is_newest:
  assumes "dget (current_t_world_map kfs fits) r = Some m"
  shows "\<exists>t. dget fits t = Some m \<and> robot_of t = r
    \<and> (\<forall>u \<in> set (keys fits). robot_of u = r \<longrightarrow> dget (latest_stamps kfs) u \<le> dget (latest_stamps kfs) t)"
proof -
  let ?f = "\<lambda>t. (dget (latest_stamps kfs) t, t)"
  let ?best = "newest_per_robot (latest_stamps kfs) (keys fits)"
  from assms obtain rank where rank: "dget ?best r = Some rank" "m = the (dget fits (snd rank))"
    by (auto simp: current_t_world_map_def map_of_map)
  define mine where "mine = filter (\<lambda>t. robot_of t = r) (keys fits)"
  have mine: "mine \<noteq> []" "rank = Max (?f ` set mine)"
    using rank(1) newest_per_robot_spec [of "latest_stamps kfs" "keys fits" r]
    by (auto simp: Let_def mine_def split: if_splits)
  have "?f ` set mine \<noteq> {}" using mine(1) by simp
  then have "rank \<in> ?f ` set mine" unfolding mine(2) by (intro Max_in) simp_all
  then obtain t where t: "t \<in> set mine" "rank = ?f t" by auto
  have "dget (latest_stamps kfs) u \<le> dget (latest_stamps kfs) t" if "u \<in> set mine" for u
  proof -
    have "?f u \<le> ?f t"
      using that unfolding t(2) [symmetric] mine(2) by (intro Max_ge) simp_all
    then show ?thesis by (auto simp: less_eq_prod_def)
  qed
  then have "\<forall>u \<in> set (keys fits). robot_of u = r \<longrightarrow> dget (latest_stamps kfs) u \<le> dget (latest_stamps kfs) t"
    by (simp add: mine_def)
  moreover have "dget fits t = Some m"
  proof -
    have "t \<in> set (keys fits)" using t(1) by (simp add: mine_def)
    then have "dget fits t \<noteq> None" by (simp add: keys_def map_of_eq_None_iff)
    then show ?thesis using t(2) rank(2) by simp
  qed
  ultimately show ?thesis using t(1) by (auto simp: mine_def)
qed

lemma current_map_is_newest_witness:
  "\<exists>t. dget [(Traj ''a'' ''x'', 1), (Traj ''a'' ''y'', 2 :: nat)] t = Some 2 \<and> robot_of t = ''a''
    \<and> (\<forall>u \<in> set (keys [(Traj ''a'' ''x'', 1 :: nat), (Traj ''a'' ''y'', 2)]). robot_of u = ''a'' \<longrightarrow>
         dget (latest_stamps [(Kf ''a'' 7 ''x'', 10), (Kf ''a'' 0 ''y'', 20)]) u
         \<le> dget (latest_stamps [(Kf ''a'' 7 ''x'', 10), (Kf ''a'' 0 ''y'', 20)]) t)"
  by (rule current_map_is_newest)
     (simp add: current_t_world_map_def newest_per_robot_def latest_stamps_def kf_trajectory_def keys_def)

end
