(* ===== verification/Registry.thy ===== *)
theory Registry
  imports Prelude
begin

text \<open>
  The fleet registry of the server (\<^verbatim>\<open>server/swarmdeck_server/fleet/registry.py\<close>): what each
  adapter declared and last reported, and which socket commands for it go to. Sockets are
  numbered; a send waits, so other handlers may run in the middle of it. Time is the
  monotonic clock, handed to each operation. A robot id is text (a number used as an id
  is outside the model; a list or a dictionary is unhashable and raises); the pose, goal
  and other fields a robot reports are stored unread, as JSON.
\<close>

subsection \<open>State\<close>

datatype frame = Merged | Local

record robot =
  r_id :: string
  r_type :: json
  r_adapter :: json
  r_ros :: json
  r_peer :: string
  r_frame :: frame
  r_caps :: "json list"
  r_radius :: pyfloat
  r_footprint :: "(real \<times> real) list option"
  r_pose :: json
  r_explore :: string
  r_home :: "(real \<times> real \<times> real) option"
  r_battery :: json
  r_mode :: json
  r_nav :: json
  r_goal :: json
  r_planned :: "json list"
  r_global :: "json list"
  r_local :: "json list"
  r_network :: json
  r_last_seen :: real
  r_last_attended :: real

definition new_robot :: "string \<Rightarrow> real \<Rightarrow> robot" where
  "new_robot rid now = \<lparr>r_id = rid, r_type = JStr ''unknown'', r_adapter = JStr [], r_ros = JStr [],
     r_peer = [], r_frame = Local, r_caps = [], r_radius = Fin (3/10), r_footprint = None,
     r_pose = JObj [(''x'', JFloat (Fin 0)), (''y'', JFloat (Fin 0)), (''yaw'', JFloat (Fin 0))],
     r_explore = ''idle'', r_home = None, r_battery = JNull, r_mode = JStr ''idle'',
     r_nav = JStr ''idle'', r_goal = JNull, r_planned = [], r_global = [], r_local = [],
     r_network = JNull, r_last_seen = now, r_last_attended = now\<rparr>"

record registry =
  robots :: "(string, robot) dict"
  sinks :: "(string, nat) dict"

definition no_robots :: registry where
  "no_robots = \<lparr>robots = [], sinks = []\<rparr>"

definition offline_after :: real where "offline_after = 4"

definition online :: "real \<Rightarrow> robot \<Rightarrow> bool" where
  "online now r = (now - r_last_seen r < offline_after)"

definition unattended_s :: "real \<Rightarrow> robot \<Rightarrow> real" where
  "unattended_s now r = now - r_last_attended r"

subsection \<open>Hello\<close>

fun parse_point :: "json \<Rightarrow> pyerr + (real \<times> real) option" where
  "parse_point (JList [a, b]) =
     (case float_of a of
        Inl e \<Rightarrow> if e \<in> {TypeError, ValueError} then Inr None else Inl e
      | Inr x \<Rightarrow> (case float_of b of
          Inl e \<Rightarrow> if e \<in> {TypeError, ValueError} then Inr None else Inl e
        | Inr y \<Rightarrow> (case (x, y) of (Fin u, Fin v) \<Rightarrow> Inr (Some (u, v)) | _ \<Rightarrow> Inr None)))"
| "parse_point v = Inr None"

fun parse_points :: "json list \<Rightarrow> pyerr + (real \<times> real) list option" where
  "parse_points [] = Inr (Some [])"
| "parse_points (p # ps) =
     (case parse_point p of
        Inl e \<Rightarrow> Inl e
      | Inr None \<Rightarrow> Inr None
      | Inr (Some q) \<Rightarrow> (case parse_points ps of
          Inl e \<Rightarrow> Inl e | Inr None \<Rightarrow> Inr None | Inr (Some qs) \<Rightarrow> Inr (Some (q # qs))))"

fun parse_footprint :: "json \<Rightarrow> pyerr + (real \<times> real) list option" where
  "parse_footprint (JList ps) = (if length ps < 3 then Inr None else parse_points ps)"
| "parse_footprint v = Inr None"

definition hello_fields :: "(string \<times> json) list \<Rightarrow> string \<Rightarrow> real \<Rightarrow> robot update" where
  "hello_fields msg peer now = seq_steps [
     (\<lambda>r. (r\<lparr>r_type := jget msg ''robot_type'' (JStr ''unknown''),
             r_adapter := jget msg ''adapter'' (JStr []),
             r_ros := jget msg ''ros'' (JStr []),
             r_peer := (if peer \<noteq> [] then peer else r_peer r),
             r_frame := (if dget msg ''coordinate_frame'' = Some (JStr ''merged'')
                         then Merged else Local)\<rparr>, None)),
     assign (\<lambda>cs. r_caps_update (\<lambda>_. cs)) (py_list (jget msg ''capabilities'' (JList []))),
     assign (\<lambda>x. r_radius_update (\<lambda>_. x)) (float_of (jget msg ''footprint_radius'' (JFloat (Fin (3/10))))),
     (if jhas msg ''footprint''
      then assign (\<lambda>f. r_footprint_update (\<lambda>_. f)) (parse_footprint (jget msg ''footprint'' JNull))
      else (\<lambda>r. (r, None))),
     (\<lambda>r. (r\<lparr>r_last_seen := now\<rparr>, None))]"

definition hello ::
  "real \<Rightarrow> (string \<times> json) list \<Rightarrow> nat \<Rightarrow> string \<Rightarrow> registry \<Rightarrow> registry \<times> (pyerr + robot)" where
  "hello now msg sink peer g =
     (case dget msg ''robot_id'' of
        None \<Rightarrow> (g, Inl KeyError)
      | Some (JStr rid) \<Rightarrow>
          (let known = dget (robots g) rid;
               start = (case known of None \<Rightarrow> new_robot rid now | Some r \<Rightarrow> r) in
           (case hello_fields msg peer now start of
              (r, Some e) \<Rightarrow> (case known of
                  None \<Rightarrow> (g, Inl e)
                | Some _ \<Rightarrow> (g\<lparr>robots := dput rid r (robots g)\<rparr>, Inl e))
            | (r, None) \<Rightarrow> (g\<lparr>robots := dput rid r (robots g), sinks := dput rid sink (sinks g)\<rparr>, Inr r)))
      | Some _ \<Rightarrow> (g, Inl TypeError))"

subsection \<open>Reported state\<close>

definition home_of :: "json \<Rightarrow> pyerr + (real \<times> real \<times> real) option" where
  "home_of h =
     (let num = (\<lambda>k. case jindex h k of Inl e \<Rightarrow> Inl e | Inr v \<Rightarrow> float_of v);
          drop_soft = (\<lambda>e. if e \<in> {KeyError, TypeError, ValueError} then Inr None else Inl e) in
      case num ''x'' of Inl e \<Rightarrow> drop_soft e | Inr x \<Rightarrow>
      (case num ''y'' of Inl e \<Rightarrow> drop_soft e | Inr y \<Rightarrow>
      (case num ''yaw'' of Inl e \<Rightarrow> drop_soft e | Inr w \<Rightarrow>
        (case (x, y, w) of (Fin a, Fin b, Fin c) \<Rightarrow> Inr (Some (a, b, c)) | _ \<Rightarrow> Inr None))))"

definition set_home :: "(string \<times> json) list \<Rightarrow> robot update" where
  "set_home msg r =
     (if r_home r = None \<and> is_obj (jget msg ''home_pose'' JNull)
      then assign (\<lambda>h r. r\<lparr>r_home := h\<rparr>) (home_of (jget msg ''home_pose'' JNull)) r
      else (r, None))"

definition explore_states :: "string list" where
  "explore_states = [''idle'', ''starting'', ''exploring'', ''complete'', ''blocked'', ''stopped'']"

definition set_explore :: "(string \<times> json) list \<Rightarrow> robot update" where
  "set_explore msg r =
     (let v = jget msg ''exploration_status'' JNull in
      if \<not> hashable v then (r, Some TypeError)
      else case v of JStr s \<Rightarrow> (if s \<in> set explore_states then r\<lparr>r_explore := s\<rparr> else r, None)
        | _ \<Rightarrow> (r, None))"

definition set_field :: "string \<Rightarrow> (json \<Rightarrow> robot \<Rightarrow> robot) \<Rightarrow> (string \<times> json) list \<Rightarrow> robot update" where
  "set_field k put msg r = (case dget msg k of None \<Rightarrow> (r, None) | Some v \<Rightarrow> (put v r, None))"

definition nav_active :: "robot \<Rightarrow> bool" where
  "nav_active r = (r_nav r \<in> {JStr ''active'', JStr ''nav''} \<or> truthy (r_goal r))"

definition path_prefix :: "json \<Rightarrow> pyerr + json list" where
  "path_prefix v = (if truthy v then map_sum id (take 200) (py_list v) else Inr [])"

definition set_paths :: "(string \<times> json) list \<Rightarrow> robot update" where
  "set_paths msg r =
     (let g = jget msg ''global_planned_path'' JNull;
          l = jget msg ''local_planned_path'' JNull;
          split = (jhas msg ''global_planned_path'' \<or> jhas msg ''local_planned_path'') in
      if nav_active r then
        seq_steps [
          (if truthy g then assign (\<lambda>p. r_global_update (\<lambda>_. p)) (path_prefix g) else (\<lambda>r. (r, None))),
          (if jhas msg ''local_planned_path''
           then assign (\<lambda>p. r_local_update (\<lambda>_. p)) (path_prefix l) else (\<lambda>r. (r, None))),
          (if \<not> split \<and> truthy (jget msg ''planned_path'' JNull)
           then (\<lambda>r. (r\<lparr>r_global := r_planned r, r_local := []\<rparr>, None)) else (\<lambda>r. (r, None)))] r
      else (r\<lparr>r_global := [], r_local := [], r_planned := []\<rparr>, None))"

definition set_network :: "(string \<times> json) list \<Rightarrow> robot update" where
  "set_network msg r = (case dget msg ''network'' of None \<Rightarrow> (r, None)
     | Some v \<Rightarrow> (r\<lparr>r_network := (if is_obj v then v else JNull)\<rparr>, None))"

definition state_fields :: "real \<Rightarrow> (string \<times> json) list \<Rightarrow> robot update" where
  "state_fields now msg = seq_steps [
     (\<lambda>r. (r\<lparr>r_last_seen := now\<rparr>, None)),
     set_field ''pose'' (\<lambda>v r. r\<lparr>r_pose := v\<rparr>) msg,
     set_home msg,
     set_field ''battery'' (\<lambda>v r. r\<lparr>r_battery := v\<rparr>) msg,
     set_field ''mode'' (\<lambda>v r. r\<lparr>r_mode := v\<rparr>) msg,
     set_explore msg,
     set_field ''nav_status'' (\<lambda>v r. r\<lparr>r_nav := v\<rparr>) msg,
     set_field ''goal'' (\<lambda>v r. r\<lparr>r_goal := v\<rparr>) msg,
     set_paths msg,
     set_network msg]"

definition update_state ::
  "real \<Rightarrow> (string \<times> json) list \<Rightarrow> registry \<Rightarrow> registry \<times> (pyerr + robot option)" where
  "update_state now msg g =
     (case jget msg ''robot_id'' (JStr []) of
        JStr rid \<Rightarrow> (case dget (robots g) rid of
            None \<Rightarrow> (g, Inr None)
          | Some r \<Rightarrow> (case state_fields now msg r of
              (r', err) \<Rightarrow> (g\<lparr>robots := dput rid r' (robots g)\<rparr>,
                 case err of Some e \<Rightarrow> Inl e | None \<Rightarrow> Inr (Some r'))))
      | v \<Rightarrow> (g, if hashable v then Inr None else Inl TypeError))"

subsection \<open>Attention, capabilities, sockets\<close>

definition attend :: "real \<Rightarrow> string \<Rightarrow> registry \<Rightarrow> registry" where
  "attend now rid g = (case dget (robots g) rid of None \<Rightarrow> g
     | Some r \<Rightarrow> g\<lparr>robots := dput rid (r\<lparr>r_last_attended := now\<rparr>) (robots g)\<rparr>)"

definition can :: "registry \<Rightarrow> string \<Rightarrow> string \<Rightarrow> bool" where
  "can g rid cap = (case dget (robots g) rid of None \<Rightarrow> False | Some r \<Rightarrow> JStr cap \<in> set (r_caps r))"

definition has_sink :: "registry \<Rightarrow> string \<Rightarrow> bool" where
  "has_sink g rid = (dget (sinks g) rid \<noteq> None)"

definition disconnect :: "string \<Rightarrow> nat option \<Rightarrow> registry \<Rightarrow> registry" where
  "disconnect rid sink g =
     (if sink \<noteq> None \<and> dget (sinks g) rid \<noteq> sink then g
      else g\<lparr>sinks := ddel rid (sinks g)\<rparr>)"

definition remove :: "string \<Rightarrow> registry \<Rightarrow> registry \<times> bool" where
  "remove rid g = (g\<lparr>sinks := ddel rid (sinks g), robots := ddel rid (robots g)\<rparr>,
                   dget (robots g) rid \<noteq> None)"

text \<open>
  \<open>send\<close> reads the socket, waits for the transport, and on failure retires the socket it
  used. \<open>up\<close> says which sockets take the message; \<open>meanwhile\<close> is what other handlers did
  to the registry during the wait.
\<close>

definition send :: "(nat \<Rightarrow> bool) \<Rightarrow> (registry \<Rightarrow> registry) \<Rightarrow> string \<Rightarrow> registry \<Rightarrow> registry \<times> bool" where
  "send up meanwhile rid g =
     (case dget (sinks g) rid of
        None \<Rightarrow> (g, False)
      | Some sink \<Rightarrow>
          (let g' = meanwhile g in
           if up sink then (g', True) else (disconnect rid (Some sink) g', False)))"

text \<open>\<open>goal_taken\<close>: the first other robot whose goal lies within the tolerance.\<close>

definition near :: "real \<Rightarrow> json \<Rightarrow> json \<Rightarrow> pyerr + bool" where
  "near tol a b = (case coord_near tol ''x'' a b of
     Inl e \<Rightarrow> Inl e | Inr False \<Rightarrow> Inr False | Inr True \<Rightarrow> coord_near tol ''y'' a b)"

fun taken_among :: "(string \<Rightarrow> robot \<Rightarrow> json) \<Rightarrow> real \<Rightarrow> json \<Rightarrow> string \<Rightarrow> (string, robot) dict
    \<Rightarrow> pyerr + string option" where
  "taken_among place tol goal excl [] = Inr None"
| "taken_among place tol goal excl ((rid, r) # rs) =
     (if rid = excl \<or> \<not> truthy (r_goal r) then taken_among place tol goal excl rs
      else case near tol (place rid r) goal of Inl e \<Rightarrow> Inl e
        | Inr True \<Rightarrow> Inr (Some rid)
        | Inr False \<Rightarrow> taken_among place tol goal excl rs)"

definition registry_goal_taken :: "json \<Rightarrow> string \<Rightarrow> registry \<Rightarrow> pyerr + string option" where
  "registry_goal_taken goal excl g = taken_among (\<lambda>rid r. r_goal r) (1/2) goal excl (robots g)"

definition floats_json :: "(string \<times> real) list \<Rightarrow> json" where
  "floats_json kvs = JObj (map (\<lambda>(k, v). (k, JFloat (Fin v))) kvs)"

definition to_state :: "real \<Rightarrow> (string \<times> json) list \<Rightarrow> robot \<Rightarrow> json" where
  "to_state now stamps r = JObj (
     [(''type'', JStr ''robot_state''), (''robot_id'', JStr (r_id r)), (''robot_type'', r_type r),
      (''adapter'', r_adapter r), (''ros'', r_ros r), (''peer'', JStr (r_peer r)), (''pose'', r_pose r),
      (''home_pose'', (case r_home r of None \<Rightarrow> JNull
         | Some (x, y, w) \<Rightarrow> floats_json [(''x'', x), (''y'', y), (''yaw'', w)])),
      (''exploration_status'', JStr (r_explore r)), (''battery'', r_battery r), (''mode'', r_mode r),
      (''nav_status'', r_nav r), (''goal'', r_goal r), (''planned_path'', JList (r_planned r)),
      (''global_planned_path'', JList (r_global r)), (''local_planned_path'', JList (r_local r)),
      (''network'', r_network r), (''capabilities'', JList (r_caps r)),
      (''footprint_radius'', JFloat (r_radius r)),
      (''footprint'', (case r_footprint r of None \<Rightarrow> JNull
         | Some ps \<Rightarrow> JList (map (\<lambda>(x, y). JList [JFloat (Fin x), JFloat (Fin y)]) ps))),
      (''unattended_s'', JFloat (Fin (py_round 2 (unattended_s now r)))),
      (''online'', JBool (online now r))] @ stamps)"

definition snapshot :: "real \<Rightarrow> (string \<times> json) list \<Rightarrow> registry \<Rightarrow> json list" where
  "snapshot now stamps g = map (to_state now stamps \<circ> snd) (robots g)"

subsection \<open>The registry as a machine\<close>

text \<open>Everything the two kinds of socket make the registry do, as events; a send that fails
  is the event that its socket retires.\<close>

text \<open>What the commands of an operator, the settings and the reset of the simulation write into a robot.\<close>

definition take_goal :: "json \<Rightarrow> json list \<Rightarrow> robot \<Rightarrow> robot" where
  "take_goal goal path r =
     (let r1 = r\<lparr>r_goal := goal, r_nav := JStr ''active'', r_mode := JStr ''nav''\<rparr> in
      if path = [] then r1 else r1\<lparr>r_global := path, r_planned := path\<rparr>)"

definition cancelled :: "robot \<Rightarrow> robot" where
  "cancelled r = (if r_nav r = JStr ''active'' then r\<lparr>r_nav := JStr ''cancelled''\<rparr> else r)"

definition parked :: "robot \<Rightarrow> robot" where
  "parked r = (let r1 = r\<lparr>r_goal := JNull\<rparr> in
     if r_nav r1 = JStr ''active'' then r1\<lparr>r_nav := JStr ''idle''\<rparr> else r1)"

definition rested :: "robot \<Rightarrow> robot" where
  "rested r = r\<lparr>r_goal := JNull, r_planned := [], r_global := [], r_local := [],
     r_nav := JStr ''idle'', r_mode := JStr ''idle''\<rparr>"

datatype robot_change = Take_Goal json "json list" | Drop_Goal | Call_Off | Forget_Paths | Halted | Parked | Rested

fun robot_write :: "robot_change \<Rightarrow> robot \<Rightarrow> robot" where
  "robot_write (Take_Goal goal path) r = take_goal goal path r"
| "robot_write Drop_Goal r = r\<lparr>r_goal := JNull\<rparr>"
| "robot_write Call_Off r = cancelled (r\<lparr>r_goal := JNull, r_global := [], r_local := [], r_planned := []\<rparr>)"
| "robot_write Forget_Paths r = r\<lparr>r_goal := JNull, r_global := [], r_local := [], r_planned := []\<rparr>"
| "robot_write Halted r = cancelled (r\<lparr>r_goal := JNull, r_planned := []\<rparr>)"
| "robot_write Parked r = parked r"
| "robot_write Rested r = rested r"

datatype reg_event =
    Hello real "(string \<times> json) list" nat string
  | Reported real "(string \<times> json) list"
  | Attended real string
  | SocketClosed string nat
  | SendFailed string nat
  | Removed string
  | Written string robot_change

definition write_robot :: "string \<Rightarrow> robot_change \<Rightarrow> registry \<Rightarrow> registry" where
  "write_robot rid w g = (case dget (robots g) rid of None \<Rightarrow> g | Some r \<Rightarrow> g\<lparr>robots := dput rid (robot_write w r) (robots g)\<rparr>)"

fun reg_step :: "reg_event \<Rightarrow> registry \<Rightarrow> registry" where
  "reg_step (Hello now msg sink peer) g = fst (hello now msg sink peer g)"
| "reg_step (Reported now msg) g = fst (update_state now msg g)"
| "reg_step (Attended now rid) g = attend now rid g"
| "reg_step (SocketClosed rid sink) g = disconnect rid (Some sink) g"
| "reg_step (SendFailed rid sink) g = disconnect rid (Some sink) g"
| "reg_step (Removed rid) g = fst (remove rid (disconnect rid None g))"
| "reg_step (Written rid w) g = write_robot rid w g"

text \<open>A planned path comes from the planner, which gives at most 79 points (\<open>Path_Planner.planner_returns\<close>).\<close>

definition planner_bound :: nat where "planner_bound = 79"

definition within_bound :: "reg_event \<Rightarrow> bool" where
  "within_bound e = (case e of Written _ (Take_Goal _ path) \<Rightarrow> length path \<le> planner_bound | _ \<Rightarrow> True)"

definition robot_ok :: "string \<Rightarrow> robot \<Rightarrow> bool" where
  "robot_ok rid r = (r_id r = rid \<and> r_explore r \<in> set explore_states
     \<and> length (r_global r) \<le> 200 \<and> length (r_local r) \<le> 200 \<and> length (r_planned r) \<le> 200)"

definition reg_inv :: "registry \<Rightarrow> bool" where
  "reg_inv g = (wf_dict (robots g) \<and> wf_dict (sinks g)
     \<and> (\<forall>rid. dget (sinks g) rid \<noteq> None \<longrightarrow> dget (robots g) rid \<noteq> None)
     \<and> (\<forall>rid r. dget (robots g) rid = Some r \<longrightarrow> robot_ok rid r))"

lemma path_prefix_length: "path_prefix v = Inr p \<Longrightarrow> length p \<le> 200"
  by (cases "py_list v") (auto simp: path_prefix_def split: if_splits)

lemma keeps_home [step_inv]: "keeps (robot_ok rid) (set_home msg)"
proof (rule keepsI)
  fix r assume ok: "robot_ok rid r"
  have "keeps (robot_ok rid) (assign (\<lambda>h. r_home_update (\<lambda>_. h)) v)" for v
    by (rule keeps_assign) (simp add: robot_ok_def)
  from keepsD [OF this ok] show "robot_ok rid (fst (set_home msg r))"
    by (simp add: set_home_def ok)
qed

lemma keeps_explore [step_inv]: "keeps (robot_ok rid) (set_explore msg)"
  by (rule keepsI) (auto simp: set_explore_def robot_ok_def Let_def split: json.split)

lemma keeps_field [step_inv]:
  "(\<And>v r. P r \<Longrightarrow> P (put v r)) \<Longrightarrow> keeps P (set_field k put msg)"
  by (rule keepsI) (simp add: set_field_def split: option.split)

lemma keeps_network [step_inv]: "keeps (robot_ok rid) (set_network msg)"
  by (rule keepsI) (simp add: set_network_def robot_ok_def split: option.split)

lemma keeps_paths [step_inv]: "keeps (robot_ok rid) (set_paths msg)"
proof (rule keepsI)
  fix r assume ok: "robot_ok rid r"
  have "keeps (robot_ok rid) (assign (\<lambda>p. r_global_update (\<lambda>_. p)) (path_prefix v))"
    "keeps (robot_ok rid) (assign (\<lambda>p. r_local_update (\<lambda>_. p)) (path_prefix v))"
    "keeps (robot_ok rid) (\<lambda>r. (r\<lparr>r_global := r_planned r, r_local := []\<rparr>, None))" for v
    by (rule keeps_assign, simp add: robot_ok_def path_prefix_length)+
       (rule keeps_set, simp add: robot_ok_def)
  note steps = this
  show "robot_ok rid (fst (set_paths msg r))"
  proof (cases "nav_active r")
    case True
    then show ?thesis
      unfolding set_paths_def Let_def if_P [OF True]
      by (intro keepsD [where P = "robot_ok rid" and s = r, OF _ ok] keeps_seq)
         (auto simp: steps keeps_skip)
  next
    case False
    then show ?thesis using ok by (simp add: set_paths_def robot_ok_def)
  qed
qed

lemma keeps_state [step_inv]: "keeps (robot_ok rid) (state_fields now msg)"
  unfolding state_fields_def
  by (rule keeps_seq) (simp, intro conjI step_inv; simp add: robot_ok_def)

lemma keeps_hello [step_inv]: "keeps (robot_ok rid) (hello_fields msg peer now)"
  unfolding hello_fields_def
  by (rule keeps_seq) (simp, intro conjI impI step_inv; simp add: robot_ok_def)

lemma new_robot_ok [step_inv]: "robot_ok rid (new_robot rid now)"
  by (simp add: robot_ok_def new_robot_def explore_states_def)

lemma reg_inv_robots:
  "reg_inv g \<Longrightarrow> robot_ok rid r \<Longrightarrow> reg_inv (g\<lparr>robots := dput rid r (robots g)\<rparr>)"
  by (auto simp: reg_inv_def dict_simps)

lemma reg_inv_bind:
  "reg_inv g \<Longrightarrow> robot_ok rid r \<Longrightarrow>
   reg_inv (g\<lparr>robots := dput rid r (robots g), sinks := dput rid sink (sinks g)\<rparr>)"
  by (auto simp: reg_inv_def dict_simps)

lemma reg_inv_known: "reg_inv g \<Longrightarrow> dget (robots g) rid = Some r \<Longrightarrow> robot_ok rid r"
  by (simp add: reg_inv_def)

lemma hello_inv [step_inv]:
  assumes inv: "reg_inv g" shows "reg_inv (fst (hello now msg sink peer g))"
proof -
  have ok: "robot_ok rid r"
    if "hello_fields msg peer now (case dget (robots g) rid of None \<Rightarrow> new_robot rid now | Some r \<Rightarrow> r) = (r, e)"
    for rid r e
    using keepsD [OF keeps_hello, of rid "case dget (robots g) rid of None \<Rightarrow> new_robot rid now | Some r \<Rightarrow> r"
        msg peer now] that reg_inv_known [OF inv]
    by (simp add: new_robot_ok split: option.splits)
  show ?thesis
    using inv ok
    by (auto simp: hello_def Let_def reg_inv_robots reg_inv_bind split: option.split json.split prod.split)
qed

lemma update_state_inv [step_inv]:
  assumes inv: "reg_inv g" shows "reg_inv (fst (update_state now msg g))"
proof -
  have "robot_ok rid (fst (state_fields now msg r))" if "dget (robots g) rid = Some r" for rid r
    by (rule keepsD [OF keeps_state reg_inv_known [OF inv that]])
  then have "robot_ok rid r'"
    if "dget (robots g) rid = Some r" "state_fields now msg r = (r', e)" for rid r r' e
    using that by (metis fst_conv)
  then show ?thesis
    using inv by (auto simp: update_state_def reg_inv_robots split: json.split option.split prod.split)
qed

lemma attend_inv [step_inv]: "reg_inv g \<Longrightarrow> reg_inv (attend now rid g)"
  using reg_inv_known [of g rid]
  by (auto simp: attend_def robot_ok_def intro!: reg_inv_robots split: option.split)

lemma disconnect_inv [step_inv]: "reg_inv g \<Longrightarrow> reg_inv (disconnect rid sink g)"
  by (auto simp: disconnect_def reg_inv_def dict_simps)

lemma remove_inv [step_inv]: "reg_inv g \<Longrightarrow> reg_inv (fst (remove rid g))"
  by (auto simp: remove_def reg_inv_def dict_simps)

lemma robot_write_ok:
  assumes "robot_ok rid r" and "within_bound (Written rid w)"
  shows "robot_ok rid (robot_write w r)"
  using assms
  by (cases w) (auto simp: robot_ok_def take_goal_def cancelled_def parked_def rested_def within_bound_def planner_bound_def Let_def)

lemma write_inv [step_inv]:
  assumes "reg_inv g" and "within_bound (Written rid w)"
  shows "reg_inv (write_robot rid w g)"
proof (cases "dget (robots g) rid")
  case (Some r)
  then show ?thesis
    using reg_inv_robots [OF assms(1) robot_write_ok [OF reg_inv_known [OF assms(1) Some] assms(2)]] by (simp add: write_robot_def)
qed (simp add: write_robot_def assms(1))

interpretation reg: machine reg_step within_bound reg_inv
proof unfold_locales
  fix e g assume "within_bound e" "reg_inv g"
  then show "reg_inv (reg_step e g)" by (cases e) (simp_all add: step_inv)
qed

lemma reg_inv_start: "reg_inv no_robots"
  by (simp add: reg_inv_def no_robots_def)

subsection \<open>Control reaches the current socket\<close>

text \<open>The events that may take socket \<open>s\<close> away from robot \<open>rid\<close> are left out.\<close>

fun spares :: "string \<Rightarrow> nat \<Rightarrow> reg_event \<Rightarrow> bool" where
  "spares rid s (Hello now msg sink peer) = (dget msg ''robot_id'' \<noteq> Some (JStr rid) \<or> sink = s)"
| "spares rid s (SocketClosed rid' sink) = (rid' \<noteq> rid \<or> sink \<noteq> s)"
| "spares rid s (SendFailed rid' sink) = (rid' \<noteq> rid \<or> sink \<noteq> s)"
| "spares rid s (Removed rid') = (rid' \<noteq> rid)"
| "spares rid s e = True"

lemma hello_sinks:
  "dget (sinks (fst (hello now msg sink peer g))) rid =
   (if dget msg ''robot_id'' = Some (JStr rid) \<and> (\<exists>r. snd (hello now msg sink peer g) = Inr r)
    then Some sink else dget (sinks g) rid)"
  by (auto simp: hello_def Let_def dict_simps split: option.split json.split prod.split)

lemma update_state_sinks [simp]: "sinks (fst (update_state now msg g)) = sinks g"
  by (auto simp: update_state_def split: json.split option.split prod.split)

lemma attend_sinks [simp]: "sinks (attend now rid g) = sinks g"
  by (simp add: attend_def split: option.split)

lemma write_sinks [simp]: "sinks (write_robot rid w g) = sinks g"
  by (simp add: write_robot_def split: option.split)

interpretation bound: machine reg_step "spares rid s" "\<lambda>g :: registry. dget (sinks g) rid = Some s" for rid s
proof unfold_locales
  fix e and g :: registry assume "spares rid s e" and "dget (sinks g) rid = Some s"
  then show "dget (sinks (reg_step e g)) rid = Some s"
    by (cases e) (auto simp: hello_sinks disconnect_def remove_def dict_simps)
qed

text \<open>A home pose, once recorded, is never overwritten while the robot stays registered.\<close>

definition home_is :: "string \<Rightarrow> real \<times> real \<times> real \<Rightarrow> registry \<Rightarrow> bool" where
  "home_is rid h g = (case dget (robots g) rid of None \<Rightarrow> False | Some r \<Rightarrow> r_home r = Some h)"

abbreviation at_home :: "real \<times> real \<times> real \<Rightarrow> robot \<Rightarrow> bool" where
  "at_home h r \<equiv> r_home r = Some h"

lemma keeps_paths_home [step_inv]: "keeps (at_home h) (set_paths msg)"
proof (rule keepsI)
  fix r assume h: "at_home h r"
  have steps: "keeps (at_home h) (assign (\<lambda>p. r_global_update (\<lambda>_. p)) v)"
    "keeps (at_home h) (assign (\<lambda>p. r_local_update (\<lambda>_. p)) v)" for v
    by (rule keeps_assign, simp)+
  show "at_home h (fst (set_paths msg r))"
  proof (cases "nav_active r")
    case True
    then show ?thesis
      unfolding set_paths_def Let_def if_P [OF True]
      by (intro keepsD [where P = "at_home h" and s = r, OF _ h] keeps_seq)
         (auto simp: steps keeps_skip intro!: keepsI)
  qed (simp add: set_paths_def h)
qed

lemma keeps_state_home: "keeps (at_home h) (state_fields now msg)"
proof -
  have "keeps (at_home h) (set_home msg)" "keeps (at_home h) (set_explore msg)"
    "keeps (at_home h) (set_network msg)"
    by (auto intro!: keepsI simp: set_home_def set_explore_def set_network_def Let_def
             split: json.split option.split)
  then show ?thesis
    unfolding state_fields_def by (intro keeps_seq) (simp, intro conjI step_inv; simp)
qed

lemma keeps_hello_home: "keeps (at_home h) (hello_fields msg peer now)"
  unfolding hello_fields_def by (rule keeps_seq) (simp, intro conjI impI step_inv; simp)

lemma hello_home: "home_is rid h g \<Longrightarrow> home_is rid h (fst (hello now msg sink peer g))"
  using keepsD [OF keeps_hello_home [where h = h and msg = msg and peer = peer and now = now]]
  by (fastforce simp: hello_def Let_def home_is_def dict_simps split: option.splits json.splits prod.splits)

lemma update_state_home: "home_is rid h g \<Longrightarrow> home_is rid h (fst (update_state now msg g))"
  using keepsD [OF keeps_state_home [where h = h and msg = msg and now = now]]
  by (fastforce simp: update_state_def home_is_def dict_simps split: option.splits json.splits prod.splits)

lemma write_home: "home_is rid h g \<Longrightarrow> home_is rid h (write_robot rid' w g)"
  by (cases w) (auto simp: write_robot_def home_is_def dict_simps take_goal_def cancelled_def parked_def rested_def Let_def split: option.splits)

interpretation home: machine reg_step "\<lambda>e. e \<noteq> Removed rid" "home_is rid h" for rid h
proof unfold_locales
  fix e g assume e: "e \<noteq> Removed rid" and h: "home_is rid h g"
  show "home_is rid h (reg_step e g)"
  proof (cases e)
    case (Attended now rid')
    with h show ?thesis by (auto simp: attend_def home_is_def dict_simps split: option.splits)
  next
    case (Removed rid')
    with e h show ?thesis by (auto simp: remove_def disconnect_def home_is_def dict_simps)
  qed (use h in \<open>simp_all add: hello_home update_state_home write_home, simp_all add: disconnect_def home_is_def\<close>)
qed

subsection \<open>Properties\<close>

lemma send_outcome:
  assumes "dget (sinks g) rid = Some s"
  shows "send up meanwhile rid g =
    (if up s then (meanwhile g, True) else (reg_step (SendFailed rid s) (meanwhile g), False))"
  using assms by (simp add: send_def Let_def)

text \<open>C34: From the empty registry, whatever sequence of hellos, state reports, operator attention, goals, cancellations,
  drives, stops, settings, resets, socket closures, failed sends and removals arrives, every socket belongs to a
  registered robot, ids are unique, each robot is filed under its own id, its exploration status is one of the six known
  ones, and each planned path holds at most 200 points. The path of a new goal has at most the 79 points the
  planner gives.\<close>

theorem registry_reachable_ok:
  assumes "list_all within_bound es"
  shows "reg_inv (fold reg_step es no_robots)"
  using assms by (rule reg.inv_run) (rule reg_inv_start)

text \<open>Commands for a robot keep reaching the socket it said hello on, through any
  sequence of events, as long as that socket itself is not the one that closes or fails, the
  robot does not say hello on another one and is not removed: the cleanup of an older
  connection never takes the newer one away.\<close>

lemma link_survives:
  assumes "dget (sinks g) rid = Some s" and "list_all (spares rid s) es"
  shows "dget (sinks (fold reg_step es g)) rid = Some s"
  using assms(2) assms(1) by (rule bound.inv_run)

definition hello_msg :: "string \<Rightarrow> (string \<times> json) list" where
  "hello_msg rid = [(''type'', JStr ''hello''), (''robot_id'', JStr rid),
     (''capabilities'', JList [JStr ''navigate'', JStr ''explore'']),
     (''footprint_radius'', JFloat (Fin (1/2)))]"

definition goal_given :: "reg_event list" where
  "goal_given = [Hello 0 (hello_msg ''r1'') 1 [], Written ''r1'' (Take_Goal (JObj []) [JObj [], JObj []]),
     Reported 1 [(''robot_id'', JStr ''r1''), (''planned_path'', JList [JObj []])], Written ''r1'' Halted]"

theorem registry_reachable_ok_witness:
  "reg_inv (fold reg_step goal_given no_robots)
    \<and> map_option (length \<circ> r_global) (dget (robots (fold reg_step goal_given no_robots)) ''r1'') = Some 2"
proof
  show "reg_inv (fold reg_step goal_given no_robots)" by (rule registry_reachable_ok) code_simp
  show "map_option (length \<circ> r_global) (dget (robots (fold reg_step goal_given no_robots)) ''r1'') = Some 2" by code_simp
qed

definition reconnected :: registry where
  "reconnected = fold reg_step [Hello 0 (hello_msg ''r1'') 1 [], Hello 5 (hello_msg ''r1'') 2 []] no_robots"

lemma reconnected_sink: "dget (sinks reconnected) ''r1'' = Some 2"
  by code_simp

lemma link_survives_witness:
  "dget (sinks (fold reg_step [SocketClosed ''r1'' 1, SendFailed ''r1'' 1, Removed ''r2''] reconnected)) ''r1''
   = Some 2"
  by (rule link_survives [OF reconnected_sink]) simp

text \<open>C32: A send reports success exactly when its socket took the message; after a failure
  the socket it used is retired, and a socket the robot reconnected on while the send was
  waiting stays bound, so later commands are not lost.\<close>

theorem failed_send_spares_replacement:
  assumes "dget (sinks g) rid = Some s"
    and "send up meanwhile rid g = (g', ok)"
  shows "ok = up s \<and> robots g' = robots (meanwhile g)
    \<and> dget (sinks g') rid =
        (if \<not> ok \<and> dget (sinks (meanwhile g)) rid = Some s then None else dget (sinks (meanwhile g)) rid)"
  using assms(2) unfolding send_outcome [OF assms(1)]
  by (auto simp: disconnect_def dict_simps split: if_splits)

theorem failed_send_spares_replacement_witness:
  "snd (send (\<lambda>s. s = 3) (\<lambda>g. fst (hello 9 (hello_msg ''r1'') 3 [] g)) ''r1'' reconnected) = False
   \<and> dget (sinks (fst (send (\<lambda>s. s = 3) (\<lambda>g. fst (hello 9 (hello_msg ''r1'') 3 [] g)) ''r1'' reconnected))) ''r1''
     = Some 3"
proof -
  let ?g = "\<lambda>g. fst (hello 9 (hello_msg ''r1'') 3 [] g)"
  have new: "dget (sinks (?g reconnected)) ''r1'' = Some 3" by code_simp
  show ?thesis
    using failed_send_spares_replacement
      [OF reconnected_sink, of "\<lambda>s. s = 3" ?g "fst (send (\<lambda>s. s = 3) ?g ''r1'' reconnected)"
        "snd (send (\<lambda>s. s = 3) ?g ''r1'' reconnected)"]
    unfolding new by simp
qed

text \<open>The home pose of a robot is recorded once: no later hello, state report,
  reconnection or failed send changes it, until the robot is removed.\<close>

lemma home_pose_fixed:
  assumes "dget (robots g) rid = Some r" and "r_home r = Some h" and "list_all (\<lambda>e. e \<noteq> Removed rid) es"
  shows "\<exists>r'. dget (robots (fold reg_step es g)) rid = Some r' \<and> r_home r' = Some h"
proof -
  have "home_is rid h (fold reg_step es g)"
    using assms(3) by (rule home.inv_run) (simp add: home_is_def assms(1,2))
  then show ?thesis by (auto simp: home_is_def split: option.splits)
qed

definition report :: "(string \<times> json) list" where
  "report = [(''robot_id'', JStr ''r1''), (''home_pose'', floats_json [(''x'', 1), (''y'', 2), (''yaw'', 0)])]"

definition with_home :: registry where
  "with_home = reg_step (Reported 6 report) reconnected"

lemma home_pose_fixed_witness:
  "\<exists>r'. dget (robots (fold reg_step [Hello 7 (hello_msg ''r1'') 4 [],
     Reported 8 [(''robot_id'', JStr ''r1''), (''home_pose'', floats_json [(''x'', 5), (''y'', 5), (''yaw'', 0)])]]
     with_home)) ''r1'' = Some r' \<and> r_home r' = Some (1, 2, 0)"
proof -
  have known: "dget (robots with_home) ''r1'' = Some (the (dget (robots with_home) ''r1''))"
    and home: "r_home (the (dget (robots with_home) ''r1'')) = Some (1, 2, 0)"
    by code_simp+
  show ?thesis by (rule home_pose_fixed [OF known home]) simp
qed

text \<open>The path of a report in the older single-path form is read only for being there: what
  the robot planned does not reach the registry.\<close>

lemma legacy_path_not_stored:
  assumes "nav_active r" and "\<not> jhas msg ''global_planned_path''" and "\<not> jhas msg ''local_planned_path''"
    and "truthy (jget msg ''planned_path'' JNull)"
  shows "set_paths msg r = (r\<lparr>r_global := r_planned r, r_local := []\<rparr>, None)"
proof -
  have "\<not> truthy (jget msg ''global_planned_path'' JNull)"
    using assms(2) by (simp add: jget_def jhas_def)
  then show ?thesis using assms by (simp add: set_paths_def Let_def)
qed

end
