(* ===== verification/Review.thy ===== *)
theory Review
  imports Prelude "HOL-Library.Multiset" "HOL-Library.List_Lexorder" "HOL-Library.Char_ord" "HOL-Library.Product_Lexorder"
begin

text \<open>
  Operator review of map detections (\<^verbatim>\<open>server/swarmdeck_server/detect/review.py\<close>): what a
  located sighting does to the confirmed objects, the pending proposals and the ignored
  zones; the operator's answers; and the file the store is saved to. Coordinates and scores
  are finite (the caller drops a position that is not), robots and classes are text, images
  are opaque. Saved state is the JSON value that is written; a non-finite number in it is
  refused where it is read.
\<close>

subsection \<open>Evidence\<close>

definition min_viewpoint_move :: real where "min_viewpoint_move = 1 / 4"

definition max_pending :: nat where "max_pending = 32"

definition max_samples :: nat where "max_samples = 24"

record sample =
  s_robot :: string
  s_x :: real
  s_y :: real
  s_score :: real
  s_t :: real

record accum =
  sum_x :: real
  sum_y :: real
  count :: int
  sightings :: int
  best_score :: real
  seen_by :: "string set"
  samples :: "sample list"
  viewpoints :: "(string, real \<times> real) dict"
  first_seen :: real
  last_seen :: real

definition empty_acc :: accum where
  "empty_acc = \<lparr>sum_x = 0, sum_y = 0, count = 0, sightings = 0, best_score = 0, seen_by = {},
     samples = [], viewpoints = [], first_seen = 0, last_seen = 0\<rparr>"

definition last_n :: "nat \<Rightarrow> 'a list \<Rightarrow> 'a list" where
  "last_n n xs = drop (length xs - n) xs"

definition add_sighting :: "sample \<Rightarrow> (real \<times> real) option \<Rightarrow> accum \<Rightarrow> accum \<times> bool" where
  "add_sighting s obs a =
     (let a1 = a\<lparr>first_seen := (if sightings a = 0 then s_t s else first_seen a),
                 sightings := sightings a + 1,
                 best_score := max (best_score a) (s_score s),
                 seen_by := insert (s_robot s) (seen_by a),
                 last_seen := s_t s\<rparr>;
          counted = (\<lambda>a. a\<lparr>sum_x := sum_x a + s_x s, sum_y := sum_y a + s_y s, count := count a + 1,
                          samples := last_n max_samples (samples a @ [s])\<rparr>) in
      case obs of
        None \<Rightarrow> (counted a1, True)
      | Some p \<Rightarrow>
          (if (case dget (viewpoints a1) (s_robot s) of None \<Rightarrow> False
               | Some q \<Rightarrow> hypot (fst p - fst q) (snd p - snd q) < min_viewpoint_move)
           then (a1, False)
           else (counted (a1\<lparr>viewpoints := dput (s_robot s) p (viewpoints a1)\<rparr>), True)))"

definition absorb :: "accum \<Rightarrow> accum \<Rightarrow> accum" where
  "absorb a b = \<lparr>sum_x = sum_x a + sum_x b, sum_y = sum_y a + sum_y b, count = count a + count b,
     sightings = sightings a + sightings b, best_score = max (best_score a) (best_score b),
     seen_by = seen_by a \<union> seen_by b, samples = last_n max_samples (samples a @ samples b),
     viewpoints = fold (\<lambda>(k, v). dput k v) (viewpoints b) (viewpoints a),
     first_seen = min (if first_seen a \<noteq> 0 then first_seen a else first_seen b) (first_seen b),
     last_seen = max (last_seen a) (last_seen b)\<rparr>"

definition acc_x :: "accum \<Rightarrow> real" where
  "acc_x a = (if count a \<noteq> 0 then sum_x a / of_int (count a) else 0)"

definition acc_y :: "accum \<Rightarrow> real" where
  "acc_y a = (if count a \<noteq> 0 then sum_y a / of_int (count a) else 0)"

subsection \<open>The store\<close>

record entity =
  e_id :: string
  e_cls :: string
  e_acc :: accum
  e_image :: json

record proposal =
  p_id :: string
  p_cls :: string
  p_acc :: accum
  p_suggest :: json
  p_distance :: "real option"
  p_image :: json

record ignore_zone =
  z_cls :: string
  z_x :: real
  z_y :: real
  z_radius :: real

record review =
  same_radius :: real
  ask_radius :: real
  ignore_radius :: real
  cross_class :: bool
  entities :: "(string, entity) dict"
  proposals :: "(string, proposal) dict"
  ignored :: "ignore_zone list"
  next_id :: int

definition new_review :: review where
  "new_review = \<lparr>same_radius = 1/2, ask_radius = 3/2, ignore_radius = 1, cross_class = False,
     entities = [], proposals = [], ignored = [], next_id = 1\<rparr>"

definition zone_contains :: "bool \<Rightarrow> string \<Rightarrow> real \<Rightarrow> real \<Rightarrow> ignore_zone \<Rightarrow> bool" where
  "zone_contains cross cls x y z =
     ((cross \<or> cls = z_cls z) \<and> hypot (x - z_x z) (y - z_y z) \<le> z_radius z)"

definition mint :: "string \<Rightarrow> review \<Rightarrow> string \<times> review" where
  "mint prefix s = (prefix @ ''_'' @ dec_int (next_id s), s\<lparr>next_id := next_id s + 1\<rparr>)"

text \<open>The first nearest object of the class, with its distance (\<open>None\<close> when there is none).\<close>

definition away :: "('o \<Rightarrow> accum) \<Rightarrow> real \<Rightarrow> real \<Rightarrow> 'o \<Rightarrow> real" where
  "away acc_of x y ob = hypot (acc_x (acc_of ob) - x) (acc_y (acc_of ob) - y)"

definition closer :: "('o \<Rightarrow> string) \<Rightarrow> ('o \<Rightarrow> accum) \<Rightarrow> bool \<Rightarrow> string \<Rightarrow> real \<Rightarrow> real
    \<Rightarrow> 'o \<Rightarrow> ('o \<times> real) option \<Rightarrow> ('o \<times> real) option" where
  "closer cls_of acc_of cross cls x y ob best =
     (if \<not> cross \<and> cls_of ob \<noteq> cls then best
      else case best of None \<Rightarrow> Some (ob, away acc_of x y ob)
        | Some (b, bd) \<Rightarrow> if away acc_of x y ob < bd then Some (ob, away acc_of x y ob) else best)"

definition nearest :: "('o \<Rightarrow> string) \<Rightarrow> ('o \<Rightarrow> accum) \<Rightarrow> bool \<Rightarrow> string \<Rightarrow> real \<Rightarrow> real
    \<Rightarrow> 'o list \<Rightarrow> ('o \<times> real) option" where
  "nearest cls_of acc_of cross cls x y obs = fold (closer cls_of acc_of cross cls x y) obs None"

definition nearest_entity :: "review \<Rightarrow> string \<Rightarrow> real \<Rightarrow> real \<Rightarrow> (entity \<times> real) option" where
  "nearest_entity s cls x y = nearest e_cls e_acc (cross_class s) cls x y (map snd (entities s))"

definition nearest_proposal :: "review \<Rightarrow> string \<Rightarrow> real \<Rightarrow> real \<Rightarrow> (proposal \<times> real) option" where
  "nearest_proposal s cls x y = nearest p_cls p_acc (cross_class s) cls x y (map snd (proposals s))"

definition strength :: "proposal \<Rightarrow> real \<times> int \<times> real" where
  "strength p = (best_score (p_acc p), count (p_acc p), - last_seen (p_acc p))"

definition trim_pending :: "review \<Rightarrow> review" where
  "trim_pending s =
     (if length (proposals s) \<le> max_pending then s
      else s\<lparr>proposals := fold (\<lambda>p. ddel (p_id p))
              (take (length (proposals s) - max_pending) (sort_key strength (map snd (proposals s))))
              (proposals s)\<rparr>)"

subsection \<open>Ingest\<close>

datatype outcome = Folded string | Proposed string | Updated string | Suppressed

definition in_reach :: "real \<Rightarrow> ('o \<times> real) option \<Rightarrow> 'o option" where
  "in_reach r near = (case near of None \<Rightarrow> None | Some (ob, d) \<Rightarrow> if d \<le> r then Some ob else None)"

definition suggest :: "real \<Rightarrow> (entity \<times> real) option \<Rightarrow> proposal \<Rightarrow> proposal" where
  "suggest r near p = (case near of None \<Rightarrow> p
     | Some (e, d) \<Rightarrow> if d \<le> r then p\<lparr>p_suggest := JStr (e_id e), p_distance := Some d\<rparr> else p)"

definition observe :: "real \<Rightarrow> string \<Rightarrow> string \<Rightarrow> real \<Rightarrow> real \<Rightarrow> real \<Rightarrow> (real \<times> real) option \<Rightarrow> json
    \<Rightarrow> review \<Rightarrow> review \<times> outcome" where
  "observe now rid cls x y score obs img s =
     (let smp = \<lparr>s_robot = rid, s_x = x, s_y = y, s_score = score, s_t = now\<rparr>;
          near = nearest_entity s cls x y in
      if \<exists>z \<in> set (ignored s). zone_contains (cross_class s) cls x y z then (s, Suppressed)
      else case in_reach (same_radius s) near of
        Some e \<Rightarrow>
          (let e1 = e\<lparr>e_acc := fst (add_sighting smp obs (e_acc e))\<rparr>;
               e2 = (if truthy img then e1\<lparr>e_image := img\<rparr> else e1) in
           (s\<lparr>entities := dput (e_id e) e2 (entities s)\<rparr>, Folded (e_id e)))
      | None \<Rightarrow>
          (case in_reach (same_radius s) (nearest_proposal s cls x y) of
             Some p \<Rightarrow>
               (let p1 = p\<lparr>p_acc := fst (add_sighting smp obs (p_acc p))\<rparr>;
                    p2 = (if truthy img then p1\<lparr>p_image := img\<rparr> else p1);
                    p3 = suggest (ask_radius s) near p2 in
                (s\<lparr>proposals := dput (p_id p) p3 (proposals s)\<rparr>, Updated (p_id p)))
           | None \<Rightarrow>
               (let (pid, s1) = mint ''prop'' s;
                    fresh = \<lparr>p_id = pid, p_cls = cls, p_acc = fst (add_sighting smp obs empty_acc),
                             p_suggest = JNull, p_distance = None, p_image = img\<rparr>;
                    fresh = suggest (ask_radius s) near fresh in
                (trim_pending (s1\<lparr>proposals := dput pid fresh (proposals s1)\<rparr>), Proposed pid))))"

subsection \<open>Decisions\<close>

definition accept :: "string \<Rightarrow> review \<Rightarrow> review \<times> string option" where
  "accept pid s = (case dget (proposals s) pid of None \<Rightarrow> (s, None)
     | Some p \<Rightarrow> (let (eid, s1) = mint ''ent'' (s\<lparr>proposals := ddel pid (proposals s)\<rparr>) in
         (s1\<lparr>entities := dput eid \<lparr>e_id = eid, e_cls = p_cls p, e_acc = p_acc p, e_image = p_image p\<rparr>
                 (entities s1)\<rparr>, Some eid)))"

definition merge :: "string \<Rightarrow> string \<Rightarrow> review \<Rightarrow> review \<times> string option" where
  "merge pid eid s = (case (dget (proposals s) pid, dget (entities s) eid) of
     (Some p, Some e) \<Rightarrow>
       (if \<not> cross_class s \<and> p_cls p \<noteq> e_cls e then (s, None)
        else (let e1 = e\<lparr>e_acc := absorb (e_acc e) (p_acc p)\<rparr>;
                  e2 = (if truthy (p_image p) then e1\<lparr>e_image := p_image p\<rparr> else e1) in
              (s\<lparr>proposals := ddel pid (proposals s), entities := dput eid e2 (entities s)\<rparr>, Some eid)))
   | _ \<Rightarrow> (s, None))"

definition ignore :: "string \<Rightarrow> review \<Rightarrow> review \<times> bool" where
  "ignore pid s = (case dget (proposals s) pid of None \<Rightarrow> (s, False)
     | Some p \<Rightarrow> (s\<lparr>proposals := ddel pid (proposals s),
         ignored := ignored s @ [\<lparr>z_cls = p_cls p, z_x = acc_x (p_acc p), z_y = acc_y (p_acc p),
                                  z_radius = ignore_radius s\<rparr>]\<rparr>, True))"

definition forget :: "string \<Rightarrow> review \<Rightarrow> review \<times> bool" where
  "forget eid s = (s\<lparr>entities := ddel eid (entities s)\<rparr>, dget (entities s) eid \<noteq> None)"

definition forget_proposal :: "string \<Rightarrow> review \<Rightarrow> review \<times> bool" where
  "forget_proposal pid s = (s\<lparr>proposals := ddel pid (proposals s)\<rparr>, dget (proposals s) pid \<noteq> None)"

definition forget_all :: "bool \<Rightarrow> review \<Rightarrow> review \<times> nat" where
  "forget_all props s =
     (if props then (s\<lparr>entities := [], proposals := []\<rparr>, length (entities s) + length (proposals s))
      else (s\<lparr>entities := []\<rparr>, length (entities s)))"

definition clear_proposals :: "review \<Rightarrow> review \<times> nat" where
  "clear_proposals s = (s\<lparr>proposals := []\<rparr>, length (proposals s))"

definition delete_all :: "review \<Rightarrow> review \<times> nat" where
  "delete_all s = (s\<lparr>entities := [], proposals := []\<rparr>, length (entities s) + length (proposals s))"

definition clear_ignored :: "review \<Rightarrow> review \<times> nat" where
  "clear_ignored s = (s\<lparr>ignored := []\<rparr>, length (ignored s))"

definition reset :: "review \<Rightarrow> review" where
  "reset s = s\<lparr>entities := [], proposals := [], ignored := []\<rparr>"

definition drop_classes :: "string set option \<Rightarrow> review \<Rightarrow> review" where
  "drop_classes allowed s = (case allowed of None \<Rightarrow> s
     | Some cs \<Rightarrow> s\<lparr>entities := filter (\<lambda>(k, e). e_cls e \<in> cs) (entities s),
                     proposals := filter (\<lambda>(k, p). p_cls p \<in> cs) (proposals s),
                     ignored := filter (\<lambda>z. z_cls z \<in> cs) (ignored s)\<rparr>)"

text \<open>The number at the end of an id, as the loader reads it.\<close>

definition id_tail :: "string \<Rightarrow> string" where
  "id_tail k = rev (takeWhile (\<lambda>c. c \<noteq> CHR ''_'') (rev k))"

definition id_number :: "string \<Rightarrow> int" where
  "id_number k = (if all_digits (id_tail k) then int (val_dec (id_tail k)) else 0)"

subsection \<open>The review store as a machine\<close>

text \<open>What the server does to the store, as events; the file is loaded once, before (\<open>Review_File\<close>).\<close>

datatype review_event =
    Observe real string string real real real "(real \<times> real) option" json
  | Accept string | Merge string string | Ignore string
  | Forget string | Forget_Proposal string | Forget_All bool
  | Clear_Proposals | Delete_All | Clear_Ignored | Reset
  | Drop_Classes "string set option" | Set_Radii real real bool

fun review_step :: "review_event \<Rightarrow> review \<Rightarrow> review" where
  "review_step (Observe now rid cls x y score obs img) s = fst (observe now rid cls x y score obs img s)"
| "review_step (Accept pid) s = fst (accept pid s)"
| "review_step (Merge pid eid) s = fst (merge pid eid s)"
| "review_step (Ignore pid) s = fst (ignore pid s)"
| "review_step (Forget eid) s = fst (forget eid s)"
| "review_step (Forget_Proposal pid) s = fst (forget_proposal pid s)"
| "review_step (Forget_All props) s = fst (forget_all props s)"
| "review_step Clear_Proposals s = fst (clear_proposals s)"
| "review_step Delete_All s = fst (delete_all s)"
| "review_step Clear_Ignored s = fst (clear_ignored s)"
| "review_step Reset s = reset s"
| "review_step (Drop_Classes cs) s = drop_classes cs s"
| "review_step (Set_Radii same ask cross) s = s\<lparr>same_radius := same, ask_radius := ask, cross_class := cross\<rparr>"

definition acc_ok :: "accum \<Rightarrow> bool" where
  "acc_ok a = (1 \<le> count a \<and> length (samples a) \<le> max_samples \<and> finite (seen_by a) \<and> wf_dict (viewpoints a))"

text \<open>A dictionary of objects, each under its own id, with its number below the counter.\<close>

definition filed :: "('o \<Rightarrow> string) \<Rightarrow> ('o \<Rightarrow> accum) \<Rightarrow> int \<Rightarrow> (string, 'o) dict \<Rightarrow> bool" where
  "filed id_of acc_of n d = (wf_dict d \<and>
     (\<forall>k v. dget d k = Some v \<longrightarrow> id_of v = k \<and> id_number k < n \<and> acc_ok (acc_of v)))"

definition store_ok :: "review \<Rightarrow> bool" where
  "store_ok s = (1 \<le> next_id s \<and> filed e_id e_acc (next_id s) (entities s)
                 \<and> filed p_id p_acc (next_id s) (proposals s))"

definition review_within :: "nat \<Rightarrow> review \<Rightarrow> bool" where
  "review_within n s = (store_ok s \<and> length (proposals s) \<le> n)"

definition review_ok :: "review \<Rightarrow> bool" where
  "review_ok s = review_within max_pending s"

lemma review_ok_store: "review_ok s \<Longrightarrow> store_ok s"
  by (simp add: review_ok_def review_within_def)

lemma filed_nil [simp]: "filed id_of acc_of n []"
  by (simp add: filed_def)

lemma filed_dput:
  "filed id_of acc_of n d \<Longrightarrow> id_of v = k \<Longrightarrow> id_number k < n \<Longrightarrow> acc_ok (acc_of v) \<Longrightarrow>
   filed id_of acc_of n (dput k v d)"
  by (auto simp: filed_def dict_simps)

lemma filed_ddel: "filed id_of acc_of n d \<Longrightarrow> filed id_of acc_of n (ddel k d)"
  by (auto simp: filed_def dict_simps split: if_splits)

lemma dget_filter: "wf_dict d \<Longrightarrow> dget (filter P d) k = Some v \<Longrightarrow> dget d k = Some v"
  using wf_dict_filter [of d P] by (auto simp flip: wf_dict_dget)

lemma filed_filter: "filed id_of acc_of n d \<Longrightarrow> filed id_of acc_of n (filter P d)"
  unfolding filed_def using dget_filter [of d P] wf_dict_filter [of d P] by blast

lemma filed_mono: "filed id_of acc_of n d \<Longrightarrow> n \<le> m \<Longrightarrow> filed id_of acc_of m d"
  by (fastforce simp: filed_def)

lemma filedD:
  "filed id_of acc_of n d \<Longrightarrow> dget d k = Some v \<Longrightarrow> id_of v = k \<and> id_number k < n \<and> acc_ok (acc_of v)"
  by (simp add: filed_def)

lemma filed_member:
  "filed id_of acc_of n d \<Longrightarrow> v \<in> snd ` set d \<Longrightarrow> dget d (id_of v) = Some v \<and> id_number (id_of v) < n \<and> acc_ok (acc_of v)"
  unfolding filed_def by (auto simp: wf_dict_dget)

lemma id_number_mint: "0 \<le> n \<Longrightarrow> id_number (p @ ''_'' @ dec_int n) = n"
proof -
  assume n: "0 \<le> n"
  have "list_all is_digit (dec (nat n))" using all_digits_dec [of "nat n"] by (simp add: all_digits_def)
  then have "\<forall>c \<in> set (rev (dec (nat n))). c \<noteq> CHR ''_''"
    by (auto simp: list_all_iff is_digit_def)
  then have "takeWhile (\<lambda>c. c \<noteq> CHR ''_'') (rev (dec (nat n)) @ rest) = rev (dec (nat n)) @ takeWhile (\<lambda>c. c \<noteq> CHR ''_'') rest" for rest
    by (intro takeWhile_append2) blast
  then have "id_tail (p @ ''_'' @ dec (nat n)) = dec (nat n)"
    by (simp add: id_tail_def)
  then show ?thesis using n by (simp add: id_number_def dec_int_def)
qed

subsection \<open>Accumulators\<close>

lemma length_last_n [simp]: "length (last_n n xs) = min n (length xs)"
  by (simp add: last_n_def)

lemma add_sighting_ok [step_inv]:
  assumes "acc_ok a" shows "acc_ok (fst (add_sighting smp obs a))"
  using assms by (auto simp: add_sighting_def acc_ok_def Let_def max_samples_def split: option.split)

lemma first_sighting_ok [step_inv]: "acc_ok (fst (add_sighting smp obs empty_acc))"
  by (auto simp: add_sighting_def acc_ok_def empty_acc_def Let_def max_samples_def wf_dict_def split: option.split)

lemma wf_dict_fold_dput: "wf_dict d \<Longrightarrow> wf_dict (fold (\<lambda>(k, v). dput k v) kvs d)"
  by (induction kvs arbitrary: d) auto

lemma absorb_ok [step_inv]: "acc_ok a \<Longrightarrow> acc_ok b \<Longrightarrow> acc_ok (absorb a b)"
  by (auto simp: absorb_def acc_ok_def wf_dict_fold_dput)

subsection \<open>The nearest object\<close>

definition eligible :: "('o \<Rightarrow> string) \<Rightarrow> bool \<Rightarrow> string \<Rightarrow> 'o \<Rightarrow> bool" where
  "eligible cls_of cross cls ob = (cross \<or> cls_of ob = cls)"

definition best_among :: "('o \<Rightarrow> string) \<Rightarrow> ('o \<Rightarrow> accum) \<Rightarrow> bool \<Rightarrow> string \<Rightarrow> real \<Rightarrow> real
    \<Rightarrow> 'o set \<Rightarrow> ('o \<times> real) option \<Rightarrow> bool" where
  "best_among cls_of acc_of cross cls x y S best = (case best of
      None \<Rightarrow> \<forall>ob \<in> S. \<not> eligible cls_of cross cls ob
    | Some (b, bd) \<Rightarrow> b \<in> S \<and> eligible cls_of cross cls b \<and> bd = away acc_of x y b
        \<and> (\<forall>ob \<in> S. eligible cls_of cross cls ob \<longrightarrow> bd \<le> away acc_of x y ob))"

lemma closer_best:
  assumes "best_among cls_of acc_of cross cls x y S best"
  shows "best_among cls_of acc_of cross cls x y (insert ob S) (closer cls_of acc_of cross cls x y ob best)"
proof (cases "eligible cls_of cross cls ob")
  case False
  then show ?thesis
    using assms by (auto simp: closer_def eligible_def best_among_def split: option.splits)
next
  case True
  then have skip: "\<not> (\<not> cross \<and> cls_of ob \<noteq> cls)" by (simp add: eligible_def)
  show ?thesis
  proof (cases best)
    case None
    then show ?thesis using assms True skip by (auto simp: closer_def best_among_def)
  next
    case (Some q)
    obtain b bd where q: "q = (b, bd)" by (cases q)
    show ?thesis
      using assms True skip unfolding Some q closer_def best_among_def
      by (cases "away acc_of x y ob < bd") (auto intro: order_trans less_imp_le)
  qed
qed

lemma fold_closer:
  "best_among cls_of acc_of cross cls x y S best \<Longrightarrow>
   best_among cls_of acc_of cross cls x y (S \<union> set obs) (fold (closer cls_of acc_of cross cls x y) obs best)"
  using closer_best by (induction obs arbitrary: S best) fastforce+

lemma nearest_spec:
  "best_among cls_of acc_of cross cls x y (set obs) (nearest cls_of acc_of cross cls x y obs)"
  unfolding nearest_def
  by (rule fold_closer [where S = "{}", simplified]) (simp add: best_among_def)

lemma in_reach_Some:
  "in_reach r (nearest cls_of acc_of cross cls x y obs) = Some ob \<Longrightarrow>
   ob \<in> set obs \<and> eligible cls_of cross cls ob \<and> away acc_of x y ob \<le> r
   \<and> (\<forall>o' \<in> set obs. eligible cls_of cross cls o' \<longrightarrow> away acc_of x y ob \<le> away acc_of x y o')"
  using nearest_spec [where obs = obs and cls_of = cls_of and cross = cross and cls = cls and acc_of = acc_of and x = x and y = y]
  by (auto simp: in_reach_def best_among_def split: option.splits if_splits)

lemma in_reach_None:
  "in_reach r (nearest cls_of acc_of cross cls x y obs) = None \<Longrightarrow> ob \<in> set obs \<Longrightarrow>
   eligible cls_of cross cls ob \<Longrightarrow> r < away acc_of x y ob"
  using nearest_spec [where obs = obs and cls_of = cls_of and cross = cross and cls = cls and acc_of = acc_of and x = x and y = y]
  by (force simp: in_reach_def best_among_def split: option.splits if_splits)

subsection \<open>Pending proposals are bounded\<close>

lemma filed_ids: "filed id_of acc_of n d \<Longrightarrow> map (id_of \<circ> snd) d = map fst d"
  by (auto simp: filed_def wf_dict_dget [symmetric])

lemma fold_ddel: "fold (\<lambda>p. ddel (f p)) ps d = filter (\<lambda>(k, v). k \<notin> f ` set ps) d"
proof (induction ps arbitrary: d)
  case Nil
  then show ?case by simp
next
  case (Cons p ps)
  have "ddel (f p) d = filter (\<lambda>(k, v). k \<noteq> f p) d"
    unfolding AList.delete_eq by (rule filter_cong) auto
  with Cons show ?case by (simp add: conj_commute split_beta)
qed

definition weakest :: "(string, proposal) dict \<Rightarrow> proposal list" where
  "weakest d = take (length d - max_pending) (sort_key strength (map snd d))"

lemma trim_pending_filter:
  "proposals (trim_pending s) = filter (\<lambda>(k, p). k \<notin> p_id ` set (weakest (proposals s))) (proposals s)"
proof (cases "length (proposals s) \<le> max_pending")
  case True
  then show ?thesis by (simp add: trim_pending_def weakest_def)
next
  case False
  then show ?thesis unfolding trim_pending_def weakest_def by (simp add: fold_ddel)
qed

lemma weakest_subset: "set (weakest d) \<subseteq> snd ` set d"
  unfolding weakest_def by (auto dest!: in_set_takeD)

lemma length_trim:
  assumes "filed p_id p_acc n d"
  shows "length (filter (\<lambda>(k, p). k \<notin> p_id ` set (weakest d)) d) = min max_pending (length d)"
proof -
  have ids: "map (p_id \<circ> snd) d = map fst d" by (rule filed_ids [OF assms])
  have dist: "distinct (map fst d)" using assms by (simp add: filed_def wf_dict_def)
  have dmap: "distinct (map p_id (map snd d))" using dist by (simp only: map_map ids)
  have perm: "mset (map p_id (sort_key strength (map snd d))) = mset (map p_id (map snd d))"
    by (simp only: mset_map mset_sort)
  have dsort: "distinct (map p_id (sort_key strength (map snd d)))"
    using dmap perm by (metis mset_eq_imp_distinct_iff)
  then have dweak: "distinct (map p_id (weakest d))"
    unfolding weakest_def by (simp add: take_map [symmetric])
  have sub: "p_id ` set (weakest d) \<subseteq> fst ` set d"
  proof
    fix k assume "k \<in> p_id ` set (weakest d)"
    then obtain p where "p \<in> set (weakest d)" "k = p_id p" by blast
    then have "k \<in> set (map (p_id \<circ> snd) d)" using weakest_subset [of d] by auto
    then show "k \<in> fst ` set d" unfolding ids by simp
  qed
  have "length (filter (\<lambda>q. fst q \<notin> p_id ` set (weakest d)) d)
      = length (filter (\<lambda>k. k \<notin> p_id ` set (weakest d)) (map fst d))"
    by (simp add: filter_map o_def)
  also have "\<dots> = card (set (filter (\<lambda>k. k \<notin> p_id ` set (weakest d)) (map fst d)))"
    using dist by (simp add: distinct_card del: set_filter)
  also have "set (filter (\<lambda>k. k \<notin> p_id ` set (weakest d)) (map fst d)) = fst ` set d - p_id ` set (weakest d)"
    by auto
  also have "card \<dots> = card (fst ` set d) - card (p_id ` set (weakest d))"
    using sub by (simp add: card_Diff_subset)
  also have "card (fst ` set d) = length d"
    using dist by (metis distinct_card length_map set_map)
  also have "card (p_id ` set (weakest d)) = length d - max_pending"
    using dweak by (metis (no_types, lifting) distinct_card length_map set_map weakest_def length_take
      length_sort min.absorb2 diff_le_self)
  finally show ?thesis by (simp add: case_prod_unfold)
qed

lemma trim_pending_ok [step_inv]:
  assumes "store_ok s" shows "review_ok (trim_pending s)"
proof -
  have f: "filed p_id p_acc (next_id s) (proposals s)" using assms by (simp add: store_ok_def)
  have "next_id (trim_pending s) = next_id s" "entities (trim_pending s) = entities s"
    by (simp_all add: trim_pending_def)
  then show ?thesis
    using assms length_trim [OF f]
    by (simp add: review_ok_def review_within_def store_ok_def trim_pending_filter filed_filter)
qed

subsection \<open>Every operation keeps the store well formed\<close>

lemma store_ok_entities:
  "store_ok s \<Longrightarrow> filed e_id e_acc (next_id s) d \<Longrightarrow> store_ok (s\<lparr>entities := d\<rparr>)"
  by (simp add: store_ok_def)

lemma store_ok_proposals:
  "store_ok s \<Longrightarrow> filed p_id p_acc (next_id s) d \<Longrightarrow> store_ok (s\<lparr>proposals := d\<rparr>)"
  by (simp add: store_ok_def)

lemma store_okD:
  assumes "store_ok s"
  shows "1 \<le> next_id s" "filed e_id e_acc (next_id s) (entities s)" "filed p_id p_acc (next_id s) (proposals s)"
  using assms by (simp_all add: store_ok_def)

lemma mint_ok:
  assumes "store_ok s" and "mint prefix s = (k, s')"
  shows "store_ok s'" "id_number k = next_id s" "id_number k < next_id s'" "entities s' = entities s"
    "proposals s' = proposals s" "next_id s' = next_id s + 1"
  using assms id_number_mint [of "next_id s" prefix]
  by (auto simp: mint_def store_ok_def intro: filed_mono)

lemma suggest_id [simp]:
  "p_id (suggest r near p) = p_id p" "p_acc (suggest r near p) = p_acc p" "p_cls (suggest r near p) = p_cls p"
  "p_image (suggest r near p) = p_image p"
  by (simp_all add: suggest_def split: option.split prod.split)

lemma length_dput_known: "dget d k \<noteq> None \<Longrightarrow> length (dput k v d) = length d"
  by (induction d) auto

lemma observe_cases:
  fixes now rid cls x y score obs img s
  defines "res \<equiv> observe now rid cls x y score obs img s"
    and "zone \<equiv> \<exists>z \<in> set (ignored s). zone_contains (cross_class s) cls x y z"
    and "ent \<equiv> in_reach (same_radius s) (nearest_entity s cls x y)"
    and "pend \<equiv> in_reach (same_radius s) (nearest_proposal s cls x y)"
    and "more_of \<equiv> \<lambda>a. fst (add_sighting \<lparr>s_robot = rid, s_x = x, s_y = y, s_score = score, s_t = now\<rparr> obs a)"
  obtains (zone) "zone" "res = (s, Suppressed)"
  | (fold) e e2 where "\<not> zone" "ent = Some e" "e_id e2 = e_id e" "e_acc e2 = more_of (e_acc e)"
      "res = (s\<lparr>entities := dput (e_id e) e2 (entities s)\<rparr>, Folded (e_id e))"
  | (upd) p p2 where "\<not> zone" "ent = None" "pend = Some p" "p_id p2 = p_id p" "p_acc p2 = more_of (p_acc p)"
      "res = (s\<lparr>proposals := dput (p_id p) p2 (proposals s)\<rparr>, Updated (p_id p))"
  | (new) k s1 p where "\<not> zone" "ent = None" "pend = None" "mint ''prop'' s = (k, s1)" "p_id p = k"
      "p_acc p = more_of empty_acc"
      "res = (trim_pending (s1\<lparr>proposals := dput k p (proposals s1)\<rparr>), Proposed k)"
proof -
  obtain k s1 where m: "mint ''prop'' s = (k, s1)" by (cases "mint ''prop'' s")
  consider "zone" | e where "\<not> zone" "ent = Some e" | p where "\<not> zone" "ent = None" "pend = Some p"
    | "\<not> zone" "ent = None" "pend = None"
    by (cases ent; cases pend) blast+
  then show thesis
  proof cases
    case 1
    then show thesis by (intro that(1)) (simp_all add: res_def zone_def observe_def Let_def)
  next
    case (2 e)
    let ?e = "e\<lparr>e_acc := more_of (e_acc e)\<rparr>"
    from 2 show thesis
      by (intro that(2) [of e "if truthy img then ?e\<lparr>e_image := img\<rparr> else ?e"])
         (simp_all add: res_def zone_def ent_def more_of_def observe_def Let_def)
  next
    case (3 p)
    let ?p = "p\<lparr>p_acc := more_of (p_acc p)\<rparr>"
    from 3 show thesis
      by (intro that(3) [of p "suggest (ask_radius s) (nearest_entity s cls x y)
            (if truthy img then ?p\<lparr>p_image := img\<rparr> else ?p)"])
         (simp_all add: res_def zone_def ent_def pend_def more_of_def observe_def Let_def)
  next
    case 4
    let ?p = "suggest (ask_radius s) (nearest_entity s cls x y)
      \<lparr>p_id = k, p_cls = cls, p_acc = more_of empty_acc, p_suggest = JNull, p_distance = None, p_image = img\<rparr>"
    from 4 show thesis
      by (intro that(4) [of k s1 ?p])
         (simp_all add: res_def zone_def ent_def pend_def more_of_def observe_def Let_def m)
  qed
qed

lemma observe_targets:
  assumes "store_ok s"
  shows "in_reach r (nearest_entity s cls x y) = Some e \<Longrightarrow>
      e \<in> snd ` set (entities s) \<and> dget (entities s) (e_id e) = Some e \<and> id_number (e_id e) < next_id s
      \<and> acc_ok (e_acc e)"
    and "in_reach r (nearest_proposal s cls x y) = Some p \<Longrightarrow>
      p \<in> snd ` set (proposals s) \<and> dget (proposals s) (p_id p) = Some p \<and> id_number (p_id p) < next_id s
      \<and> acc_ok (p_acc p)"
proof -
  assume "in_reach r (nearest_entity s cls x y) = Some e"
  then have mem: "e \<in> snd ` set (entities s)"
    unfolding nearest_entity_def by (auto dest: in_reach_Some)
  with filed_member [OF store_okD(2) [OF assms] this]
  show "e \<in> snd ` set (entities s) \<and> dget (entities s) (e_id e) = Some e \<and> id_number (e_id e) < next_id s
      \<and> acc_ok (e_acc e)" by simp
next
  assume "in_reach r (nearest_proposal s cls x y) = Some p"
  then have mem: "p \<in> snd ` set (proposals s)"
    unfolding nearest_proposal_def by (auto dest: in_reach_Some)
  with filed_member [OF store_okD(3) [OF assms] this]
  show "p \<in> snd ` set (proposals s) \<and> dget (proposals s) (p_id p) = Some p \<and> id_number (p_id p) < next_id s
      \<and> acc_ok (p_acc p)" by simp
qed

lemma fresh_proposal_ok:
  assumes "store_ok s" and "mint ''prop'' s = (k, s1)" and "p_id p = k" and "acc_ok (p_acc p)"
  shows "store_ok (s1\<lparr>proposals := dput k p (proposals s1)\<rparr>)"
  using assms mint_ok [OF assms(1,2)] by (intro store_ok_proposals filed_dput store_okD) auto

lemma observe_ok [step_inv]:
  assumes "review_within n s" and "max_pending \<le> n"
  shows "review_within n (fst (observe now rid cls x y score obs img s))"
proof -
  have ok: "store_ok s" and len: "length (proposals s) \<le> n"
    using assms by (simp_all add: review_within_def)
  show ?thesis
  proof (cases rule: observe_cases [where now = now and rid = rid and cls = cls and x = x and y = y and score = score and obs = obs and img = img and s = s])
    case zone
    then show ?thesis using assms by simp
  next
    case (fold e e2)
    then show ?thesis
      using ok len observe_targets(1) [OF ok fold(2)]
      by (simp add: review_within_def store_ok_entities filed_dput store_okD add_sighting_ok)
  next
    case (upd p p2)
    then show ?thesis
      using ok len observe_targets(2) [OF ok upd(3)]
      by (simp add: review_within_def store_ok_proposals filed_dput store_okD add_sighting_ok length_dput_known)
  next
    case (new k s1 p)
    then show ?thesis
      using trim_pending_ok [OF fresh_proposal_ok [OF ok new(4,5)]] assms(2) by (simp add: first_sighting_ok review_ok_def review_within_def)
  qed
qed

lemma length_ddel: "length (ddel k d) \<le> length d"
  unfolding AList.delete_eq by simp

lemma accept_ok [step_inv]: "review_within n s \<Longrightarrow> review_within n (fst (accept pid s))"
proof -
  assume a: "review_within n s"
  note ok = a [unfolded review_within_def, THEN conjunct1] and len = a [unfolded review_within_def, THEN conjunct2]
  show ?thesis
  proof (cases "dget (proposals s) pid")
    case None
    then show ?thesis using a by (simp add: accept_def)
  next
    case (Some p)
    let ?s = "s\<lparr>proposals := ddel pid (proposals s)\<rparr>"
    have del: "store_ok ?s" by (intro store_ok_proposals ok filed_ddel store_okD)
    obtain k s1 where m: "mint ''ent'' ?s = (k, s1)" by (cases "mint ''ent'' ?s")
    note mk = mint_ok [OF del m]
    have "acc_ok (p_acc p)" using filedD [OF store_okD(3) [OF ok] Some] by simp
    then have "store_ok (s1\<lparr>entities := dput k \<lparr>e_id = k, e_cls = p_cls p, e_acc = p_acc p, e_image = p_image p\<rparr>
        (entities s1)\<rparr>)"
      by (intro store_ok_entities mk filed_dput store_okD) auto
    then show ?thesis
      using len length_ddel [of pid "proposals s"] mk(5)
      by (simp add: accept_def Some m review_within_def)
  qed
qed

lemma merge_ok [step_inv]: "review_within n s \<Longrightarrow> review_within n (fst (merge pid eid s))"
  using length_ddel [of pid "proposals s"] filedD [of e_id e_acc "next_id s" "entities s" eid]
    filedD [of p_id p_acc "next_id s" "proposals s" pid]
  by (auto simp: merge_def review_within_def store_ok_def absorb_ok Let_def
           intro!: filed_dput filed_ddel split: option.split)

lemma ignore_ok [step_inv]: "review_within n s \<Longrightarrow> review_within n (fst (ignore pid s))"
  using length_ddel [of pid "proposals s"]
  by (auto simp: ignore_def review_within_def store_ok_def filed_ddel split: option.split)

lemma removal_ok [step_inv]:
  "review_within n s \<Longrightarrow> review_within n (fst (forget eid s))"
  "review_within n s \<Longrightarrow> review_within n (fst (forget_proposal eid s))"
  "review_within n s \<Longrightarrow> review_within n (fst (forget_all props s))"
  "review_within n s \<Longrightarrow> review_within n (fst (clear_proposals s))"
  "review_within n s \<Longrightarrow> review_within n (fst (delete_all s))"
  "review_within n s \<Longrightarrow> review_within n (fst (clear_ignored s))"
  "review_within n s \<Longrightarrow> review_within n (reset s)"
  using length_ddel [of eid "proposals s"]
  by (auto simp: forget_def forget_proposal_def forget_all_def clear_proposals_def delete_all_def
        clear_ignored_def reset_def review_within_def store_ok_def filed_ddel)

lemma drop_classes_ok [step_inv]: "review_within n s \<Longrightarrow> review_within n (drop_classes cs s)"
  by (auto simp: drop_classes_def review_within_def store_ok_def filed_filter
           intro: le_trans [OF length_filter_le] split: option.split)

lemma review_step_within: "max_pending \<le> n \<Longrightarrow> review_within n s \<Longrightarrow> review_within n (review_step e s)"
  by (cases e) (simp_all add: step_inv, simp add: review_within_def store_ok_def)

lemma review_step_ok: "review_ok s \<Longrightarrow> review_ok (review_step e s)"
  by (simp add: review_ok_def review_step_within)

lemma review_step_next: "store_ok s \<Longrightarrow> next_id s \<le> next_id (review_step e s)"
  by (cases e)
     (auto simp: observe_def accept_def merge_def ignore_def forget_def forget_proposal_def forget_all_def
        clear_proposals_def delete_all_def clear_ignored_def reset_def drop_classes_def trim_pending_def
        mint_def Let_def split: option.split)

interpretation rev: generation_machine review_step "\<lambda>_. True" review_ok "\<lambda>s. nat (next_id s)"
  by unfold_locales (auto intro: review_step_ok nat_mono review_step_next review_ok_store)

interpretation within: machine review_step "\<lambda>_. True" "\<lambda>s. max_pending \<le> n \<and> review_within n s" for n
  by unfold_locales (simp add: review_step_within)

lemma new_review_ok: "review_ok new_review"
  by (simp add: review_ok_def review_within_def store_ok_def new_review_def)

subsection \<open>Trimming\<close>

lemma trim_subset: "dget (proposals (trim_pending s)) k = Some p \<Longrightarrow> store_ok s \<Longrightarrow> dget (proposals s) k = Some p"
  unfolding trim_pending_filter by (rule dget_filter) (simp add: store_ok_def filed_def)

lemma weakest_le:
  assumes "p \<in> set (weakest d)" and "q \<in> snd ` set d" and "q \<notin> set (weakest d)"
  shows "strength p \<le> strength q"
proof -
  let ?xs = "sort_key strength (map snd d)" and ?n = "length d - max_pending"
  have "set (take ?n ?xs) \<union> set (drop ?n ?xs) = snd ` set d"
    by (simp only: set_append [symmetric] append_take_drop_id set_sort set_map)
  then have q: "q \<in> set (drop ?n ?xs)" using assms(2,3) unfolding weakest_def by blast
  have "sorted (map strength (take ?n ?xs @ drop ?n ?xs))"
    by (simp only: append_take_drop_id sorted_sort_key)
  then show ?thesis using assms(1) q by (auto simp: sorted_append weakest_def simp del: append_take_drop_id)
qed

lemma trim_keeps:
  assumes "store_ok s"
  shows "length (proposals (trim_pending s)) = min 32 (length (proposals s))"
    and "dget (proposals (trim_pending s)) k = Some q \<Longrightarrow> dget (proposals s) k = Some q"
    and "dget (proposals s) j = Some p \<Longrightarrow> dget (proposals (trim_pending s)) j = None \<Longrightarrow>
         dget (proposals (trim_pending s)) k = Some q \<Longrightarrow> strength p \<le> strength q"
proof -
  note f = store_okD(3) [OF assms]
  show "length (proposals (trim_pending s)) = min 32 (length (proposals s))"
    using length_trim [OF f] by (simp add: trim_pending_filter max_pending_def)
  show "dget (proposals (trim_pending s)) k = Some q \<Longrightarrow> dget (proposals s) k = Some q"
    by (rule trim_subset [OF _ assms])
  assume p: "dget (proposals s) j = Some p" "dget (proposals (trim_pending s)) j = None"
    and q: "dget (proposals (trim_pending s)) k = Some q"
  have wf: "wf_dict (proposals s)" using f by (simp add: filed_def)
  have ids: "p_id p = j" "p_id q = k" using filedD [OF f] p(1) trim_subset [OF q assms] by blast+
  have kept: "dget (proposals (trim_pending s)) i = (if i \<in> p_id ` set (weakest (proposals s)) then None
      else dget (proposals s) i)" for i
    unfolding trim_pending_filter
    using dget_filter_fst [of "\<lambda>i. i \<notin> p_id ` set (weakest (proposals s))" "proposals s" i]
    by (simp add: case_prod_unfold)
  have "j \<in> p_id ` set (weakest (proposals s))" using p kept [of j] by (auto split: if_splits)
  then obtain p' where p': "p' \<in> set (weakest (proposals s))" "p_id p' = j" by blast
  then have "p' = p"
    using filed_member [OF f] weakest_subset p(1) by fastforce
  moreover have "q \<notin> set (weakest (proposals s))" using q kept [of k] ids by (auto split: if_splits)
  moreover have "q \<in> snd ` set (proposals s)"
    using trim_subset [OF q assms] wf by (force simp flip: wf_dict_dget)
  ultimately show "strength p \<le> strength q" using weakest_le p' by blast
qed

text \<open>Trimming the queue leaves the lesser of 32 and the number of proposals, changes none
  of those it leaves, and never drops a proposal that is stronger (better score, then more
  observations, then seen longer ago) than one it keeps.\<close>

lemma trim_keeps_strongest:
  assumes "store_ok s"
  shows "length (proposals (trim_pending s)) = min 32 (length (proposals s))
    \<and> (\<forall>k q. dget (proposals (trim_pending s)) k = Some q \<longrightarrow> dget (proposals s) k = Some q)
    \<and> (\<forall>j p k q. dget (proposals s) j = Some p \<longrightarrow> dget (proposals (trim_pending s)) j = None \<longrightarrow>
         dget (proposals (trim_pending s)) k = Some q \<longrightarrow> strength p \<le> strength q)"
  using trim_keeps [OF assms] by blast

definition crowd :: review where
  "crowd = (let s = fold (\<lambda>i. fst \<circ> observe 0 ''r1'' ''duck'' (real i * 9) 0 (real i / 50) None JNull)
                       [1..<40] new_review in s)"

lemma crowd_ok: "store_ok crowd"
proof -
  have "review_ok (fold (\<lambda>i. fst \<circ> observe 0 ''r1'' ''duck'' (real i * 9) 0 (real i / 50) None JNull) is s)"
    if "review_ok s" for "is" s
    using that by (induction "is" arbitrary: s) (simp_all add: observe_ok review_ok_def)
  from this [OF new_review_ok] show ?thesis by (simp add: crowd_def Let_def review_ok_def review_within_def)
qed

lemma trim_keeps_strongest_witness:
  "length (proposals (trim_pending crowd)) = min 32 (length (proposals crowd))"
  using trim_keeps_strongest [OF crowd_ok] by blast

lemma observe_outcome:
  assumes ok: "store_ok s" and step: "observe now rid cls x y score obs img s = (s', out)"
  defines "zone \<equiv> \<exists>z \<in> set (ignored s). zone_contains (cross_class s) cls x y z"
    and "ent \<equiv> \<lambda>e. e \<in> snd ` set (entities s) \<and> eligible e_cls (cross_class s) cls e
           \<and> away e_acc x y e \<le> same_radius s"
    and "prop \<equiv> \<lambda>p. p \<in> snd ` set (proposals s) \<and> eligible p_cls (cross_class s) cls p
           \<and> away p_acc x y p \<le> same_radius s"
  shows "case out of
      Suppressed \<Rightarrow> zone \<and> s' = s
    | Folded k \<Rightarrow> \<not> zone \<and> proposals s' = proposals s \<and> (\<exists>e. dget (entities s) k = Some e \<and> ent e
        \<and> (\<forall>e'. ent e' \<longrightarrow> away e_acc x y e \<le> away e_acc x y e'))
    | Updated k \<Rightarrow> \<not> zone \<and> (\<nexists>e. ent e) \<and> entities s' = entities s
        \<and> (\<exists>p. dget (proposals s) k = Some p \<and> prop p \<and> (\<forall>p'. prop p' \<longrightarrow> away p_acc x y p \<le> away p_acc x y p'))
    | Proposed k \<Rightarrow> \<not> zone \<and> (\<nexists>e. ent e) \<and> (\<nexists>p. prop p) \<and> entities s' = entities s
        \<and> dget (proposals s) k = None"
proof -
  note near = nearest_entity_def nearest_proposal_def
  have noent: "\<nexists>e. ent e" if "in_reach (same_radius s) (nearest_entity s cls x y) = None"
    using in_reach_None [OF that [unfolded near]] by (force simp: ent_def)
  have noprop: "\<nexists>p. prop p" if "in_reach (same_radius s) (nearest_proposal s cls x y) = None"
    using in_reach_None [OF that [unfolded near]] by (force simp: prop_def)
  show ?thesis
  proof (cases rule: observe_cases [where now = now and rid = rid and cls = cls and x = x and y = y and score = score and obs = obs and img = img and s = s])
    case zone
    then show ?thesis using step by (simp add: zone_def)
  next
    case (fold e e2)
    have "ent e \<and> (\<forall>e'. ent e' \<longrightarrow> away e_acc x y e \<le> away e_acc x y e')"
      using in_reach_Some [OF fold(2) [unfolded near]] by (auto simp: ent_def)
    then show ?thesis using fold(1,5) step observe_targets(1) [OF ok fold(2)] by (auto simp: zone_def)
  next
    case (upd p p2)
    have "prop p \<and> (\<forall>p'. prop p' \<longrightarrow> away p_acc x y p \<le> away p_acc x y p')"
      using in_reach_Some [OF upd(3) [unfolded near]] by (auto simp: prop_def)
    then show ?thesis
      using upd(1,6) step noent [OF upd(2)] observe_targets(2) [OF ok upd(3)] by (auto simp: zone_def)
  next
    case (new k s1 p)
    have "id_number k = next_id s" by (rule mint_ok(2) [OF ok new(4)])
    then have "dget (proposals s) k = None"
      using filedD [OF store_okD(3) [OF ok], of k] by (cases "dget (proposals s) k") auto
    moreover have "out = Proposed k" "entities s' = entities s"
      using step new(7) mint_ok(4) [OF ok new(4)] by (auto simp: trim_pending_def)
    ultimately show ?thesis using new(1) noent [OF new(2)] noprop [OF new(3)] by (simp add: zone_def)
  qed
qed

end
