(* ===== verification/Review_Contract.thy ===== *)
theory Review_Contract
  imports Review
begin

text \<open>
  What the review store promises the operator: how a sighting is routed, that an answer to a
  proposal that is gone is refused for ever, that an ignored spot stays quiet, and that a
  marker sits at the mean of the evidence that counts.
\<close>

subsection \<open>Routing\<close>

text \<open>A sighting is dropped exactly in an ignored zone; otherwise it is folded into a
  nearest confirmed object of its class when one lies within the same-object radius; otherwise
  it updates a nearest pending proposal within that radius; only when there is neither does it
  open a new proposal, under an id not in use. Confirmed objects change only by folding, and
  folding leaves the queue alone.\<close>

lemma observe_routes:
  assumes "store_ok s" and "observe now rid cls x y score obs img s = (s', out)"
  shows "case out of
      Suppressed \<Rightarrow> (\<exists>z \<in> set (ignored s). zone_contains (cross_class s) cls x y z) \<and> s' = s
    | Folded k \<Rightarrow> \<not> (\<exists>z \<in> set (ignored s). zone_contains (cross_class s) cls x y z)
        \<and> proposals s' = proposals s
        \<and> (\<exists>e. dget (entities s) k = Some e
             \<and> (e \<in> snd ` set (entities s) \<and> eligible e_cls (cross_class s) cls e
                \<and> away e_acc x y e \<le> same_radius s)
             \<and> (\<forall>e'. e' \<in> snd ` set (entities s) \<and> eligible e_cls (cross_class s) cls e'
                  \<and> away e_acc x y e' \<le> same_radius s \<longrightarrow> away e_acc x y e \<le> away e_acc x y e'))
    | Updated k \<Rightarrow> \<not> (\<exists>z \<in> set (ignored s). zone_contains (cross_class s) cls x y z)
        \<and> (\<nexists>e. e \<in> snd ` set (entities s) \<and> eligible e_cls (cross_class s) cls e
                \<and> away e_acc x y e \<le> same_radius s)
        \<and> entities s' = entities s
        \<and> (\<exists>p. dget (proposals s) k = Some p
             \<and> (p \<in> snd ` set (proposals s) \<and> eligible p_cls (cross_class s) cls p
                \<and> away p_acc x y p \<le> same_radius s)
             \<and> (\<forall>p'. p' \<in> snd ` set (proposals s) \<and> eligible p_cls (cross_class s) cls p'
                  \<and> away p_acc x y p' \<le> same_radius s \<longrightarrow> away p_acc x y p \<le> away p_acc x y p'))
    | Proposed k \<Rightarrow> \<not> (\<exists>z \<in> set (ignored s). zone_contains (cross_class s) cls x y z)
        \<and> (\<nexists>e. e \<in> snd ` set (entities s) \<and> eligible e_cls (cross_class s) cls e
                \<and> away e_acc x y e \<le> same_radius s)
        \<and> (\<nexists>p. p \<in> snd ` set (proposals s) \<and> eligible p_cls (cross_class s) cls p
                \<and> away p_acc x y p \<le> same_radius s)
        \<and> entities s' = entities s \<and> dget (proposals s) k = None"
  by (rule observe_outcome [OF assms])

definition two_ducks :: review where
  "two_ducks = fold review_step [Observe 1 ''r1'' ''duck'' 0 0 (9/10) None JNull, Accept ''prop_1''] new_review"

lemma two_ducks_review_ok: "review_ok two_ducks"
  unfolding two_ducks_def by (rule rev.inv_run) (simp_all add: new_review_ok)

lemma two_ducks_ok: "store_ok two_ducks"
  using two_ducks_review_ok by (rule review_ok_store)

lemma observe_routes_witness:
  "snd (observe 2 ''r2'' ''duck'' 3 0 (1/2) None JNull two_ducks) \<noteq> Suppressed"
proof
  assume sup: "snd (observe 2 ''r2'' ''duck'' 3 0 (1/2) None JNull two_ducks) = Suppressed"
  have "ignored two_ducks = []" by code_simp
  then show False
    using observe_routes [OF two_ducks_ok, of 2 "''r2''" "''duck''" 3 0 "1/2" None JNull
        "fst (observe 2 ''r2'' ''duck'' 3 0 (1/2) None JNull two_ducks)" Suppressed]
    by (simp add: sup prod_eq_iff)
qed

subsection \<open>Stale answers\<close>

text \<open>An id below the counter that is not pending.\<close>

definition dead :: "string \<Rightarrow> review \<Rightarrow> bool" where
  "dead pid s = (review_ok s \<and> id_number pid < next_id s \<and> dget (proposals s) pid = None)"

lemma observe_pending:
  assumes ok: "store_ok s" and "dget (proposals (fst (observe now rid cls x y score obs img s))) k \<noteq> None"
  shows "dget (proposals s) k \<noteq> None \<or> id_number k = next_id s"
proof (cases rule: observe_cases [where now = now and rid = rid and cls = cls and x = x and y = y and score = score and obs = obs and img = img and s = s])
  case (upd p p2)
  then show ?thesis
    using assms(2) observe_targets(2) [OF ok upd(3)] by (auto simp: dict_simps split: if_splits)
next
  case (new k' s1 p)
  have "store_ok (s1\<lparr>proposals := dput k' p (proposals s1)\<rparr>)"
    using fresh_proposal_ok [OF ok new(4,5)] new(6) by (simp add: first_sighting_ok)
  from trim_subset [OF _ this, of k] have "dget (dput k' p (proposals s1)) k \<noteq> None"
    using assms(2) new(7) by (cases "dget (proposals (fst (observe now rid cls x y score obs img s))) k") simp_all
  then show ?thesis
    using mint_ok(2,5) [OF ok new(4)] by (auto simp: dict_simps split: if_splits)
qed (use assms(2) in auto)

lemma dead_step: "dead pid s \<Longrightarrow> dead pid (review_step e s)"
proof -
  assume d: "dead pid s"
  have ok: "store_ok s" using d by (simp add: dead_def review_ok_store)
  have "dget (proposals (review_step e s)) pid = None"
  proof (cases e)
    case (Observe now rid cls x y score obs img)
    then show ?thesis
      using observe_pending [OF ok, of now rid cls x y score obs img pid] d
      by (cases "dget (proposals (fst (observe now rid cls x y score obs img s))) pid") (auto simp: dead_def)
  next
    case (Drop_Classes cs)
    then show ?thesis
      using d dget_filter [of "proposals s" _ pid] store_okD(3) [OF ok]
      by (cases "dget (proposals (review_step e s)) pid")
         (auto simp: drop_classes_def dead_def filed_def split: option.splits)
  qed (use d in \<open>auto simp: dead_def dict_simps accept_def merge_def ignore_def forget_def forget_proposal_def
      forget_all_def clear_proposals_def delete_all_def clear_ignored_def reset_def mint_def Let_def
      split: option.split\<close>)
  then show ?thesis
    using d review_step_ok [of s e] review_step_next [OF ok, of e] by (auto simp: dead_def)
qed

interpretation gone: machine review_step "\<lambda>_. True" "dead pid" for pid
  by unfold_locales (rule dead_step)

text \<open>C14: Once a proposal has been answered, dropped or trimmed, its id never comes back to
  name another object: whatever sightings and decisions follow, a stale dashboard that accepts,
  merges or ignores it changes nothing.\<close>

theorem stale_answer_refused:
  assumes "review_ok s" and "dget (proposals s) pid = None" and "id_number pid < next_id s"
  shows "accept pid (fold review_step es s) = (fold review_step es s, None)
    \<and> merge pid eid (fold review_step es s) = (fold review_step es s, None)
    \<and> ignore pid (fold review_step es s) = (fold review_step es s, False)"
proof -
  have "dead pid (fold review_step es s)"
    by (rule gone.inv_run) (simp_all add: list_all_def dead_def assms)
  then show ?thesis by (simp add: dead_def accept_def merge_def ignore_def)
qed

theorem stale_answer_refused_witness:
  "snd (accept ''prop_1'' (fold review_step [Observe 3 ''r2'' ''duck'' 7 7 (1/2) None JNull, Reset] two_ducks)) = None"
proof -
  have "dget (proposals two_ducks) ''prop_1'' = None" "id_number ''prop_1'' < next_id two_ducks"
    by code_simp+
  from stale_answer_refused [OF two_ducks_review_ok this] show ?thesis
    by (metis snd_conv)
qed

subsection \<open>Ignored spots\<close>

fun spares_zones :: "string \<Rightarrow> review_event \<Rightarrow> bool" where
  "spares_zones cls Clear_Ignored = False"
| "spares_zones cls Reset = False"
| "spares_zones cls (Drop_Classes (Some cs)) = (cls \<in> cs)"
| "spares_zones cls e = True"

definition quiet_at :: "string \<Rightarrow> real \<Rightarrow> real \<Rightarrow> review \<Rightarrow> bool" where
  "quiet_at cls x y s = (\<exists>z \<in> set (ignored s). z_cls z = cls \<and> hypot (x - z_x z) (y - z_y z) \<le> z_radius z)"

lemma observe_ignored [simp]: "ignored (fst (observe now rid cls x y score obs img s)) = ignored s"
  by (auto simp: observe_def Let_def mint_def trim_pending_def split: option.split)

interpretation quiet: machine review_step "spares_zones cls" "quiet_at cls x y" for cls x y
proof unfold_locales
  fix e s assume e: "spares_zones cls e" and q: "quiet_at cls x y s"
  show "quiet_at cls x y (review_step e s)"
  proof (cases e)
    case (Drop_Classes cs)
    with e q show ?thesis by (cases cs) (auto simp: quiet_at_def drop_classes_def)
  qed (use e q in \<open>auto simp: quiet_at_def accept_def merge_def ignore_def forget_def forget_proposal_def
      forget_all_def clear_proposals_def delete_all_def mint_def Let_def split: option.split\<close>)
qed

text \<open>After the operator ignores a proposal, sightings of its class within the ignore radius
  of where it stood are dropped without a trace, whatever happens in between, until the zones
  are cleared, the store is reset or the class is switched off.\<close>

lemma ignored_stays_quiet:
  assumes "dget (proposals s) pid = Some p"
    and "hypot (x - acc_x (p_acc p)) (y - acc_y (p_acc p)) \<le> ignore_radius s"
    and "list_all (spares_zones (p_cls p)) es"
  shows "observe now rid (p_cls p) x y score obs img (fold review_step es (fst (ignore pid s)))
    = (fold review_step es (fst (ignore pid s)), Suppressed)"
proof -
  have "quiet_at (p_cls p) x y (fst (ignore pid s))"
    using assms(1,2) by (simp add: quiet_at_def ignore_def)
  from quiet.inv_run [OF assms(3) this] show ?thesis
    by (auto simp: quiet_at_def observe_def Let_def zone_contains_def)
qed

definition one_cat :: review where
  "one_cat = fst (observe 1 ''r1'' ''cat'' 4 0 (9/10) None JNull new_review)"

lemma ignored_stays_quiet_witness:
  "snd (observe 5 ''r2'' ''cat'' 4 (1/2) 1 None JNull
     (fold review_step [Delete_All, Observe 2 ''r1'' ''cat'' 8 8 1 None JNull] (fst (ignore ''prop_1'' one_cat))))
   = Suppressed"
proof -
  have known: "dget (proposals one_cat) ''prop_1'' = Some (the (dget (proposals one_cat) ''prop_1''))"
    and cls: "p_cls (the (dget (proposals one_cat) ''prop_1'')) = ''cat''"
    and pos: "acc_x (p_acc (the (dget (proposals one_cat) ''prop_1''))) = 4"
      "acc_y (p_acc (the (dget (proposals one_cat) ''prop_1''))) = 0"
    and rad: "ignore_radius one_cat = 1"
    by code_simp+
  have "hypot (4 - acc_x (p_acc (the (dget (proposals one_cat) ''prop_1''))))
      (1/2 - acc_y (p_acc (the (dget (proposals one_cat) ''prop_1'')))) \<le> ignore_radius one_cat"
    unfolding pos rad by simp
  note quiet = ignored_stays_quiet [OF known this, unfolded cls]
  show ?thesis by (subst quiet) simp_all
qed

subsection \<open>Evidence\<close>

text \<open>The sightings that count: every one without an observer position, and those whose robot
  stands a quarter of a metre or more from where it last contributed.\<close>

definition moved :: "(string, real \<times> real) dict \<Rightarrow> string \<Rightarrow> real \<times> real \<Rightarrow> bool" where
  "moved vs rid p = (case dget vs rid of None \<Rightarrow> True
     | Some q \<Rightarrow> 1 / 4 \<le> hypot (fst p - fst q) (snd p - snd q))"

fun evidence :: "(string, real \<times> real) dict \<Rightarrow> (sample \<times> (real \<times> real) option) list \<Rightarrow> sample list" where
  "evidence vs [] = []"
| "evidence vs ((m, None) # obs) = m # evidence vs obs"
| "evidence vs ((m, Some p) # obs) =
     (if moved vs (s_robot m) p then m # evidence (dput (s_robot m) p vs) obs else evidence vs obs)"

definition accumulate :: "(sample \<times> (real \<times> real) option) list \<Rightarrow> accum \<Rightarrow> accum" where
  "accumulate obs a = fold (\<lambda>(m, p) a. fst (add_sighting m p a)) obs a"

lemma add_sighting_sums:
  "sum_x (fst (add_sighting m p a)) = sum_x a + sum_list (map s_x (evidence (viewpoints a) [(m, p)]))"
  "sum_y (fst (add_sighting m p a)) = sum_y a + sum_list (map s_y (evidence (viewpoints a) [(m, p)]))"
  "count (fst (add_sighting m p a)) = count a + int (length (evidence (viewpoints a) [(m, p)]))"
  "sightings (fst (add_sighting m p a)) = sightings a + 1"
  "evidence (viewpoints a) ((m, p) # obs)
     = evidence (viewpoints a) [(m, p)] @ evidence (viewpoints (fst (add_sighting m p a))) obs"
  by (cases p; auto simp: add_sighting_def Let_def moved_def min_viewpoint_move_def split: option.split)+

lemma accumulate_sums:
  "sum_x (accumulate obs a) = sum_x a + sum_list (map s_x (evidence (viewpoints a) obs))
   \<and> sum_y (accumulate obs a) = sum_y a + sum_list (map s_y (evidence (viewpoints a) obs))
   \<and> count (accumulate obs a) = count a + int (length (evidence (viewpoints a) obs))
   \<and> sightings (accumulate obs a) = sightings a + int (length obs)"
proof (induction obs arbitrary: a)
  case Nil
  then show ?case by (simp add: accumulate_def)
next
  case (Cons q obs)
  obtain m p where q: "q = (m, p)" by (cases q)
  have "accumulate (q # obs) a = accumulate obs (fst (add_sighting m p a))"
    by (simp add: accumulate_def q)
  then show ?case
    unfolding q add_sighting_sums(5) [where a = a and m = m and p = p and obs = obs]
    using Cons.IH [of "fst (add_sighting m p a)"] add_sighting_sums(1-4) [of m p a]
    by (simp add: algebra_simps)
qed

text \<open>An object's marker is the mean of the sightings that count, all of them and only them,
  with no window: a sighting counts when it comes without an observer position or from a robot
  that has moved at least a quarter of a metre since it last counted.\<close>

lemma centroid_is_mean:
  assumes "evidence [] obs \<noteq> []"
  shows "acc_x (accumulate obs empty_acc)
      = sum_list (map s_x (evidence [] obs)) / real (length (evidence [] obs))
    \<and> acc_y (accumulate obs empty_acc)
      = sum_list (map s_y (evidence [] obs)) / real (length (evidence [] obs))
    \<and> sightings (accumulate obs empty_acc) = int (length obs)"
  using assms accumulate_sums [of obs empty_acc]
  by (simp add: acc_x_def acc_y_def empty_acc_def)

definition sight :: "string \<Rightarrow> real \<Rightarrow> sample" where
  "sight rid x = \<lparr>s_robot = rid, s_x = x, s_y = 0, s_score = 1, s_t = 1\<rparr>"

lemma centroid_is_mean_witness:
  "acc_x (accumulate [(sight ''a'' 1, Some (0, 0)), (sight ''a'' 9, Some (0, 0)), (sight ''b'' 3, Some (5, 0))]
     empty_acc) = 2"
proof -
  let ?obs = "[(sight ''a'' 1, Some (0, 0)), (sight ''a'' 9, Some (0, 0)), (sight ''b'' 3, Some (5, 0))]"
  have "evidence [] ?obs = [sight ''a'' 1, sight ''b'' 3]" by (simp add: moved_def sight_def)
  with centroid_is_mean [of ?obs] show ?thesis by (simp add: sight_def)
qed

definition stays :: "string \<Rightarrow> real \<times> real \<Rightarrow> sample \<times> (real \<times> real) option \<Rightarrow> bool" where
  "stays rid q ob = (s_robot (fst ob) = rid \<and> snd ob \<noteq> None
     \<and> hypot (fst (the (snd ob)) - fst q) (snd (the (snd ob)) - snd q) < 1 / 4)"

lemma parked_evidence:
  assumes "dget vs rid = Some q"
    and "list_all (stays rid q) obs"
  shows "evidence vs obs = []"
  using assms(2)
proof (induction obs)
  case (Cons o1 obs)
  then show ?case using assms(1) by (cases o1) (auto simp: moved_def stays_def)
qed simp

text \<open>A robot that stays within a quarter of a metre of where it stood when it last moved a
  marker cannot move it again, however many frames it sends; they only count as sightings.\<close>

lemma parked_robot_moves_nothing:
  assumes "dget (viewpoints a) rid = Some q"
    and "list_all (stays rid q) obs"
  shows "acc_x (accumulate obs a) = acc_x a \<and> acc_y (accumulate obs a) = acc_y a
    \<and> count (accumulate obs a) = count a \<and> sightings (accumulate obs a) = sightings a + int (length obs)"
  using accumulate_sums [of obs a] parked_evidence [OF assms] by (simp add: acc_x_def acc_y_def)

lemma parked_robot_moves_nothing_witness:
  "acc_x (accumulate (replicate 5 (sight ''a'' 9, Some (1/8, 0)))
     (fst (add_sighting (sight ''a'' 1) (Some (0, 0)) empty_acc))) = 1"
proof -
  let ?a = "fst (add_sighting (sight ''a'' 1) (Some (0, 0)) empty_acc)"
  have view: "dget (viewpoints ?a) ''a'' = Some (0, 0)" and x: "acc_x ?a = 1"
    by (simp_all add: add_sighting_def sight_def empty_acc_def Let_def acc_x_def)
  show ?thesis
    using parked_robot_moves_nothing [OF view, of "replicate 5 (sight ''a'' 9, Some (1/8, 0))"] x
    by (simp add: list_all_iff stays_def sight_def)
qed

end
