(* ===== verification/Review_File.thy ===== *)
theory Review_File
  imports Review
begin

text \<open>
  The file the review store is saved to (\<open>to_dict\<close> and \<open>load_dict\<close> of
  \<^verbatim>\<open>server/swarmdeck_server/detect/review.py\<close>), as the JSON value written and read. Every
  exception that the loader does not catch is an error of the model.
\<close>

subsection \<open>Persistence\<close>

abbreviation jnum :: "real \<Rightarrow> json" where
  "jnum x \<equiv> JFloat (Fin x)"

definition sample_json :: "sample \<Rightarrow> json" where
  "sample_json m = JObj [(''robot_id'', JStr (s_robot m)), (''x'', jnum (py_round 3 (s_x m))),
     (''y'', jnum (py_round 3 (s_y m))), (''score'', jnum (py_round 4 (s_score m))), (''t'', jnum (s_t m))]"

definition acc_fields :: "accum \<Rightarrow> (string \<times> json) list" where
  "acc_fields a = [(''sum_x'', jnum (sum_x a)), (''sum_y'', jnum (sum_y a)), (''count'', JInt (count a)),
     (''sightings'', JInt (sightings a)), (''best_score'', jnum (best_score a)),
     (''robots'', JList (map JStr (sorted_list_of_set (seen_by a)))),
     (''viewpoints'', JObj (map (\<lambda>(k, v). (k, JList [jnum (fst v), jnum (snd v)])) (viewpoints a))),
     (''samples'', JList (map sample_json (samples a))),
     (''first_seen'', jnum (first_seen a)), (''last_seen'', jnum (last_seen a))]"

definition entity_json :: "entity \<Rightarrow> json" where
  "entity_json e = JObj ([(''id'', JStr (e_id e)), (''class'', JStr (e_cls e)), (''image'', e_image e)]
     @ acc_fields (e_acc e))"

definition proposal_json :: "proposal \<Rightarrow> json" where
  "proposal_json p = JObj ([(''id'', JStr (p_id p)), (''class'', JStr (p_cls p)), (''image'', p_image p),
     (''suggested_entity_id'', p_suggest p),
     (''suggested_distance'', (case p_distance p of None \<Rightarrow> JNull | Some d \<Rightarrow> jnum d))]
     @ acc_fields (p_acc p))"

definition zone_json :: "ignore_zone \<Rightarrow> json" where
  "zone_json z = JObj [(''class'', JStr (z_cls z)), (''x'', jnum (z_x z)), (''y'', jnum (z_y z)),
     (''radius'', jnum (z_radius z))]"

definition to_dict :: "review \<Rightarrow> json" where
  "to_dict s = JObj [(''version'', JInt 1), (''next_id'', JInt (next_id s)),
     (''cross_class_merge'', JBool (cross_class s)),
     (''entities'', JList (map (entity_json \<circ> snd) (entities s))),
     (''proposals'', JList (map (proposal_json \<circ> snd) (proposals s))),
     (''ignored'', JList (map zone_json (ignored s)))]"

text \<open>\<^verbatim>\<open>v or []\<close>, iterated; a slice of a list or of text.\<close>

definition or_empty :: "json \<Rightarrow> pyerr + json list" where
  "or_empty v = (if truthy v then py_list v else Inr [])"

definition soft :: "pyerr set" where
  "soft = {KeyError, TypeError, ValueError}"

fun index_at :: "nat \<Rightarrow> json \<Rightarrow> pyerr + json" where
  "index_at i (JList xs) = (if i < length xs then Inr (xs ! i) else Inl IndexError)"
| "index_at i (JStr s) = (if i < length s then Inr (JStr [s ! i]) else Inl IndexError)"
| "index_at i (JObj kvs) = Inl KeyError"
| "index_at i v = Inl TypeError"

definition viewpoint_of :: "json \<Rightarrow> pyerr + (real \<times> real) option" where
  "viewpoint_of point = catching {TypeError, ValueError, IndexError} None
     (ebind (index_at 0 point) (\<lambda>a. ebind (real_of a) (\<lambda>x.
      ebind (index_at 1 point) (\<lambda>b. ebind (real_of b) (\<lambda>y. Inr (Some (x, y)))))))"

fun viewpoints_of :: "(string \<times> json) list \<Rightarrow> (string, real \<times> real) dict
    \<Rightarrow> pyerr + (string, real \<times> real) dict" where
  "viewpoints_of [] d = Inr d"
| "viewpoints_of ((k, v) # kvs) d = ebind (viewpoint_of v)
     (\<lambda>q. viewpoints_of kvs (case q of None \<Rightarrow> d | Some p \<Rightarrow> dput k p d))"

definition read_viewpoints :: "json \<Rightarrow> pyerr + (string, real \<times> real) dict" where
  "read_viewpoints v = (if \<not> truthy v then Inr []
     else case v of JObj kvs \<Rightarrow> viewpoints_of kvs [] | _ \<Rightarrow> Inl AttributeError)"

definition sample_of :: "(json \<Rightarrow> string) \<Rightarrow> json \<Rightarrow> pyerr + sample option" where
  "sample_of rep item = catching soft None
     (ebind (jindex item ''robot_id'') (\<lambda>rid. ebind (jindex item ''x'') (\<lambda>jx. ebind (real_of jx) (\<lambda>x.
      ebind (jindex item ''y'') (\<lambda>jy. ebind (real_of jy) (\<lambda>y.
      ebind (real_of (jget (obj_fields item) ''score'' (jnum 0))) (\<lambda>sc.
      ebind (real_of (jget (obj_fields item) ''t'' (jnum 0))) (\<lambda>t.
        Inr (Some \<lparr>s_robot = py_str rep rid, s_x = x, s_y = y, s_score = sc, s_t = t\<rparr>)))))))))"

definition last_items :: "nat \<Rightarrow> json \<Rightarrow> pyerr + json list" where
  "last_items n v = (if \<not> truthy v then Inr [] else case v of
     JList xs \<Rightarrow> Inr (last_n n xs) | JStr s \<Rightarrow> Inr (map (\<lambda>c. JStr [c]) (last_n n s))
   | _ \<Rightarrow> Inl TypeError)"

definition acc_of_dict :: "(json \<Rightarrow> string) \<Rightarrow> (string \<times> json) list \<Rightarrow> pyerr + accum" where
  "acc_of_dict rep raw =
     (let num = (\<lambda>k. real_of (jget raw k (jnum 0))) in
      ebind (catching {TypeError, ValueError} None
        (ebind (num ''sum_x'') (\<lambda>sx. ebind (num ''sum_y'') (\<lambda>sy.
         ebind (py_int (jget raw ''count'' (JInt 0))) (\<lambda>n.
         ebind (py_int (jget raw ''sightings'' (JInt n))) (\<lambda>m.
         ebind (num ''best_score'') (\<lambda>b. ebind (num ''first_seen'') (\<lambda>f. ebind (num ''last_seen'') (\<lambda>l.
           Inr (Some (empty_acc\<lparr>sum_x := sx, sum_y := sy, count := n, sightings := m, best_score := b,
                                 first_seen := f, last_seen := l\<rparr>))))))))))) (\<lambda>head.
      case head of None \<Rightarrow> Inr empty_acc | Some a \<Rightarrow>
        ebind (or_empty (jget raw ''robots'' JNull)) (\<lambda>rs.
        ebind (read_viewpoints (jget raw ''viewpoints'' JNull)) (\<lambda>vs.
        ebind (last_items max_samples (jget raw ''samples'' JNull)) (\<lambda>items.
        ebind (emap (sample_of rep) items) (\<lambda>ms.
          Inr (if count a \<le> 0 then empty_acc
               else a\<lparr>seen_by := set (map (py_str rep) rs), viewpoints := vs,
                       samples := concat (map (\<lambda>m. case m of None \<Rightarrow> [] | Some x \<Rightarrow> [x]) ms)\<rparr>)))))))"

definition load_entity :: "(json \<Rightarrow> string) \<Rightarrow> json \<Rightarrow> review update" where
  "load_entity rep item s =
     (if \<not> is_obj item \<or> \<not> truthy (jget (obj_fields item) ''id'' JNull) then (s, None)
      else case acc_of_dict rep (obj_fields item) of Inl err \<Rightarrow> (s, Some err)
      | Inr a \<Rightarrow> (if count a = 0 then (s, None)
          else (let k = py_str rep (jget (obj_fields item) ''id'' JNull) in
            (s\<lparr>entities := dput k \<lparr>e_id = k, e_cls = py_str rep (jget (obj_fields item) ''class'' (JStr ''object'')),
                 e_acc = a, e_image = jget (obj_fields item) ''image'' JNull\<rparr> (entities s)\<rparr>, None))))"

definition load_proposal :: "(json \<Rightarrow> string) \<Rightarrow> json \<Rightarrow> review update" where
  "load_proposal rep item s =
     (if \<not> is_obj item \<or> \<not> truthy (jget (obj_fields item) ''id'' JNull) then (s, None)
      else case acc_of_dict rep (obj_fields item) of Inl err \<Rightarrow> (s, Some err)
      | Inr a \<Rightarrow> (if count a = 0 then (s, None)
          else (let k = py_str rep (jget (obj_fields item) ''id'' JNull);
                    d = jget (obj_fields item) ''suggested_distance'' JNull in
            (case (if d = JNull then Inr None else map_sum id Some (real_of d)) of Inl err \<Rightarrow> (s, Some err)
             | Inr far \<Rightarrow>
                (s\<lparr>proposals := dput k \<lparr>p_id = k,
                     p_cls = py_str rep (jget (obj_fields item) ''class'' (JStr ''object'')), p_acc = a,
                     p_suggest = jget (obj_fields item) ''suggested_entity_id'' JNull, p_distance = far,
                     p_image = jget (obj_fields item) ''image'' JNull\<rparr> (proposals s)\<rparr>, None)))))"

definition zone_of :: "(json \<Rightarrow> string) \<Rightarrow> real \<Rightarrow> json \<Rightarrow> pyerr + ignore_zone option" where
  "zone_of rep radius item = catching soft None
     (ebind (jindex item ''x'') (\<lambda>jx. ebind (real_of jx) (\<lambda>x.
      ebind (jindex item ''y'') (\<lambda>jy. ebind (real_of jy) (\<lambda>y.
      ebind (real_of (jget (obj_fields item) ''radius'' (jnum radius))) (\<lambda>r.
        Inr (Some \<lparr>z_cls = py_str rep (jget (obj_fields item) ''class'' (JStr ''object'')), z_x = x, z_y = y,
                   z_radius = r\<rparr>)))))))"

definition load_zone :: "(json \<Rightarrow> string) \<Rightarrow> json \<Rightarrow> review update" where
  "load_zone rep item s =
     (if \<not> is_obj item then (s, None)
      else case zone_of rep (ignore_radius s) item of Inl err \<Rightarrow> (s, Some err) | Inr None \<Rightarrow> (s, None)
      | Inr (Some z) \<Rightarrow> (s\<lparr>ignored := ignored s @ [z]\<rparr>, None))"

definition load_all :: "(json \<Rightarrow> review update) \<Rightarrow> json \<Rightarrow> review update" where
  "load_all f v s = (case or_empty v of Inl e \<Rightarrow> (s, Some e) | Inr items \<Rightarrow> seq_steps (map f items) s)"

definition highest_id :: "review \<Rightarrow> int" where
  "highest_id s = fold (\<lambda>k. max (id_number k)) (keys (entities s) @ keys (proposals s)) 0"

definition restore_next_id :: "json \<Rightarrow> review update" where
  "restore_next_id v s = (let h = highest_id s in
     case py_int v of Inr n \<Rightarrow> (s\<lparr>next_id := max n (h + 1)\<rparr>, None)
     | Inl e \<Rightarrow> (if e \<in> {TypeError, ValueError} then (s\<lparr>next_id := h + 1\<rparr>, None) else (s, Some e)))"

definition load_dict :: "(json \<Rightarrow> string) \<Rightarrow> json \<Rightarrow> review update" where
  "load_dict rep raw s =
     (case raw of
        JObj kvs \<Rightarrow> seq_steps [
          (\<lambda>s. (reset s, None)),
          (\<lambda>s. (s\<lparr>cross_class := (if jhas kvs ''cross_class_merge''
                   then truthy (jget kvs ''cross_class_merge'' JNull) else cross_class s)\<rparr>, None)),
          load_all (load_entity rep) (jget kvs ''entities'' JNull),
          load_all (load_proposal rep) (jget kvs ''proposals'' JNull),
          load_all (load_zone rep) (jget kvs ''ignored'' JNull),
          restore_next_id (jget kvs ''next_id'' (JInt 1))] s
      | _ \<Rightarrow> (s, None))"

subsection \<open>What the dashboard is shown\<close>

definition acc_summary :: "accum \<Rightarrow> (string \<times> json) list" where
  "acc_summary a = [(''position'', JObj [(''x'', jnum (py_round 3 (acc_x a))), (''y'', jnum (py_round 3 (acc_y a)))]),
     (''observations'', JInt (count a)), (''sightings'', JInt (sightings a)),
     (''best_score'', jnum (py_round 4 (best_score a))),
     (''robot_ids'', JList (map JStr (sorted_list_of_set (seen_by a)))),
     (''first_seen'', jnum (first_seen a)), (''last_seen'', jnum (last_seen a))]"

definition entity_view :: "entity \<Rightarrow> json" where
  "entity_view e = JObj ([(''id'', JStr (e_id e)), (''class'', JStr (e_cls e))] @ acc_summary (e_acc e)
     @ [(''image'', e_image e), (''samples'', JList (map sample_json (samples (e_acc e))))])"

definition proposal_view :: "proposal \<Rightarrow> json" where
  "proposal_view p = JObj ([(''id'', JStr (p_id p)), (''class'', JStr (p_cls p))] @ acc_summary (p_acc p)
     @ [(''image'', p_image p), (''suggested_entity_id'', p_suggest p),
        (''suggested_distance'', (case p_distance p of None \<Rightarrow> JNull | Some d \<Rightarrow> jnum (py_round 3 d)))])"

definition review_snapshot :: "review \<Rightarrow> (string \<times> json) list" where
  "review_snapshot s = [(''entities'', JList (map (entity_view \<circ> snd) (entities s))),
     (''proposals'', JList (map (proposal_view \<circ> snd) (proposals s))),
     (''ignored'', JInt (int (length (ignored s)))),
     (''radii'', JObj [(''same'', jnum (same_radius s)), (''ask'', jnum (ask_radius s)),
                       (''ignore'', jnum (ignore_radius s))]),
     (''cross_class_merge'', JBool (cross_class s))]"

subsection \<open>What was saved is restored\<close>

text \<open>Samples are written rounded, for display; everything else comes back as it was.\<close>

definition round_sample :: "sample \<Rightarrow> sample" where
  "round_sample m = m\<lparr>s_x := py_round 3 (s_x m), s_y := py_round 3 (s_y m), s_score := py_round 4 (s_score m)\<rparr>"

definition round_acc :: "accum \<Rightarrow> accum" where
  "round_acc a = a\<lparr>samples := map round_sample (samples a)\<rparr>"

lemma sample_of_json: "sample_of rep (sample_json m) = Inr (Some (round_sample m))"
  by (simp add: sample_of_def sample_json_def round_sample_def jget_def)

lemma viewpoint_of_json: "viewpoint_of (JList [jnum x, jnum y]) = Inr (Some (x, y))"
  by (simp add: viewpoint_of_def)

lemma viewpoints_of_json:
  "distinct (map fst (d @ vs)) \<Longrightarrow>
   viewpoints_of (map (\<lambda>(k, v). (k, JList [jnum (fst v), jnum (snd v)])) vs) d = Inr (d @ vs)"
proof (induction vs arbitrary: d)
  case Nil
  then show ?case by simp
next
  case (Cons kv vs)
  obtain k x y where kv: "kv = (k, x, y)" by (cases kv)
  have "k \<notin> fst ` set d" using Cons.prems by (auto simp: kv)
  then have "dput k (x, y) d = d @ [(k, x, y)]" by (rule dput_new)
  moreover have "distinct (map fst ((d @ [(k, x, y)]) @ vs))" using Cons.prems by (simp add: kv)
  ultimately show ?case using Cons.IH [of "d @ [(k, x, y)]"] by (simp add: kv viewpoint_of_json)
qed

lemma acc_of_dict_saved:
  assumes "acc_ok a" and "map_of kvs ''sum_x'' = None" "map_of kvs ''sum_y'' = None" "map_of kvs ''count'' = None"
    "map_of kvs ''sightings'' = None" "map_of kvs ''best_score'' = None" "map_of kvs ''robots'' = None"
    "map_of kvs ''viewpoints'' = None" "map_of kvs ''samples'' = None" "map_of kvs ''first_seen'' = None"
    "map_of kvs ''last_seen'' = None"
  shows "acc_of_dict rep (kvs @ acc_fields a) = Inr (round_acc a)"
proof -
  have get: "jget (kvs @ acc_fields a) k d = jget (acc_fields a) k d" if "map_of kvs k = None" for k d
    by (simp add: jget_def map_of_append [symmetric] map_add_def that)
  have robots: "or_empty (JList (map JStr xs)) = Inr (map JStr xs)" for xs
    by (simp add: or_empty_def)
  have views: "read_viewpoints (JObj (map (\<lambda>(k, v). (k, JList [jnum (fst v), jnum (snd v)])) (viewpoints a)))
      = Inr (viewpoints a)"
    using assms(1) viewpoints_of_json [of "[]" "viewpoints a"]
    by (simp add: read_viewpoints_def acc_ok_def wf_dict_def)
  have "length (samples a) \<le> max_samples" using assms(1) by (simp add: acc_ok_def)
  then have items: "last_items max_samples (JList (map sample_json (samples a))) = Inr (map sample_json (samples a))"
    by (simp add: last_items_def last_n_def)
  have read: "emap (sample_of rep) (map sample_json xs) = Inr (map (\<lambda>m. Some (round_sample m)) xs)" for xs
    by (induction xs) (simp_all add: sample_of_json)
  have flat: "concat (map ((\<lambda>m. case m of None \<Rightarrow> [] | Some x \<Rightarrow> [x]) \<circ> (\<lambda>m. Some (round_sample m))) xs)
      = map round_sample xs" for xs
    by (induction xs) simp_all
  have names: "set (map (py_str rep) (map JStr (sorted_list_of_set (seen_by a)))) = seen_by a"
    using assms(1) by (simp add: acc_ok_def comp_def)
  have jg: "jget (acc_fields a) ''robots'' JNull = JList (map JStr (sorted_list_of_set (seen_by a)))"
    "jget (acc_fields a) ''viewpoints'' JNull
       = JObj (map (\<lambda>(k, v). (k, JList [jnum (fst v), jnum (snd v)])) (viewpoints a))"
    "jget (acc_fields a) ''samples'' JNull = JList (map sample_json (samples a))"
    "jget (acc_fields a) ''sum_x'' d = jnum (sum_x a)" "jget (acc_fields a) ''sum_y'' d = jnum (sum_y a)"
    "jget (acc_fields a) ''count'' d = JInt (count a)" "jget (acc_fields a) ''sightings'' d = JInt (sightings a)"
    "jget (acc_fields a) ''best_score'' d = jnum (best_score a)"
    "jget (acc_fields a) ''first_seen'' d = jnum (first_seen a)"
    "jget (acc_fields a) ''last_seen'' d = jnum (last_seen a)" for d
    by (simp_all add: jget_def acc_fields_def)
  have same: "round_acc a = \<lparr>sum_x = sum_x a, sum_y = sum_y a, count = count a, sightings = sightings a,
      best_score = best_score a, seen_by = seen_by a, samples = map round_sample (samples a),
      viewpoints = viewpoints a, first_seen = first_seen a, last_seen = last_seen a\<rparr>"
    by (cases a) (simp add: round_acc_def)
  show ?thesis
    unfolding same using assms(1) names
    by (simp add: acc_of_dict_def Let_def get assms(2-) jg robots views items read flat
          acc_ok_def empty_acc_def)
qed

definition round_entity :: "entity \<Rightarrow> entity" where
  "round_entity e = e\<lparr>e_acc := round_acc (e_acc e)\<rparr>"

definition round_proposal :: "proposal \<Rightarrow> proposal" where
  "round_proposal p = p\<lparr>p_acc := round_acc (p_acc p)\<rparr>"

lemma round_entity_eq:
  "round_entity e = \<lparr>e_id = e_id e, e_cls = e_cls e, e_acc = round_acc (e_acc e), e_image = e_image e\<rparr>"
  by (cases e) (simp add: round_entity_def)

lemma round_proposal_eq:
  "round_proposal p = \<lparr>p_id = p_id p, p_cls = p_cls p, p_acc = round_acc (p_acc p), p_suggest = p_suggest p,
     p_distance = p_distance p, p_image = p_image p\<rparr>"
  by (cases p) (simp add: round_proposal_def)

lemma round_acc_count [simp]: "count (round_acc a) = count a"
  by (simp add: round_acc_def)

lemma load_entity_json:
  assumes "acc_ok (e_acc e)" and "e_id e \<noteq> []"
  shows "load_entity rep (entity_json e) s = (s\<lparr>entities := dput (e_id e) (round_entity e) (entities s)\<rparr>, None)"
proof -
  let ?kvs = "[(''id'', JStr (e_id e)), (''class'', JStr (e_cls e)), (''image'', e_image e)]"
  have fields: "jget (?kvs @ acc_fields (e_acc e)) ''id'' d = JStr (e_id e)"
    "jget (?kvs @ acc_fields (e_acc e)) ''class'' d = JStr (e_cls e)"
    "jget (?kvs @ acc_fields (e_acc e)) ''image'' d = e_image e" for d
    by (simp_all add: jget_def)
  have acc: "acc_of_dict rep (?kvs @ acc_fields (e_acc e)) = Inr (round_acc (e_acc e))"
    by (rule acc_of_dict_saved [OF assms(1)]) simp_all
  have n: "count (e_acc e) \<noteq> 0" using assms(1) by (auto simp: acc_ok_def)
  show ?thesis
    unfolding load_entity_def entity_json_def obj_fields.simps is_obj.simps fields acc
    using assms(2) n by (simp add: round_entity_eq Let_def)
qed

lemma load_proposal_json:
  assumes "acc_ok (p_acc p)" and "p_id p \<noteq> []"
  shows "load_proposal rep (proposal_json p) s
    = (s\<lparr>proposals := dput (p_id p) (round_proposal p) (proposals s)\<rparr>, None)"
proof -
  let ?d = "case p_distance p of None \<Rightarrow> JNull | Some d \<Rightarrow> jnum d"
  let ?kvs = "[(''id'', JStr (p_id p)), (''class'', JStr (p_cls p)), (''image'', p_image p),
     (''suggested_entity_id'', p_suggest p), (''suggested_distance'', ?d)]"
  have fields: "jget (?kvs @ acc_fields (p_acc p)) ''id'' d = JStr (p_id p)"
    "jget (?kvs @ acc_fields (p_acc p)) ''class'' d = JStr (p_cls p)"
    "jget (?kvs @ acc_fields (p_acc p)) ''image'' d = p_image p"
    "jget (?kvs @ acc_fields (p_acc p)) ''suggested_entity_id'' d = p_suggest p"
    "jget (?kvs @ acc_fields (p_acc p)) ''suggested_distance'' d = ?d" for d
    by (simp_all add: jget_def)
  have acc: "acc_of_dict rep (?kvs @ acc_fields (p_acc p)) = Inr (round_acc (p_acc p))"
    by (rule acc_of_dict_saved [OF assms(1)]) simp_all
  have n: "count (p_acc p) \<noteq> 0" using assms(1) by (auto simp: acc_ok_def)
  show ?thesis
    unfolding load_proposal_def proposal_json_def obj_fields.simps is_obj.simps fields acc
    using assms(2) n by (cases "p_distance p") (simp_all add: round_proposal_eq Let_def)
qed

lemma load_zone_json: "load_zone rep (zone_json z) s = (s\<lparr>ignored := ignored s @ [z]\<rparr>, None)"
  by (simp add: load_zone_def zone_of_def zone_json_def jget_def)

text \<open>Loading a list of saved items appends them, in order.\<close>

lemma load_dict_items:
  assumes put: "\<And>k v s. (k, v) \<in> set d \<Longrightarrow> f (js v) s = (upd (\<lambda>_. dput k (g v) (get s)) s, None)"
    and upd: "\<And>h h' s. upd h (upd h' s) = upd (\<lambda>x. h (h' x)) s" "\<And>h s. get (upd h s) = h (get s)"
      "\<And>s. upd (\<lambda>_. get s) s = s"
    and dist: "distinct (map fst (get s @ d))"
  shows "seq_steps (map f (map (js \<circ> snd) d)) s = (upd (\<lambda>_. get s @ map (\<lambda>(k, v). (k, g v)) d) s, None)"
  using put dist
proof (induction d arbitrary: s)
  case Nil
  then show ?case by (simp add: upd)
next
  case (Cons kv d)
  obtain k v where kv: "kv = (k, v)" by (cases kv)
  let ?t = "upd (\<lambda>_. dput k (g v) (get s)) s"
  have new: "dput k (g v) (get s) = get s @ [(k, g v)]"
    using Cons.prems(2) by (intro dput_new) (auto simp: kv)
  have "distinct (map fst (get ?t @ d))" using Cons.prems(2) by (simp add: upd new kv)
  then have "seq_steps (map f (map (js \<circ> snd) d)) ?t
      = (upd (\<lambda>_. get ?t @ map (\<lambda>(k, v). (k, g v)) d) ?t, None)"
    by (intro Cons.IH Cons.prems(1)) simp
  then show ?case
    using Cons.prems(1) [of k v s] by (simp add: kv upd new o_def)
qed

lemma load_zones: "seq_steps (map (load_zone rep) (map zone_json zs)) s = (s\<lparr>ignored := ignored s @ zs\<rparr>, None)"
  by (induction zs arbitrary: s) (simp_all add: load_zone_json)

lemma or_empty_list [simp]: "or_empty (JList xs) = Inr xs"
  by (simp add: or_empty_def)

lemma highest_id_bounds:
  "0 \<le> highest_id s" "k \<in> set (keys (entities s) @ keys (proposals s)) \<Longrightarrow> id_number k \<le> highest_id s"
  "(\<And>k. k \<in> set (keys (entities s) @ keys (proposals s)) \<Longrightarrow> id_number k \<le> b) \<Longrightarrow> 0 \<le> b \<Longrightarrow> highest_id s \<le> b"
proof -
  have fold: "b \<le> fold (\<lambda>k. max (id_number k)) ks b
      \<and> (\<forall>k \<in> set ks. id_number k \<le> fold (\<lambda>k. max (id_number k)) ks b)
      \<and> (\<forall>c. (\<forall>k \<in> set ks. id_number k \<le> c) \<longrightarrow> b \<le> c \<longrightarrow> fold (\<lambda>k. max (id_number k)) ks b \<le> c)" for ks and b :: int
  proof (induction ks arbitrary: b)
    case (Cons k ks)
    show ?case using Cons.IH [of "max (id_number k) b"] by auto
  qed simp
  show "0 \<le> highest_id s" "k \<in> set (keys (entities s) @ keys (proposals s)) \<Longrightarrow> id_number k \<le> highest_id s"
    "(\<And>k. k \<in> set (keys (entities s) @ keys (proposals s)) \<Longrightarrow> id_number k \<le> b) \<Longrightarrow> 0 \<le> b \<Longrightarrow> highest_id s \<le> b"
    unfolding highest_id_def using fold [of 0 "keys (entities s) @ keys (proposals s)"] by blast+
qed

lemma filed_entry:
  assumes "filed id_of acc_of n d" and "dget d [] = None" and "(k, v) \<in> set d"
  shows "id_of v = k \<and> k \<noteq> [] \<and> acc_ok (acc_of v)"
proof -
  have "wf_dict d" using assms(1) by (simp add: filed_def)
  then have get: "dget d k = Some v" using assms(3) wf_dict_dget by fast
  then have "k \<noteq> []" using assms(2) by auto
  with filedD [OF assms(1) get] show ?thesis by simp
qed

lemma filed_keys: "filed id_of acc_of n d \<Longrightarrow> k \<in> set (keys d) \<Longrightarrow> id_number k < n"
  unfolding filed_def keys_def wf_dict_def by (auto dest!: map_of_is_SomeI)

text \<open>C36: Saving the store and loading the file into any other store restores everything the
  operator confirmed or has pending: ids, classes, images, the running sums behind every
  marker, viewpoints, suggestions, ignored zones and the id counter, in the same order; only
  the samples kept for display come back rounded.\<close>

theorem review_file_roundtrip:
  assumes ok: "store_ok s" and ids: "dget (entities s) [] = None" "dget (proposals s) [] = None"
  shows "load_dict rep (to_dict s) t = (t\<lparr>cross_class := cross_class s,
     entities := map (\<lambda>(k, e). (k, round_entity e)) (entities s),
     proposals := map (\<lambda>(k, p). (k, round_proposal p)) (proposals s),
     ignored := ignored s, next_id := next_id s\<rparr>, None)"
proof -
  note f = store_okD [OF ok]
  have wf: "distinct (map fst (entities s))" "distinct (map fst (proposals s))"
    using f(2,3) by (simp_all add: filed_def wf_dict_def)
  have ent: "e_id e = k \<and> k \<noteq> [] \<and> acc_ok (e_acc e)" if "(k, e) \<in> set (entities s)" for k e
    by (rule filed_entry [OF f(2) ids(1) that])
  have pend: "p_id p = k \<and> k \<noteq> [] \<and> acc_ok (p_acc p)" if "(k, p) \<in> set (proposals s)" for k p
    by (rule filed_entry [OF f(3) ids(2) that])
  have ents: "seq_steps (map (load_entity rep) (map (entity_json \<circ> snd) (entities s))) u
      = (u\<lparr>entities := entities u @ map (\<lambda>(k, e). (k, round_entity e)) (entities s)\<rparr>, None)"
    if "entities u = []" for u
    using ent load_entity_json that wf(1)
    by (intro load_dict_items [where upd = entities_update and get = entities]) auto
  have props: "seq_steps (map (load_proposal rep) (map (proposal_json \<circ> snd) (proposals s))) u
      = (u\<lparr>proposals := proposals u @ map (\<lambda>(k, p). (k, round_proposal p)) (proposals s)\<rparr>, None)"
    if "proposals u = []" for u
    using pend load_proposal_json that wf(2)
    by (intro load_dict_items [where upd = proposals_update and get = proposals]) auto
  define u where "u = t\<lparr>cross_class := cross_class s,
     entities := map (\<lambda>(k, e). (k, round_entity e)) (entities s),
     proposals := map (\<lambda>(k, p). (k, round_proposal p)) (proposals s), ignored := ignored s\<rparr>"
  have "keys (entities u) = keys (entities s)" "keys (proposals u) = keys (proposals s)"
    by (auto simp: u_def keys_def)
  then have "highest_id u \<le> next_id s - 1"
    using filed_keys [OF f(2)] filed_keys [OF f(3)] f(1) by (intro highest_id_bounds(3)) fastforce+
  then have "restore_next_id (JInt (next_id s)) u = (u\<lparr>next_id := next_id s\<rparr>, None)"
    by (simp add: restore_next_id_def Let_def max_def)
  then show ?thesis
    by (simp add: load_dict_def to_dict_def load_all_def jget_def jhas_def reset_def ents props load_zones u_def
          del: map_map)
qed

definition saved_review :: review where
  "saved_review = fold review_step [Observe 1 ''r1'' ''duck'' (1/3) 0 (9/10) (Some (2, 2)) (JStr ''a.jpg''),
     Accept ''prop_1'', Observe 2 ''r2'' ''cat'' 5 5 (1/2) None JNull] new_review"

lemma saved_review_ok: "store_ok saved_review"
proof -
  have "review_ok saved_review"
    unfolding saved_review_def by (rule rev.inv_run) (simp_all add: new_review_ok)
  then show ?thesis by (rule review_ok_store)
qed

theorem review_file_roundtrip_witness:
  "entities saved_review \<noteq> [] \<and> snd (load_dict (\<lambda>_. []) (to_dict saved_review) new_review) = None"
proof -
  have "dget (entities saved_review) [] = None" "dget (proposals saved_review) [] = None"
    "entities saved_review \<noteq> []"
    by code_simp+
  then show ?thesis
    using review_file_roundtrip [OF saved_review_ok, of "\<lambda>_. []" new_review] by simp
qed

subsection \<open>Whatever the file holds\<close>

text \<open>Well formed but for the counter, which the last step of loading sets.\<close>

definition loadable :: "review \<Rightarrow> bool" where
  "loadable s = (\<exists>n. filed e_id e_acc n (entities s) \<and> filed p_id p_acc n (proposals s))"

lemma viewpoints_of_wf: "wf_dict d \<Longrightarrow> viewpoints_of kvs d = Inr vs \<Longrightarrow> wf_dict vs"
proof (induction kvs arbitrary: d)
  case Nil
  then show ?case by simp
next
  case (Cons kv kvs)
  obtain k v where kv: "kv = (k, v)" by (cases kv)
  obtain q where "viewpoint_of v = Inr q" using Cons.prems(2) by (cases "viewpoint_of v") (simp_all add: kv)
  then have "viewpoints_of kvs (case q of None \<Rightarrow> d | Some p \<Rightarrow> dput k p d) = Inr vs"
    using Cons.prems(2) by (simp add: kv)
  moreover have "wf_dict (case q of None \<Rightarrow> d | Some p \<Rightarrow> dput k p d)"
    using Cons.prems(1) by (simp split: option.split)
  ultimately show ?case by (rule Cons.IH [rotated])
qed

lemma read_viewpoints_wf: "read_viewpoints v = Inr vs \<Longrightarrow> wf_dict vs"
  by (auto simp: read_viewpoints_def split: if_splits json.splits intro: viewpoints_of_wf [OF wf_dict_nil])

lemma emap_length: "emap f xs = Inr ys \<Longrightarrow> length ys = length xs"
proof (induction xs arbitrary: ys)
  case (Cons x xs)
  then show ?case by (cases "f x"; cases "emap f xs") auto
qed simp

lemma concat_opt_length: "length (concat (map (\<lambda>m. case m of None \<Rightarrow> [] | Some x \<Rightarrow> [x]) ms)) \<le> length ms"
  by (induction ms) (auto split: option.split)

lemma last_items_length: "last_items n v = Inr xs \<Longrightarrow> length xs \<le> n"
  by (auto simp: last_items_def split: if_splits json.splits)

lemma ebind_Inr: "ebind m f = Inr y \<longleftrightarrow> (\<exists>x. m = Inr x \<and> f x = Inr y)"
  by (cases m) simp_all

lemma acc_of_dict_ok:
  assumes "acc_of_dict rep raw = Inr a" and "count a \<noteq> 0"
  shows "acc_ok a"
proof -
  obtain head where head: "(case head of None \<Rightarrow> Inr empty_acc | Some a \<Rightarrow>
        ebind (or_empty (jget raw ''robots'' JNull)) (\<lambda>rs.
        ebind (read_viewpoints (jget raw ''viewpoints'' JNull)) (\<lambda>vs.
        ebind (last_items max_samples (jget raw ''samples'' JNull)) (\<lambda>items.
        ebind (emap (sample_of rep) items) (\<lambda>ms.
          Inr (if count a \<le> 0 then empty_acc
               else a\<lparr>seen_by := set (map (py_str rep) rs), viewpoints := vs,
                       samples := concat (map (\<lambda>m. case m of None \<Rightarrow> [] | Some x \<Rightarrow> [x]) ms)\<rparr>)))))) = Inr a"
    using assms(1) unfolding acc_of_dict_def Let_def ebind_Inr by blast
  show ?thesis
  proof (cases head)
    case None
    then have "a = empty_acc" using head by simp
    then show ?thesis using assms(2) by (simp add: empty_acc_def)
  next
    case (Some b)
    then obtain rs vs items ms where *: "read_viewpoints (jget raw ''viewpoints'' JNull) = Inr vs"
        "last_items max_samples (jget raw ''samples'' JNull) = Inr items" "emap (sample_of rep) items = Inr ms"
        "a = (if count b \<le> 0 then empty_acc else b\<lparr>seen_by := set (map (py_str rep) rs), viewpoints := vs,
                samples := concat (map (\<lambda>m. case m of None \<Rightarrow> [] | Some x \<Rightarrow> [x]) ms)\<rparr>)"
      using head by (auto simp: ebind_Inr)
    have n: "0 < count b" using assms(2) *(4) by (cases "count b \<le> 0") (simp_all add: empty_acc_def)
    have "length ms \<le> max_samples"
      using last_items_length [OF *(2)] emap_length [OF *(3)] by simp
    with concat_opt_length [of ms] read_viewpoints_wf [OF *(1)] n *(4) show ?thesis
      by (simp add: acc_ok_def)
  qed
qed

lemma loadable_put:
  assumes "loadable s"
  shows "e_id e = k \<Longrightarrow> acc_ok (e_acc e) \<Longrightarrow> loadable (s\<lparr>entities := dput k e (entities s)\<rparr>)"
    and "p_id p = k \<Longrightarrow> acc_ok (p_acc p) \<Longrightarrow> loadable (s\<lparr>proposals := dput k p (proposals s)\<rparr>)"
proof -
  obtain n where n: "filed e_id e_acc n (entities s)" "filed p_id p_acc n (proposals s)"
    using assms by (auto simp: loadable_def)
  define m where "m = max n (id_number k + 1)"
  have m: "filed e_id e_acc m (entities s)" "filed p_id p_acc m (proposals s)" "id_number k < m"
    using n by (auto simp: m_def intro: filed_mono)
  show "e_id e = k \<Longrightarrow> acc_ok (e_acc e) \<Longrightarrow> loadable (s\<lparr>entities := dput k e (entities s)\<rparr>)"
    unfolding loadable_def using m by (intro exI [of _ m]) (simp add: filed_dput)
  show "p_id p = k \<Longrightarrow> acc_ok (p_acc p) \<Longrightarrow> loadable (s\<lparr>proposals := dput k p (proposals s)\<rparr>)"
    unfolding loadable_def using m by (intro exI [of _ m]) (simp add: filed_dput)
qed

lemma keeps_load [step_inv]:
  "keeps loadable (load_entity rep item)" "keeps loadable (load_proposal rep item)"
  "keeps loadable (load_zone rep item)"
proof -
  show "keeps loadable (load_entity rep item)"
    by (rule keepsI) (auto simp: load_entity_def Let_def intro!: loadable_put acc_of_dict_ok split: sum.split)
  show "keeps loadable (load_proposal rep item)"
    by (rule keepsI)
       (auto simp: load_proposal_def Let_def intro!: loadable_put acc_of_dict_ok split: sum.split)
  show "keeps loadable (load_zone rep item)"
    by (rule keepsI) (auto simp: load_zone_def loadable_def split: sum.split option.split)
qed

lemma keeps_load_all [step_inv]: "(\<And>item. keeps P (f item)) \<Longrightarrow> keeps P (load_all f v)"
proof (rule keepsI)
  fix s assume f: "\<And>item. keeps P (f item)" and s: "P s"
  have "keeps P (seq_steps (map f items))" for items
    by (rule keeps_seq) (simp add: list_all_iff f)
  from keepsD [OF this s] show "P (fst (load_all f v s))"
    by (simp add: load_all_def s split: sum.split)
qed

lemma filed_tight:
  assumes "filed id_of acc_of n d" and "\<And>k. k \<in> set (keys d) \<Longrightarrow> id_number k < m"
  shows "filed id_of acc_of m d"
proof -
  have "k \<in> set (keys d)" if "dget d k = Some v" for k v
    using map_of_SomeD [OF that] by (force simp: keys_def)
  then show ?thesis using assms unfolding filed_def by blast
qed

lemma restore_ok:
  assumes "loadable s" and "restore_next_id v s = (s', None)"
  shows "store_ok s'"
proof -
  obtain n where n: "filed e_id e_acc n (entities s)" "filed p_id p_acc n (proposals s)"
    using assms(1) by (auto simp: loadable_def)
  obtain m where m: "s' = s\<lparr>next_id := m\<rparr>" "highest_id s + 1 \<le> m"
    using assms(2) by (auto simp: restore_next_id_def Let_def split: sum.splits if_splits)
  have low: "id_number k < m" if "k \<in> set (keys (entities s) @ keys (proposals s))" for k
    using highest_id_bounds(2) [OF that] m(2) by simp
  have "filed e_id e_acc m (entities s)" by (rule filed_tight [OF n(1)]) (simp add: low)
  moreover have "filed p_id p_acc m (proposals s)" by (rule filed_tight [OF n(2)]) (simp add: low)
  moreover have "1 \<le> m" using highest_id_bounds(1) [of s] m(2) by simp
  ultimately show ?thesis by (simp add: store_ok_def m(1))
qed

text \<open>Whatever JSON object the file holds, and whatever the store was before, a load that
  does not raise leaves a well-formed store: every object has evidence behind it (no phantom at
  the origin), ids are unique, and the counter is above every id in the file.\<close>

lemma loaded_store_ok:
  assumes "load_dict rep (JObj kvs) s = (s', None)"
  shows "store_ok s'"
proof -
  define front where "front = [
      (\<lambda>s. (reset s, None)),
      (\<lambda>s. (s\<lparr>cross_class := (if jhas kvs ''cross_class_merge''
               then truthy (jget kvs ''cross_class_merge'' JNull) else cross_class s)\<rparr>, None)),
      load_all (load_entity rep) (jget kvs ''entities'' JNull),
      load_all (load_proposal rep) (jget kvs ''proposals'' JNull),
      load_all (load_zone rep) (jget kvs ''ignored'' JNull)]"
  have run: "seq_steps (front @ [restore_next_id (jget kvs ''next_id'' (JInt 1))]) s = (s', None)"
    using assms by (simp add: load_dict_def front_def)
  obtain t where t: "seq_steps front s = (t, None)"
      "seq_steps [restore_next_id (jget kvs ''next_id'' (JInt 1))] t = (s', None)"
    using run unfolding seq_steps_append by (auto split: prod.splits option.splits)
  have "keeps loadable (seq_steps (tl front))"
    unfolding front_def list.sel
    by (rule keeps_seq) (simp, intro conjI step_inv; simp add: loadable_def)
  moreover have "loadable (reset s)" by (simp add: loadable_def reset_def)
  moreover have "seq_steps front s = seq_steps (tl front) (reset s)"
    by (simp add: front_def)
  ultimately have "loadable t" using keepsD [of loadable "seq_steps (tl front)" "reset s"] t(1)
    by (metis fst_conv)
  moreover have "restore_next_id (jget kvs ''next_id'' (JInt 1)) t = (s', None)"
    using t(2) by (auto split: prod.splits option.splits)
  ultimately show ?thesis by (rule restore_ok)
qed

definition phantom_file :: "(string \<times> json) list" where
  "phantom_file = [(''entities'', JList [JObj [(''id'', JStr ''ent_7''), (''count'', JInt 2), (''sum_x'', JInt 4)],
     JObj [(''id'', JStr ''ent_9''), (''count'', JInt 0)], JStr ''?''])]"

lemma loaded_store_ok_witness:
  "store_ok (fst (load_dict (\<lambda>_. []) (JObj phantom_file) new_review))
   \<and> next_id (fst (load_dict (\<lambda>_. []) (JObj phantom_file) new_review)) = 8"
proof -
  have "load_dict (\<lambda>_. []) (JObj phantom_file) new_review
      = (fst (load_dict (\<lambda>_. []) (JObj phantom_file) new_review), None)"
    and "next_id (fst (load_dict (\<lambda>_. []) (JObj phantom_file) new_review)) = 8"
    by code_simp+
  then show ?thesis using loaded_store_ok by blast
qed

subsection \<open>A store in use\<close>

text \<open>C35: From whatever the server starts with, the store a file gave it or, with no file, an empty one, any sequence
  of sightings, operator decisions, resets and setting changes keeps it well formed: every object is filed under its own
  id, ids are unique and lie below the counter, every object has at least one counted observation and at most 24 samples. At
  most 32 proposals wait, or as many as the file had if it had more, since loading trims nothing; and after a sighting that
  makes a new proposal at most 32.\<close>

theorem review_reachable_ok:
  assumes "load_dict rep raw new_review = (s, None)"
  shows "store_ok (fold review_step es s) \<and> length (proposals (fold review_step es s)) \<le> max max_pending (length (proposals s))
    \<and> (snd (observe now rid cls x y sc obs img (fold review_step es s)) = Proposed pid
        \<longrightarrow> length (proposals (fst (observe now rid cls x y sc obs img (fold review_step es s)))) \<le> max_pending)"
proof -
  let ?t = "fold review_step es s"
  have "store_ok s"
  proof (cases raw)
    case (JObj kvs)
    then show ?thesis using assms loaded_store_ok by blast
  qed (use assms new_review_ok review_ok_store in \<open>auto simp: load_dict_def\<close>)
  then have t: "review_within (max max_pending (length (proposals s))) ?t"
    using within.inv_run [of es "max max_pending (length (proposals s))" s] by (simp add: list_all_iff review_within_def)
  then have ok: "store_ok ?t" by (simp add: review_within_def)
  have "length (proposals (fst (observe now rid cls x y sc obs img ?t))) \<le> max_pending"
    if p: "snd (observe now rid cls x y sc obs img ?t) = Proposed pid"
  proof (cases rule: observe_cases [where now = now and rid = rid and cls = cls and x = x and y = y and score = sc and obs = obs and img = img and s = ?t])
    case (new k s1 q)
    then show ?thesis using trim_pending_ok [OF fresh_proposal_ok [OF ok new(4,5)]] by (simp add: first_sighting_ok review_ok_def review_within_def)
  qed (use p in auto)
  then show ?thesis using t by (simp add: review_within_def)
qed

definition crowded_file :: json where
  "crowded_file = JObj [(''proposals'', JList (map (\<lambda>i. JObj [(''id'', JStr (''prop_'' @ dec i)), (''count'', JInt 1)]) [0..<33]))]"

lemma crowded_loads:
  "snd (load_dict (\<lambda>_. []) crowded_file new_review) = None" "length (proposals (fst (load_dict (\<lambda>_. []) crowded_file new_review))) = 33"
  by code_simp+

text \<open>Thirty-three proposals of a file are all kept until one is answered.\<close>

theorem review_reachable_ok_witness:
  "store_ok (fold review_step [Accept ''prop_3'', Forget_All False] (fst (load_dict (\<lambda>_. []) crowded_file new_review)))
    \<and> length (proposals (fold review_step [Accept ''prop_3'', Forget_All False] (fst (load_dict (\<lambda>_. []) crowded_file new_review)))) \<le> 33"
proof -
  have "load_dict (\<lambda>_. []) crowded_file new_review = (fst (load_dict (\<lambda>_. []) crowded_file new_review), None)"
    using crowded_loads(1) by (metis prod.collapse)
  from review_reachable_ok [OF this, of "[Accept ''prop_3'', Forget_All False]"] show ?thesis
    by (simp only: crowded_loads) (simp add: max_pending_def)
qed

text \<open>The loader does raise on one kind of damage: a proposal whose suggested distance is
  not a number aborts the load with a \<open>ValueError\<close>, after the confirmed objects of the previous
  store have been dropped and before the ignored zones are read.\<close>

lemma load_raises_on_bad_distance:
  "load_dict rep (JObj [(''proposals'', JList [JObj [(''id'', JStr ''prop_1''), (''count'', JInt 1),
     (''suggested_distance'', JStr ''far'')]])]) s = (reset s, Some ValueError)"
  by (simp add: load_dict_def load_all_def load_proposal_def acc_of_dict_def jget_def jhas_def or_empty_def
      read_viewpoints_def last_items_def real_of_def reset_def empty_acc_def float_of_string_def
      strip_def is_space_def split_sign_def lower_def lower_char_def scan_number_def is_digit_def Let_def)

end
