(* ===== verification/Settings.thy ===== *)
theory Settings
  imports Prelude
begin

text \<open>
  Operator settings (\<^verbatim>\<open>server/swarmdeck_server/config/settings.py\<close> and \<^verbatim>\<open>detection.py\<close>): the
  validation every saved value goes through, the display floors of a detection class and the
  capture floors derived from them. The detector's catalog is an argument, as the server also
  runs without one; \<open>catalog\<close> is the table of \<^verbatim>\<open>adapters/perception/catalog.py\<close>. The validated
  dictionary is a record.
\<close>

subsection \<open>Values\<close>

type_synonym floors = "(string, real) dict"

record robot_row =
  row_id :: string
  row_enabled :: bool
  row_color :: string

record settings =
  unattended_threshold :: int
  alert_suppress :: int
  robot_count :: int
  drive_mode :: string
  det_enabled :: bool
  sensitivity :: real
  det_classes :: "string list"
  det_same :: real
  det_ask :: real
  class_floors :: floors
  robot_floors :: "(string, floors) dict"
  capture :: floors
  single_mode :: bool
  single_name :: string
  single_color :: string
  cross_merge :: bool
  rows :: "robot_row list"

definition catalog :: floors where
  "catalog = [(''rubber_duck'', 1/4), (''wooden_block'', 7/20), (''disc_cone'', 1/5),
              (''filament_spool'', 1/4), (''pool_noodle'', 1/4)]"

definition settings_max_robots :: nat where "settings_max_robots = 16"

definition max_robot_overrides :: nat where "max_robot_overrides = 8"

subsection \<open>Colours\<close>

definition default_colors :: "string list" where
  "default_colors = [''#007aff'', ''#8944ab'', ''#008f87'', ''#c93400'', ''#d30f72'', ''#b26a00'',
                     ''#5865f2'', ''#2d8a3f'']"

definition identity_colors :: "(string, string) dict" where
  "identity_colors = [(''spot'', ''#c9a000''), (''botman'', ''#007aff''), (''aslan'', ''#e07000''),
                      (''asimov'', ''#5865f2'')]"

definition after_underscore :: "string \<Rightarrow> string" where
  "after_underscore s = rev (takeWhile (\<lambda>c. c \<noteq> CHR ''_'') (rev s))"

definition identity_stem :: "string \<Rightarrow> string" where
  "identity_stem s = (if CHR ''_'' \<in> set s \<and> all_digits (after_underscore s)
     then take (length s - length (after_underscore s) - 1) s else s)"

definition default_color :: "string \<Rightarrow> nat \<Rightarrow> string" where
  "default_color rid i = (case dget identity_colors (identity_stem rid) of
     Some c \<Rightarrow> c | None \<Rightarrow> default_colors ! (i mod length default_colors))"

subsection \<open>Detection floors\<close>

definition clamp_real :: "real \<Rightarrow> real \<Rightarrow> pyfloat \<Rightarrow> real" where
  "clamp_real lo hi f = (case clampf lo hi f of Fin r \<Rightarrow> r | _ \<Rightarrow> lo)"

definition bad_number :: "pyerr set" where
  "bad_number = {TypeError, ValueError}"

definition clamp_floor :: "json \<Rightarrow> pyerr + real option" where
  "clamp_floor v = catching bad_number None
     (ebind (float_of v) (\<lambda>f. Inr (Some (py_round 2 (clamp_real (1/20) (19/20) f)))))"

definition validate_classes :: "floors \<Rightarrow> (json \<Rightarrow> string) \<Rightarrow> json \<Rightarrow> string list" where
  "validate_classes cat rep raw =
     (if cat = [] then
        (case raw of JList xs \<Rightarrow> take 32 (map (\<lambda>n. take 48 (strip (py_str rep n))) xs) | _ \<Rightarrow> [])
      else case raw of
        JList xs \<Rightarrow> (let sel = filter (\<lambda>n. n \<in> set (map (strip \<circ> py_str rep) xs)) (keys cat) in
                     if sel = [] then keys cat else sel)
      | _ \<Rightarrow> keys cat)"

text \<open>One pass over the items of a floors dictionary; \<open>key_of\<close> cleans a name, \<open>known\<close> filters it.\<close>

fun put_floors :: "(string \<Rightarrow> string) \<Rightarrow> (string \<Rightarrow> bool) \<Rightarrow> (string \<times> json) list \<Rightarrow> floors \<Rightarrow> pyerr + floors" where
  "put_floors key_of known [] d = Inr d"
| "put_floors key_of known ((name, v) # kvs) d = ebind (clamp_floor v) (\<lambda>f.
     put_floors key_of known kvs (case f of None \<Rightarrow> d
       | Some x \<Rightarrow> if known (key_of name) then dput (key_of name) x d else d))"

definition validate_class_floors :: "floors \<Rightarrow> json \<Rightarrow> pyerr + floors" where
  "validate_class_floors cat raw =
     (if cat = [] then
        (case raw of JObj kvs \<Rightarrow> put_floors (\<lambda>n. take 48 (strip n)) (\<lambda>k. k \<noteq> []) (take 32 kvs) []
         | _ \<Rightarrow> Inr [])
      else case raw of
        JObj kvs \<Rightarrow> put_floors strip (\<lambda>k. dget cat k \<noteq> None) kvs cat
      | _ \<Rightarrow> Inr cat)"

fun robot_floor_items :: "floors \<Rightarrow> (string \<times> json) list \<Rightarrow> (string, floors) dict \<Rightarrow> pyerr + (string, floors) dict" where
  "robot_floor_items cat [] d = Inr d"
| "robot_floor_items cat ((rid, JObj fs) # kvs) d =
     (let key = take 48 (strip rid) in
      if key = [] then robot_floor_items cat kvs d
      else ebind (put_floors (\<lambda>n. take 48 (strip n))
                    (\<lambda>k. k \<noteq> [] \<and> (cat = [] \<or> dget cat k \<noteq> None)) (take 32 fs) [])
             (\<lambda>clean. robot_floor_items cat kvs (if clean = [] then d else dput key clean d)))"
| "robot_floor_items cat ((rid, v) # kvs) d = robot_floor_items cat kvs d"

definition validate_robot_floors :: "floors \<Rightarrow> json \<Rightarrow> pyerr + (string, floors) dict" where
  "validate_robot_floors cat raw = (case raw of
     JObj kvs \<Rightarrow> robot_floor_items cat (take max_robot_overrides kvs) [] | _ \<Rightarrow> Inr [])"

definition floor_for :: "floors \<Rightarrow> settings \<Rightarrow> string \<Rightarrow> string \<Rightarrow> real" where
  "floor_for cat s rid cls =
     (let own = (case dget (robot_floors s) rid of None \<Rightarrow> None | Some fs \<Rightarrow> dget fs cls) in
      case own of Some x \<Rightarrow> x
      | None \<Rightarrow> (case dget (class_floors s) cls of Some x \<Rightarrow> x
          | None \<Rightarrow> (case dget cat cls of Some x \<Rightarrow> x | None \<Rightarrow> 0)))"

text \<open>The names come from a set, so the order of the result means nothing; it is only looked up.\<close>

definition floor_candidates :: "floors \<Rightarrow> floors \<Rightarrow> (string, floors) dict \<Rightarrow> string \<Rightarrow> real list" where
  "floor_candidates cat fleet overrides name =
     concat (map (\<lambda>fs. case dget fs name of None \<Rightarrow> [] | Some x \<Rightarrow> [x]) (cat # fleet # map snd overrides))"

definition capture_floors :: "floors \<Rightarrow> floors \<Rightarrow> (string, floors) dict \<Rightarrow> floors" where
  "capture_floors cat fleet overrides =
     concat (map (\<lambda>name. case floor_candidates cat fleet overrides name of [] \<Rightarrow> []
                    | x # xs \<Rightarrow> [(name, py_round 2 (fold min xs x))])
       (remdups (concat (map keys (cat # fleet # map snd overrides)))))"

subsection \<open>Robots\<close>

definition default_row :: "nat \<Rightarrow> robot_row" where
  "default_row i = \<lparr>row_id = ''robot_'' @ dec i, row_enabled = True,
     row_color = default_color (''robot_'' @ dec i) i\<rparr>"

definition row_of :: "(json \<Rightarrow> string) \<Rightarrow> (string \<times> json) list \<Rightarrow> string \<Rightarrow> nat \<Rightarrow> robot_row" where
  "row_of rep kvs rid i =
     (let c = jget kvs ''color'' JNull;
          color = take 32 (strip (if truthy c then py_str rep c else [])) in
      \<lparr>row_id = rid, row_enabled = truthy (jget kvs ''enabled'' (JBool True)),
       row_color = (if color = [] then default_color rid i else color)\<rparr>)"

fun clean_rows :: "(json \<Rightarrow> string) \<Rightarrow> nat \<Rightarrow> json list \<Rightarrow> robot_row list \<Rightarrow> robot_row list" where
  "clean_rows rep i [] acc = acc"
| "clean_rows rep i (item # items) acc =
     (case item of
        JObj kvs \<Rightarrow>
          (let rid = take 48 (strip (py_str rep (jget kvs ''id'' (JStr (''robot_'' @ dec i))))) in
           if rid = [] \<or> rid \<in> set (map row_id acc) then clean_rows rep (Suc i) items acc
           else clean_rows rep (Suc i) items (acc @ [row_of rep kvs rid (length acc)]))
      | _ \<Rightarrow> clean_rows rep (Suc i) items acc)"

definition grow_rows :: "int \<Rightarrow> robot_row list \<Rightarrow> robot_row list" where
  "grow_rows n rs = rs @ map default_row [length rs ..< nat n]"

definition is_robot_enabled :: "settings \<Rightarrow> string \<Rightarrow> bool" where
  "is_robot_enabled s rid = (case filter (\<lambda>r. row_id r = rid) (rows s) of
     [] \<Rightarrow> True | r # _ \<Rightarrow> row_enabled r)"

definition disabled_robot_ids :: "settings \<Rightarrow> string set" where
  "disabled_robot_ids s = {row_id r | r. r \<in> set (rows s) \<and> row_id r \<noteq> [] \<and> \<not> row_enabled r}"

lemma disabled_robot_ids_code [code]:
  "disabled_robot_ids s = set (map row_id (filter (\<lambda>r. row_id r \<noteq> [] \<and> \<not> row_enabled r) (rows s)))"
  by (auto simp: disabled_robot_ids_def)

subsection \<open>Validation\<close>

definition defaults :: "floors \<Rightarrow> settings" where
  "defaults cat = \<lparr>unattended_threshold = 45, alert_suppress = 30, robot_count = 4, drive_mode = ''arrows'',
     det_enabled = True, sensitivity = 11/20, det_classes = keys cat, det_same = 1/2, det_ask = 3/2,
     class_floors = cat, robot_floors = [], capture = cat, single_mode = False, single_name = ''Target'',
     single_color = ''#fbbf24'', cross_merge = True, rows = map default_row [0..<4]\<rparr>"

definition clamp_int :: "real \<Rightarrow> real \<Rightarrow> int \<Rightarrow> json \<Rightarrow> pyerr + int" where
  "clamp_int lo hi dflt v = catching bad_number dflt (ebind (float_of v) (\<lambda>f. Inr \<lfloor>clamp_real lo hi f\<rfloor>))"

definition radii :: "(string \<times> json) list \<Rightarrow> pyerr + real \<times> real" where
  "radii src = catching bad_number (1/2, 3/2)
     (ebind (float_of (jget src ''detection_same_radius_m'' (JFloat (Fin (1/2))))) (\<lambda>f.
      ebind (float_of (jget src ''detection_ask_radius_m'' (JFloat (Fin (3/2))))) (\<lambda>g.
        let same = clamp_real (1/20) 5 f; ask = clamp_real (1/20) 10 g in
        Inr (py_round 2 same, py_round 2 (max same ask)))))"

definition text_or :: "(json \<Rightarrow> string) \<Rightarrow> nat \<Rightarrow> string \<Rightarrow> json \<Rightarrow> string" where
  "text_or rep n dflt v = (let t = take n (strip (py_str rep v)) in if t = [] then dflt else t)"

definition validate :: "floors \<Rightarrow> (json \<Rightarrow> string) \<Rightarrow> json \<Rightarrow> pyerr + settings" where
  "validate cat rep raw =
     (let src = obj_fields raw in
      ebind (clamp_int 10 3600 45 (jget src ''unattended_threshold_s'' (JInt 45))) (\<lambda>thr.
      ebind (clamp_int 0 3600 30 (jget src ''alert_suppress_s'' (JInt 30))) (\<lambda>sup.
      ebind (catching bad_number 4 (ebind (py_int (jget src ''robot_count'' (JInt 4)))
               (\<lambda>n. Inr (max 1 (min (int settings_max_robots) n))))) (\<lambda>cnt.
      let mode = strip (py_str rep (jget src ''drive_control_mode'' (JStr ''arrows''))) in
      ebind (catching bad_number (11/20) (ebind (float_of (jget src ''detection_sensitivity'' (JFloat (Fin (11/20)))))
               (\<lambda>f. Inr (py_round 2 (clamp_real (1/10) 1 f))))) (\<lambda>sens.
      ebind (radii src) (\<lambda>(same, ask).
      ebind (validate_class_floors cat (jget src ''detection_class_floors'' JNull)) (\<lambda>fleet.
      ebind (validate_robot_floors cat (jget src ''detection_robot_floors'' JNull)) (\<lambda>overrides.
      let clean = (case jget src ''robots'' JNull of
            JList items \<Rightarrow> clean_rows rep 0 (take settings_max_robots items) [] | _ \<Rightarrow> []);
          rs = (if clean = [] then map default_row [0..<4] else clean);
          n = (if clean = [] then cnt else min cnt (int (length clean))) in
      Inr \<lparr>unattended_threshold = thr, alert_suppress = sup, robot_count = n,
           drive_mode = (if mode = ''arrows'' \<or> mode = ''joystick'' then mode else ''arrows''),
           det_enabled = truthy (jget src ''detection_enabled'' (JBool True)), sensitivity = sens,
           det_classes = validate_classes cat rep (jget src ''detection_classes'' JNull),
           det_same = same, det_ask = ask, class_floors = fleet, robot_floors = overrides,
           capture = capture_floors cat fleet overrides,
           single_mode = truthy (jget src ''detection_single_mode'' (JBool False)),
           single_name = text_or rep 48 ''Target'' (jget src ''detection_single_name'' (JStr ''Target'')),
           single_color = text_or rep 32 ''#fbbf24'' (jget src ''detection_single_color'' (JStr ''#fbbf24'')),
           cross_merge = truthy (jget src ''detection_cross_class_merge'' (JBool True)),
           rows = grow_rows n rs\<rparr>))))))))"

subsection \<open>What validation guarantees\<close>

lemma clamp_real_range: "lo \<le> hi \<Longrightarrow> lo \<le> clamp_real lo hi f \<and> clamp_real lo hi f \<le> hi"
  using clampf_range [of lo hi f] by (auto simp: clamp_real_def)

lemma ebind_eq_Inr: "ebind m f = Inr y \<longleftrightarrow> (\<exists>x. m = Inr x \<and> f x = Inr y)"
  by (cases m) simp_all

lemma catching_eq_Inr: "catching es d m = Inr y \<longleftrightarrow> m = Inr y \<or> (y = d \<and> (\<exists>e \<in> es. m = Inl e))"
  by (cases m) auto

lemma clamp_floor_range:
  assumes "clamp_floor v = Inr (Some x)"
  shows "1/20 \<le> x \<and> x \<le> 19/20 \<and> py_round 2 x = x"
proof -
  obtain f where x: "x = py_round 2 (clamp_real (1/20) (19/20) f)"
    using assms by (auto simp: clamp_floor_def catching_eq_Inr ebind_eq_Inr)
  note r = clamp_real_range [of "1/20" "19/20" f]
  show ?thesis
    unfolding x using py_round_ge [of 5 "clamp_real (1/20) (19/20) f" 2] py_round_le [of "clamp_real (1/20) (19/20) f" 2 95] r
    by simp
qed

definition floor_ok :: "floors \<Rightarrow> floors \<Rightarrow> bool" where
  "floor_ok cat d = (wf_dict d \<and> (\<forall>k x. dget d k = Some x \<longrightarrow>
     dget cat k = Some x \<or> (1/20 \<le> x \<and> x \<le> 19/20 \<and> py_round 2 x = x)))"

lemma put_floors_ok:
  "floor_ok cat d \<Longrightarrow> put_floors key_of known kvs d = Inr d' \<Longrightarrow> floor_ok cat d'"
proof (induction kvs arbitrary: d)
  case Nil
  then show ?case by simp
next
  case (Cons kv kvs)
  obtain k v where kv: "kv = (k, v)" by (cases kv)
  obtain f where f: "clamp_floor v = Inr f"
    using Cons.prems(2) by (auto simp: kv ebind_eq_Inr)
  let ?d = "case f of None \<Rightarrow> d | Some x \<Rightarrow> if known (key_of k) then dput (key_of k) x d else d"
  have "floor_ok cat ?d"
    using Cons.prems(1) clamp_floor_range [of v] f
    by (auto simp: floor_ok_def dict_simps split: option.split)
  moreover have "put_floors key_of known kvs ?d = Inr d'" using Cons.prems(2) by (simp add: kv f)
  ultimately show ?case by (rule Cons.IH)
qed

lemma class_floors_ok:
  assumes "wf_dict cat" and "validate_class_floors cat raw = Inr d"
  shows "floor_ok cat d"
proof -
  have "floor_ok cat []" "floor_ok cat cat" using assms(1) by (simp_all add: floor_ok_def)
  then show ?thesis
    using assms(2) by (auto simp: validate_class_floors_def split: if_splits json.splits intro: put_floors_ok)
qed

lemma robot_floor_items_ok:
  "(\<forall>rid fs. dget d rid = Some fs \<longrightarrow> floor_ok [] fs) \<Longrightarrow> wf_dict d \<Longrightarrow>
   robot_floor_items cat kvs d = Inr d' \<Longrightarrow>
   (\<forall>rid fs. dget d' rid = Some fs \<longrightarrow> floor_ok [] fs) \<and> wf_dict d'"
proof (induction cat kvs d rule: robot_floor_items.induct)
  case (2 cat rid fs kvs d)
  show ?case
  proof (cases "take 48 (strip rid) = []")
    case True
    then show ?thesis using 2 by simp
  next
    case False
    let ?known = "\<lambda>k. k \<noteq> [] \<and> (cat = [] \<or> dget cat k \<noteq> None)"
    obtain clean where clean: "put_floors (\<lambda>n. take 48 (strip n)) ?known (take 32 fs) [] = Inr clean"
      and rest: "robot_floor_items cat kvs (if clean = [] then d else dput (take 48 (strip rid)) clean d) = Inr d'"
      using "2.prems"(3) False by (auto simp: Let_def ebind_eq_Inr)
    have "floor_ok [] clean" by (rule put_floors_ok [OF _ clean]) (simp add: floor_ok_def)
    then have "\<forall>rid' fs. dget (if clean = [] then d else dput (take 48 (strip rid)) clean d) rid' = Some fs \<longrightarrow> floor_ok [] fs"
      using "2.prems"(1) by (auto simp: dict_simps)
    moreover have "wf_dict (if clean = [] then d else dput (take 48 (strip rid)) clean d)"
      using "2.prems"(2) by simp
    ultimately show ?thesis using "2.IH"(2) [OF refl False] rest by blast
  qed
qed simp_all

lemma robot_floors_ok:
  assumes "validate_robot_floors cat raw = Inr d"
  shows "wf_dict d" "dget d rid = Some fs \<Longrightarrow> floor_ok [] fs"
  using assms robot_floor_items_ok [of "[]" cat _ d]
  by (auto simp: validate_robot_floors_def split: json.splits)

lemma strip_take: "length (take n s) \<le> n"
  by simp

definition rows_ok :: "robot_row list \<Rightarrow> bool" where
  "rows_ok rs = (distinct (map row_id rs) \<and> (\<forall>r \<in> set rs. row_id r \<noteq> [] \<and> length (row_id r) \<le> 48))"

lemma clean_rows_ok:
  "rows_ok acc \<Longrightarrow> rows_ok (clean_rows rep i items acc)
     \<and> length (clean_rows rep i items acc) \<le> length acc + length items"
proof (induction items arbitrary: i acc)
  case Nil
  then show ?case by simp
next
  case (Cons item items)
  show ?case
  proof (cases item)
    case (JObj kvs)
    define rid where "rid = take 48 (strip (py_str rep (jget kvs ''id'' (JStr (''robot_'' @ dec i)))))"
    show ?thesis
    proof (cases "rid = [] \<or> rid \<in> set (map row_id acc)")
      case True
      then have "clean_rows rep i (item # items) acc = clean_rows rep (Suc i) items acc"
        by (simp only: JObj clean_rows.simps json.case Let_def rid_def [symmetric] if_True)
      then show ?thesis using Cons.IH [OF Cons.prems, of "Suc i"] by simp
    next
      case False
      define r where "r = row_of rep kvs rid (length acc)"
      have r: "row_id r = rid" "clean_rows rep i (item # items) acc = clean_rows rep (Suc i) items (acc @ [r])"
        using False by (simp_all only: JObj clean_rows.simps json.case Let_def rid_def [symmetric] if_False r_def)
          (simp add: row_of_def Let_def)
      have "length rid \<le> 48" by (simp add: rid_def)
      then have "rows_ok (acc @ [r])" using Cons.prems False r(1) by (auto simp: rows_ok_def)
      from Cons.IH [OF this, of "Suc i"] show ?thesis unfolding r(2) by simp
    qed
  qed (use Cons.IH [OF Cons.prems, of "Suc i"] in simp_all)
qed

lemma dec_inj: "dec m = dec n \<longleftrightarrow> m = n"
  by (metis val_dec_dec)

lemma length_dec: "n < 100 \<Longrightarrow> length (dec n) \<le> 2"
  using dec.simps [of n] dec.simps [of "n div 10"] by (cases "n < 10") auto

lemma default_rows_ok: "n \<le> 16 \<Longrightarrow> rows_ok (map default_row [0..<n])"
  using length_dec by (auto simp: rows_ok_def default_row_def distinct_map inj_on_def dec_inj
      intro: order_trans [OF length_dec])

lemma grow_rows_default:
  "rs = map default_row [0..<m] \<Longrightarrow> grow_rows n rs = map default_row [0..<max m (nat n)]"
  using upt_add_eq_append [of 0 m "nat n - m"]
  by (auto simp: grow_rows_def max_def simp flip: map_append)

text \<open>The fields that validation bounds, read off a validated value.\<close>

definition settings_ok :: "floors \<Rightarrow> settings \<Rightarrow> bool" where
  "settings_ok cat v = (10 \<le> unattended_threshold v \<and> unattended_threshold v \<le> 3600
     \<and> 0 \<le> alert_suppress v \<and> alert_suppress v \<le> 3600
     \<and> 1 \<le> robot_count v \<and> robot_count v \<le> int (length (rows v)) \<and> length (rows v) \<le> 16 \<and> rows_ok (rows v)
     \<and> 1/10 \<le> sensitivity v \<and> sensitivity v \<le> 1
     \<and> 1/20 \<le> det_same v \<and> det_same v \<le> det_ask v \<and> det_ask v \<le> 10
     \<and> drive_mode v \<in> {''arrows'', ''joystick''} \<and> single_name v \<noteq> []
     \<and> floor_ok cat (class_floors v) \<and> wf_dict (robot_floors v)
     \<and> (\<forall>rid fs. dget (robot_floors v) rid = Some fs \<longrightarrow> floor_ok [] fs)
     \<and> capture v = capture_floors cat (class_floors v) (robot_floors v))"

lemma clamp_int_range:
  assumes "clamp_int (of_int lo) (of_int hi) d v = Inr n" and "lo \<le> hi" and "lo \<le> d" "d \<le> hi"
  shows "lo \<le> n \<and> n \<le> hi"
proof -
  have "lo \<le> \<lfloor>clamp_real (of_int lo) (of_int hi) f\<rfloor> \<and> \<lfloor>clamp_real (of_int lo) (of_int hi) f\<rfloor> \<le> hi" for f
    using clamp_real_range [of "of_int lo" "of_int hi" f] assms(2) by (auto simp: le_floor_iff floor_le_iff)
  then show ?thesis
    using assms(1,3,4) by (auto simp: clamp_int_def catching_eq_Inr ebind_eq_Inr)
qed

lemma py_round_mono: "x \<le> y \<Longrightarrow> py_round n x \<le> py_round n y"
proof -
  assume "x \<le> y"
  then have le: "x * 10 ^ n \<le> y * 10 ^ n" by simp
  have "round_even a \<le> round_even b" if "a \<le> b" for a b :: real
  proof -
    have "\<lfloor>a\<rfloor> \<le> \<lfloor>b\<rfloor>" using that by (rule floor_mono)
    then consider "\<lfloor>a\<rfloor> = \<lfloor>b\<rfloor>" | "\<lfloor>a\<rfloor> + 1 \<le> \<lfloor>b\<rfloor>" by linarith
    then show ?thesis
    proof cases
      case 1
      then show ?thesis using that by (auto simp: round_even_def Let_def)
    next
      case 2
      then have "of_int (\<lfloor>a\<rfloor> + 1) \<le> b" by (simp add: le_floor_iff)
      then have "\<lfloor>a\<rfloor> + 1 \<le> round_even b" by (rule round_even_mono_bounds(1))
      moreover have "round_even a \<le> \<lfloor>a\<rfloor> + 1" by (simp add: round_even_def Let_def)
      ultimately show ?thesis by simp
    qed
  qed
  then show ?thesis using le by (simp add: py_round_def divide_right_mono)
qed

lemma radii_range:
  assumes "radii src = Inr (same, ask)"
  shows "1/20 \<le> same \<and> same \<le> ask \<and> ask \<le> 10"
proof -
  have "1/20 \<le> py_round 2 a \<and> py_round 2 a \<le> py_round 2 (max a b) \<and> py_round 2 (max a b) \<le> 10"
    if "1/20 \<le> a" "a \<le> 5" "b \<le> 10" for a b :: real
    using that py_round_ge [of 5 a 2] py_round_le [of "max a b" 2 1000] py_round_mono [of a "max a b" 2] by auto
  then show ?thesis
    using assms clamp_real_range [of "1/20" 5] clamp_real_range [of "1/20" 10]
    by (auto simp: radii_def catching_eq_Inr ebind_eq_Inr Let_def)
qed

lemma text_or_nonempty: "d \<noteq> [] \<Longrightarrow> text_or rep n d v \<noteq> []"
  by (simp add: text_or_def Let_def)

lemma validate_sound:
  assumes cat: "wf_dict cat" and val: "validate cat rep raw = Inr v"
  shows "settings_ok cat v"
proof -
  define src where "src = obj_fields raw"
  obtain cnt sens same ask where parts:
      "clamp_int (of_int 10) (of_int 3600) 45 (jget src ''unattended_threshold_s'' (JInt 45)) = Inr (unattended_threshold v)"
      "clamp_int (of_int 0) (of_int 3600) 30 (jget src ''alert_suppress_s'' (JInt 30)) = Inr (alert_suppress v)"
      "catching bad_number 4 (ebind (py_int (jget src ''robot_count'' (JInt 4)))
               (\<lambda>n. Inr (max 1 (min (int settings_max_robots) n)))) = Inr cnt"
      "catching bad_number (11/20) (ebind (float_of (jget src ''detection_sensitivity'' (JFloat (Fin (11/20)))))
               (\<lambda>f. Inr (py_round 2 (clamp_real (1/10) 1 f)))) = Inr sens"
      "radii src = Inr (same, ask)"
      "validate_class_floors cat (jget src ''detection_class_floors'' JNull) = Inr (class_floors v)"
      "validate_robot_floors cat (jget src ''detection_robot_floors'' JNull) = Inr (robot_floors v)"
    and fields: "sensitivity v = sens" "det_same v = same" "det_ask v = ask"
      "drive_mode v \<in> {''arrows'', ''joystick''}"
      "capture v = capture_floors cat (class_floors v) (robot_floors v)"
      "single_name v = text_or rep 48 ''Target'' (jget src ''detection_single_name'' (JStr ''Target''))"
    and rows: "let clean = (case jget src ''robots'' JNull of
            JList items \<Rightarrow> clean_rows rep 0 (take settings_max_robots items) [] | _ \<Rightarrow> []);
          rs = (if clean = [] then map default_row [0..<4] else clean);
          n = (if clean = [] then cnt else min cnt (int (length clean))) in
       robot_count v = n \<and> Settings.rows v = grow_rows n rs"
    using val unfolding validate_def
    by (auto simp: src_def [symmetric] Let_def ebind_eq_Inr)
  have thr: "10 \<le> unattended_threshold v \<and> unattended_threshold v \<le> 3600"
    by (rule clamp_int_range [OF parts(1)]) simp_all
  have sup: "0 \<le> alert_suppress v \<and> alert_suppress v \<le> 3600"
    by (rule clamp_int_range [OF parts(2)]) simp_all
  have cnt: "1 \<le> cnt \<and> cnt \<le> 16"
    using parts(3) by (auto simp: catching_eq_Inr ebind_eq_Inr settings_max_robots_def)
  have round: "1/10 \<le> py_round 2 x \<and> py_round 2 x \<le> 1" if "1/10 \<le> x" "x \<le> 1" for x :: real
    using that py_round_ge [of 10 x 2] py_round_le [of x 2 100] by simp
  have sens: "1/10 \<le> sens \<and> sens \<le> 1"
    using parts(4) round clamp_real_range [of "1/10" 1] by (auto simp: catching_eq_Inr ebind_eq_Inr)
  have rws: "1 \<le> robot_count v \<and> robot_count v \<le> int (length (Settings.rows v)) \<and> length (Settings.rows v) \<le> 16
      \<and> rows_ok (Settings.rows v)"
  proof (cases "(case jget src ''robots'' JNull of
            JList items \<Rightarrow> clean_rows rep 0 (take settings_max_robots items) [] | _ \<Rightarrow> []) = []")
    case True
    then have v: "robot_count v = cnt" "Settings.rows v = grow_rows cnt (map default_row [0..<4])"
      using rows by (simp_all add: Let_def)
    have "Settings.rows v = map default_row [0..<max 4 (nat cnt)]"
      unfolding v(2) by (rule grow_rows_default) simp
    then show ?thesis using v(1) cnt default_rows_ok [of "max 4 (nat cnt)"] by auto
  next
    case False
    then obtain items where items: "jget src ''robots'' JNull = JList items"
      by (cases "jget src ''robots'' JNull") auto
    define clean where "clean = clean_rows rep 0 (take settings_max_robots items) []"
    have ok: "rows_ok clean" "length clean \<le> 16" "clean \<noteq> []"
      using clean_rows_ok [of "[]" rep 0 "take settings_max_robots items"] False items
      by (auto simp: clean_def rows_ok_def settings_max_robots_def)
    have v: "robot_count v = min cnt (int (length clean))"
        "Settings.rows v = grow_rows (min cnt (int (length clean))) clean"
      using rows ok(3) items by (simp_all add: Let_def clean_def)
    have "Settings.rows v = clean" unfolding v(2) grow_rows_def by simp
    moreover have "1 \<le> length clean" using ok(3) by (cases clean) simp_all
    ultimately show ?thesis using v(1) ok cnt by (auto simp: min_def)
  qed
  show ?thesis
    using thr sup rws sens radii_range [OF parts(5)] fields class_floors_ok [OF cat parts(6)]
      robot_floors_ok [OF parts(7)] text_or_nonempty [of "''Target''"]
    by (simp add: settings_ok_def)
qed

subsection \<open>Properties\<close>

text \<open>C31: Whatever JSON is saved as settings, validation either raises (for a number too large
  to convert) or returns settings in range: thresholds, robot count, sensitivity and radii are
  bounded, the ambiguous band of detections is never inverted, robot ids are non-empty,
  distinct and short, and every stored floor is a catalog default or lies between 0.05 and
  0.95.\<close>

theorem settings_validated:
  assumes "wf_dict cat" and "validate cat rep raw = Inr v"
  shows "settings_ok cat v"
  by (rule validate_sound [OF assms])

definition hostile_settings :: json where
  "hostile_settings = JObj [(''unattended_threshold_s'', JFloat NaN), (''robot_count'', JInt 900),
     (''detection_same_radius_m'', JInt 4), (''detection_ask_radius_m'', JInt (- 3)),
     (''robots'', JList [JObj [(''id'', JStr ''spot'')], JObj [(''id'', JStr '' spot '')], JInt 3]),
     (''detection_class_floors'', JObj [(''disc_cone'', JInt 7)]),
     (''detection_robot_floors'', JObj [(''spot'', JObj [(''disc_cone'', JFloat (Fin (1/10)))])])]"

definition hostile_result :: settings where
  "hostile_result = projr (validate catalog (\<lambda>_. []) hostile_settings)"

lemma hostile_valid: "validate catalog (\<lambda>_. []) hostile_settings = Inr hostile_result"
proof -
  have "isl (validate catalog (\<lambda>_. []) hostile_settings) = False" by code_simp
  then show ?thesis by (simp add: hostile_result_def)
qed

lemma catalog_wf: "wf_dict catalog"
  by (simp add: wf_dict_def catalog_def)

theorem settings_validated_witness: "settings_ok catalog hostile_result"
  by (rule settings_validated [OF catalog_wf hostile_valid])

lemma fold_min_le: "fold min xs (x::real) \<le> x \<and> (\<forall>y \<in> set xs. fold min xs x \<le> y)"
proof (induction xs arbitrary: x)
  case (Cons z zs)
  show ?case using Cons.IH [of "min z x"] by auto
qed simp

lemma capture_le:
  assumes "y \<in> set (floor_candidates cat fleet overrides name)" and "py_round 2 y = y"
    and "name \<in> set (concat (map keys (cat # fleet # map snd overrides)))"
  shows "\<exists>c. dget (capture_floors cat fleet overrides) name = Some c \<and> c \<le> y"
proof -
  obtain x xs where c: "floor_candidates cat fleet overrides name = x # xs"
    using assms(1) by (cases "floor_candidates cat fleet overrides name") auto
  have "fold min xs x \<le> y" using fold_min_le [of xs x] assms(1) c by auto
  then have le: "py_round 2 (fold min xs x) \<le> y" using py_round_mono [of "fold min xs x" y 2] assms(2) by simp
  define g where "g = (\<lambda>name. case floor_candidates cat fleet overrides name of [] \<Rightarrow> []
                    | x # xs \<Rightarrow> [(name, py_round 2 (fold min xs x))])"
  have "map_of (concat (map g names)) name = Some (py_round 2 (fold min xs x))" if "name \<in> set names" for names
    using that
  proof (induction names)
    case (Cons n ns)
    then show ?case
      by (cases "n = name") (auto simp: g_def c split: list.split)
  qed simp
  moreover have "name \<in> set (remdups (concat (map keys (cat # fleet # map snd overrides))))"
    using assms(3) by simp
  ultimately show ?thesis using le unfolding capture_floors_def g_def [symmetric] by blast
qed

lemma candidates_mem:
  "x \<in> set (floor_candidates cat fleet overrides name) \<longleftrightarrow>
   (\<exists>fs \<in> set (cat # fleet # map snd overrides). dget fs name = Some x)"
proof -
  have "x \<in> set (concat (map (\<lambda>fs. case dget fs name of None \<Rightarrow> [] | Some x \<Rightarrow> [x]) ds)) \<longleftrightarrow>
      (\<exists>fs \<in> set ds. dget fs name = Some x)" for ds :: "floors list"
    by (induction ds) (auto split: option.split)
  then show ?thesis unfolding floor_candidates_def .
qed

lemma floor_source:
  shows "(floor_for cat v rid cls = 0 \<and> cls \<notin> set (keys cat)) \<or>
    (floor_for cat v rid cls \<in> set (floor_candidates cat (class_floors v) (robot_floors v) cls)
     \<and> cls \<in> set (concat (map keys (cat # class_floors v # map snd (robot_floors v)))))"
proof -
  have key: "cls \<in> set (keys d)" if "dget d cls = Some x" for d :: floors and x
    using map_of_SomeD [OF that] by (force simp: keys_def)
  show ?thesis
  proof (cases "case dget (robot_floors v) rid of None \<Rightarrow> None | Some fs \<Rightarrow> dget fs cls")
    case (Some x)
    then obtain fs where fs: "dget (robot_floors v) rid = Some fs" "dget fs cls = Some x"
      by (cases "dget (robot_floors v) rid") auto
    then have "fs \<in> set (map snd (robot_floors v))" by (force dest!: map_of_SomeD)
    moreover have "floor_for cat v rid cls = x" by (simp add: floor_for_def fs)
    ultimately show ?thesis using fs(2) key [OF fs(2)] by (auto simp: candidates_mem)
  next
    case no_own: None
    show ?thesis
    proof (cases "dget (class_floors v) cls")
      case (Some x)
      then have "floor_for cat v rid cls = x" by (simp add: floor_for_def no_own)
      then show ?thesis using Some key [OF Some] by (auto simp: candidates_mem)
    next
      case no_fleet: None
      show ?thesis
      proof (cases "dget cat cls")
        case (Some x)
        then have "floor_for cat v rid cls = x" by (simp add: floor_for_def no_own no_fleet)
        then show ?thesis using Some key [OF Some] by (auto simp: candidates_mem)
      next
        case None
        then have "floor_for cat v rid cls = 0" by (simp add: floor_for_def no_own no_fleet)
        then show ?thesis using None by (auto simp: keys_def map_of_eq_None_iff)
      qed
    qed
  qed
qed

text \<open>The robots are asked to capture at or below every floor the operator display applies:
  for every robot and class, the display floor is 0 or there is a capture floor not above it,
  so lowering or raising a display floor can always be answered from stored evidence.\<close>

lemma capture_covers_display:
  assumes "wf_dict cat" and "\<forall>k x. dget cat k = Some x \<longrightarrow> py_round 2 x = x"
    and "validate cat rep raw = Inr v"
  shows "floor_for cat v rid cls = 0 \<or> (\<exists>c. dget (capture v) cls = Some c \<and> c \<le> floor_for cat v rid cls)"
proof -
  have ok: "settings_ok cat v" by (rule validate_sound [OF assms(1,3)])
  have rounded: "py_round 2 x = x"
    if mem: "x \<in> set (floor_candidates cat (class_floors v) (robot_floors v) cls)" for x
  proof -
    have wf: "wf_dict (robot_floors v)" using ok by (simp add: settings_ok_def)
    obtain fs where fs: "fs \<in> set (cat # class_floors v # map snd (robot_floors v))" "dget fs cls = Some x"
      using mem unfolding candidates_mem by blast
    then consider "fs = cat" | "fs = class_floors v" | rid where "dget (robot_floors v) rid = Some fs"
      using wf by (auto simp: wf_dict_dget)
    then show ?thesis
      using fs(2) ok assms(2) by cases (auto simp: settings_ok_def floor_ok_def)
  qed
  have "capture v = capture_floors cat (class_floors v) (robot_floors v)"
    using ok by (simp add: settings_ok_def)
  then show ?thesis
    using floor_source [where v = v and cat = cat and rid = rid and cls = cls]
  proof (elim disjE conjE)
    assume "floor_for cat v rid cls \<in> set (floor_candidates cat (class_floors v) (robot_floors v) cls)"
      and "cls \<in> set (concat (map keys (cat # class_floors v # map snd (robot_floors v))))"
    from capture_le [OF this(1) rounded [OF this(1)] this(2)] show ?thesis
      by (simp add: \<open>capture v = _\<close>)
  qed simp
qed

lemma capture_covers_display_witness:
  "\<exists>c. dget (capture hostile_result) ''disc_cone'' = Some c \<and> c \<le> floor_for catalog hostile_result ''spot'' ''disc_cone''"
proof -
  have "list_all (\<lambda>(k, x). py_round 2 x = x) catalog" by code_simp
  then have two: "\<forall>k x. dget catalog k = Some x \<longrightarrow> py_round 2 x = x"
    by (auto simp: list_all_iff dest!: map_of_SomeD)
  have "floor_for catalog hostile_result ''spot'' ''disc_cone'' \<noteq> 0" by code_simp
  then show ?thesis
    using capture_covers_display [OF catalog_wf two hostile_valid, of "''spot''" "''disc_cone''"] by simp
qed

end
