(* ===== verification/Operator.thy ===== *)
theory Operator
  imports Registry Review Settings "HOL-Library.Sublist"
begin

text \<open>
  The server between the operator and the robots: its state, sending a command, and the REST
  commands of \<^verbatim>\<open>server/swarmdeck_server/api/teleop_routes.py\<close> (drive, goal, cancel, stop,
  body) with the goal conflict check of \<^verbatim>\<open>api/app.py\<close>.

  What a handler can be observed to do is its \<open>trace\<close>: messages handed to a socket, broadcasts
  to the dashboards, event-log records, files written, tasks started, calls of the map service. The transport, the frame transforms and the path
  planner are arguments (\<open>env\<close>). While a send waits, other handlers may run: the transport
  returns the state they left. A robot object a handler holds across a wait is the entry of
  that id afterwards, if there is one.
\<close>

subsection \<open>State\<close>

datatype effect =
    Sent nat json | Broadcast json | Logged string json | Stored string json | Task string
  | Map_Call string string | Map_Note string string json

text \<open>A live camera track; the backend keeps the newest report of each.\<close>

record track =
  t_id :: string
  t_class :: string
  t_score :: pyfloat
  t_best :: pyfloat
  t_robot :: string
  t_camera :: json
  t_bbox :: json
  t_polygon :: json
  t_image :: json
  t_position :: json
  t_first :: real
  t_last :: real
  t_seen :: nat
  t_hidden :: bool

record alert =
  al_level :: string
  al_kind :: string
  al_message :: string
  al_robot :: json
  al_time :: real
  al_ack :: bool

record server =
  reg :: registry
  alerts :: "(string, alert) dict"
  suppressed :: "(string, real) dict"
  watchers :: "(nat, string) dict"
  reviews :: review
  cfg :: settings
  timers :: "(real \<times> string) list"
  frames :: "(string, real) dict"
  tracks :: "(string, track) dict"
  resetting :: bool
  reset_pending :: "string set"
  reset_failures :: "(string, json) dict"
  reset_event :: bool
  review_dirty :: bool
  review_pushed :: real
  trace :: "effect list"

record env =
  net :: "nat \<Rightarrow> json \<Rightarrow> server \<Rightarrow> bool \<times> server"
  to_world :: "string \<Rightarrow> json \<Rightarrow> pyerr + json"
  to_robot :: "string \<Rightarrow> json \<Rightarrow> pyerr + json"
  plan :: "string \<Rightarrow> json \<Rightarrow> json \<Rightarrow> pyerr + json list"
  stamps :: "(string \<times> json) list"

definition emit :: "effect \<Rightarrow> server \<Rightarrow> server" where
  "emit e s = s\<lparr>trace := trace s @ [e]\<rparr>"

definition message :: "env \<Rightarrow> string \<Rightarrow> (string \<times> json) list \<Rightarrow> json" where
  "message en kind kvs = JObj ((''type'', JStr kind) # kvs @ stamps en)"

definition on_robot :: "string \<Rightarrow> (robot \<Rightarrow> robot) \<Rightarrow> server \<Rightarrow> server" where
  "on_robot rid f s = (case dget (robots (reg s)) rid of None \<Rightarrow> s
     | Some r \<Rightarrow> s\<lparr>reg := (reg s)\<lparr>robots := dput rid (f r) (robots (reg s))\<rparr>\<rparr>)"

text \<open>\<open>Registry.send\<close> with the transport of the environment.\<close>

definition send_msg :: "env \<Rightarrow> string \<Rightarrow> json \<Rightarrow> server \<Rightarrow> server \<times> bool" where
  "send_msg en rid m s = (case dget (sinks (reg s)) rid of
     None \<Rightarrow> (s, False)
   | Some k \<Rightarrow> (case net en k m s of
       (True, s') \<Rightarrow> (s', True)
     | (False, s') \<Rightarrow> (s'\<lparr>reg := disconnect rid (Some k) (reg s')\<rparr>, False)))"

text \<open>The robots of a list that a command did not reach, in order.\<close>

fun send_each :: "(string \<Rightarrow> 's \<Rightarrow> 's \<times> bool) \<Rightarrow> string list \<Rightarrow> 's \<Rightarrow> 's \<times> string list" where
  "send_each snd1 [] s = (s, [])"
| "send_each snd1 (rid # rids) s =
     (let (s1, ok) = snd1 rid s; (s2, missed) = send_each snd1 rids s1 in
      (s2, if ok then missed else rid # missed))"

subsection \<open>Goals\<close>

fun taken_in_world :: "env \<Rightarrow> json \<Rightarrow> string \<Rightarrow> (string, robot) dict \<Rightarrow> pyerr + string option" where
  "taken_in_world en goal excl [] = Inr None"
| "taken_in_world en goal excl ((rid, r) # rs) =
     (if rid = excl \<or> \<not> truthy (r_goal r) then taken_in_world en goal excl rs
      else ebind (if r_frame r = Merged then Inr (r_goal r) else to_world en rid (r_goal r)) (\<lambda>current.
           ebind (near (1/2) current goal) (\<lambda>hit.
             if hit then Inr (Some rid) else taken_in_world en goal excl rs)))"

definition goal_taken :: "env \<Rightarrow> json \<Rightarrow> string \<Rightarrow> server \<Rightarrow> pyerr + string option" where
  "goal_taken en goal excl s = taken_in_world en goal excl (robots (reg s))"

definition plan_goal :: "env \<Rightarrow> string \<Rightarrow> robot \<Rightarrow> json \<Rightarrow> pyerr + json \<times> json list" where
  "plan_goal en rid r goal =
     (let merged = (r_frame r = Merged) in
      ebind (if merged then Inr goal else to_robot en rid goal) (\<lambda>local_goal.
      ebind (if merged then Inr (r_pose r) else to_world en rid (r_pose r)) (\<lambda>start.
      ebind (if merged then Inr goal else to_world en rid local_goal) (\<lambda>world_goal.
      ebind (plan en rid start world_goal) (\<lambda>path.
      ebind (if merged then Inr path else emap (to_robot en rid) path) (\<lambda>local_path.
        Inr (local_goal, local_path)))))))"

subsection \<open>REST commands\<close>

datatype reply = Done json | Refused nat string | Failed pyerr

definition max_linear :: real where "max_linear = 4/5"
definition max_angular :: real where "max_angular = 3/2"

definition drive_msg :: "env \<Rightarrow> pyfloat \<Rightarrow> pyfloat \<Rightarrow> json" where
  "drive_msg en lin ang = message en ''drive'' [(''linear'', JFloat lin), (''angular'', JFloat ang)]"

definition velocities :: "(string \<times> json) list \<Rightarrow> pyerr + pyfloat \<times> pyfloat" where
  "velocities kvs =
     ebind (float_of (jget kvs ''linear'' (JFloat (Fin 0)))) (\<lambda>l.
     ebind (float_of (jget kvs ''angular'' (JFloat (Fin 0)))) (\<lambda>a.
       Inr (clampf (- max_linear) max_linear l, clampf (- max_angular) max_angular a)))"

definition moving :: "pyfloat \<Rightarrow> bool" where
  "moving v = (v \<noteq> Fin 0)"

definition post_robot_drive :: "env \<Rightarrow> real \<Rightarrow> string \<Rightarrow> json \<Rightarrow> server \<Rightarrow> server \<times> reply" where
  "post_robot_drive en now rid body s =
     (case body of
        JObj kvs \<Rightarrow>
          (case ebind (velocities kvs) (\<lambda>v. ebind (float_of (jget kvs ''duration'' (JFloat (Fin 0)))) (\<lambda>d.
                  Inr (v, clampf 0 60 d))) of
             Inl e \<Rightarrow> (s, Failed e)
           | Inr ((lin, ang), dur) \<Rightarrow>
               (if dget (robots (reg s)) rid = None then (s, Refused 404 ''not found'')
                else (case send_msg en rid (drive_msg en lin ang) s of
                  (s1, False) \<Rightarrow> (s1, Refused 502 ''failed to send drive'')
                | (s1, True) \<Rightarrow>
                    (let out = [(''robot_id'', JStr rid), (''linear'', JFloat lin), (''angular'', JFloat ang),
                                (''duration'', JFloat dur)];
                         s2 = emit (Logged ''agent_drive'' (JObj out)) (on_robot rid (\<lambda>r. r\<lparr>r_goal := JNull\<rparr>) s1);
                         s3 = (case dur of Fin t \<Rightarrow>
                                 if 0 < t \<and> (moving lin \<or> moving ang) then s2\<lparr>timers := timers s2 @ [(now + t, rid)]\<rparr>
                                 else s2 | _ \<Rightarrow> s2) in
                     (s3, Done (JObj ((''ok'', JBool True) # out)))))))
      | _ \<Rightarrow> (s, Failed AttributeError))"

text \<open>The task a timed drive leaves behind, when its delay is over.\<close>

definition auto_stop :: "env \<Rightarrow> string \<Rightarrow> server \<Rightarrow> server" where
  "auto_stop en rid s = emit (Logged ''agent_drive_stop'' (JObj [(''robot_id'', JStr rid)]))
     (fst (send_msg en rid (drive_msg en (Fin 0) (Fin 0)) s))"

definition fire_timers :: "env \<Rightarrow> real \<Rightarrow> server \<Rightarrow> server" where
  "fire_timers en now s = fold (\<lambda>(t, rid). auto_stop en rid) (filter (\<lambda>(t, rid). t \<le> now) (timers s))
     (s\<lparr>timers := filter (\<lambda>(t, rid). now < t) (timers s)\<rparr>)"

fun has_key :: "string \<Rightarrow> json \<Rightarrow> pyerr + bool" where
  "has_key k (JObj kvs) = Inr (jhas kvs k)"
| "has_key k (JList xs) = Inr (JStr k \<in> set xs)"
| "has_key k (JStr s) = Inr (sublist k s)"
| "has_key k v = Inl TypeError"

definition goal_of_body :: "json \<Rightarrow> pyerr + json" where
  "goal_of_body body =
     ebind (jindex body ''x'') (\<lambda>jx. ebind (float_of jx) (\<lambda>x.
     ebind (jindex body ''y'') (\<lambda>jy. ebind (float_of jy) (\<lambda>y.
     ebind (float_of (jget (obj_fields body) ''yaw'' (JFloat (Fin 0)))) (\<lambda>w.
       Inr (JObj [(''x'', JFloat x), (''y'', JFloat y), (''yaw'', JFloat w)]))))))"

definition navigate_msg :: "env \<Rightarrow> json \<Rightarrow> json list \<Rightarrow> json" where
  "navigate_msg en goal path = message en ''navigate_to'' [(''goal'', goal), (''path'', JList path)]"

definition post_robot_goal :: "env \<Rightarrow> string \<Rightarrow> json option \<Rightarrow> server \<Rightarrow> server \<times> reply" where
  "post_robot_goal en rid body s =
     (case body of None \<Rightarrow> (s, Refused 400 ''Invalid JSON body'') | Some b \<Rightarrow>
      (case ebind (has_key ''x'' b) (\<lambda>hx. if hx then has_key ''y'' b else Inr False) of
         Inl e \<Rightarrow> (s, Failed e) | Inr False \<Rightarrow> (s, Refused 400 ''x and y required'') | Inr True \<Rightarrow>
      (case dget (robots (reg s)) rid of None \<Rightarrow> (s, Refused 404 ''not found'') | Some r \<Rightarrow>
       if \<not> can (reg s) rid ''navigate'' then (s, Refused 400 ''does not support navigation'') else
      (case ebind (goal_of_body b) (\<lambda>goal. ebind (goal_taken en goal rid s) (\<lambda>by. Inr (goal, by))) of
         Inl e \<Rightarrow> (s, Failed e) | Inr (goal, Some other) \<Rightarrow> (s, Refused 409 other) | Inr (goal, None) \<Rightarrow>
      (case plan_goal en rid r goal of Inl e \<Rightarrow> (s, Failed e) | Inr (local_goal, path) \<Rightarrow>
      (case send_msg en rid (navigate_msg en local_goal path) s of
         (s1, False) \<Rightarrow> (s1, Refused 502 ''failed to send navigation goal'')
       | (s1, True) \<Rightarrow>
           (emit (Logged ''agent_goal'' (JObj [(''robot_id'', JStr rid), (''goal'', goal)]))
              (on_robot rid (take_goal local_goal path) s1),
            Done (JObj [(''ok'', JBool True), (''robot_id'', JStr rid), (''goal'', goal),
                        (''path_length'', JInt (int (length path)))]))))))))"

definition cancel_msg :: "env \<Rightarrow> json" where
  "cancel_msg en = message en ''cancel_goal'' []"

definition post_robot_cancel :: "env \<Rightarrow> string \<Rightarrow> server \<Rightarrow> server \<times> reply" where
  "post_robot_cancel en rid s =
     (if dget (robots (reg s)) rid = None then (s, Refused 404 ''not found'')
      else (let (s1, sent) = send_msg en rid (cancel_msg en) s;
                s2 = (if sent then on_robot rid (\<lambda>r. cancelled (r\<lparr>r_goal := JNull, r_global := [], r_local := [],
                                                                  r_planned := []\<rparr>)) s1 else s1) in
            (emit (Logged ''agent_cancel'' (JObj [(''robot_id'', JStr rid)])) s2,
             Done (JObj [(''ok'', JBool True), (''robot_id'', JStr rid)]))))"

definition halt :: "env \<Rightarrow> string \<Rightarrow> server \<Rightarrow> server" where
  "halt en rid s =
     on_robot rid (\<lambda>r. cancelled (r\<lparr>r_goal := JNull, r_planned := []\<rparr>))
       (fst (send_msg en rid (drive_msg en (Fin 0) (Fin 0)) (fst (send_msg en rid (cancel_msg en) s))))"

definition post_robot_stop :: "env \<Rightarrow> string \<Rightarrow> server \<Rightarrow> server \<times> reply" where
  "post_robot_stop en rid s =
     (if rid \<noteq> ''all'' \<and> dget (robots (reg s)) rid = None then (s, Refused 404 ''not found'')
      else (let targets = (if rid = ''all'' then keys (robots (reg s)) else [rid]) in
        (emit (Logged ''agent_stop'' (JObj [(''targets'', JList (map JStr targets))])) (fold (halt en) targets s),
         Done (JObj [(''ok'', JBool True), (''stopped'', JList (map JStr targets))]))))"

definition body_actions :: "string list" where
  "body_actions = [''claim'', ''release'', ''sit'', ''stand'', ''damping'', ''lie_to_stand'', ''lock_stand'',
     ''walk_mode'', ''run_mode'', ''wave'', ''set_height'']"

definition height_field :: "json \<Rightarrow> pyerr + (string \<times> json) list" where
  "height_field b = ebind (has_key ''height'' b) (\<lambda>h.
     if h then catching {ValueError, TypeError} []
       (ebind (jindex b ''height'') (\<lambda>v. ebind (float_of v) (\<lambda>x. Inr [(''height'', JFloat x)])))
     else Inr [])"

definition body_msg :: "env \<Rightarrow> string \<Rightarrow> (string \<times> json) list \<Rightarrow> json" where
  "body_msg en act height = JObj ((''type'', JStr ''body_command'') # (''action'', JStr act) # stamps en @ height)"

definition post_robot_body :: "env \<Rightarrow> (json \<Rightarrow> string) \<Rightarrow> string \<Rightarrow> json option \<Rightarrow> server \<Rightarrow> server \<times> reply" where
  "post_robot_body en rep rid body s =
     (case body of None \<Rightarrow> (s, Refused 400 ''Invalid JSON body'')
      | Some (JObj kvs) \<Rightarrow>
          (let act = py_str rep (jget kvs ''action'' (JStr [])) in
           if act \<notin> set body_actions then (s, Refused 400 ''Unknown body action'')
           else if dget (robots (reg s)) rid = None then (s, Refused 404 ''not found'')
           else (case height_field (JObj kvs) of Inl e \<Rightarrow> (s, Failed e)
             | Inr height \<Rightarrow>
                 (let (s1, sent) = send_msg en rid (body_msg en act height) s in
                  (emit (Logged ''agent_body'' (JObj [(''robot_id'', JStr rid), (''action'', JStr act)])) s1,
                   Done (JObj [(''ok'', JBool sent), (''robot_id'', JStr rid), (''action'', JStr act)])))))
      | Some v \<Rightarrow> (s, Failed AttributeError))"

subsection \<open>A link without interference\<close>

text \<open>A transport that hands the message over, or fails, with nothing else going on; \<open>up\<close> says
  which sockets take messages.\<close>

definition quiet_net :: "(nat \<Rightarrow> bool) \<Rightarrow> nat \<Rightarrow> json \<Rightarrow> server \<Rightarrow> bool \<times> server" where
  "quiet_net up k m s = (up k, if up k then emit (Sent k m) s else s)"

abbreviation quietly :: "(nat \<Rightarrow> bool) \<Rightarrow> env \<Rightarrow> env" where
  "quietly up en \<equiv> en\<lparr>net := quiet_net up\<rparr>"

definition reached :: "(nat \<Rightarrow> bool) \<Rightarrow> server \<Rightarrow> string \<Rightarrow> bool" where
  "reached up s rid = (case dget (sinks (reg s)) rid of None \<Rightarrow> False | Some k \<Rightarrow> up k)"

definition delivery :: "json \<Rightarrow> server \<Rightarrow> string \<Rightarrow> effect" where
  "delivery m s rid = Sent (the (dget (sinks (reg s)) rid)) m"

text \<open>What a command link promises its callers: a send succeeds exactly for the robots it
  reaches, leaves its delivery in the log, and does not change who can be reached. A caller
  that sends to a list of robots then knows whom it missed and what went out.\<close>

locale command_link =
  fixes send1 :: "string \<Rightarrow> 's \<Rightarrow> 's \<times> bool"
    and ok :: "'s \<Rightarrow> string \<Rightarrow> bool"
    and out :: "'s \<Rightarrow> string \<Rightarrow> 'e"
    and log :: "'s \<Rightarrow> 'e list"
  assumes send_ok: "snd (send1 rid s) = ok s rid"
    and send_keeps: "ok (fst (send1 rid s)) = ok s"
    and send_log: "log (fst (send1 rid s)) = log s @ (if ok s rid then [out s rid] else [])"
    and send_out: "ok s r \<Longrightarrow> out (fst (send1 rid s)) r = out s r"
begin

lemma send_each_missed: "snd (send_each send1 rids s) = filter (\<lambda>r. \<not> ok s r) rids"
proof (induction rids arbitrary: s)
  case Nil
  then show ?case by simp
next
  case (Cons rid rids)
  then show ?case by (simp add: case_prod_unfold Let_def send_ok send_keeps)
qed

lemma send_each_log: "log (fst (send_each send1 rids s)) = log s @ map (out s) (filter (ok s) rids)"
proof (induction rids arbitrary: s)
  case Nil
  then show ?case by simp
next
  case (Cons rid rids)
  have "map (out (fst (send1 rid s))) (filter (ok s) rids) = map (out s) (filter (ok s) rids)"
    by (rule map_cong) (simp_all add: send_out)
  then show ?case by (simp add: case_prod_unfold Let_def Cons.IH send_keeps send_log)
qed

lemma send_each_keeps: "ok (fst (send_each send1 rids s)) = ok s"
  by (induction rids arbitrary: s) (simp_all add: case_prod_unfold Let_def send_keeps)

end

lemma emit_simps [simp]:
  "trace (emit e s) = trace s @ [e]" "reg (emit e s) = reg s" "timers (emit e s) = timers s"
  "alerts (emit e s) = alerts s" "suppressed (emit e s) = suppressed s" "cfg (emit e s) = cfg s"
  "watchers (emit e s) = watchers s" "tracks (emit e s) = tracks s" "reviews (emit e s) = reviews s"
  "reset_pending (emit e s) = reset_pending s" "reset_failures (emit e s) = reset_failures s"
  "frames (emit e s) = frames s"
  by (simp_all add: emit_def)

lemma send_quiet:
  "send_msg (quietly up en) rid m s =
     (if reached up s rid then (emit (delivery m s rid) s, True)
      else (case dget (sinks (reg s)) rid of None \<Rightarrow> s
            | Some k \<Rightarrow> s\<lparr>reg := disconnect rid (Some k) (reg s)\<rparr>, False))"
  by (auto simp: send_msg_def quiet_net_def reached_def delivery_def split: option.split)

lemma send_quiet_fst:
  "trace (fst (send_msg (quietly up en) rid m s))
     = trace s @ (if reached up s rid then [delivery m s rid] else [])"
  "robots (reg (fst (send_msg (quietly up en) rid m s))) = robots (reg s)"
  "snd (send_msg (quietly up en) rid m s) = reached up s rid"
  "alerts (fst (send_msg (quietly up en) rid m s)) = alerts s"
  "suppressed (fst (send_msg (quietly up en) rid m s)) = suppressed s"
  "cfg (fst (send_msg (quietly up en) rid m s)) = cfg s"
  "watchers (fst (send_msg (quietly up en) rid m s)) = watchers s"
  "timers (fst (send_msg (quietly up en) rid m s)) = timers s"
  unfolding send_quiet by (auto simp: disconnect_def split: option.split)

lemma send_quiet_sinks:
  "reached up s r \<Longrightarrow> dget (sinks (reg (fst (send_msg (quietly up en) rid m s)))) r = dget (sinks (reg s)) r"
  unfolding send_quiet by (auto simp: disconnect_def reached_def dict_simps split: option.splits)

lemma reached_send: "reached up (fst (send_msg (quietly up en) rid m s)) = reached up s"
proof
  fix r
  show "reached up (fst (send_msg (quietly up en) rid m s)) r = reached up s r"
    unfolding send_quiet by (auto simp: reached_def disconnect_def dict_simps split: option.splits)
qed

interpretation link: command_link "\<lambda>rid. send_msg (quietly up en) rid m" "reached up" "delivery m" trace
  for up en m
proof unfold_locales
  show "snd (send_msg (quietly up en) rid m s) = reached up s rid" for rid s
    by (simp add: send_quiet_fst)
  show "reached up (fst (send_msg (quietly up en) rid m s)) = reached up s" for rid s
    by (rule reached_send)
  show "trace (fst (send_msg (quietly up en) rid m s))
      = trace s @ (if reached up s rid then [delivery m s rid] else [])" for rid s
    by (simp add: send_quiet_fst)
  show "reached up s r \<Longrightarrow> delivery m (fst (send_msg (quietly up en) rid m s)) r = delivery m s r" for s r rid
    by (simp add: delivery_def send_quiet_sinks)
qed

lemma on_robot_simps [simp]:
  "trace (on_robot rid f s) = trace s" "sinks (reg (on_robot rid f s)) = sinks (reg s)"
  "reached up (on_robot rid f s) = reached up s" "timers (on_robot rid f s) = timers s"
  "dget (robots (reg (on_robot rid f s))) r
     = (if r = rid then map_option f (dget (robots (reg s)) r) else dget (robots (reg s)) r)"
  by (auto simp: on_robot_def reached_def fun_eq_iff dict_simps split: option.split)

lemma on_robot_keys [simp]: "keys (robots (reg (on_robot rid f s))) = keys (robots (reg s))"
proof (cases "dget (robots (reg s)) rid")
  case (Some r)
  then have "rid \<in> fst ` set (robots (reg s))" by (force dest: map_of_SomeD)
  then show ?thesis by (simp add: on_robot_def Some keys_def update_keys)
qed (simp add: on_robot_def)

text \<open>A failed send over any transport retires at most the socket it used.\<close>

lemma send_msg_refines:
  "net en = (\<lambda>k m s. (up k, s\<lparr>reg := meanwhile (reg s)\<rparr>)) \<Longrightarrow>
   reg (fst (send_msg en rid m s)) = fst (send up meanwhile rid (reg s))
   \<and> snd (send_msg en rid m s) = snd (send up meanwhile rid (reg s))"
  by (auto simp: send_msg_def send_def Let_def split: option.split)

subsection \<open>Properties\<close>

text \<open>A drive message within the limits.\<close>

definition gentle :: "env \<Rightarrow> effect \<Rightarrow> bool" where
  "gentle en e = (case e of Sent k m \<Rightarrow>
     (\<exists>l a. m = drive_msg en (Fin l) (Fin a) \<and> \<bar>l\<bar> \<le> 4/5 \<and> \<bar>a\<bar> \<le> 3/2) | _ \<Rightarrow> True)"

lemma velocities_bounded:
  assumes "velocities kvs = Inr (lin, ang)"
  shows "\<exists>l a. lin = Fin l \<and> ang = Fin a \<and> \<bar>l\<bar> \<le> 4/5 \<and> \<bar>a\<bar> \<le> 3/2"
proof -
  obtain f g where "lin = clampf (- max_linear) max_linear f" "ang = clampf (- max_angular) max_angular g"
    using assms by (auto simp: velocities_def ebind_def split: sum.splits)
  then show ?thesis
    using clampf_range [of "- max_linear" max_linear f] clampf_range [of "- max_angular" max_angular g]
    by (auto simp: max_linear_def max_angular_def)
qed

lemma drive_msg_net [simp]: "drive_msg (quietly up en) l a = drive_msg en l a"
  by (simp add: drive_msg_def message_def)

lemma drive_gentle:
  "\<exists>rest. trace (fst (post_robot_drive (quietly up en) now rid body s)) = trace s @ rest \<and> list_all (gentle en) rest"
proof (cases body)
  case (JObj kvs)
  show ?thesis
  proof (cases "ebind (velocities kvs) (\<lambda>v. ebind (float_of (jget kvs ''duration'' (JFloat (Fin 0)))) (\<lambda>d.
                  Inr (v, clampf 0 60 d)))")
    case (Inl e)
    then show ?thesis by (simp add: post_robot_drive_def JObj)
  next
    case (Inr b)
    obtain lin ang dur where b: "b = ((lin, ang), dur)" by (cases b) auto
    have "velocities kvs = Inr (lin, ang)" using Inr by (auto simp: b ebind_def split: sum.splits)
    then have ok: "gentle en (delivery (drive_msg en lin ang) s rid)"
      using velocities_bounded by (fastforce simp: gentle_def delivery_def)
    show ?thesis
    proof (cases "dget (robots (reg s)) rid = None \<or> \<not> reached up s rid")
      case True
      then show ?thesis
        using Inr by (auto simp: post_robot_drive_def JObj b send_quiet split: option.split)
    next
      case False
      then show ?thesis
        using Inr ok
        by (auto simp: post_robot_drive_def JObj b send_quiet Let_def gentle_def split: pyfloat.split)
    qed
  qed
qed (simp_all add: post_robot_drive_def)

text \<open>C39: Whatever JSON a drive request carries, any drive message it puts on a socket has a
  finite speed of at most 0.8 and a finite turn rate of at most 1.5.\<close>

theorem drive_is_bounded:
  "\<exists>rest. trace (fst (post_robot_drive (quietly up en) now rid body s)) = trace s @ rest \<and> list_all (gentle en) rest"
  by (rule drive_gentle)

text \<open>A speed that is not a number is not refused: the clamp turns it into full speed ahead,
  which the robot receives.\<close>

lemma nan_speed_is_full_speed:
  assumes "dget (robots (reg s)) rid = Some r" and "reached up s rid"
  shows "trace (fst (post_robot_drive (quietly up en) now rid (JObj [(''linear'', JFloat NaN)]) s))
    = trace s @ [delivery (drive_msg en (Fin (4/5)) (Fin 0)) s rid,
                 Logged ''agent_drive'' (JObj [(''robot_id'', JStr rid), (''linear'', JFloat (Fin (4/5))),
                   (''angular'', JFloat (Fin 0)), (''duration'', JFloat (Fin 0))])]"
  using assms
  by (simp add: post_robot_drive_def velocities_def jget_def send_quiet Let_def max_linear_def max_angular_def)

definition plain_env :: env where
  "plain_env = \<lparr>net = quiet_net (\<lambda>_. True), to_world = (\<lambda>_. Inr), to_robot = (\<lambda>_. Inr),
     plan = (\<lambda>_ a b. Inr [a, b]), stamps = []\<rparr>"

definition pair_up :: server where
  "pair_up = \<lparr>reg = fold reg_step [Hello 0 (hello_msg ''r1'') 1 [], Hello 0 (hello_msg ''r2'') 2 []] no_robots,
     alerts = [], suppressed = [], watchers = [], reviews = new_review, cfg = defaults catalog, timers = [],
     frames = [], tracks = [], resetting = False, reset_pending = {}, reset_failures = [],
     reset_event = False, review_dirty = False, review_pushed = 0, trace = []\<rparr>"

lemma pair_up_known:
  "dget (robots (reg pair_up)) ''r1'' = Some (the (dget (robots (reg pair_up)) ''r1''))"
  "reached (\<lambda>_. True) pair_up ''r1''"
  by code_simp+

lemma nan_speed_is_full_speed_witness:
  "trace (fst (post_robot_drive (quietly (\<lambda>_. True) plain_env) 0 ''r1'' (JObj [(''linear'', JFloat NaN)]) pair_up)) \<noteq> []"
  using nan_speed_is_full_speed [OF pair_up_known, of plain_env 0] by simp

lemma taken_None:
  "taken_in_world en goal excl rs = Inr None \<Longrightarrow> (rid, r) \<in> set rs \<Longrightarrow> rid \<noteq> excl \<Longrightarrow> truthy (r_goal r) \<Longrightarrow>
   \<exists>current. (if r_frame r = Merged then Inr (r_goal r) else to_world en rid (r_goal r)) = Inr current
     \<and> near (1/2) current goal = Inr False"
  by (induction en goal excl rs rule: taken_in_world.induct)
     (auto simp: ebind_def split: if_splits sum.splits)

lemma goal_accepted:
  assumes "post_robot_goal (quietly up en) rid body s = (s', Done out)"
  shows "\<exists>b goal r lg path. body = Some b \<and> goal_of_body b = Inr goal \<and> dget (robots (reg s)) rid = Some r
     \<and> can (reg s) rid ''navigate'' \<and> goal_taken (quietly up en) goal rid s = Inr None
     \<and> plan_goal (quietly up en) rid r goal = Inr (lg, path) \<and> reached up s rid
     \<and> s' = emit (Logged ''agent_goal'' (JObj [(''robot_id'', JStr rid), (''goal'', goal)]))
              (on_robot rid (take_goal lg path) (emit (delivery (navigate_msg en lg path) s rid) s))"
proof -
  obtain b where b: "body = Some b" using assms by (cases body) (simp_all add: post_robot_goal_def)
  obtain r where r: "dget (robots (reg s)) rid = Some r"
    using assms by (cases "dget (robots (reg s)) rid") (auto simp: post_robot_goal_def b split: sum.splits bool.splits)
  obtain goal where goal: "goal_of_body b = Inr goal" "goal_taken (quietly up en) goal rid s = Inr None"
    using assms
    by (auto simp: post_robot_goal_def b r ebind_def split: sum.splits bool.splits option.splits if_splits)
  have can: "can (reg s) rid ''navigate''"
    using assms by (auto simp: post_robot_goal_def b r split: sum.splits bool.splits if_splits)
  obtain lg path where plan: "plan_goal (quietly up en) rid r goal = Inr (lg, path)"
    using assms goal can
    by (cases "plan_goal (quietly up en) rid r goal")
       (auto simp: post_robot_goal_def b r split: sum.splits bool.splits)
  have msg: "navigate_msg (quietly up en) lg path = navigate_msg en lg path"
    by (simp add: navigate_msg_def message_def)
  have "reached up s rid \<and> s' = emit (Logged ''agent_goal'' (JObj [(''robot_id'', JStr rid), (''goal'', goal)]))
              (on_robot rid (take_goal lg path) (emit (delivery (navigate_msg en lg path) s rid) s))"
    using assms goal can plan
    by (auto simp: post_robot_goal_def b r send_quiet msg split: sum.splits bool.splits if_splits)
  with b r goal can plan show ?thesis by blast
qed

text \<open>With no other handler running while the goal is sent, an accepted goal keeps its
  distance: every other robot that has a goal has it more than half a metre away in the shared
  frame, along one axis at least, and the robot holds the new goal at once.\<close>

lemma accepted_goal_is_free:
  assumes "post_robot_goal (quietly up en) rid body s = (s', Done out)" and "wf_dict (robots (reg s))"
    and "dget (robots (reg s')) other = Some q" and "other \<noteq> rid" and "truthy (r_goal q)"
  shows "\<exists>goal current. goal_of_body (the body) = Inr goal
    \<and> (if r_frame q = Merged then Inr (r_goal q) else to_world en other (r_goal q)) = Inr current
    \<and> near (1/2) current goal = Inr False"
proof -
  obtain b goal r lg path where *: "body = Some b" "goal_of_body b = Inr goal"
      "goal_taken (quietly up en) goal rid s = Inr None"
      "s' = emit (Logged ''agent_goal'' (JObj [(''robot_id'', JStr rid), (''goal'', goal)]))
              (on_robot rid (take_goal lg path) (emit (delivery (navigate_msg en lg path) s rid) s))"
    using goal_accepted [OF assms(1)] by blast
  have "dget (robots (reg s)) other = Some q" using assms(3,4) *(4) by simp
  then have "(other, q) \<in> set (robots (reg s))" using assms(2) by (simp add: wf_dict_dget)
  from taken_None [OF *(3) [unfolded goal_taken_def] this assms(4,5)] *(1,2) show ?thesis
    by (cases "r_frame q") auto
qed

definition goal_at :: "real \<Rightarrow> real \<Rightarrow> json" where
  "goal_at x y = JObj [(''x'', JFloat (Fin x)), (''y'', JFloat (Fin y))]"

definition first_goal :: server where
  "first_goal = fst (post_robot_goal (quietly (\<lambda>_. True) plain_env) ''r1'' (Some (goal_at 1 1)) pair_up)"

lemma accepted_goal_is_free_witness:
  "\<exists>goal current. goal_of_body (goal_at 3 1) = Inr goal \<and> near (1/2) current goal = Inr False"
proof -
  let ?post = "post_robot_goal (quietly (\<lambda>_. True) plain_env) ''r2'' (Some (goal_at 3 1)) first_goal"
  let ?q = "the (dget (robots (reg (fst ?post))) ''r1'')"
  have "?post = (fst ?post, Done (case snd ?post of Done v \<Rightarrow> v | _ \<Rightarrow> JNull))"
    "wf_dict (robots (reg first_goal))" "dget (robots (reg (fst ?post))) ''r1'' = Some ?q"
    "truthy (r_goal ?q)"
    by code_simp+
  from accepted_goal_is_free [OF this(1-3) _ this(4)] show ?thesis by auto
qed

text \<open>Another operator's request arrives while the first one's message is on its way.\<close>

definition busy_net :: "nat \<Rightarrow> json \<Rightarrow> server \<Rightarrow> bool \<times> server" where
  "busy_net k m s = (if k = 1
     then (True, fst (post_robot_goal plain_env ''r2'' (Some (goal_at 1 1)) (emit (Sent k m) s)))
     else quiet_net (\<lambda>_. True) k m s)"

text \<open>The check for a free goal and the reservation are on different sides of the send: when a
  second request is served while the first is being sent, both are accepted and two robots are
  driven to the same point.\<close>

lemma concurrent_goals_collide:
  "let s = fst (post_robot_goal (plain_env\<lparr>net := busy_net\<rparr>) ''r1'' (Some (goal_at 1 1)) pair_up) in
   map_option r_goal (dget (robots (reg s)) ''r1'') = map_option r_goal (dget (robots (reg s)) ''r2'')
   \<and> map_option (truthy \<circ> r_goal) (dget (robots (reg s)) ''r1'') = Some True"
  by code_simp

text \<open>Calling a robot off: cancel its goal, stop its wheels, and note it. Every caller does this,
  with its own note \<open>f\<close>.\<close>

definition stand_down :: "(robot \<Rightarrow> robot) \<Rightarrow> env \<Rightarrow> string \<Rightarrow> server \<Rightarrow> server" where
  "stand_down f en rid s =
     on_robot rid f (fst (send_msg en rid (drive_msg en (Fin 0) (Fin 0)) (fst (send_msg en rid (cancel_msg en) s))))"

lemma halt_stand_down: "halt en = stand_down (\<lambda>r. cancelled (r\<lparr>r_goal := JNull, r_planned := []\<rparr>)) en"
  by (simp add: fun_eq_iff halt_def stand_down_def)

definition called_off :: "env \<Rightarrow> server \<Rightarrow> string \<Rightarrow> effect list" where
  "called_off en s rid = [delivery (cancel_msg en) s rid, delivery (drive_msg en (Fin 0) (Fin 0)) s rid]"

lemma stand_down_effect:
  "trace (stand_down f (quietly up en) rid s) = trace s @ (if reached up s rid then called_off en s rid else [])"
  "reached up (stand_down f (quietly up en) rid s) = reached up s"
  "reached up s r \<Longrightarrow> delivery m (stand_down f (quietly up en) rid s) r = delivery m s r"
  "dget (robots (reg (stand_down f (quietly up en) rid s))) r
     = (if r = rid then map_option f (dget (robots (reg s)) r) else dget (robots (reg s)) r)"
  "keys (robots (reg (stand_down f (quietly up en) rid s))) = keys (robots (reg s))"
proof -
  have cancel: "cancel_msg (quietly up en) = cancel_msg en" by (simp add: cancel_msg_def message_def)
  show "trace (stand_down f (quietly up en) rid s) = trace s @ (if reached up s rid then called_off en s rid else [])"
    by (simp add: stand_down_def called_off_def cancel link.send_log link.send_keeps delivery_def send_quiet_sinks)
  show "reached up (stand_down f (quietly up en) rid s) = reached up s"
    by (simp add: stand_down_def cancel link.send_keeps)
  show "reached up s r \<Longrightarrow> delivery m (stand_down f (quietly up en) rid s) r = delivery m s r"
    by (simp add: stand_down_def cancel delivery_def send_quiet_sinks link.send_keeps)
  show "dget (robots (reg (stand_down f (quietly up en) rid s))) r
     = (if r = rid then map_option f (dget (robots (reg s)) r) else dget (robots (reg s)) r)"
    by (simp add: stand_down_def cancel send_quiet_fst)
  show "keys (robots (reg (stand_down f (quietly up en) rid s))) = keys (robots (reg s))"
    by (simp add: stand_down_def cancel send_quiet_fst)
qed

lemma fold_stand_down_keys:
  "keys (robots (reg (fold (stand_down f (quietly up en)) rids s))) = keys (robots (reg s))"
  by (induction rids arbitrary: s) (simp_all add: stand_down_effect)

lemma fold_stand_down:
  "trace (fold (stand_down f (quietly up en)) rids s)
     = trace s @ concat (map (called_off en s) (filter (reached up s) rids))"
proof (induction rids arbitrary: s)
  case (Cons rid rids)
  have same: "map (called_off en (stand_down f (quietly up en) rid s)) (filter (reached up s) rids)
      = map (called_off en s) (filter (reached up s) rids)"
    by (rule map_cong) (simp_all add: called_off_def stand_down_effect)
  show ?case
    using Cons.IH [of "stand_down f (quietly up en) rid s"] by (simp add: stand_down_effect same)
qed simp

lemma stood_down:
  assumes "\<And>r. P (f r)"
  shows "r \<in> set rids \<or> (\<forall>q. dget (robots (reg s)) r = Some q \<longrightarrow> P q) \<Longrightarrow>
    dget (robots (reg (fold (stand_down f (quietly up en)) rids s))) r = Some q \<Longrightarrow> P q"
proof (induction rids arbitrary: s)
  case (Cons rid rids)
  have "r \<in> set rids \<or> (\<forall>q. dget (robots (reg (stand_down f (quietly up en) rid s))) r = Some q \<longrightarrow> P q)"
    using Cons.prems(1) assms by (auto simp: stand_down_effect)
  from Cons.IH [OF this] Cons.prems(2) show ?case by simp
qed simp

lemma known_after:
  assumes "keys (robots (reg t)) = keys (robots (reg s))" and "rid \<in> set (keys (robots (reg s)))"
  obtains q where "dget (robots (reg t)) rid = Some q"
proof (cases "dget (robots (reg t)) rid")
  case None
  then have "rid \<notin> set (keys (robots (reg t)))" by (simp add: keys_def map_of_eq_None_iff)
  with assms show ?thesis by simp
qed blast

text \<open>A goal that is accepted for a robot already stopped, while the message to a later robot is on its way,
  outlives the stop: the robot ends with a goal.\<close>

definition eager_net :: "nat \<Rightarrow> json \<Rightarrow> server \<Rightarrow> bool \<times> server" where
  "eager_net k m s = (if k = 2 \<and> m = cancel_msg plain_env
     then (True, fst (post_robot_goal plain_env ''r1'' (Some (goal_at 1 1)) (emit (Sent k m) s)))
     else quiet_net (\<lambda>_. True) k m s)"

lemma goal_outlives_stop_all:
  "map_option (truthy \<circ> r_goal) (dget (robots (reg (fst (post_robot_stop (plain_env\<lparr>net := eager_net\<rparr>) ''all'' pair_up)))) ''r1'') = Some True"
  by code_simp

text \<open>C15: As long as no other handler runs while its messages are being sent, stopping all robots hands every robot that
  can be reached, in registry order, a goal cancellation and then a zero drive, and leaves no registered robot with a
  goal; what was done is logged last. Sockets may fail.\<close>

theorem stop_all_reaches_everyone:
  "let s' = fst (post_robot_stop (quietly up en) ''all'' s) in
   trace s' = trace s
     @ concat (map (\<lambda>rid. [delivery (cancel_msg en) s rid, delivery (drive_msg en (Fin 0) (Fin 0)) s rid])
                (filter (reached up s) (keys (robots (reg s)))))
     @ [Logged ''agent_stop'' (JObj [(''targets'', JList (map JStr (keys (robots (reg s)))))])]
   \<and> list_all (\<lambda>rid. map_option r_goal (dget (robots (reg s')) rid) = Some JNull) (keys (robots (reg s')))"
proof -
  let ?ks = "keys (robots (reg s))" and ?f = "\<lambda>r. cancelled (r\<lparr>r_goal := JNull, r_planned := []\<rparr>)"
  let ?t = "fold (stand_down ?f (quietly up en)) ?ks s"
  have "map_option r_goal (dget (robots (reg ?t)) rid) = Some JNull" if known: "rid \<in> set ?ks" for rid
  proof -
    obtain q where q: "dget (robots (reg ?t)) rid = Some q" by (rule known_after [OF fold_stand_down_keys known])
    have "r_goal q = JNull"
      by (rule stood_down [where P = "\<lambda>q. r_goal q = JNull" and f = ?f, OF _ _ q])
         (simp_all add: cancelled_def known)
    with q show ?thesis by simp
  qed
  then show ?thesis
    by (simp add: post_robot_stop_def halt_stand_down Let_def list_all_iff called_off_def [abs_def]
        fold_stand_down fold_stand_down_keys)
qed

text \<open>The stop a timed drive schedules is not cancelled by a later drive: when its delay is
  over it stops the robot in the middle of the newer, longer one, whose own stop is still
  pending.\<close>

lemma old_timer_stops_new_drive:
  "let en = quietly (\<lambda>_. True) plain_env;
       drive = (\<lambda>d. JObj [(''linear'', JFloat (Fin (1/2))), (''duration'', JInt d)]);
       s1 = fst (post_robot_drive en 0 ''r1'' (drive 1) pair_up);
       s2 = fst (post_robot_drive en (1/2) ''r1'' (drive 60) s1);
       s3 = fire_timers en 2 s2 in
   trace s3 = trace s2 @ [Sent 1 (drive_msg en (Fin 0) (Fin 0)),
                          Logged ''agent_drive_stop'' (JObj [(''robot_id'', JStr ''r1'')])]
   \<and> timers s3 = [(121/2, ''r1'')]"
  by code_simp

end
