(* ===== verification/Geometry.thy ===== *)
theory Geometry
  imports Prelude
begin

text \<open>
  Angles and planar transforms, shared by the frames of poses, the merging of maps and their
  registration. \<open>wrap\<close> is the static method \<open>_wrap_yaw\<close> of
  \<^verbatim>\<open>server/swarmdeck_server/mapsvc/service.py\<close>.
\<close>

type_synonym transform = "real \<times> real \<times> real"

text \<open>Python's remainder has the sign of the divisor; of an infinity it is \<open>NaN\<close>.\<close>

definition wrap :: "real \<Rightarrow> real" where
  "wrap w = (w + pi) - 2 * pi * of_int \<lfloor>(w + pi) / (2 * pi)\<rfloor> - pi"

lemma wrap_turns: "wrap w = w - 2 * pi * of_int \<lfloor>(w + pi) / (2 * pi)\<rfloor>"
  by (simp add: wrap_def)

lemma wrap_range: "- pi \<le> wrap w \<and> wrap w < pi"
proof -
  let ?k = "of_int \<lfloor>(w + pi) / (2 * pi)\<rfloor> :: real"
  have pos: "0 < 2 * pi" by simp
  have "?k \<le> (w + pi) / (2 * pi)" "(w + pi) / (2 * pi) < ?k + 1"
    by linarith+
  then have "?k * (2 * pi) \<le> w + pi" "w + pi < (?k + 1) * (2 * pi)"
    using pos_le_divide_eq [OF pos] pos_divide_less_eq [OF pos] by blast+
  then show ?thesis by (simp add: wrap_def algebra_simps)
qed

lemma wrap_shift: "wrap (w + 2 * pi * of_int k) = wrap w"
proof -
  have "(w + 2 * pi * of_int k + pi) / (2 * pi) = (w + pi) / (2 * pi) + of_int k"
    by (simp add: field_simps)
  then have "\<lfloor>(w + 2 * pi * of_int k + pi) / (2 * pi)\<rfloor> = \<lfloor>(w + pi) / (2 * pi)\<rfloor> + k"
    by (simp only: floor_add_int [symmetric])
  then show ?thesis by (simp add: wrap_def algebra_simps)
qed

lemma wrap_id: "- pi \<le> w \<Longrightarrow> w < pi \<Longrightarrow> wrap w = w"
proof -
  assume "- pi \<le> w" "w < pi"
  then have "\<lfloor>(w + pi) / (2 * pi)\<rfloor> = 0" by (simp add: floor_eq_iff)
  then show ?thesis by (simp add: wrap_def)
qed

lemma wrap_wrap_diff: "wrap (wrap (a + b) - b) = wrap a"
proof -
  let ?k = "\<lfloor>(a + b + pi) / (2 * pi)\<rfloor>"
  have "wrap (a + b) - b = a + 2 * pi * of_int (- ?k)" by (simp add: wrap_turns)
  then show ?thesis by (simp only: wrap_shift)
qed

lemma unturn:
  fixes c s x y :: real
  assumes "c\<^sup>2 + s\<^sup>2 = 1"
  shows "c * (x * c - y * s) + s * (x * s + y * c) = x"
    and "- s * (x * c - y * s) + c * (x * s + y * c) = y"
proof -
  have "c * (x * c - y * s) + s * (x * s + y * c) = x * (c\<^sup>2 + s\<^sup>2)"
    and "- s * (x * c - y * s) + c * (x * s + y * c) = y * (c\<^sup>2 + s\<^sup>2)"
    by (simp_all add: algebra_simps power2_eq_square)
  then show "c * (x * c - y * s) + s * (x * s + y * c) = x"
    and "- s * (x * c - y * s) + c * (x * s + y * c) = y"
    using assms by simp_all
qed

end
