(* ===== verification/Map_Frames.thy ===== *)
theory Map_Frames
  imports Operator Geometry
begin

text \<open>
  The frames of \<^verbatim>\<open>server/swarmdeck_server/mapsvc/service.py\<close>: every robot's own frame is placed in the
  shared one by a translation and a rotation. \<open>frames_env\<close> is the environment of the operator's
  handlers with these transforms. A transform is finite; the numbers of a pose may not be.
\<close>

subsection \<open>Float arithmetic\<close>

fun fneg :: "pyfloat \<Rightarrow> pyfloat" where
  "fneg (Fin a) = Fin (- a)"
| "fneg PInf = NInf"
| "fneg NInf = PInf"
| "fneg NaN = NaN"

definition fadd :: "pyfloat \<Rightarrow> pyfloat \<Rightarrow> pyfloat" where
  "fadd x y = fsub x (fneg y)"

fun scale :: "real \<Rightarrow> pyfloat \<Rightarrow> pyfloat" where
  "scale a (Fin b) = Fin (a * b)"
| "scale a NaN = NaN"
| "scale a PInf = (if 0 < a then PInf else if a < 0 then NInf else NaN)"
| "scale a NInf = (if 0 < a then NInf else if a < 0 then PInf else NaN)"

lemma fadd_fin [simp]: "fadd (Fin a) (Fin b) = Fin (a + b)"
  by (simp add: fadd_def)

text \<open>The heading of an infinity or of \<open>NaN\<close> is \<open>NaN\<close>.\<close>

fun wrap_yaw :: "pyfloat \<Rightarrow> pyfloat" where
  "wrap_yaw (Fin w) = Fin (wrap w)"
| "wrap_yaw w = NaN"

subsection \<open>Robot and shared frame\<close>

definition transform_of :: "(string, transform) dict \<Rightarrow> string \<Rightarrow> transform" where
  "transform_of ts rid = (case dget ts rid of None \<Rightarrow> (0, 0, 0) | Some t \<Rightarrow> t)"

definition float_at :: "json \<Rightarrow> string \<Rightarrow> pyerr + pyfloat" where
  "float_at pose k = ebind (jindex pose k) float_of"

definition placed :: "json \<Rightarrow> pyfloat \<Rightarrow> pyfloat \<Rightarrow> (pyfloat \<Rightarrow> pyfloat) \<Rightarrow> pyerr + json" where
  "placed pose x y turn =
     (let kvs = dput ''y'' (JFloat y) (dput ''x'' (JFloat x) (obj_fields pose)) in
      if jhas (obj_fields pose) ''yaw''
      then ebind (float_at pose ''yaw'') (\<lambda>w. Inr (JObj (dput ''yaw'' (JFloat (wrap_yaw (turn w))) kvs)))
      else Inr (JObj kvs))"

definition robot_to_world :: "(string, transform) dict \<Rightarrow> string \<Rightarrow> json \<Rightarrow> pyerr + json" where
  "robot_to_world ts rid pose =
     (let (tx, ty, yaw) = transform_of ts rid; c = cos yaw; s = sin yaw in
      ebind (float_at pose ''x'') (\<lambda>x. ebind (float_at pose ''y'') (\<lambda>y.
        placed pose (fsub (fadd (Fin tx) (scale c x)) (scale s y))
                    (fadd (fadd (Fin ty) (scale s x)) (scale c y)) (\<lambda>w. fadd w (Fin yaw)))))"

definition world_to_robot :: "(string, transform) dict \<Rightarrow> string \<Rightarrow> json \<Rightarrow> pyerr + json" where
  "world_to_robot ts rid pose =
     (let (tx, ty, yaw) = transform_of ts rid; c = cos yaw; s = sin yaw in
      ebind (float_at pose ''x'') (\<lambda>x. ebind (float_at pose ''y'') (\<lambda>y.
        let dx = fsub x (Fin tx); dy = fsub y (Fin ty) in
        placed pose (fadd (scale c dx) (scale s dy)) (fadd (scale (- s) dx) (scale c dy)) (\<lambda>w. fsub w (Fin yaw)))))"

definition frames_env :: "(string, transform) dict \<Rightarrow> env \<Rightarrow> env" where
  "frames_env ts en = en\<lparr>to_world := robot_to_world ts, to_robot := world_to_robot ts\<rparr>"

subsection \<open>Going there and back\<close>

lemma float_at_obj: "float_at (JObj kvs) k = Inr f \<Longrightarrow> jhas kvs k"
  by (cases "map_of kvs k") (simp_all add: float_at_def jhas_def)

lemma map_of_dput [simp]: "map_of (dput k v d) = (map_of d)(k \<mapsto> v)"
  by (rule update_conv')

text \<open>C38: A pose taken from a robot's frame to the shared one and back is the pose: the same
  coordinates, the same heading up to full turns, every other field untouched.\<close>

theorem frames_roundtrip:
  assumes "float_at (JObj kvs) ''x'' = Inr (Fin x)" and "float_at (JObj kvs) ''y'' = Inr (Fin y)"
    and "float_at (JObj kvs) ''yaw'' = Inr (Fin w)"
  shows "\<exists>kvs'. ebind (robot_to_world ts rid (JObj kvs)) (world_to_robot ts rid) = Inr (JObj kvs')
    \<and> map_of kvs' = (map_of kvs)(''x'' \<mapsto> JFloat (Fin x), ''y'' \<mapsto> JFloat (Fin y), ''yaw'' \<mapsto> JFloat (Fin (wrap w)))"
proof -
  obtain tx ty yaw where tf: "transform_of ts rid = (tx, ty, yaw)" by (cases "transform_of ts rid")
  let ?c = "cos yaw" and ?s = "sin yaw"
  let ?X = "tx + ?c * x - ?s * y" and ?Y = "ty + ?s * x + ?c * y"
  define out where "out = dput ''yaw'' (JFloat (Fin (wrap (w + yaw))))
    (dput ''y'' (JFloat (Fin ?Y)) (dput ''x'' (JFloat (Fin ?X)) kvs))"
  have has: "jhas kvs ''yaw''" using float_at_obj [OF assms(3)] .
  have there: "robot_to_world ts rid (JObj kvs) = Inr (JObj out)"
    using assms has by (simp add: robot_to_world_def tf placed_def out_def Let_def)
  have at: "float_at (JObj out) ''x'' = Inr (Fin ?X)" "float_at (JObj out) ''y'' = Inr (Fin ?Y)"
    "float_at (JObj out) ''yaw'' = Inr (Fin (wrap (w + yaw)))" "jhas out ''yaw''"
    by (simp_all add: float_at_def out_def jhas_def)
  have one: "?c\<^sup>2 + ?s\<^sup>2 = 1" by simp
  have X: "?c * (?X - tx) + ?s * (?Y - ty) = x" and Y: "- ?s * (?X - tx) + ?c * (?Y - ty) = y"
    using unturn [OF one, of x y] by (simp_all add: algebra_simps)
  have "world_to_robot ts rid (JObj out) = Inr (JObj (dput ''yaw'' (JFloat (Fin (wrap (wrap (w + yaw) - yaw))))
      (dput ''y'' (JFloat (Fin y)) (dput ''x'' (JFloat (Fin x)) out))))"
    using at X Y by (simp add: world_to_robot_def tf placed_def Let_def)
  then show ?thesis
    by (simp add: there wrap_wrap_diff) (simp add: out_def fun_upd_twist)
qed

theorem frames_roundtrip_witness:
  "\<exists>kvs'. ebind (robot_to_world [(''r1'', (5, 6, pi / 3))] ''r1'' (JObj [(''x'', JInt 1), (''y'', JInt 2), (''yaw'', JInt 1)]))
      (world_to_robot [(''r1'', (5, 6, pi / 3))] ''r1'') = Inr (JObj kvs')
    \<and> map_of kvs' ''x'' = Some (JFloat (Fin 1)) \<and> map_of kvs' ''yaw'' = Some (JFloat (Fin 1))"
proof -
  have n: "\<bar>1\<bar> < float_overflow" "\<bar>2\<bar> < float_overflow"
    by (simp_all add: float_overflow_def)
  have w: "wrap 1 = 1" using pi_ge_two by (intro wrap_id) linarith+
  show ?thesis
    using frames_roundtrip [of "[(''x'', JInt 1), (''y'', JInt 2), (''yaw'', JInt 1)]" 1 2 1 "[(''r1'', (5, 6, pi / 3))]" "''r1''"] n
    by (auto simp: float_at_def w)
qed

end
