(* ===== verification/Gui.thy ===== *)
theory Gui
  imports Operator Review_File
begin

text \<open>
  The dashboard's side of \<^verbatim>\<open>server/swarmdeck_server/api/app.py\<close>: alerts and their suppression,
  who watches which camera, the view of the fleet in the shared frame, and the handler of
  every message a dashboard sends (\<open>handle_gui_message\<close>). A robot id that is not text names no
  robot. The free text of an alert is kept up to the names of robots in it.
\<close>

subsection \<open>Alerts\<close>

definition alert_json :: "string \<Rightarrow> alert \<Rightarrow> json" where
  "alert_json aid a = JObj [(''id'', JStr aid), (''level'', JStr (al_level a)), (''kind'', JStr (al_kind a)),
     (''robot_id'', al_robot a), (''message'', JStr (al_message a)), (''t_wall'', JFloat (Fin (al_time a))),
     (''acknowledged'', JBool (al_ack a))]"

definition open_alert :: "real \<Rightarrow> string \<Rightarrow> string \<Rightarrow> string \<Rightarrow> string \<Rightarrow> json \<Rightarrow> server \<Rightarrow> server" where
  "open_alert now aid level kind text rid s =
     (let a = \<lparr>al_level = level, al_kind = kind, al_message = text, al_robot = rid, al_time = now, al_ack = False\<rparr> in
      emit (Broadcast (JObj [(''type'', JStr ''alert''), (''alert'', alert_json aid a)]))
        (emit (Logged ''alert'' (JObj [(''alert'', alert_json aid a)])) (s\<lparr>alerts := dput aid a (alerts s)\<rparr>)))"

definition raise_alert :: "real \<Rightarrow> string \<Rightarrow> string \<Rightarrow> string \<Rightarrow> string \<Rightarrow> json \<Rightarrow> server \<Rightarrow> server" where
  "raise_alert now aid level kind text rid s =
     (if dget (alerts s) aid \<noteq> None then s
      else case dget (suppressed s) aid of
        None \<Rightarrow> open_alert now aid level kind text rid s
      | Some until \<Rightarrow> (if now < until then s
          else open_alert now aid level kind text rid (s\<lparr>suppressed := ddel aid (suppressed s)\<rparr>)))"

definition clear_alert :: "string \<Rightarrow> server \<Rightarrow> server" where
  "clear_alert aid s = (if dget (alerts s) aid = None then s
     else emit (Broadcast (JObj [(''type'', JStr ''alert_clear''), (''id'', JStr aid)]))
            (s\<lparr>alerts := ddel aid (alerts s)\<rparr>))"

definition suppress_alert :: "real \<Rightarrow> string \<Rightarrow> server \<Rightarrow> server" where
  "suppress_alert now aid s =
     (if alert_suppress (cfg s) \<le> 0 \<or> aid = [] then s
      else s\<lparr>suppressed := dput aid (now + of_int (alert_suppress (cfg s))) (suppressed s)\<rparr>)"

subsection \<open>Cameras\<close>

definition camera_is_watched :: "server \<Rightarrow> string \<Rightarrow> bool" where
  "camera_is_watched s rid = (rid \<in> set (map snd (watchers s)))"

definition interest_msg :: "env \<Rightarrow> bool \<Rightarrow> json" where
  "interest_msg en w = message en ''camera_interest'' [(''watched'', JBool w)]"

fun push_camera_interest :: "env \<Rightarrow> string list \<Rightarrow> server \<Rightarrow> server" where
  "push_camera_interest en [] s = s"
| "push_camera_interest en (rid # rids) s = push_camera_interest en rids
     (if rid = [] then s else fst (send_msg en rid (interest_msg en (camera_is_watched s rid)) s))"

text \<open>The set of the previous and the new robot, here as a list without repetitions.\<close>

definition set_camera_watch :: "env \<Rightarrow> nat option \<Rightarrow> string \<Rightarrow> server \<Rightarrow> server" where
  "set_camera_watch en source rid s = (case source of None \<Rightarrow> s | Some g \<Rightarrow>
     (let previous = dget (watchers s) g in
      if previous = Some rid then s
      else push_camera_interest en (remdups ((case previous of None \<Rightarrow> [] | Some p \<Rightarrow> [p]) @ [rid]))
        (s\<lparr>watchers := (if rid \<noteq> [] then dput g rid (watchers s) else ddel g (watchers s))\<rparr>)))"

definition camera_stale_s :: real where "camera_stale_s = 3"

definition frozen_camera :: "real \<Rightarrow> server \<Rightarrow> robot \<Rightarrow> int option" where
  "frozen_camera now s r = (case dget (frames s) (r_id r) of None \<Rightarrow> None
     | Some at_t \<Rightarrow> if \<not> online now r \<or> now - at_t \<le> camera_stale_s then None else Some \<lfloor>now - at_t\<rfloor>)"

subsection \<open>The fleet in the shared frame\<close>

definition robot_state :: "env \<Rightarrow> real \<Rightarrow> robot \<Rightarrow> pyerr + json" where
  "robot_state en now r =
     (let st = to_state now (stamps en) r; world = to_world en (r_id r) in
      if r_frame r = Merged then Inr st
      else ebind (world (r_pose r)) (\<lambda>pose.
           ebind (if truthy (r_goal r) then world (r_goal r) else Inr (r_goal r)) (\<lambda>goal.
           ebind (emap world (r_planned r)) (\<lambda>pp. ebind (emap world (r_global r)) (\<lambda>gp.
           ebind (emap world (r_local r)) (\<lambda>lp.
             Inr (JObj (dput ''local_planned_path'' (JList lp) (dput ''global_planned_path'' (JList gp)
               (dput ''planned_path'' (JList pp) (dput ''goal'' goal (dput ''pose'' pose (obj_fields st))))))))))))) "

definition fleet_snapshot :: "env \<Rightarrow> real \<Rightarrow> server \<Rightarrow> pyerr + json list" where
  "fleet_snapshot en now s = emap (robot_state en now \<circ> snd) (robots (reg s))"

definition broadcast_fleet :: "env \<Rightarrow> real \<Rightarrow> server update" where
  "broadcast_fleet en now s = (case fleet_snapshot en now s of Inl e \<Rightarrow> (s, Some e)
     | Inr rs \<Rightarrow> (emit (Broadcast (JObj [(''type'', JStr ''fleet_change''), (''robots'', JList rs)])) s, None))"

definition delete_fleet_robot :: "env \<Rightarrow> real \<Rightarrow> string \<Rightarrow> server \<Rightarrow> server \<times> reply" where
  "delete_fleet_robot en now rid s =
     (if dget (robots (reg s)) rid = None then (s, Refused 404 ''not found'')
      else (let s1 = emit (Logged ''robot_discarded'' (JObj [(''robot_id'', JStr rid)]))
                  (emit (Map_Call ''reset_robot'' rid)
                    (s\<lparr>reg := fst (remove rid (disconnect rid None (reg s)))\<rparr>)) in
            (case broadcast_fleet en now s1 of (s2, Some e) \<Rightarrow> (s2, Failed e)
             | (s2, None) \<Rightarrow> (s2, Done (JObj [(''ok'', JBool True), (''robot_id'', JStr rid)])))))"

subsection \<open>Messages from a dashboard\<close>

definition review_kinds :: "string list" where
  "review_kinds = [''detection_accept'', ''detection_ignore'', ''detection_merge'', ''detection_forget'',
     ''detection_forget_all'', ''detection_clear_proposals'', ''detection_delete_all'', ''detection_unignore'']"

definition answer_review :: "(json \<Rightarrow> string) \<Rightarrow> string \<Rightarrow> (string \<times> json) list \<Rightarrow> review \<Rightarrow> review \<times> bool" where
  "answer_review rep kind msg v =
     (let pid = py_str rep (jget msg ''proposal_id'' (JStr []));
          eid = py_str rep (jget msg ''entity_id'' (JStr [])) in
      if kind = ''detection_accept'' then (let (v', r) = accept pid v in (v', r \<noteq> None))
      else if kind = ''detection_ignore'' then ignore pid v
      else if kind = ''detection_merge'' then (let (v', r) = merge pid eid v in (v', r \<noteq> None))
      else if kind = ''detection_unignore'' then (let (v', n) = clear_ignored v in (v', 0 < n))
      else if kind = ''detection_forget_all'' then
        (let (v', n) = forget_all (truthy (jget msg ''include_proposals'' (JBool False))) v in (v', 0 < n))
      else if kind = ''detection_clear_proposals'' then (let (v', n) = clear_proposals v in (v', 0 < n))
      else if kind = ''detection_delete_all'' then (let (v', n) = delete_all v in (v', 0 < n))
      else if pid \<noteq> [] \<and> eid = [] then forget_proposal pid v
      else if eid \<noteq> [] then (let (v', b) = forget eid v in if b then (v', True) else forget_proposal eid v')
      else (v, False))"

definition save_review :: "bool \<Rightarrow> server \<Rightarrow> server" where
  "save_review force s = (if \<not> force \<and> \<not> review_dirty s then s
     else emit (Stored ''detections'' (to_dict (reviews s))) (s\<lparr>review_dirty := False\<rparr>))"

definition broadcast_review :: "real \<Rightarrow> bool \<Rightarrow> server \<Rightarrow> server" where
  "broadcast_review now urgent s = (if \<not> urgent \<and> now - review_pushed s < 1 then s
     else emit (Broadcast (JObj ((''type'', JStr ''detection_review'') # review_snapshot (reviews s))))
            (s\<lparr>review_pushed := now\<rparr>))"

definition gui_review :: "(json \<Rightarrow> string) \<Rightarrow> real \<Rightarrow> string \<Rightarrow> (string \<times> json) list \<Rightarrow> server \<Rightarrow> server" where
  "gui_review rep now kind msg s =
     (let (v, changed) = answer_review rep kind msg (reviews s); s1 = s\<lparr>reviews := v\<rparr> in
      if changed then broadcast_review now True (save_review True s1) else s1)"

definition gui_set_goal :: "env \<Rightarrow> real \<Rightarrow> string \<Rightarrow> json \<Rightarrow> server update" where
  "gui_set_goal en now rid goal s =
     (if \<not> can (reg s) rid ''navigate'' then (s, None)
      else case goal_taken en goal rid s of Inl e \<Rightarrow> (s, Some e)
      | Inr (Some other) \<Rightarrow>
          (raise_alert now (''dupgoal_'' @ rid) ''warn'' ''fault'' (''Goal already assigned to '' @ other) (JStr rid) s, None)
      | Inr None \<Rightarrow>
          (case dget (robots (reg s)) rid of None \<Rightarrow> (s, Some KeyError) | Some r \<Rightarrow>
          (case plan_goal en rid r goal of Inl e \<Rightarrow> (s, Some e) | Inr (local_goal, path) \<Rightarrow>
            (let (s1, sent) = send_msg en rid (navigate_msg en local_goal path) s in
             (if sent then on_robot rid (take_goal local_goal path) s1 else s1, None)))))"

definition home_json :: "real \<times> real \<times> real \<Rightarrow> json" where
  "home_json h = (case h of (x, y, w) \<Rightarrow> floats_json [(''x'', x), (''y'', y), (''yaw'', w)])"

definition gui_return_home :: "env \<Rightarrow> real \<Rightarrow> string \<Rightarrow> server update" where
  "gui_return_home en now rid s =
     (case dget (robots (reg s)) rid of
        Some r \<Rightarrow> (case r_home r of
            Some h \<Rightarrow> (case (if r_frame r = Merged then Inr (home_json h) else to_world en rid (home_json h)) of
                Inl e \<Rightarrow> (s, Some e) | Inr goal \<Rightarrow> gui_set_goal en now rid goal s)
          | None \<Rightarrow> (raise_alert now ''home_unavailable'' ''warn'' ''fault''
                       ''Starting position has not been recorded'' (JStr rid) s, None))
      | None \<Rightarrow> (raise_alert now ''home_unavailable'' ''warn'' ''fault''
                   ''Starting position has not been recorded'' (JStr rid) s, None))"

definition gui_cancel :: "env \<Rightarrow> string \<Rightarrow> server \<Rightarrow> server" where
  "gui_cancel en rid s =
     (let (s1, sent) = send_msg en rid (cancel_msg en) s in
      if sent then on_robot rid (\<lambda>r. r\<lparr>r_goal := JNull, r_global := [], r_local := [], r_planned := []\<rparr>) s1 else s1)"

definition gui_drive :: "env \<Rightarrow> string \<Rightarrow> (string \<times> json) list \<Rightarrow> server update" where
  "gui_drive en rid msg s =
     (if \<not> (can (reg s) rid ''navigate'' \<or> can (reg s) rid ''estop'') then (s, None)
      else (let payload = (case jget msg ''payload'' JNull of JObj kvs \<Rightarrow> kvs | _ \<Rightarrow> msg) in
        case velocities payload of
          Inl e \<Rightarrow> (s, if e \<in> {TypeError, ValueError} then None else Some e)
        | Inr (lin, ang) \<Rightarrow>
            (let (s1, sent) = send_msg en rid (drive_msg en lin ang) s in
             if \<not> sent then (s1, None)
             else if dget (robots (reg s1)) rid = None then (s1, Some KeyError)
             else (on_robot rid (\<lambda>r. r\<lparr>r_goal := JNull\<rparr>) s1, None))))"

definition gui_body :: "env \<Rightarrow> (json \<Rightarrow> string) \<Rightarrow> string \<Rightarrow> (string \<times> json) list \<Rightarrow> server update" where
  "gui_body en rep rid msg s =
     (let a = jget msg ''action'' JNull; act = (if truthy a then py_str rep a else []) in
      if act \<notin> set body_actions \<or> \<not> can (reg s) rid ''body'' then (s, None)
      else case height_field (JObj msg) of Inl e \<Rightarrow> (s, Some e)
        | Inr height \<Rightarrow> (fst (send_msg en rid (body_msg en act height) s), None))"

fun join :: "string \<Rightarrow> string list \<Rightarrow> string" where
  "join sep [] = []"
| "join sep [x] = x"
| "join sep (x # xs) = x @ sep @ join sep xs"

definition names_json :: "string list \<Rightarrow> json" where
  "names_json rids = JList (map JStr (sort rids))"

definition gui_stop_all :: "env \<Rightarrow> real \<Rightarrow> server \<Rightarrow> server" where
  "gui_stop_all en now s =
     (let (s1, missed) = send_each (\<lambda>rid. send_msg en rid (message en ''stop'' [])) (keys (robots (reg s))) s;
          s2 = raise_alert now ''stop_all'' ''critical'' ''fault'' ''STOP ALL issued by operator'' JNull s1 in
      if missed = [] then s2
      else raise_alert now ''stop_all_undelivered'' ''critical'' ''fault''
             (''STOP did not reach '' @ join '', '' (sort missed)) JNull
             (emit (Logged ''stop_all_undelivered'' (JObj [(''robots'', names_json missed)])) s2))"

definition gui_explore :: "env \<Rightarrow> real \<Rightarrow> bool \<Rightarrow> json \<Rightarrow> server \<Rightarrow> server" where
  "gui_explore en now enabled rid s =
     (let targets = filter (\<lambda>r. can (reg s) r ''explore'' \<and> (\<not> truthy rid \<or> JStr r = rid)) (keys (robots (reg s))) in
      if targets = [] then raise_alert now ''explore_unsupported'' ''warn'' ''fault''
          ''No connected robot supports exploration'' JNull s
      else (let (s1, missed) = send_each (\<lambda>r. send_msg en r (message en ''explore'' [(''enabled'', JBool enabled)])) targets s;
                s2 = emit (Logged (if enabled then ''start_explore'' else ''stop_explore'')
                       (JObj [(''robots'', names_json targets), (''undelivered'', names_json missed)])) s1 in
            if missed \<noteq> [] \<and> \<not> enabled
            then raise_alert now ''stop_explore_undelivered'' ''warn'' ''fault''
                   (''Stop exploration did not reach '' @ join '', '' (sort missed)) JNull s2
            else s2))"

definition gui_acknowledge :: "real \<Rightarrow> string \<Rightarrow> server \<Rightarrow> server" where
  "gui_acknowledge now aid s =
     clear_alert aid (suppress_alert now aid
       (case dget (alerts s) aid of None \<Rightarrow> s | Some a \<Rightarrow> s\<lparr>alerts := dput aid (a\<lparr>al_ack := True\<rparr>) (alerts s)\<rparr>))"

definition gui_discard :: "env \<Rightarrow> real \<Rightarrow> string \<Rightarrow> server update" where
  "gui_discard en now rid s =
     (if rid = [] \<or> dget (robots (reg s)) rid = None then (s, None)
      else broadcast_fleet en now
        (emit (Logged ''robot_discarded'' (JObj [(''robot_id'', JStr rid)]))
          (emit (Map_Call ''reset_robot'' rid)
            (s\<lparr>reg := fst (remove rid (disconnect rid None (reg s)))\<rparr>))))"

definition text_id :: "json \<Rightarrow> string" where
  "text_id v = (case v of JStr r \<Rightarrow> r | _ \<Rightarrow> [])"

definition handle_gui_message ::
  "env \<Rightarrow> (json \<Rightarrow> string) \<Rightarrow> real \<Rightarrow> nat option \<Rightarrow> (string \<times> json) list \<Rightarrow> server update" where
  "handle_gui_message en rep now source msg s =
     (let k = jget msg ''type'' (JStr []); j = jget msg ''robot_id'' (JStr []);
          kind = text_id k; rid = text_id j;
          s = emit (Logged kind (JObj (filter (\<lambda>(key, v). key \<noteq> ''type'') msg))) s in
      if truthy j \<and> \<not> hashable j then (s, Some TypeError)
      else (let s = (if truthy j then s\<lparr>reg := attend now rid (reg s)\<rparr> else s) in
      if \<not> hashable k then (s, Some TypeError)
      else if truthy j \<and> kind \<in> {''set_goal'', ''return_home'', ''drive'', ''body_command''}
              \<and> \<not> is_robot_enabled (cfg s) rid then (s, None)
      else if kind \<in> set review_kinds then (gui_review rep now kind msg s, None)
      else if kind = ''set_goal'' then
        (let p = jget msg ''payload'' JNull in gui_set_goal en now rid (if truthy p then p else JObj []) s)
      else if kind = ''return_home'' then gui_return_home en now rid s
      else if kind = ''cancel_goal'' then (gui_cancel en rid s, None)
      else if kind = ''drive'' then gui_drive en rid msg s
      else if kind = ''body_command'' then gui_body en rep rid msg s
      else if kind = ''stop_all'' then (gui_stop_all en now s, None)
      else if kind = ''start_explore'' then (gui_explore en now True j s, None)
      else if kind = ''stop_explore'' then (gui_explore en now False j s, None)
      else if kind = ''reset_sim'' then (emit (Task ''reset_fleet'') s, None)
      else if kind = ''acknowledge_alert'' then
        (let a = jget msg ''id'' (JStr []) in
         if \<not> hashable a then (s, Some TypeError) else (gui_acknowledge now (text_id a) s, None))
      else if kind = ''switch_camera'' then (set_camera_watch en source rid s, None)
      else if kind = ''discard_robot'' \<or> kind = ''remove_robot'' then gui_discard en now rid s
      else (s, None)))"

subsection \<open>Traces only grow\<close>

definition grows :: "server \<Rightarrow> server \<Rightarrow> bool" where
  "grows s s' = (\<exists>rest. trace s' = trace s @ rest)"

lemma grows_refl [simp, intro]: "grows s s"
  by (simp add: grows_def)

lemma grows_trans [trans]: "grows s t \<Longrightarrow> grows t u \<Longrightarrow> grows s u"
  by (auto simp: grows_def)

lemma grows_same: "trace t = trace s \<Longrightarrow> grows s u \<Longrightarrow> grows t u" "trace t = trace u \<Longrightarrow> grows s u \<Longrightarrow> grows s t"
  by (simp_all add: grows_def)

lemma grows_emit [intro]: "grows s t \<Longrightarrow> grows s (emit e t)"
  by (auto simp: grows_def)

lemma grows_on_robot [intro]: "grows s t \<Longrightarrow> grows s (on_robot rid f t)"
  by (auto simp: grows_def)

lemma grows_send [intro]: "grows s (fst (send_msg (quietly up en) rid m s))"
  by (auto simp: grows_def send_quiet_fst)

lemma grows_send_each: "grows s (fst (send_each (\<lambda>rid. send_msg (quietly up en) rid m) rids s))"
proof (induction rids arbitrary: s)
  case (Cons rid rids)
  show ?case
    using grows_trans [OF grows_send Cons.IH] by (simp add: case_prod_unfold Let_def)
qed simp

lemma grows_raise [intro]: "grows s t \<Longrightarrow> grows s (raise_alert now aid level kind text rid t)"
  by (auto simp: raise_alert_def open_alert_def grows_def Let_def split: option.split)

lemma grows_if: "grows s a \<Longrightarrow> grows s b \<Longrightarrow> grows s (if c then a else b)"
  by simp

lemma grows_fst_if: "grows s (fst a) \<Longrightarrow> grows s (fst b) \<Longrightarrow> grows s (fst (if c then a else b))"
  by simp

lemma grows_fleet: "grows s (fst (broadcast_fleet en now s))"
  by (auto simp: broadcast_fleet_def split: sum.split)

lemma grows_interest: "grows s (push_camera_interest (quietly up en) rids s)"
proof (induction rids arbitrary: s)
  case (Cons rid rids)
  have "grows s (if rid = [] then s else fst (send_msg (quietly up en) rid (interest_msg en' w) s))" for en' w
    by (simp add: grows_send)
  from grows_trans [OF this Cons.IH] show ?case by simp
qed simp

lemma fst_send_split:
  "(case send_msg en rid m s of (s1, ok) \<Rightarrow> f s1 ok)
   = f (fst (send_msg en rid m s)) (snd (send_msg en rid m s))"
  by (simp add: case_prod_unfold)

lemma grows_handlers:
  "grows s (gui_review rep now kind msg s)"
  "grows s (fst (gui_set_goal (quietly up en) now rid goal s))"
  "grows s (gui_cancel (quietly up en) rid s)"
  "grows s (fst (gui_drive (quietly up en) rid msg s))"
  "grows s (fst (gui_body (quietly up en) rep rid msg s))"
  "grows s (gui_stop_all (quietly up en) now s)"
  "grows s (gui_explore (quietly up en) now b j s)"
  "grows s (gui_acknowledge now aid s)"
  "grows s (fst (gui_discard (quietly up en) now rid s))"
  "grows s (set_camera_watch (quietly up en) source rid s)"
proof -
  show "grows s (gui_review rep now kind msg s)"
    by (auto simp: gui_review_def save_review_def broadcast_review_def case_prod_unfold Let_def grows_def)
  show "grows s (fst (gui_set_goal (quietly up en) now rid goal s))"
    by (auto simp: gui_set_goal_def Let_def fst_send_split split: sum.split option.split)
  show "grows s (gui_cancel (quietly up en) rid s)"
    by (auto simp: gui_cancel_def Let_def fst_send_split)
  show "grows s (fst (gui_drive (quietly up en) rid msg s))"
    by (auto simp: gui_drive_def Let_def fst_send_split split: sum.split)
  show "grows s (fst (gui_body (quietly up en) rep rid msg s))"
    by (auto simp: gui_body_def Let_def split: sum.split)
  show "grows s (gui_stop_all (quietly up en) now s)"
    unfolding gui_stop_all_def Let_def case_prod_unfold
    by (intro grows_if grows_raise grows_emit grows_send_each grows_refl)
  show "grows s (gui_explore (quietly up en) now b j s)"
    unfolding gui_explore_def Let_def case_prod_unfold
    by (intro grows_if grows_raise grows_emit grows_send_each grows_refl)
  show "grows s (gui_acknowledge now aid s)"
    by (auto simp: gui_acknowledge_def clear_alert_def suppress_alert_def grows_def split: option.split)
  have "grows s (fst (broadcast_fleet e now t))" if "grows s t" for e t
    by (rule grows_trans [OF that grows_fleet])
  moreover have "grows s (emit a (emit b (s\<lparr>reg := g\<rparr>)))" for a b g
    by (simp add: grows_def)
  ultimately show "grows s (fst (gui_discard (quietly up en) now rid s))"
    by (simp add: gui_discard_def)
  have "grows s (push_camera_interest (quietly up en) rids (s\<lparr>watchers := w\<rparr>))" for rids w
    by (rule grows_same(1) [OF _ grows_interest]) simp
  then show "grows s (set_camera_watch (quietly up en) source rid s)"
    by (auto simp: set_camera_watch_def Let_def split: option.split)
qed

lemma grows_home: "grows s (fst (gui_return_home (quietly up en) now rid s))"
  by (auto simp: gui_return_home_def grows_handlers split: option.split sum.split)

lemma logged_before:
  "\<exists>rest. trace (fst (handle_gui_message (quietly up en) rep now source msg s))
     = trace s @ Logged (text_id (jget msg ''type'' (JStr []))) (JObj (filter (\<lambda>(key, v). key \<noteq> ''type'') msg)) # rest"
proof -
  let ?e = "Logged (text_id (jget msg ''type'' (JStr []))) (JObj (filter (\<lambda>(key, v). key \<noteq> ''type'') msg))"
  define t where "t = (if truthy (jget msg ''robot_id'' (JStr []))
    then (emit ?e s)\<lparr>reg := attend now (text_id (jget msg ''robot_id'' (JStr []))) (reg s)\<rparr> else emit ?e s)"
  have t: "trace t = trace s @ [?e]" by (simp add: t_def)
  have "grows t (fst (handle_gui_message (quietly up en) rep now source msg s))
      \<or> fst (handle_gui_message (quietly up en) rep now source msg s) = emit ?e s"
  proof (cases "truthy (jget msg ''robot_id'' (JStr [])) \<and> \<not> hashable (jget msg ''robot_id'' (JStr []))")
    case True
    then show ?thesis by (simp add: handle_gui_message_def Let_def)
  next
    case False
    have "grows t (fst (handle_gui_message (quietly up en) rep now source msg s))"
      unfolding handle_gui_message_def Let_def emit_simps(2) t_def [symmetric] if_not_P [OF False]
      by (intro grows_fst_if grows_home grows_handlers) (simp_all add: grows_handlers grows_emit)
    then show ?thesis ..
  qed
  then show ?thesis by (auto simp: grows_def t)
qed

subsection \<open>Properties\<close>

text \<open>Whatever message a dashboard sends, and whatever happens to it, the first thing it
  leaves is its record in the event log, before any command, broadcast or file.\<close>

lemma action_logged_first:
  "\<exists>rest. trace (fst (handle_gui_message (quietly up en) rep now source msg s))
     = trace s @ Logged (text_id (jget msg ''type'' (JStr []))) (JObj (filter (\<lambda>(key, v). key \<noteq> ''type'') msg)) # rest"
  by (rule logged_before)

text \<open>A robot switched off in the settings cannot be driven from a dashboard: a goal, a
  return home, a drive or a body command for it is logged, counts as attention, and does
  nothing else, over any transport.\<close>

lemma disabled_robot_not_driven:
  assumes "jget msg ''type'' (JStr []) = JStr kind"
    and "kind \<in> {''set_goal'', ''return_home'', ''drive'', ''body_command''}"
    and "jget msg ''robot_id'' (JStr []) = JStr rid" and "rid \<noteq> []" and "\<not> is_robot_enabled (cfg s) rid"
  shows "handle_gui_message en rep now source msg s =
    ((emit (Logged kind (JObj (filter (\<lambda>(key, v). key \<noteq> ''type'') msg))) s)\<lparr>reg := attend now rid (reg s)\<rparr>, None)"
  using assms by (auto simp: handle_gui_message_def Let_def text_id_def)

definition off_duty :: server where
  "off_duty = pair_up\<lparr>cfg := (defaults catalog)\<lparr>rows := [\<lparr>row_id = ''r1'', row_enabled = False, row_color = []\<rparr>]\<rparr>\<rparr>"

lemma disabled_robot_not_driven_witness:
  "trace (fst (handle_gui_message plain_env (\<lambda>_. []) 9 None
     [(''type'', JStr ''drive''), (''robot_id'', JStr ''r1''), (''linear'', JInt 1)] off_duty))
   = [Logged ''drive'' (JObj [(''robot_id'', JStr ''r1''), (''linear'', JInt 1)])]"
proof -
  have "\<not> is_robot_enabled (cfg off_duty) ''r1''" "trace off_duty = []" by code_simp+
  then show ?thesis
    using disabled_robot_not_driven [of "[(''type'', JStr ''drive''), (''robot_id'', JStr ''r1''), (''linear'', JInt 1)]"
      "''drive''" "''r1''" off_duty plain_env "\<lambda>_. []" 9 None]
    by (simp add: jget_def)
qed

lemma clear_alert_fields [simp]:
  "dget (alerts (clear_alert aid s)) aid = None"
  "suppressed (clear_alert aid s) = suppressed s"
  by (simp_all add: clear_alert_def dict_simps)

lemma suppress_alert_noted:
  "0 < alert_suppress (cfg s) \<Longrightarrow> aid \<noteq> [] \<Longrightarrow>
    dget (suppressed (suppress_alert now aid s)) aid = Some (now + of_int (alert_suppress (cfg s)))"
  by (simp add: suppress_alert_def dict_simps)

lemma acknowledged_fields:
  "dget (alerts (gui_acknowledge now aid s)) aid = None"
  "0 < alert_suppress (cfg s) \<Longrightarrow> aid \<noteq> [] \<Longrightarrow>
    dget (suppressed (gui_acknowledge now aid s)) aid = Some (now + of_int (alert_suppress (cfg s)))"
  unfolding gui_acknowledge_def
  by simp (cases "dget (alerts s) aid"; simp add: suppress_alert_noted)

text \<open>An acknowledged alert is gone and stays quiet for the configured time, whatever raises
  it again; afterwards it is raised anew.\<close>

lemma acknowledged_alert_stays_quiet:
  assumes "0 < alert_suppress (cfg s)" and "aid \<noteq> []"
  shows "dget (alerts (gui_acknowledge now aid s)) aid = None
    \<and> raise_alert t aid level kind text rid (gui_acknowledge now aid s)
      = (if t < now + of_int (alert_suppress (cfg s)) then gui_acknowledge now aid s
         else open_alert t aid level kind text rid
                ((gui_acknowledge now aid s)\<lparr>suppressed := ddel aid (suppressed (gui_acknowledge now aid s))\<rparr>))"
proof -
  let ?t = "gui_acknowledge now aid s"
  have gone: "dget (alerts ?t) aid = None"
    by (rule acknowledged_fields)
  have noted: "dget (suppressed ?t) aid = Some (now + of_int (alert_suppress (cfg s)))"
    by (rule acknowledged_fields) (rule assms)+
  show ?thesis
    unfolding raise_alert_def gone noted by simp
qed

lemma acknowledged_alert_stays_quiet_witness:
  "raise_alert 29 ''stop_all'' ''critical'' ''fault'' [] JNull (gui_acknowledge 0 ''stop_all'' pair_up)
   = gui_acknowledge 0 ''stop_all'' pair_up"
proof -
  have "alert_suppress (cfg pair_up) = 30" by code_simp
  then show ?thesis
    using acknowledged_alert_stays_quiet [of pair_up "''stop_all''" 0 29] by simp
qed

lemma raise_alert_other:
  "aid \<noteq> bid \<Longrightarrow> dget (alerts (raise_alert now bid level kind text rid s)) aid = dget (alerts s) aid"
  "aid \<noteq> bid \<Longrightarrow> dget (suppressed (raise_alert now bid level kind text rid s)) aid = dget (suppressed s) aid"
  by (simp_all add: raise_alert_def open_alert_def Let_def dict_simps split: option.split)

lemma raise_alert_new:
  "dget (alerts s) aid = None \<Longrightarrow> dget (suppressed s) aid = None \<Longrightarrow>
   dget (alerts (raise_alert now aid level kind text rid s)) aid
     = Some \<lparr>al_level = level, al_kind = kind, al_message = text, al_robot = rid, al_time = now, al_ack = False\<rparr>"
  by (simp add: raise_alert_def open_alert_def Let_def dict_simps)

lemma send_each_alerts:
  "alerts (fst (send_each (\<lambda>rid. send_msg (quietly up en) rid m) rids s)) = alerts s
   \<and> suppressed (fst (send_each (\<lambda>rid. send_msg (quietly up en) rid m) rids s)) = suppressed s"
  by (induction rids arbitrary: s) (simp_all add: case_prod_unfold Let_def send_quiet_fst)

text \<open>STOP ALL from a dashboard hands a stop to every robot that can be reached, in registry
  order and before anything else; if some cannot, and that alert is neither open nor
  suppressed, an unacknowledged critical alert names exactly those.\<close>

lemma stop_all_names_the_unreached:
  assumes "missed = filter (\<lambda>rid. \<not> reached up s rid) (keys (robots (reg s)))"
    and "dget (alerts s) ''stop_all_undelivered'' = None" and "dget (suppressed s) ''stop_all_undelivered'' = None"
  shows "(\<exists>rest. trace (gui_stop_all (quietly up en) now s) = trace s
       @ map (delivery (message en ''stop'' []) s) (filter (reached up s) (keys (robots (reg s)))) @ rest)
   \<and> dget (alerts (gui_stop_all (quietly up en) now s)) ''stop_all_undelivered'' = (if missed = [] then None
      else Some \<lparr>al_level = ''critical'', al_kind = ''fault'',
             al_message = ''STOP did not reach '' @ join '', '' (sort missed), al_robot = JNull,
             al_time = now, al_ack = False\<rparr>)"
proof -
  let ?each = "send_each (\<lambda>rid. send_msg (quietly up en) rid (message (quietly up en) ''stop'' [])) (keys (robots (reg s))) s"
  have msg: "message (quietly up en) ''stop'' [] = message en ''stop'' []" by (simp add: message_def)
  have missed: "snd ?each = missed" by (simp add: link.send_each_missed assms(1))
  have log: "trace (fst ?each) = trace s
      @ map (delivery (message en ''stop'' []) s) (filter (reached up s) (keys (robots (reg s))))"
    by (simp add: link.send_each_log msg)
  have "grows (fst ?each) (gui_stop_all (quietly up en) now s)"
    unfolding gui_stop_all_def Let_def case_prod_unfold
    by (intro grows_if grows_raise grows_emit grows_refl)
  then have "\<exists>rest. trace (gui_stop_all (quietly up en) now s) = trace s
       @ map (delivery (message en ''stop'' []) s) (filter (reached up s) (keys (robots (reg s)))) @ rest"
    by (auto simp: grows_def log)
  moreover have "dget (alerts (gui_stop_all (quietly up en) now s)) ''stop_all_undelivered'' = (if missed = [] then None
      else Some \<lparr>al_level = ''critical'', al_kind = ''fault'',
             al_message = ''STOP did not reach '' @ join '', '' (sort missed), al_robot = JNull,
             al_time = now, al_ack = False\<rparr>)"
    unfolding gui_stop_all_def Let_def case_prod_unfold missed
    using assms(2,3) by (simp add: raise_alert_new raise_alert_other send_each_alerts)
  ultimately show ?thesis ..
qed

lemma stop_all_names_the_unreached_witness:
  "map_option al_message (dget (alerts (gui_stop_all (quietly (\<lambda>k. k = 1) plain_env) 9 pair_up)) ''stop_all_undelivered'')
   = Some ''STOP did not reach r2''"
proof -
  have "filter (\<lambda>rid. \<not> reached (\<lambda>k. k = 1) pair_up rid) (keys (robots (reg pair_up))) = [''r2'']"
    "dget (alerts pair_up) ''stop_all_undelivered'' = None" "dget (suppressed pair_up) ''stop_all_undelivered'' = None"
    by code_simp+
  from stop_all_names_the_unreached [OF this(1) [symmetric] this(2,3), of plain_env 9] show ?thesis by simp
qed

definition stop_msg :: "string \<Rightarrow> (string \<times> json) list" where
  "stop_msg k = [(''type'', JStr k), (''id'', JStr ''stop_all_undelivered'')]"

text \<open>After the alert of a STOP ALL that missed a robot is acknowledged, a second STOP ALL
  within the suppression time that misses another robot raises no alert at all: the dashboard
  is not told, although the robot may still be moving.\<close>

lemma second_stop_failure_is_silent:
  "let gui = (\<lambda>dead now k s. fst (handle_gui_message (quietly (\<lambda>n. n \<noteq> dead) plain_env) (\<lambda>_. []) now None (stop_msg k) s));
       s1 = gui 1 0 ''stop_all'' pair_up;
       s2 = gui 0 5 ''acknowledge_alert'' s1;
       s3 = gui 2 10 ''stop_all'' s2 in
   map_option al_message (dget (alerts s1) ''stop_all_undelivered'') = Some ''STOP did not reach r1''
   \<and> \<not> reached (\<lambda>n. n \<noteq> 2) s2 ''r2''
   \<and> dget (alerts s3) ''stop_all_undelivered'' = None
   \<and> filter (\<lambda>e. case e of Broadcast _ \<Rightarrow> True | _ \<Rightarrow> False) (drop (length (trace s2)) (trace s3)) = []"
  by code_simp

end
