(* ===== verification/Detections.thy ===== *)
theory Detections
  imports Gui
begin

text \<open>
  Live detections in \<^verbatim>\<open>server/swarmdeck_server/api/app.py\<close>: the cache of camera tracks, the floor
  below which a track is hidden, a batch of detections from a robot and the retraction of
  what left the frame, and saving the settings (\<^verbatim>\<open>control_routes.py\<close>, \<open>put_settings\<close>), which judges the
  cache again. Robot ids and classes are text; a score, position or pose that reaches the
  review store is a finite number. Anything else is refused here with \<open>TypeError\<close> or
  \<open>ValueError\<close>. A batch is one step: the code awaits its broadcasts between items, so that another batch or a save
  may come between two items; each item is stored without an await.
\<close>

subsection \<open>Which detections are kept and shown\<close>

definition class_enabled :: "settings \<Rightarrow> json \<Rightarrow> bool" where
  "class_enabled c cls = (det_enabled c \<and> (det_classes c = [] \<or> cls \<in> set (map JStr (det_classes c))))"

definition discard_disabled :: "settings \<Rightarrow> server \<Rightarrow> server" where
  "discard_disabled c s = s\<lparr>tracks := filter (\<lambda>(k, t). class_enabled c (JStr (t_class t))) (tracks s)\<rparr>"

definition detection_hidden :: "floors \<Rightarrow> settings \<Rightarrow> track \<Rightarrow> bool" where
  "detection_hidden cat c t = flt (t_best t) (Fin (floor_for cat c (t_robot t) (t_class t)))"

definition track_json :: "track \<Rightarrow> json" where
  "track_json t = JObj [(''id'', JStr (t_id t)), (''class'', JStr (t_class t)), (''score'', JFloat (t_score t)),
     (''best_score'', JFloat (t_best t)), (''robot_id'', JStr (t_robot t)), (''camera'', t_camera t),
     (''bbox'', t_bbox t), (''polygon'', t_polygon t), (''image'', t_image t), (''map_position'', t_position t),
     (''first_seen'', JFloat (Fin (t_first t))), (''last_seen'', JFloat (Fin (t_last t))),
     (''observations'', JInt (int (t_seen t))), (''hidden'', JBool (t_hidden t))]"

definition detection_note :: "track \<Rightarrow> effect" where
  "detection_note t = Broadcast (JObj [(''type'', JStr ''detection''), (''detection'', track_json t)])"

definition reapply_floors :: "floors \<Rightarrow> settings \<Rightarrow> server \<Rightarrow> server \<times> track list" where
  "reapply_floors cat c s =
     (let judge = (\<lambda>k t. t\<lparr>t_hidden := detection_hidden cat c t\<rparr>) in
      (s\<lparr>tracks := dmap judge (tracks s)\<rparr>,
       map (\<lambda>(k, t). judge k t) (filter (\<lambda>(k, t). detection_hidden cat c t \<noteq> t_hidden t) (tracks s))))"

definition apply_review_radii :: "settings \<Rightarrow> review \<Rightarrow> review" where
  "apply_review_radii c v = v\<lparr>same_radius := det_same c, ask_radius := det_ask c,
     cross_class := (single_mode c \<or> cross_merge c)\<rparr>"

subsection \<open>A batch of detections\<close>

definition detection_position :: "env \<Rightarrow> string \<Rightarrow> json \<Rightarrow> server \<Rightarrow> pyerr + json" where
  "detection_position en rid pos s = (case pos of
     JObj kvs \<Rightarrow>
       if \<not> (jhas kvs ''x'' \<and> jhas kvs ''y'') then Inr JNull
       else (case ebind (float_of (jget kvs ''x'' JNull)) (\<lambda>x. ebind (float_of (jget kvs ''y'' JNull)) (\<lambda>y. Inr (x, y))) of
          Inl e \<Rightarrow> if e \<in> {TypeError, ValueError} then Inr JNull else Inl e
        | Inr (x, y) \<Rightarrow>
            if \<not> (is_finite x \<and> is_finite y) then Inr JNull
            else (let p = JObj [(''x'', JFloat x), (''y'', JFloat y)] in
              case dget (robots (reg s)) rid of None \<Rightarrow> Inr p
              | Some r \<Rightarrow> if r_frame r = Merged then Inr p else to_world en rid p))
   | _ \<Rightarrow> Inr JNull)"

definition score_of :: "(string \<times> json) list \<Rightarrow> pyerr + pyfloat" where
  "score_of kvs = (let v = jget kvs ''score'' (JFloat (Fin 0)) in if truthy v then float_of v else Inr (Fin 0))"

definition track_key :: "(json \<Rightarrow> string) \<Rightarrow> string \<Rightarrow> (string \<times> json) list \<Rightarrow> string" where
  "track_key rep rid kvs
     = rid @ '':'' @ py_str rep (jget kvs ''id'' (jget kvs ''class'' (JStr ''object'')))"

definition track_of :: "env \<Rightarrow> (json \<Rightarrow> string) \<Rightarrow> floors \<Rightarrow> real \<Rightarrow> string \<Rightarrow> json \<Rightarrow> (string \<times> json) list \<Rightarrow> server
    \<Rightarrow> pyerr + track" where
  "track_of en rep cat now rid camera kvs s =
     (let key = track_key rep rid kvs; prev = dget (tracks s) key in
      ebind (score_of kvs) (\<lambda>score.
      ebind (case jget kvs ''class'' (JStr ''object'') of JStr c \<Rightarrow> Inr c | _ \<Rightarrow> Inl TypeError) (\<lambda>cls.
      ebind (detection_position en rid (jget kvs ''map_position'' JNull) s) (\<lambda>pos.
        let t = \<lparr>t_id = key, t_class = cls, t_score = score,
              t_best = (case prev of None \<Rightarrow> score | Some p \<Rightarrow> py_max score (t_best p)),
              t_robot = rid, t_camera = camera, t_bbox = jget kvs ''bbox'' JNull,
              t_polygon = jget kvs ''polygon'' JNull, t_image = jget kvs ''image'' JNull, t_position = pos,
              t_first = (case prev of None \<Rightarrow> now | Some p \<Rightarrow> t_first p), t_last = now,
              t_seen = (case prev of None \<Rightarrow> 1 | Some p \<Rightarrow> t_seen p + 1), t_hidden = False\<rparr> in
        Inr (t\<lparr>t_hidden := detection_hidden cat (cfg s) t\<rparr>)))))"

definition finite_at :: "json \<Rightarrow> string \<Rightarrow> pyerr + real" where
  "finite_at v k = ebind (jindex v k) (\<lambda>j. ebind (number j) (\<lambda>f. case f of Fin x \<Rightarrow> Inr x | _ \<Rightarrow> Inl ValueError))"

definition stood_at :: "json \<Rightarrow> pyerr + real \<times> real" where
  "stood_at pose = ebind (finite_at pose ''x'') (\<lambda>x. ebind (finite_at pose ''y'') (\<lambda>y. Inr (x, y)))"

text \<open>The review of one located sighting; how soon the dashboards must hear of it.\<close>

definition review_track :: "real \<Rightarrow> string \<Rightarrow> track \<Rightarrow> server \<Rightarrow> pyerr + server \<times> outcome" where
  "review_track now rid t s =
     ebind (stood_at (t_position t)) (\<lambda>(x, y).
     ebind (case t_score t of Fin r \<Rightarrow> Inr r | _ \<Rightarrow> Inl ValueError) (\<lambda>score.
     ebind (case dget (robots (reg s)) rid of None \<Rightarrow> Inr None
            | Some r \<Rightarrow> ebind (stood_at (r_pose r)) (\<lambda>p. Inr (Some p))) (\<lambda>obs.
       let (v, out) = observe now rid (t_class t) x y score obs (t_image t) (reviews s) in
       Inr (s\<lparr>reviews := v\<rparr>, out))))"

datatype urgency = Later | Soon | Now

definition urgency_of :: "urgency \<Rightarrow> outcome \<Rightarrow> urgency" where
  "urgency_of u out = (case out of Proposed _ \<Rightarrow> Now | Suppressed \<Rightarrow> u
     | _ \<Rightarrow> if u = Later then Soon else u)"

definition sight :: "real \<Rightarrow> string \<Rightarrow> track \<Rightarrow> urgency \<Rightarrow> server \<Rightarrow> server \<times> pyerr option \<times> urgency" where
  "sight now rid t u s =
     (if truthy (t_position t) \<and> \<not> t_hidden t then
        (case review_track now rid t s of Inl e \<Rightarrow> (s, Some e, u)
         | Inr (s', out) \<Rightarrow> (if out = Suppressed then s' else s'\<lparr>review_dirty := True\<rparr>, None, urgency_of u out))
      else (s, None, u))"

text \<open>The items of a batch in turn: the state, the error that stopped it, what it saw.\<close>

fun take_items :: "env \<Rightarrow> (json \<Rightarrow> string) \<Rightarrow> floors \<Rightarrow> real \<Rightarrow> string \<Rightarrow> json \<Rightarrow> json list \<Rightarrow> string list \<Rightarrow> urgency
    \<Rightarrow> server \<Rightarrow> server \<times> pyerr option \<times> string list \<times> urgency" where
  "take_items en rep cat now rid camera [] seen u s = (s, None, seen, u)"
| "take_items en rep cat now rid camera (JObj kvs # items) seen u s =
     (if \<not> class_enabled (cfg s) (jget kvs ''class'' (JStr ''object'')) then
        take_items en rep cat now rid camera items seen u s
      else let key = track_key rep rid kvs; seen1 = key # seen in
        case track_of en rep cat now rid camera kvs s of
          Inl e \<Rightarrow> (s, Some e, seen1, u)
        | Inr t \<Rightarrow>
            (case sight now rid t u (s\<lparr>tracks := dput key t (tracks s)\<rparr>) of
               (s1, Some e, u1) \<Rightarrow> (s1, Some e, seen1, u1)
             | (s1, None, u1) \<Rightarrow>
                 take_items en rep cat now rid camera items seen1 u1
                   (if t_hidden t then s1 else emit (detection_note t) s1)))"
| "take_items en rep cat now rid camera (item # items) seen u s = (s, Some AttributeError, seen, u)"

text \<open>What left the frame loses its box and keeps its place on the map.\<close>

definition retract :: "string \<Rightarrow> server \<Rightarrow> server" where
  "retract key s = (case dget (tracks s) key of None \<Rightarrow> s
     | Some t \<Rightarrow> if t_bbox t = JNull then s
        else let t' = t\<lparr>t_bbox := JNull, t_polygon := JNull\<rparr>; s' = s\<lparr>tracks := dput key t' (tracks s)\<rparr> in
          if t_hidden t' then s' else emit (detection_note t') s')"

definition departed :: "string \<Rightarrow> json \<Rightarrow> string list \<Rightarrow> track \<Rightarrow> string \<Rightarrow> bool" where
  "departed rid camera seen t k
     = (t_robot t = rid \<and> t_camera t = camera \<and> k \<notin> set seen \<and> t_bbox t \<noteq> JNull)"

definition detections_message :: "env \<Rightarrow> (json \<Rightarrow> string) \<Rightarrow> floors \<Rightarrow> real \<Rightarrow> (string \<times> json) list \<Rightarrow> server update" where
  "detections_message en rep cat now msg s =
     (case dget msg ''robot_id'' of
        None \<Rightarrow> (s, Some KeyError)
      | Some (JStr rid) \<Rightarrow>
          (let camera = jget msg ''camera'' (JStr ''front'') in
           case py_list (jget msg ''items'' (JList [])) of Inl e \<Rightarrow> (s, Some e)
           | Inr items \<Rightarrow>
               (case take_items en rep cat now rid camera items [] Later s of
                  (s1, Some e, seen, u) \<Rightarrow> (s1, Some e)
                | (s1, None, seen, u) \<Rightarrow>
                    (let s2 = (if u = Later then s1 else broadcast_review now (u = Now) s1) in
                     (fold retract (map fst (filter (\<lambda>(k, t). departed rid camera seen t k) (tracks s2))) s2, None))))
      | Some _ \<Rightarrow> (s, Some TypeError))"

subsection \<open>Saving the settings\<close>

definition row_json :: "robot_row \<Rightarrow> json" where
  "row_json r = JObj [(''id'', JStr (row_id r)), (''enabled'', JBool (row_enabled r)), (''color'', JStr (row_color r))]"

definition settings_json :: "settings \<Rightarrow> json" where
  "settings_json c = JObj [
     (''unattended_threshold_s'', JInt (unattended_threshold c)), (''alert_suppress_s'', JInt (alert_suppress c)),
     (''robot_count'', JInt (robot_count c)), (''drive_control_mode'', JStr (drive_mode c)),
     (''detection_enabled'', JBool (det_enabled c)), (''detection_sensitivity'', JFloat (Fin (sensitivity c))),
     (''detection_classes'', JList (map JStr (det_classes c))),
     (''detection_same_radius_m'', JFloat (Fin (det_same c))), (''detection_ask_radius_m'', JFloat (Fin (det_ask c))),
     (''detection_class_floors'', floats_json (class_floors c)),
     (''detection_robot_floors'', JObj (map (\<lambda>(r, fs). (r, floats_json fs)) (robot_floors c))),
     (''detection_capture_floors'', floats_json (capture c)),
     (''detection_single_mode'', JBool (single_mode c)), (''detection_single_name'', JStr (single_name c)),
     (''detection_single_color'', JStr (single_color c)),
     (''detection_cross_class_merge'', JBool (cross_merge c)), (''robots'', JList (map row_json (rows c)))]"

definition save_settings :: "settings \<Rightarrow> server \<Rightarrow> server" where
  "save_settings c s = emit (Stored ''settings'' (settings_json c)) (s\<lparr>cfg := c\<rparr>)"

definition park :: "env \<Rightarrow> string \<Rightarrow> server \<Rightarrow> server" where
  "park en rid s = stand_down parked en rid s"

definition disabled_list :: "settings \<Rightarrow> string list" where
  "disabled_list c = remdups (map row_id (filter (\<lambda>r. row_id r \<noteq> [] \<and> \<not> row_enabled r) (rows c)))"

text \<open>Everything a save changes at once, before the first wait.\<close>

definition adopt_settings :: "floors \<Rightarrow> settings \<Rightarrow> server \<Rightarrow> server \<times> track list" where
  "adopt_settings cat c s =
     (let s1 = discard_disabled c (save_settings c s);
          allowed = (if det_enabled c then set (det_classes c) else {});
          s2 = s1\<lparr>reviews := apply_review_radii c (drop_classes (Some allowed) (reviews s1))\<rparr> in
      reapply_floors cat c (save_review True s2))"

definition settings_message :: "settings \<Rightarrow> json" where
  "settings_message c = JObj [(''type'', JStr ''settings_state''), (''settings'', settings_json c)]"

definition put_settings :: "env \<Rightarrow> (json \<Rightarrow> string) \<Rightarrow> floors \<Rightarrow> real \<Rightarrow> json option \<Rightarrow> server \<Rightarrow> server \<times> reply" where
  "put_settings en rep cat now body s = (case body of None \<Rightarrow> (s, Refused 400 ''JSON body required'')
   | Some payload \<Rightarrow> (case validate cat rep payload of Inl e \<Rightarrow> (s, Failed e)
   | Inr c \<Rightarrow>
       (let (s1, revised) = adopt_settings cat c s;
            s2 = fold (park en) (disabled_list c) (emit (Map_Call ''set_excluded'' (join '','' (disabled_list c))) s1);
            s3 = emit (Broadcast (settings_message c))
                   (emit (Logged ''settings_update'' (JObj [(''settings'', settings_json c)])) s2);
            s4 = fold (\<lambda>t. emit (detection_note t)) revised s3 in
        (broadcast_review now True s4, Done (settings_message c)))))"

subsection \<open>The cache agrees with the settings\<close>

text \<open>Every track is filed under its id, of a class that is switched on, and hidden exactly when
  its best score is below the floor of the current settings.\<close>

definition tracks_ok :: "floors \<Rightarrow> server \<Rightarrow> bool" where
  "tracks_ok cat s = (wf_dict (tracks s) \<and> (\<forall>(k, t) \<in> set (tracks s).
     t_id t = k \<and> class_enabled (cfg s) (JStr (t_class t)) \<and> t_hidden t = detection_hidden cat (cfg s) t))"

lemma tracks_ok_same: "tracks t = tracks s \<Longrightarrow> cfg t = cfg s \<Longrightarrow> tracks_ok cat t = tracks_ok cat s"
  by (simp add: tracks_ok_def)

lemma kept_fields [simp]:
  "tracks (save_review b s) = tracks s" "cfg (save_review b s) = cfg s"
  "tracks (broadcast_review now b s) = tracks s" "cfg (broadcast_review now b s) = cfg s"
  "tracks (on_robot rid f s) = tracks s" "cfg (on_robot rid f s) = cfg s"
  "reviews (save_review b s) = reviews s"
  by (simp_all add: save_review_def broadcast_review_def on_robot_def split: option.split)

lemma track_of_ok:
  assumes "track_of en rep cat now rid camera kvs s = Inr t"
    and "class_enabled (cfg s) (jget kvs ''class'' (JStr ''object''))"
  shows "t_id t = track_key rep rid kvs \<and> class_enabled (cfg s) (JStr (t_class t))
    \<and> t_hidden t = detection_hidden cat (cfg s) t \<and> t_robot t = rid"
  using assms by (auto simp: track_of_def Let_def ebind_def detection_hidden_def split: sum.splits json.splits)

lemma tracks_ok_put:
  assumes "tracks_ok cat s" and "t_id t = k" and "class_enabled (cfg s) (JStr (t_class t))"
    and "t_hidden t = detection_hidden cat (cfg s) t"
  shows "tracks_ok cat (s\<lparr>tracks := dput k t (tracks s)\<rparr>)"
  using assms set_dput_subset [of k t "tracks s"] by (fastforce simp: tracks_ok_def)

lemma sight_fields:
  "tracks (fst (sight now rid t u s)) = tracks s \<and> cfg (fst (sight now rid t u s)) = cfg s
   \<and> trace (fst (sight now rid t u s)) = trace s"
  by (auto simp: sight_def review_track_def ebind_def Let_def split: sum.splits prod.splits)

text \<open>One item, whatever becomes of it.\<close>

lemma sight_cases:
  obtains s1 e u1 where "sight now rid t u s = (s1, e, u1)" "tracks s1 = tracks s" "cfg s1 = cfg s" "trace s1 = trace s"
  using sight_fields [of now rid t u s] by (cases "sight now rid t u s") auto

lemma take_items_ok:
  "tracks_ok cat s \<Longrightarrow> tracks_ok cat (fst (take_items en rep cat now rid camera items seen u s))
     \<and> cfg (fst (take_items en rep cat now rid camera items seen u s)) = cfg s"
proof (induction items arbitrary: seen u s)
  case (Cons item items)
  show ?case
  proof (cases item)
    case (JObj kvs)
    let ?key = "track_key rep rid kvs"
    show ?thesis
    proof (cases "class_enabled (cfg s) (jget kvs ''class'' (JStr ''object''))")
      case True
      show ?thesis
      proof (cases "track_of en rep cat now rid camera kvs s")
        case (Inr t)
        let ?s = "s\<lparr>tracks := dput ?key t (tracks s)\<rparr>"
        obtain s1 e u1 where sight: "sight now rid t u ?s = (s1, e, u1)" "tracks s1 = tracks ?s" "cfg s1 = cfg ?s"
          by (rule sight_cases [of now rid t u ?s])
        have "tracks_ok cat ?s" using tracks_ok_put Cons.prems track_of_ok [OF Inr True] by simp
        then have ok: "tracks_ok cat s1" using tracks_ok_same [OF sight(2,3)] by simp
        moreover have "tracks_ok cat (emit n s1)" for n using ok tracks_ok_same [of "emit n s1" s1] by simp
        ultimately show ?thesis
          using Cons.IH sight by (cases e) (simp_all add: JObj True Inr Let_def)
      qed (simp add: JObj True Cons.prems Let_def)
    qed (simp add: JObj Cons)
  qed (simp_all add: Cons.prems)
qed simp

lemma retract_ok: "tracks_ok cat s \<Longrightarrow> tracks_ok cat (retract key s) \<and> cfg (retract key s) = cfg s"
proof (cases "dget (tracks s) key")
  case (Some t)
  assume ok: "tracks_ok cat s"
  have "(key, t) \<in> set (tracks s)" using Some by (rule map_of_SomeD)
  then have "tracks_ok cat (s\<lparr>tracks := dput key (t\<lparr>t_bbox := JNull, t_polygon := JNull\<rparr>) (tracks s)\<rparr>)"
    using ok by (intro tracks_ok_put) (auto simp: tracks_ok_def detection_hidden_def)
  then show ?thesis
    using ok tracks_ok_same [OF emit_simps(8) emit_simps(6)] by (auto simp: retract_def Some Let_def)
qed (simp add: retract_def)

lemma fold_retract_ok: "tracks_ok cat s \<Longrightarrow> tracks_ok cat (fold retract ks s) \<and> cfg (fold retract ks s) = cfg s"
  by (induction ks arbitrary: s) (simp_all add: retract_ok)

lemma detections_ok:
  assumes "tracks_ok cat s"
  shows "tracks_ok cat (fst (detections_message en rep cat now msg s))
    \<and> cfg (fst (detections_message en rep cat now msg s)) = cfg s"
proof -
  have review: "tracks_ok cat (if b then t else broadcast_review now u t) = tracks_ok cat t" for b u t
    by (simp add: tracks_ok_same [of "broadcast_review now u t" t])
  have "tracks_ok cat (fst (let s2 = (if u = Later then s1 else broadcast_review now (u = Now) s1) in
        (fold retract (f s2) s2, None :: pyerr option)))
      \<and> cfg (fst (let s2 = (if u = Later then s1 else broadcast_review now (u = Now) s1) in
        (fold retract (f s2) s2, None :: pyerr option))) = cfg s"
    if "tracks_ok cat s1 \<and> cfg s1 = cfg s" for s1 u f
    using that fold_retract_ok [of cat "if u = Later then s1 else broadcast_review now (u = Now) s1"]
    by (simp add: review Let_def)
  note finish = this
  show ?thesis
  proof (cases "dget msg ''robot_id''")
    case (Some v)
    then show ?thesis
    proof (cases v)
      case (JStr rid)
      show ?thesis
      proof (cases "py_list (jget msg ''items'' (JList []))")
        case (Inr items)
        obtain s1 e seen u where run: "take_items en rep cat now rid (jget msg ''camera'' (JStr ''front'')) items [] Later s
            = (s1, e, seen, u)" by (rule prod_cases4)
        have ok: "tracks_ok cat s1 \<and> cfg s1 = cfg s"
          using take_items_ok [OF assms, of en rep now rid "jget msg ''camera'' (JStr ''front'')" items "[]" Later]
          by (simp add: run)
        show ?thesis
          using finish [OF ok] ok
          by (cases e) (simp_all add: detections_message_def Some JStr Inr run)
      qed (simp add: detections_message_def Some JStr assms)
    qed (simp_all add: detections_message_def assms)
  qed (simp add: detections_message_def assms)
qed

lemma wf_dict_map: "wf_dict (map (\<lambda>(k, v). (k, f k v)) d) = wf_dict d"
  by (simp flip: dmap_def)

lemma adopt_ok:
  assumes "tracks_ok cat s"
  shows "tracks_ok cat (fst (adopt_settings cat c s)) \<and> cfg (fst (adopt_settings cat c s)) = c"
proof -
  have "tracks (fst (adopt_settings cat c s)) = dmap (\<lambda>k t. t\<lparr>t_hidden := detection_hidden cat c t\<rparr>)
      (filter (\<lambda>(k, t). class_enabled c (JStr (t_class t))) (tracks s))"
    and "cfg (fst (adopt_settings cat c s)) = c"
    by (simp_all add: adopt_settings_def Let_def reapply_floors_def discard_disabled_def save_settings_def
        emit_def save_review_def)
  then show ?thesis
    using assms by (auto simp: tracks_ok_def dmap_def wf_dict_map detection_hidden_def)
qed

text \<open>A transport over which other handlers run that keep the cache in order.\<close>

definition orderly :: "floors \<Rightarrow> env \<Rightarrow> bool" where
  "orderly cat en = (\<forall>k m s. tracks_ok cat s \<longrightarrow> tracks_ok cat (snd (net en k m s)))"

lemma send_ok:
  assumes "orderly cat en" and "tracks_ok cat s"
  shows "tracks_ok cat (fst (send_msg en rid m s))"
proof (cases "dget (sinks (reg s)) rid")
  case (Some k)
  obtain ok t where net: "net en k m s = (ok, t)" by (cases "net en k m s")
  have "tracks_ok cat (snd (net en k m s))" using assms by (simp add: orderly_def)
  then have t: "tracks_ok cat t" by (simp add: net)
  then have "tracks_ok cat (t\<lparr>reg := g\<rparr>)" for g
    using tracks_ok_same [of "t\<lparr>reg := g\<rparr>" t] by simp
  with t show ?thesis by (cases ok) (simp_all add: send_msg_def Some net)
qed (simp add: send_msg_def assms)

lemma park_ok: "orderly cat en \<Longrightarrow> tracks_ok cat s \<Longrightarrow> tracks_ok cat (park en rid s)"
  unfolding park_def stand_down_def
  by (subst tracks_ok_same [OF kept_fields(5,6)]) (intro send_ok)

lemma fold_park_ok: "orderly cat en \<Longrightarrow> tracks_ok cat s \<Longrightarrow> tracks_ok cat (fold (park en) rids s)"
  by (induction rids arbitrary: s) (simp_all add: park_ok)

lemma emit_ok [simp]: "tracks_ok cat (emit e s) = tracks_ok cat s"
  by (rule tracks_ok_same) simp_all

lemma fold_emit_ok [simp]: "tracks_ok cat (fold (\<lambda>t. emit (f t)) ts s) = tracks_ok cat s"
  by (induction ts arbitrary: s) simp_all

lemma put_settings_ok:
  assumes "orderly cat en" and "tracks_ok cat s"
  shows "tracks_ok cat (fst (put_settings en rep cat now body s))"
proof (cases body)
  case (Some payload)
  show ?thesis
  proof (cases "validate cat rep payload")
    case (Inr c)
    have "tracks_ok cat (fst (adopt_settings cat c s))" using adopt_ok [OF assms(2)] by blast
    then show ?thesis
      using assms(1)
      by (simp add: put_settings_def Some Inr Let_def case_prod_unfold tracks_ok_same [OF kept_fields(3,4)] fold_park_ok)
  qed (simp add: put_settings_def Some assms)
qed (simp add: put_settings_def assms)

datatype cache_event =
    Batch env "json \<Rightarrow> string" real "(string \<times> json) list"
  | Save env "json \<Rightarrow> string" real "json option"

fun cache_step :: "floors \<Rightarrow> cache_event \<Rightarrow> server \<Rightarrow> server" where
  "cache_step cat (Batch en rep now msg) s = fst (detections_message en rep cat now msg s)"
| "cache_step cat (Save en rep now body) s = fst (put_settings en rep cat now body s)"

fun orderly_event :: "floors \<Rightarrow> cache_event \<Rightarrow> bool" where
  "orderly_event cat (Batch en rep now msg) = True"
| "orderly_event cat (Save en rep now body) = orderly cat en"

interpretation cache: machine "cache_step cat" "orderly_event cat" "tracks_ok cat" for cat
proof unfold_locales
  show "orderly_event cat e \<Longrightarrow> tracks_ok cat s \<Longrightarrow> tracks_ok cat (cache_step cat e s)" for e s
    by (cases e) (simp_all add: detections_ok put_settings_ok)
qed

text \<open>C37: Whatever batches arrive and settings are saved, in any order and with other handlers of the
  same kind running while a save waits on a robot: every cached track is filed under its own id,
  is of a class that is switched on, and is hidden exactly when its best score is below the
  floor in the settings at that moment.\<close>

theorem cache_agrees_with_settings:
  "list_all (orderly_event cat) es \<Longrightarrow> tracks_ok cat s \<Longrightarrow> tracks_ok cat (fold (cache_step cat) es s)"
  by (rule cache.inv_run)

definition duck_batch :: "pyfloat \<Rightarrow> (string \<times> json) list" where
  "duck_batch score = [(''type'', JStr ''detections''), (''robot_id'', JStr ''r1''),
     (''items'', JList [JObj [(''class'', JStr ''rubber_duck''), (''score'', JFloat score), (''bbox'', JList [JInt 1])]])]"

definition floors_body :: "real \<Rightarrow> json" where
  "floors_body x = JObj [(''detection_class_floors'', JObj [(''rubber_duck'', JFloat (Fin x))])]"

lemma pair_up_tracks: "tracks_ok cat pair_up"
  by (simp add: tracks_ok_def pair_up_def)

lemma plain_orderly: "orderly cat plain_env"
  by (simp add: orderly_def plain_env_def quiet_net_def)

theorem cache_agrees_with_settings_witness:
  "tracks_ok catalog (fold (cache_step catalog)
     [Batch plain_env (\<lambda>_. []) 1 (duck_batch (Fin (1/2))), Save plain_env (\<lambda>_. []) 2 (Some (floors_body (3/5)))] pair_up)
   \<and> map (t_hidden \<circ> snd) (tracks (fold (cache_step catalog)
     [Batch plain_env (\<lambda>_. []) 1 (duck_batch (Fin (1/2))), Save plain_env (\<lambda>_. []) 2 (Some (floors_body (3/5)))] pair_up)) = [True]"
proof
  show "tracks_ok catalog (fold (cache_step catalog)
     [Batch plain_env (\<lambda>_. []) 1 (duck_batch (Fin (1/2))), Save plain_env (\<lambda>_. []) 2 (Some (floors_body (3/5)))] pair_up)"
    by (rule cache_agrees_with_settings) (simp_all add: plain_orderly pair_up_tracks)
  show "map (t_hidden \<circ> snd) (tracks (fold (cache_step catalog)
     [Batch plain_env (\<lambda>_. []) 1 (duck_batch (Fin (1/2))), Save plain_env (\<lambda>_. []) 2 (Some (floors_body (3/5)))] pair_up)) = [True]"
    by code_simp
qed

subsection \<open>What a batch changes\<close>

definition unboxed :: "track \<Rightarrow> track" where
  "unboxed t = (if t_bbox t = JNull then t else t\<lparr>t_bbox := JNull, t_polygon := JNull\<rparr>)"

lemma dget_retract:
  "dget (tracks (retract key s)) k = (if k = key then map_option unboxed (dget (tracks s) k) else dget (tracks s) k)"
  by (auto simp: retract_def unboxed_def Let_def dict_simps split: option.split)

lemma dget_fold_retract:
  "dget (tracks (fold retract ks s)) k
     = (if k \<in> set ks then map_option unboxed (dget (tracks s) k) else dget (tracks s) k)"
proof (induction ks arbitrary: s)
  case (Cons key ks)
  have "unboxed (unboxed t) = unboxed t" for t by (simp add: unboxed_def)
  then show ?case by (auto simp: Cons.IH dget_retract option.map_comp comp_def)
qed simp

definition reported :: "settings \<Rightarrow> (json \<Rightarrow> string) \<Rightarrow> string \<Rightarrow> json list \<Rightarrow> string set" where
  "reported c rep rid items = {track_key rep rid kvs | kvs. JObj kvs \<in> set items
     \<and> class_enabled c (jget kvs ''class'' (JStr ''object''))}"

lemma take_items_seen:
  assumes "take_items en rep cat now rid camera items seen u s = (s', None, seen', u')"
  shows "set seen' = set seen \<union> reported (cfg s) rep rid items \<and> cfg s' = cfg s
    \<and> (\<forall>k. k \<notin> reported (cfg s) rep rid items \<longrightarrow> dget (tracks s') k = dget (tracks s) k)"
  using assms
proof (induction items arbitrary: seen u s)
  case Nil
  then show ?case by (simp add: reported_def)
next
  case (Cons item items)
  then obtain kvs where item: "item = JObj kvs" by (cases item) auto
  let ?key = "track_key rep rid kvs"
  show ?case
  proof (cases "class_enabled (cfg s) (jget kvs ''class'' (JStr ''object''))")
    case False
    then have "reported (cfg s) rep rid (item # items) = reported (cfg s) rep rid items"
      by (auto simp: reported_def item)
    then show ?thesis using Cons False by (simp add: item)
  next
    case True
    have rep: "reported (cfg s) rep rid (item # items) = insert ?key (reported (cfg s) rep rid items)"
      using True by (auto simp: reported_def item)
    from Cons.prems True obtain t where t: "track_of en rep cat now rid camera kvs s = Inr t"
      by (auto simp: item Let_def split: sum.splits)
    let ?s = "s\<lparr>tracks := dput ?key t (tracks s)\<rparr>"
    obtain s1 e u1 where sight: "sight now rid t u ?s = (s1, e, u1)" "tracks s1 = tracks ?s" "cfg s1 = cfg ?s"
      by (rule sight_cases [of now rid t u ?s])
    define s2 where "s2 = (if t_hidden t then s1 else emit (detection_note t) s1)"
    have s2: "tracks s2 = tracks ?s" "cfg s2 = cfg s" using sight by (simp_all add: s2_def)
    from Cons.prems have "take_items en rep cat now rid camera items (?key # seen) u1 s2 = (s', None, seen', u')"
      using sight True t by (cases e) (simp_all add: item Let_def s2_def)
    from Cons.IH [OF this] show ?thesis by (auto simp: rep s2 dict_simps)
  qed
qed

lemma mem_keys_filter:
  "wf_dict d \<Longrightarrow> k \<in> set (map fst (filter (\<lambda>(k, t). P t k) d)) \<longleftrightarrow> (\<exists>t. dget d k = Some t \<and> P t k)"
  using wf_dict_dget [of d] by (force simp: image_iff)

text \<open>An object leaves the frame by being absent: after a batch that was taken in full, a track
  it did not report is as it was, except that one of the same robot and camera has lost its box
  and outline. So every box of that camera belongs to the newest batch.\<close>

lemma batch_retracts_absent:
  assumes "detections_message en rep cat now msg s = (s', None)"
    and "dget msg ''robot_id'' = Some (JStr rid)"
    and "py_list (jget msg ''items'' (JList [])) = Inr items"
    and "k \<notin> reported (cfg s) rep rid items" and "tracks_ok cat s"
  shows "dget (tracks s') k = map_option (\<lambda>t. if t_robot t = rid \<and> t_camera t = jget msg ''camera'' (JStr ''front'')
    then unboxed t else t) (dget (tracks s) k)"
proof -
  let ?camera = "jget msg ''camera'' (JStr ''front'')"
  obtain s1 e seen u where run: "take_items en rep cat now rid ?camera items [] Later s = (s1, e, seen, u)"
    by (rule prod_cases4)
  define s2 where "s2 = (if u = Later then s1 else broadcast_review now (u = Now) s1)"
  have s2: "tracks s2 = tracks s1" by (simp add: s2_def)
  have e: "e = None" and s': "s' = fold retract (map fst (filter (\<lambda>(k, t). departed rid ?camera seen t k) (tracks s2))) s2"
    using assms(1-3) run by (cases e; auto simp: detections_message_def s2_def)+
  note seen = take_items_seen [OF run [unfolded e]]
  have k: "dget (tracks s2) k = dget (tracks s) k" "k \<notin> set seen" using seen assms(4) by (simp_all add: s2)
  have wf: "wf_dict (tracks s2)"
    using take_items_ok [OF assms(5), of en rep now rid ?camera items "[]" Later] run
    by (simp add: s2 tracks_ok_def)
  show ?thesis
  proof (cases "dget (tracks s) k")
    case None
    then show ?thesis by (simp add: s' dget_fold_retract k)
  next
    case (Some t)
    have "k \<in> set (map fst (filter (\<lambda>(k, t). departed rid ?camera seen t k) (tracks s2)))
        \<longleftrightarrow> departed rid ?camera seen t k"
      unfolding mem_keys_filter [OF wf] k(1) Some by simp
    then show ?thesis
      using k(2) by (auto simp: s' dget_fold_retract k Some departed_def unboxed_def)
  qed
qed

definition left_frame :: server where
  "left_frame = fst (detections_message plain_env (\<lambda>_. []) catalog 2
     [(''type'', JStr ''detections''), (''robot_id'', JStr ''r1''), (''items'', JList [])]
     (fst (detections_message plain_env (\<lambda>_. []) catalog 1 (duck_batch (Fin (1/2))) pair_up)))"

lemma batch_retracts_absent_witness:
  "map_option t_bbox (dget (tracks left_frame) ''r1:rubber_duck'') = Some JNull"
proof -
  let ?s = "fst (detections_message plain_env (\<lambda>_. []) catalog 1 (duck_batch (Fin (1/2))) pair_up)"
  let ?msg = "[(''type'', JStr ''detections''), (''robot_id'', JStr ''r1''), (''items'', JList [])]"
  have run: "detections_message plain_env (\<lambda>_. []) catalog 2 ?msg ?s = (left_frame, None)"
    by (simp add: prod_eq_iff left_frame_def) (simp add: detections_message_def jget_def Let_def)
  have ok: "tracks_ok catalog ?s" using detections_ok [OF pair_up_tracks] by blast
  have "map_option (\<lambda>t. (t_robot t, t_camera t)) (dget (tracks ?s) ''r1:rubber_duck'') = Some (''r1'', JStr ''front'')"
    by code_simp
  then obtain t where t: "dget (tracks ?s) ''r1:rubber_duck'' = Some t" "t_robot t = ''r1''" "t_camera t = JStr ''front''"
    by auto
  show ?thesis
    using batch_retracts_absent [OF run _ _ _ ok, of "''r1''" "[]" "''r1:rubber_duck''"] t
    by (simp add: jget_def reported_def unboxed_def)
qed

lemma detection_note_inj: "detection_note t = detection_note t' \<longleftrightarrow> t = t'"
  by (cases t; cases t') (auto simp: detection_note_def track_json_def)

text \<open>An effect shows the dashboards no track below its floor.\<close>

definition discreet :: "floors \<Rightarrow> settings \<Rightarrow> effect \<Rightarrow> bool" where
  "discreet cat c e = (\<forall>t. e = detection_note t \<longrightarrow> \<not> detection_hidden cat c t)"

definition adds_discreet :: "floors \<Rightarrow> settings \<Rightarrow> server \<Rightarrow> server \<Rightarrow> bool" where
  "adds_discreet cat c s s' = (\<exists>rest. trace s' = trace s @ rest \<and> list_all (discreet cat c) rest)"

lemma adds_trans: "adds_discreet cat c s t \<Longrightarrow> adds_discreet cat c t u \<Longrightarrow> adds_discreet cat c s u"
  by (auto simp: adds_discreet_def)

lemma adds_same: "trace t = trace s \<Longrightarrow> adds_discreet cat c s t"
  by (simp add: adds_discreet_def)

lemma adds_note:
  assumes "\<not> detection_hidden cat c t" and "trace s1 = trace s"
  shows "adds_discreet cat c s (emit (detection_note t) s1)"
  using assms by (simp add: adds_discreet_def discreet_def detection_note_inj)

lemma take_items_discreet:
  "adds_discreet cat (cfg s) s (fst (take_items en rep cat now rid camera items seen u s))"
proof (induction items arbitrary: seen u s)
  case (Cons item items)
  show ?case
  proof (cases item)
    case (JObj kvs)
    let ?key = "track_key rep rid kvs"
    show ?thesis
    proof (cases "class_enabled (cfg s) (jget kvs ''class'' (JStr ''object''))")
      case True
      show ?thesis
      proof (cases "track_of en rep cat now rid camera kvs s")
        case (Inr t)
        let ?s = "s\<lparr>tracks := dput ?key t (tracks s)\<rparr>"
        obtain s1 e u1 where sight: "sight now rid t u ?s = (s1, e, u1)" "cfg s1 = cfg ?s" "trace s1 = trace ?s"
          by (rule sight_cases [of now rid t u ?s])
        define s2 where "s2 = (if t_hidden t then s1 else emit (detection_note t) s1)"
        have "adds_discreet cat (cfg s) s s2"
          using track_of_ok [OF Inr True] sight by (auto simp: s2_def intro: adds_note adds_same)
        moreover have "cfg s2 = cfg s" using sight by (simp add: s2_def)
        ultimately have "adds_discreet cat (cfg s) s (fst (take_items en rep cat now rid camera items (?key # seen) u1 s2))"
          using Cons.IH [of s2] by (auto intro: adds_trans)
        then show ?thesis
          using sight by (cases e) (simp_all add: JObj True Inr Let_def s2_def adds_same)
      qed (simp add: JObj True Let_def adds_same)
    qed (simp add: JObj Cons)
  qed (simp_all add: adds_same)
qed (simp add: adds_same)

lemma retract_discreet:
  assumes "tracks_ok cat s"
  shows "adds_discreet cat (cfg s) s (retract key s)"
proof (cases "dget (tracks s) key")
  case (Some t)
  have "(key, t) \<in> set (tracks s)" using Some by (rule map_of_SomeD)
  then have "t_hidden t = detection_hidden cat (cfg s) t" using assms by (auto simp: tracks_ok_def)
  then have "adds_discreet cat (cfg s) s (emit (detection_note (t\<lparr>t_bbox := JNull, t_polygon := JNull\<rparr>)) s')"
    if "\<not> t_hidden t" "trace s' = trace s" for s'
    using that by (intro adds_note) (simp_all add: detection_hidden_def)
  then show ?thesis by (simp add: retract_def Some Let_def adds_same)
qed (simp add: retract_def adds_same)

lemma fold_retract_discreet: "tracks_ok cat s \<Longrightarrow> adds_discreet cat (cfg s) s (fold retract ks s)"
proof (induction ks arbitrary: s)
  case (Cons k ks)
  have "adds_discreet cat (cfg s) (retract k s) (fold retract ks (retract k s))"
    using Cons.IH [of "retract k s"] retract_ok [OF Cons.prems, of k] by simp
  then show ?case using retract_discreet [OF Cons.prems] by (auto intro: adds_trans)
qed (simp add: adds_same)

lemma review_discreet: "adds_discreet cat c s (broadcast_review now b s)"
  by (simp add: broadcast_review_def adds_discreet_def discreet_def detection_note_def)

text \<open>An operator who raised a floor sees no trace of what is below it: no detection a batch
  sends to the dashboards, newly seen or retracted, is below its floor in the settings.\<close>

lemma hidden_never_shown:
  assumes "tracks_ok cat s"
  shows "adds_discreet cat (cfg s) s (fst (detections_message en rep cat now msg s))"
proof (cases "\<exists>rid items. dget msg ''robot_id'' = Some (JStr rid) \<and> py_list (jget msg ''items'' (JList [])) = Inr items")
  case True
  then obtain rid items where msg: "dget msg ''robot_id'' = Some (JStr rid)"
    "py_list (jget msg ''items'' (JList [])) = Inr items" by blast
  let ?camera = "jget msg ''camera'' (JStr ''front'')"
  obtain s1 e seen u where run: "take_items en rep cat now rid ?camera items [] Later s = (s1, e, seen, u)"
    by (rule prod_cases4)
  define s2 where "s2 = (if u = Later then s1 else broadcast_review now (u = Now) s1)"
  have s1: "adds_discreet cat (cfg s) s s1" "tracks_ok cat s1" "cfg s1 = cfg s"
    using take_items_discreet [of cat s en rep now rid ?camera items "[]" Later] run
      take_items_ok [OF assms, of en rep now rid ?camera items "[]" Later] by simp_all
  have "adds_discreet cat (cfg s) s1 s2" by (simp add: s2_def review_discreet adds_same)
  moreover have "tracks_ok cat s2" "cfg s2 = cfg s"
    using s1 by (simp_all add: s2_def tracks_ok_same [of "broadcast_review now (u = Now) s1" s1])
  ultimately have "adds_discreet cat (cfg s) s (fold retract ks s2)" for ks
    using s1(1) fold_retract_discreet [of cat s2 ks] by (auto intro: adds_trans)
  then show ?thesis
    using s1(1) msg run by (cases e) (auto simp: detections_message_def s2_def Let_def)
next
  case False
  then show ?thesis
    by (auto simp: detections_message_def adds_same Let_def split: option.split json.split sum.split)
qed

lemma hidden_never_shown_witness:
  "adds_discreet catalog (cfg pair_up) pair_up
     (fst (detections_message plain_env (\<lambda>_. []) catalog 1 (duck_batch (Fin (1/10))) pair_up))
   \<and> trace (fst (detections_message plain_env (\<lambda>_. []) catalog 1 (duck_batch (Fin (1/10))) pair_up)) = []"
proof
  show "adds_discreet catalog (cfg pair_up) pair_up
     (fst (detections_message plain_env (\<lambda>_. []) catalog 1 (duck_batch (Fin (1/10))) pair_up))"
    by (rule hidden_never_shown) (rule pair_up_tracks)
  show "trace (fst (detections_message plain_env (\<lambda>_. []) catalog 1 (duck_batch (Fin (1/10))) pair_up)) = []"
    by code_simp
qed

subsection \<open>What saving the settings does to robots and objects\<close>

lemma set_disabled_list: "set (disabled_list c) = disabled_robot_ids c"
  by (simp add: disabled_list_def disabled_robot_ids_code)

lemma adopt_fields:
  "reg (fst (adopt_settings cat c s)) = reg s"
  "trace (fst (adopt_settings cat c s)) = trace s @ [Stored ''settings'' (settings_json c),
     Stored ''detections'' (to_dict (reviews (fst (adopt_settings cat c s))))]"
  by (simp_all add: adopt_settings_def Let_def reapply_floors_def discard_disabled_def save_settings_def
      save_review_def emit_def)

lemma reached_same: "reg t = reg s \<Longrightarrow> reached up t = reached up s" "reg t = reg s \<Longrightarrow> called_off en t = called_off en s"
  by (simp_all add: reached_def fun_eq_iff called_off_def delivery_def)

lemma fold_emit_fields:
  "reg (fold (\<lambda>t. emit (f t)) ts s) = reg s"
  "trace (fold (\<lambda>t. emit (f t)) ts s) = trace s @ map f ts"
  by (induction ts arbitrary: s) simp_all

lemma broadcast_review_reg [simp]: "reg (broadcast_review now b s) = reg s"
  by (simp add: broadcast_review_def)

lemma broadcast_review_grows: "\<exists>rest. trace (broadcast_review now b s) = trace s @ rest"
  by (simp add: broadcast_review_def)

text \<open>Saving settings writes the settings and then the review file before anything else, then
  hands every switched-off robot that can be reached a goal cancellation and a zero drive, and
  leaves no switched-off robot with a goal or an active state.\<close>

lemma switched_off_robots_parked:
  assumes "validate cat rep payload = Inr c"
  shows "(\<exists>post. trace (fst (put_settings (quietly up en) rep cat now (Some payload) s)) = trace s
      @ [Stored ''settings'' (settings_json c),
         Stored ''detections'' (to_dict (reviews (fst (adopt_settings cat c s)))),
         Map_Call ''set_excluded'' (join '','' (disabled_list c))]
      @ concat (map (called_off en s) (filter (reached up s) (disabled_list c))) @ post)
    \<and> (\<forall>rid \<in> disabled_robot_ids c. \<forall>q.
      dget (robots (reg (fst (put_settings (quietly up en) rep cat now (Some payload) s)))) rid = Some q
      \<longrightarrow> r_goal q = JNull \<and> r_nav q \<noteq> JStr ''active'')"
proof -
  define s1 where "s1 = emit (Map_Call ''set_excluded'' (join '','' (disabled_list c))) (fst (adopt_settings cat c s))"
  define s2 where "s2 = fold (park (quietly up en)) (disabled_list c) s1"
  define s4 where "s4 = fold (\<lambda>t. emit (detection_note t)) (snd (adopt_settings cat c s))
    (emit (Broadcast (settings_message c)) (emit (Logged ''settings_update'' (JObj [(''settings'', settings_json c)])) s2))"
  have run: "fst (put_settings (quietly up en) rep cat now (Some payload) s) = broadcast_review now True s4"
    by (simp add: put_settings_def assms Let_def case_prod_unfold s1_def s2_def s4_def)
  have park: "park en' = stand_down parked en'" for en'
    by (simp add: park_def fun_eq_iff)
  have s1: "reg s1 = reg s" "trace s1 = trace s @ [Stored ''settings'' (settings_json c),
         Stored ''detections'' (to_dict (reviews (fst (adopt_settings cat c s)))),
         Map_Call ''set_excluded'' (join '','' (disabled_list c))]"
    by (simp_all add: s1_def adopt_fields)
  have "trace s2 = trace s1 @ concat (map (called_off en s) (filter (reached up s) (disabled_list c)))"
    by (simp add: s2_def park fold_stand_down reached_same [OF s1(1)])
  then have log: "\<exists>post. trace (fst (put_settings (quietly up en) rep cat now (Some payload) s)) = trace s
      @ [Stored ''settings'' (settings_json c),
         Stored ''detections'' (to_dict (reviews (fst (adopt_settings cat c s)))),
         Map_Call ''set_excluded'' (join '','' (disabled_list c))]
      @ concat (map (called_off en s) (filter (reached up s) (disabled_list c))) @ post"
    using broadcast_review_grows [of now True s4] by (auto simp: run s1 s4_def fold_emit_fields)
  have "r_goal q = JNull \<and> r_nav q \<noteq> JStr ''active''"
    if "rid \<in> disabled_robot_ids c" "dget (robots (reg s2)) rid = Some q" for rid q
    by (rule stood_down [where P = "\<lambda>q. r_goal q = JNull \<and> r_nav q \<noteq> JStr ''active''" and f = parked,
          OF _ _ that(2) [unfolded s2_def park]])
       (use that(1) in \<open>simp_all add: parked_def Let_def set_disabled_list\<close>)
  then show ?thesis
    using log by (simp add: run s4_def fold_emit_fields)
qed

definition switch_off :: "string \<Rightarrow> json" where
  "switch_off rid = JObj [(''robots'', JList [JObj [(''id'', JStr rid), (''enabled'', JBool False)]])]"

lemma switched_off_robots_parked_witness:
  "\<exists>post. trace (fst (put_settings (quietly (\<lambda>_. True) plain_env) (\<lambda>_. []) catalog 5 (Some (switch_off ''r1'')) pair_up))
     = [Stored ''settings'' (settings_json (case validate catalog (\<lambda>_. []) (switch_off ''r1'') of Inr c \<Rightarrow> c)),
        Stored ''detections'' (to_dict (reviews (fst (adopt_settings catalog
          (case validate catalog (\<lambda>_. []) (switch_off ''r1'') of Inr c \<Rightarrow> c) pair_up)))),
        Map_Call ''set_excluded'' ''r1'', Sent 1 (cancel_msg plain_env), Sent 1 (drive_msg plain_env (Fin 0) (Fin 0))] @ post"
proof -
  let ?c = "case validate catalog (\<lambda>_. []) (switch_off ''r1'') of Inr c \<Rightarrow> c"
  have ok: "validate catalog (\<lambda>_. []) (switch_off ''r1'') = Inr ?c" by code_simp
  have facts: "disabled_list ?c = [''r1'']" "reached (\<lambda>_. True) pair_up ''r1''"
    "called_off plain_env pair_up ''r1'' = [Sent 1 (cancel_msg plain_env), Sent 1 (drive_msg plain_env (Fin 0) (Fin 0))]"
    "trace pair_up = []"
    by code_simp+
  show ?thesis
    using switched_off_robots_parked [OF ok, of "\<lambda>_. True" plain_env 5 pair_up] by (simp add: facts)
qed

text \<open>Without the detector's catalog an empty selection of classes stands for all of them, and the
  cache keeps its tracks; but saving any settings then deletes every object the operator has
  confirmed and every ignore zone, from memory and from the file.\<close>

lemma save_without_catalog_forgets_objects:
  assumes "validate [] rep payload = Inr c" and "det_enabled c" and "det_classes c = []"
  shows "let s' = fst (adopt_settings [] c s) in
    keys (tracks s') = keys (tracks s) \<and> entities (reviews s') = [] \<and> proposals (reviews s') = []
    \<and> ignored (reviews s') = []"
  using assms(2,3)
  by (simp add: adopt_settings_def Let_def reapply_floors_def discard_disabled_def save_settings_def save_review_def
      emit_def drop_classes_def apply_review_radii_def class_enabled_def keys_def)

definition one_object :: server where
  "one_object = pair_up\<lparr>reviews := fst (accept ''prop_1'' (fst (observe 0 ''r1'' ''duck'' 1 1 (1/2) None JNull new_review)))\<rparr>"

lemma save_without_catalog_forgets_objects_witness:
  "length (entities (reviews one_object)) = 1
   \<and> entities (reviews (fst (adopt_settings [] (case validate [] (\<lambda>_. []) (JObj []) of Inr c \<Rightarrow> c) one_object))) = []"
proof -
  let ?c = "case validate [] (\<lambda>_. []) (JObj []) of Inr c \<Rightarrow> c"
  have "length (entities (reviews one_object)) = 1" and ok: "validate [] (\<lambda>_. []) (JObj []) = Inr ?c"
    and c: "det_enabled ?c" "det_classes ?c = []"
    by code_simp+
  with save_without_catalog_forgets_objects [OF ok c, of one_object] show ?thesis by (simp add: Let_def)
qed

end
