(* ===== verification/Adapter_Socket.thy ===== *)
theory Adapter_Socket
  imports Detections Map_Frames
begin

text \<open>
  The robots' side of \<^verbatim>\<open>server/swarmdeck_server/api/app.py\<close>: every message an adapter sends, the
  socket loop around the handler, the periodic check of the fleet and the reset of the
  simulation. A frame from a socket is text that may or may not be JSON. What the map service is
  told is recorded in the trace (\<open>Map_Note\<close>). The environment says what its frames are.
\<close>

subsection \<open>Messages from an adapter\<close>

definition supported :: "json \<Rightarrow> bool" where
  "supported v = (v \<in> {JInt 1, JInt 2, JBool True, JFloat (Fin 1), JFloat (Fin 2)})"

definition new_row :: "string \<Rightarrow> settings \<Rightarrow> settings" where
  "new_row rid c = c\<lparr>rows := rows c @ [\<lparr>row_id = rid, row_enabled = True, row_color = default_color rid (length (rows c))\<rparr>]\<rparr>"

text \<open>A robot without a row in the settings gets one; the settings are validated and saved again.\<close>

definition list_robot :: "(json \<Rightarrow> string) \<Rightarrow> floors \<Rightarrow> string \<Rightarrow> server update" where
  "list_robot rep cat rid s =
     (if rid \<in> set (map row_id (rows (cfg s))) then (s, None)
      else let s1 = s\<lparr>cfg := new_row rid (cfg s)\<rparr> in
        case validate cat rep (settings_json (cfg s1)) of Inl e \<Rightarrow> (s1, Some e)
        | Inr c \<Rightarrow> (emit (Broadcast (settings_message c)) (save_settings c s1), None))"

definition hello_ack :: "string \<Rightarrow> json" where
  "hello_ack rid = JObj [(''type'', JStr ''hello_ack''), (''robot_id'', JStr rid)]"

text \<open>Sending the acknowledgement over a socket that is gone raises \<open>WebSocketDisconnect\<close>, which ends
  the connection: the flag of the result.\<close>

definition hello_message :: "env \<Rightarrow> (json \<Rightarrow> string) \<Rightarrow> floors \<Rightarrow> real \<Rightarrow> nat \<Rightarrow> string \<Rightarrow> (string \<times> json) list
    \<Rightarrow> server \<Rightarrow> (server \<times> pyerr option) \<times> bool" where
  "hello_message en rep cat now k peer msg s =
     (case hello now msg k peer (reg s) of
        (g, Inl e) \<Rightarrow> ((s\<lparr>reg := g\<rparr>, Some e), False)
      | (g, Inr r) \<Rightarrow>
          (let s1 = s\<lparr>reg := g\<rparr>; rid = r_id r;
               s2 = (if r_frame r = Merged then emit (Map_Note ''set_transform'' rid (floats_json [(''x'', 0), (''y'', 0), (''yaw'', 0)])) s1
                     else s1) in
           case net en k (hello_ack rid) s2 of
             (False, s3) \<Rightarrow> ((s3, None), True)
           | (True, s3) \<Rightarrow> (seq_steps [
               (\<lambda>s. (push_camera_interest en [rid] s, None)),
               list_robot rep cat rid,
               broadcast_fleet en now,
               (\<lambda>s. (emit (Logged ''adapter_connect'' (JObj [(''robot_id'', JStr rid), (''adapter'', r_adapter r)])) s, None))] s3,
               False)))"

definition network_sample :: "(string \<times> json) list \<Rightarrow> pyerr + json option" where
  "network_sample msg = (case (jget msg ''network'' JNull, jget msg ''pose'' JNull) of
     (JObj nw, JObj pose) \<Rightarrow> catching {KeyError, TypeError, ValueError} None
       (ebind (float_at (JObj pose) ''x'') (\<lambda>x. ebind (float_at (JObj pose) ''y'') (\<lambda>y.
        ebind (float_at (JObj nw) ''quality_pct'') (\<lambda>q. Inr (Some (JList [JFloat x, JFloat y, JFloat q]))))))
   | _ \<Rightarrow> Inr None)"

definition state_message :: "real \<Rightarrow> (string \<times> json) list \<Rightarrow> server update" where
  "state_message now msg s =
     (case update_state now msg (reg s) of
        (g, Inl e) \<Rightarrow> (s\<lparr>reg := g\<rparr>, Some e)
      | (g, Inr None) \<Rightarrow> (s\<lparr>reg := g\<rparr>, None)
      | (g, Inr (Some r)) \<Rightarrow>
          (case network_sample msg of Inl e \<Rightarrow> (s\<lparr>reg := g\<rparr>, Some e)
           | Inr None \<Rightarrow> (s\<lparr>reg := g\<rparr>, None)
           | Inr (Some v) \<Rightarrow> (emit (Map_Note ''network_sample'' (r_id r) v) (s\<lparr>reg := g\<rparr>), None)))"

definition steps_of :: "(string \<times> json) list \<Rightarrow> json" where
  "steps_of msg = (let v = jget msg ''steps'' JNull in if truthy v then v else JObj [])"

text \<open>The event is waited for only while a reset runs.\<close>

definition reset_done_message :: "(string \<times> json) list \<Rightarrow> server update" where
  "reset_done_message msg s =
     (let v = jget msg ''robot_id'' (JStr []); rid = text_id v in
      if \<not> hashable v then (s, Some TypeError)
      else if v \<noteq> JStr rid \<or> rid \<notin> reset_pending s then (s, None)
      else let s1 = (if truthy (jget msg ''ok'' (JBool True)) then s
                     else s\<lparr>reset_failures := dput rid (steps_of msg) (reset_failures s)\<rparr>);
               left = reset_pending s1 - {rid}; s2 = s1\<lparr>reset_pending := left\<rparr> in
           (if left = {} \<and> resetting s2 then s2\<lparr>reset_event := True\<rparr> else s2, None))"

definition graph_view :: "(string \<times> json) list \<Rightarrow> pyerr + json" where
  "graph_view msg = ebind (py_int (jget msg ''keyframes'' (JInt 0))) (\<lambda>n.
     Inr (JObj [(''keyframes'', JInt n), (''in_common_frame'', JBool (truthy (jget msg ''in_common_frame'' (JBool False)))),
       (''residual'', jget msg ''residual'' JNull), (''inter_robot'', jget msg ''inter_robot'' (JList [])),
       (''t_mono'', jget msg ''t_mono'' JNull)]))"

definition pose_or_zero :: "(string \<times> json) list \<Rightarrow> pyerr + (string \<times> json) list" where
  "pose_or_zero kvs = emap (\<lambda>k. ebind (float_of (jget kvs k (JFloat (Fin 0)))) (\<lambda>x. Inr (k, JFloat x))) [''x'', ''y'', ''yaw'']"

definition frame_name :: "(json \<Rightarrow> string) \<Rightarrow> (string \<times> json) list \<Rightarrow> string" where
  "frame_name rep kvs = (let v = jget kvs ''frame'' JNull in if truthy v then py_str rep v else [])"

text \<open>What \<open>slam_graph\<close> tells the map service, step by step; ids that are not text are refused.\<close>

definition note_pose :: "string \<Rightarrow> (string \<times> json) list \<Rightarrow> server update" where
  "note_pose rid msg s = (case jget msg ''common_pose'' JNull of
     JObj kvs \<Rightarrow> assign (\<lambda>p. emit (Map_Note ''set_common_pose'' rid (JObj p))) (pose_or_zero kvs) s | _ \<Rightarrow> (s, None))"

definition note_origin :: "(json \<Rightarrow> string) \<Rightarrow> string \<Rightarrow> (string \<times> json) list \<Rightarrow> server update" where
  "note_origin rep rid msg s = (case jget msg ''origin'' JNull of
     JObj kvs \<Rightarrow> assign (\<lambda>p. emit (Map_Note ''set_cslam_origin'' rid (JObj (p @ [(''frame'', JStr (frame_name rep kvs))]))))
       (pose_or_zero kvs) s | _ \<Rightarrow> (s, None))"

definition slam_graph_message :: "(json \<Rightarrow> string) \<Rightarrow> (string \<times> json) list \<Rightarrow> server update" where
  "slam_graph_message rep msg s =
     (let v = jget msg ''robot_id'' JNull; rid = text_id v in
      if \<not> truthy v then (s, None)
      else case graph_view msg of Inl e \<Rightarrow> (s, Some e)
      | Inr graph \<Rightarrow>
          if v \<noteq> JStr rid then (s, Some TypeError)
          else seq_steps [(\<lambda>s. (emit (Map_Note ''set_slam_graph'' rid graph) s, None)), note_pose rid msg, note_origin rep rid msg,
            (\<lambda>s. (emit (Broadcast (JObj [(''type'', JStr ''slam_graph''), (''robot_id'', JStr rid), (''graph'', graph)])) s, None))] s)"

text \<open>The handler: what it leaves, the error it raises, whether it closed the socket.\<close>

definition handle_adapter_message :: "env \<Rightarrow> (json \<Rightarrow> string) \<Rightarrow> floors \<Rightarrow> real \<Rightarrow> nat \<Rightarrow> string \<Rightarrow> (string \<times> json) list
    \<Rightarrow> server \<Rightarrow> (server \<times> pyerr option) \<times> bool" where
  "handle_adapter_message en rep cat now k peer msg s =
     (let kind = jget msg ''type'' (JStr []) in
      if kind = JStr ''hello'' then
        (if \<not> supported (jget msg ''protocol'' JNull) then ((s, None), True)
         else hello_message en rep cat now k peer msg s)
      else if kind = JStr ''robot_state'' then (state_message now msg s, False)
      else if kind = JStr ''detections'' then (detections_message en rep cat now msg s, False)
      else if kind = JStr ''reset_done'' then (reset_done_message msg s, False)
      else if kind = JStr ''slam_graph'' then (slam_graph_message rep msg s, False)
      else ((s, None), False))"

subsection \<open>The socket\<close>

text \<open>
  A connection remembers the robot of its first accepted hello, and whether its loop still runs.
  A message the handler raises on is reported with \<open>msg.get\<close>; where the frame is JSON but
  not an object, the report raises too, outside the inner handler.
\<close>

record conn =
  c_sink :: nat
  c_peer :: string
  c_robot :: "string option"
  c_open :: bool

definition registry_id_of :: "(string \<times> json) list \<Rightarrow> server \<Rightarrow> string option" where
  "registry_id_of msg s = (case jget msg ''robot_id'' JNull of
     JStr rid \<Rightarrow> if dget (robots (reg s)) rid \<noteq> None then Some rid else None | _ \<Rightarrow> None)"

definition close_socket :: "conn \<Rightarrow> server \<Rightarrow> conn \<times> server" where
  "close_socket c s = (c\<lparr>c_open := False\<rparr>, case c_robot c of None \<Rightarrow> s
     | Some rid \<Rightarrow> if rid = [] then s
         else let s1 = emit (Logged ''adapter_disconnect'' (JObj [(''robot_id'', JStr rid)]))
                        (s\<lparr>reg := disconnect rid (Some (c_sink c)) (reg s)\<rparr>) in
              if has_sink (reg s1) rid then s1 else s1\<lparr>frames := ddel rid (frames s1)\<rparr>)"

definition adapter_frame :: "env \<Rightarrow> (json \<Rightarrow> string) \<Rightarrow> floors \<Rightarrow> real \<Rightarrow> json option \<Rightarrow> conn \<times> server \<Rightarrow> conn \<times> server" where
  "adapter_frame en rep cat now raw cs = (let (c, s) = cs in
     if \<not> c_open c then (c, s)
     else case raw of
       None \<Rightarrow> (c, s)
     | Some (JObj msg) \<Rightarrow>
         (case handle_adapter_message en rep cat now (c_sink c) (c_peer c) msg s of
            ((s1, Some e), _) \<Rightarrow> (c, s1)
          | ((s1, None), True) \<Rightarrow> close_socket c s1
          | ((s1, None), False) \<Rightarrow>
              (if c_robot c = None \<and> jget msg ''type'' JNull = JStr ''hello''
               then c\<lparr>c_robot := registry_id_of msg s1\<rparr> else c, s1))
     | Some v \<Rightarrow> close_socket c s)"

text \<open>On a working socket exactly two kinds of frames end the connection of a robot: a hello of
  a protocol the server does not speak, and a frame that is JSON but not an object. Everything
  else, however malformed and whatever it makes the handler raise, leaves it open.\<close>

lemma connection_ends_iff:
  assumes "c_open c" and "up (c_sink c)"
  shows "\<not> c_open (fst (adapter_frame (quietly up en) rep cat now raw (c, s))) \<longleftrightarrow>
    (\<exists>v. raw = Some v \<and> \<not> is_obj v)
    \<or> (\<exists>msg. raw = Some (JObj msg) \<and> jget msg ''type'' (JStr []) = JStr ''hello''
         \<and> \<not> supported (jget msg ''protocol'' JNull))"
proof (cases "\<exists>msg. raw = Some (JObj msg)")
  case True
  then obtain msg where raw: "raw = Some (JObj msg)" by blast
  let ?h = "handle_adapter_message (quietly up en) rep cat now (c_sink c) (c_peer c) msg s"
  have closes: "snd ?h \<longleftrightarrow> jget msg ''type'' (JStr []) = JStr ''hello'' \<and> \<not> supported (jget msg ''protocol'' JNull)"
    using assms(2)
    by (auto simp: handle_adapter_message_def hello_message_def Let_def quiet_net_def split: prod.splits sum.splits)
  have "snd ?h \<Longrightarrow> snd (fst ?h) = None"
    using assms(2)
    by (auto simp: handle_adapter_message_def hello_message_def Let_def quiet_net_def split: prod.splits sum.splits if_splits)
  then show ?thesis
    using assms(1) closes
    by (auto simp: adapter_frame_def raw close_socket_def split: prod.splits option.splits bool.splits)
next
  case False
  then show ?thesis
    using assms(1)
    by (auto simp: adapter_frame_def close_socket_def split: option.split json.split)
qed

lemma connection_ends_iff_witness:
  "\<not> c_open (fst (adapter_frame (quietly (\<lambda>_. True) plain_env) (\<lambda>_. []) catalog 0 (Some (JList []))
      (\<lparr>c_sink = 1, c_peer = [], c_robot = Some ''r1'', c_open = True\<rparr>, pair_up)))
   \<and> c_open (fst (adapter_frame (quietly (\<lambda>_. True) plain_env) (\<lambda>_. []) catalog 0 (Some (JObj []))
      (\<lparr>c_sink = 1, c_peer = [], c_robot = Some ''r1'', c_open = True\<rparr>, pair_up)))"
  using connection_ends_iff [of "\<lparr>c_sink = 1, c_peer = [], c_robot = Some ''r1'', c_open = True\<rparr>" "\<lambda>_. True" plain_env
      "\<lambda>_. []" catalog 0 "Some (JList [])" pair_up]
    connection_ends_iff [of "\<lparr>c_sink = 1, c_peer = [], c_robot = Some ''r1'', c_open = True\<rparr>" "\<lambda>_. True" plain_env
      "\<lambda>_. []" catalog 0 "Some (JObj [])" pair_up]
  by (simp add: jget_def)

subsection \<open>The periodic check\<close>

definition seconds :: "real \<Rightarrow> string" where
  "seconds t = dec_int (if t < 0 then - \<lfloor>- t\<rfloor> else \<lfloor>t\<rfloor>)"

definition unattended_id :: "string \<Rightarrow> string" where "unattended_id rid = ''unattended_'' @ rid"
definition disconnect_id :: "string \<Rightarrow> string" where "disconnect_id rid = ''disconnect_'' @ rid"
definition stream_id :: "string \<Rightarrow> string" where "stream_id rid = ''stream_'' @ rid"

definition check_attention :: "real \<Rightarrow> real \<Rightarrow> robot \<Rightarrow> server \<Rightarrow> server" where
  "check_attention now threshold r s =
     (if online now r \<and> threshold < unattended_s now r
      then raise_alert now (unattended_id (r_id r)) ''warn'' ''unattended''
             (r_id r @ '' unattended for '' @ seconds (unattended_s now r) @ '' s'') (JStr (r_id r)) s
      else if unattended_s now r \<le> threshold then clear_alert (unattended_id (r_id r)) s else s)"

definition check_link :: "real \<Rightarrow> robot \<Rightarrow> server \<Rightarrow> server" where
  "check_link now r s =
     (if online now r then clear_alert (disconnect_id (r_id r)) s
      else raise_alert now (disconnect_id (r_id r)) ''critical'' ''adapter_disconnect''
             (r_id r @ '' adapter disconnected'') (JStr (r_id r)) s)"

definition check_stream :: "real \<Rightarrow> robot \<Rightarrow> server \<Rightarrow> server" where
  "check_stream now r s = (case frozen_camera now s r of
     None \<Rightarrow> clear_alert (stream_id (r_id r)) s
   | Some n \<Rightarrow> raise_alert now (stream_id (r_id r)) ''warn'' ''stream_loss''
       (r_id r @ '' camera frozen for '' @ dec_int n @ '' s'') (JStr (r_id r)) s)"

definition check_robot :: "env \<Rightarrow> real \<Rightarrow> real \<Rightarrow> robot \<Rightarrow> server update" where
  "check_robot en now threshold r s = (case robot_state en now r of Inl e \<Rightarrow> (s, Some e)
     | Inr st \<Rightarrow> (check_stream now r (check_link now r (check_attention now threshold r (emit (Broadcast st) s))), None))"

definition state_tick :: "env \<Rightarrow> real \<Rightarrow> server update" where
  "state_tick en now s = seq_steps (map (check_robot en now (of_int (unattended_threshold (cfg s))) \<circ> snd) (robots (reg s))) s"

text \<open>The task that ticks five times a second; before each tick other handlers run. An error ends it.\<close>

fun state_loop :: "env \<Rightarrow> ((server \<Rightarrow> server) \<times> real) list \<Rightarrow> server update" where
  "state_loop en [] s = (s, None)"
| "state_loop en ((others, now) # rest) s = (case state_tick en now (others s) of
     (s', Some e) \<Rightarrow> (s', Some e) | (s', None) \<Rightarrow> state_loop en rest s')"

subsection \<open>Resetting the simulation\<close>

definition reset_targets :: "server \<Rightarrow> string list" where
  "reset_targets s = sort (filter (\<lambda>rid. can (reg s) rid ''reset'') (keys (robots (reg s))))"

definition reset_skipped :: "server \<Rightarrow> string list" where
  "reset_skipped s = sort (filter (\<lambda>rid. \<not> can (reg s) rid ''reset'') (keys (robots (reg s))))"

fun send_resets :: "env \<Rightarrow> string list \<Rightarrow> server \<Rightarrow> server" where
  "send_resets en [] s = s"
| "send_resets en (rid # rids) s = (case send_msg en rid (message en ''reset'' []) s of
     (s', True) \<Rightarrow> send_resets en rids (s'\<lparr>reset_pending := insert rid (reset_pending s')\<rparr>)
   | (s', False) \<Rightarrow> send_resets en rids s')"

definition sim_reset :: "(string \<times> json) list \<Rightarrow> effect" where
  "sim_reset kvs = Broadcast (JObj ((''type'', JStr ''sim_reset'') # kvs))"

definition strs :: "string list \<Rightarrow> json" where
  "strs xs = JList (map JStr xs)"

record plan_of_reset =
  p_targets :: "string list"
  p_skipped :: "string list"
  p_unreachable :: "string list"

definition reset_begin :: "env \<Rightarrow> server \<Rightarrow> (server \<times> plan_of_reset) option" where
  "reset_begin en s =
     (if resetting s then None
      else let targets = reset_targets s; skipped = reset_skipped s;
             names = [(''robots'', strs targets), (''skipped'', strs skipped)];
             s1 = emit (sim_reset ((''phase'', JStr ''start'') # names)) (emit (Logged ''reset_start'' (JObj names))
               (s\<lparr>resetting := True, reset_event := False\<rparr>));
             s2 = send_resets en targets (s1\<lparr>reset_pending := {}, reset_failures := [], reset_event := False\<rparr>) in
           Some (if reset_pending s2 = {} then s2\<lparr>reset_event := True\<rparr> else s2,
                 \<lparr>p_targets = targets, p_skipped = skipped,
                  p_unreachable = filter (\<lambda>rid. rid \<notin> reset_pending s2) targets\<rparr>))"

definition clear_everything :: "server \<Rightarrow> server" where
  "clear_everything s =
     (let calls = [Map_Call ''reset'' [], Map_Call ''post_reset'' [], Map_Call ''reset_costmaps'' [],
            Broadcast (JObj [(''type'', JStr ''costmap_clear''), (''robot_id'', JNull)]),
            Broadcast (JObj [(''type'', JStr ''network_clear''), (''robot_id'', JNull)])];
          s1 = fold emit calls s;
          s2 = save_review True (s1\<lparr>tracks := [], reviews := reset (reviews s1)\<rparr>);
          s3 = fold clear_alert (keys (alerts s2)) (s2\<lparr>frames := []\<rparr>) in
      s3\<lparr>suppressed := [], reg := (reg s3)\<lparr>robots := dmap (\<lambda>k. rested) (robots (reg s3))\<rparr>\<rparr>)"

definition reset_report :: "plan_of_reset \<Rightarrow> string list \<Rightarrow> (string, json) dict \<Rightarrow> string list \<Rightarrow> bool \<Rightarrow> (string \<times> json) list" where
  "reset_report p silent partial failed timed_out =
     [(''phase'', JStr ''done''), (''ok'', JBool (failed = [])),
      (''reset'', strs (filter (\<lambda>rid. rid \<notin> set failed) (p_targets p))), (''skipped'', strs (p_skipped p)),
      (''unreachable'', strs (p_unreachable p)), (''no_response'', strs silent), (''partial'', JObj partial),
      (''failed'', strs failed), (''timed_out'', JBool timed_out)]"

text \<open>After the wait: the event is set, or the time is over. Other handlers run while the map
  service resets (\<open>meanwhile\<close>). The report, and the alert if a robot is missing from it.\<close>

definition reset_finish :: "env \<Rightarrow> real \<Rightarrow> (server \<Rightarrow> server) \<Rightarrow> plan_of_reset \<Rightarrow> server
    \<Rightarrow> server \<times> (pyerr + (string \<times> json) list)" where
  "reset_finish en now meanwhile p s =
     (let timed_out = (\<not> reset_event s);
          silent = sort (filter (\<lambda>rid. rid \<in> reset_pending s) (p_targets p));
          s1 = clear_everything (meanwhile (s\<lparr>reset_pending := {}\<rparr>));
          partial = reset_failures s1;
          failed = sort (remdups (silent @ p_unreachable p @ keys partial));
          report = reset_report p silent partial failed timed_out;
          s2 = emit (sim_reset report) (emit (Logged ''reset_done'' (JObj report)) (s1\<lparr>reset_failures := []\<rparr>)) in
      case broadcast_fleet en now s2 of
        (s3, Some e) \<Rightarrow> (s3\<lparr>resetting := False\<rparr>, Inl e)
      | (s3, None) \<Rightarrow>
          ((if failed = [] then s3
            else raise_alert now ''reset_incomplete'' ''warn'' ''fault''
                   (''Reset not confirmed by '' @ join '', '' failed) JNull s3)\<lparr>resetting := False\<rparr>,
           Inr report))"

definition reset_fleet :: "env \<Rightarrow> real \<Rightarrow> (server \<Rightarrow> server) \<Rightarrow> (server \<Rightarrow> server) \<Rightarrow> server
    \<Rightarrow> server \<times> (pyerr + (string \<times> json) list)" where
  "reset_fleet en now waiting meanwhile s = (case reset_begin en s of
     None \<Rightarrow> (s, Inr [(''ok'', JBool False), (''error'', JStr ''a reset is already running'')])
   | Some (s1, p) \<Rightarrow> reset_finish en now meanwhile p (waiting s1))"

subsection \<open>What a reset promises\<close>

lemma fold_emit_list:
  "tracks (fold emit es s) = tracks s" "frames (fold emit es s) = frames s" "alerts (fold emit es s) = alerts s"
  "reg (fold emit es s) = reg s" "reviews (fold emit es s) = reviews s" "reset_failures (fold emit es s) = reset_failures s"
  by (induction es arbitrary: s) simp_all

lemma clear_alert_same [simp]:
  "tracks (clear_alert a s) = tracks s" "frames (clear_alert a s) = frames s" "reg (clear_alert a s) = reg s"
  "reviews (clear_alert a s) = reviews s" "reset_failures (clear_alert a s) = reset_failures s"
  by (simp_all add: clear_alert_def)

lemma clear_alert_alerts: "alerts (clear_alert a s) = ddel a (alerts s)"
proof -
  have "ddel a (alerts s) = alerts s" if "dget (alerts s) a = None"
    using that by (simp add: map_of_eq_None_iff delete_id)
  then show ?thesis by (simp add: clear_alert_def)
qed

lemma fold_clear_alerts:
  "set (alerts (fold clear_alert ks s)) = {p \<in> set (alerts s). fst p \<notin> set ks}"
  "tracks (fold clear_alert ks s) = tracks s" "frames (fold clear_alert ks s) = frames s"
  "reg (fold clear_alert ks s) = reg s" "reviews (fold clear_alert ks s) = reviews s"
  "reset_failures (fold clear_alert ks s) = reset_failures s"
  by (induction ks arbitrary: s) (auto simp: clear_alert_alerts set_ddel)

lemma save_review_same [simp]:
  "frames (save_review b s) = frames s" "alerts (save_review b s) = alerts s" "reg (save_review b s) = reg s"
  "reset_failures (save_review b s) = reset_failures s"
  by (simp_all add: save_review_def)

lemma cleared:
  "tracks (clear_everything s) = []" "frames (clear_everything s) = []" "alerts (clear_everything s) = []"
  "suppressed (clear_everything s) = []" "robots (reg (clear_everything s)) = dmap (\<lambda>k. rested) (robots (reg s))"
  "reviews (clear_everything s) = reset (reviews s)" "reset_failures (clear_everything s) = reset_failures s"
proof -
  have "set (alerts (clear_everything s)) = {}"
    by (auto simp: clear_everything_def Let_def fold_clear_alerts keys_def fold_emit_list)
  then show "alerts (clear_everything s) = []" by simp
qed (simp_all add: clear_everything_def Let_def fold_clear_alerts fold_emit_list)

lemma broadcast_fleet_same:
  assumes "broadcast_fleet en now s = (s', e)"
  shows "tracks s' = tracks s \<and> frames s' = frames s \<and> alerts s' = alerts s \<and> suppressed s' = suppressed s
    \<and> reg s' = reg s \<and> reviews s' = reviews s"
  using assms by (auto simp: broadcast_fleet_def split: sum.splits)

text \<open>What is left of the world before a reset.\<close>

definition fresh_world :: "server \<Rightarrow> bool" where
  "fresh_world s = (tracks s = [] \<and> frames s = [] \<and> suppressed s = []
     \<and> entities (reviews s) = [] \<and> proposals (reviews s) = [] \<and> ignored (reviews s) = []
     \<and> list_all (\<lambda>(k, r). rested r = r) (robots (reg s)))"

text \<open>However the robots answered and whatever other handlers did meanwhile, a reset that reports
  its result has forgotten the old world: no tracks, objects, camera frames or suppressed alerts,
  every robot idle without goal or path, and the only alert left is the one naming the robots
  that did not confirm, present exactly when there are any.\<close>

lemma reset_leaves_fresh_world:
  assumes "reset_finish en now meanwhile p s = (s', Inr res)"
  shows "fresh_world s' \<and> \<not> resetting s'
    \<and> keys (alerts s') = (if jget res ''ok'' JNull = JBool True then [] else [''reset_incomplete''])"
proof -
  let ?s1 = "clear_everything (meanwhile (s\<lparr>reset_pending := {}\<rparr>))"
  define failed where "failed = sort (remdups (sort (filter (\<lambda>rid. rid \<in> reset_pending s) (p_targets p))
     @ p_unreachable p @ keys (reset_failures ?s1)))"
  define rep where "rep = reset_report p (sort (filter (\<lambda>rid. rid \<in> reset_pending s) (p_targets p)))
     (reset_failures ?s1) failed (\<not> reset_event s)"
  define s2 where "s2 = emit (sim_reset rep) (emit (Logged ''reset_done'' (JObj rep)) (?s1\<lparr>reset_failures := []\<rparr>))"
  obtain s3 e where run: "broadcast_fleet en now s2 = (s3, e)" by (cases "broadcast_fleet en now s2")
  have step: "reset_finish en now meanwhile p s = (case (s3, e) of (s3, Some e) \<Rightarrow> (s3\<lparr>resetting := False\<rparr>, Inl e)
      | (s3, None) \<Rightarrow> ((if failed = [] then s3 else raise_alert now ''reset_incomplete'' ''warn'' ''fault''
                   (''Reset not confirmed by '' @ join '', '' failed) JNull s3)\<lparr>resetting := False\<rparr>, Inr rep))"
    unfolding run [symmetric] s2_def rep_def failed_def reset_finish_def Let_def ..
  have e: "e = None" and res: "res = rep"
    and s': "s' = (if failed = [] then s3 else raise_alert now ''reset_incomplete'' ''warn'' ''fault''
                   (''Reset not confirmed by '' @ join '', '' failed) JNull s3)\<lparr>resetting := False\<rparr>"
    using assms unfolding step by (cases e; simp)+
  have fleet: "broadcast_fleet en now s2 = (s3, None)" using run e by simp
  have ok: "jget res ''ok'' JNull = JBool (failed = [])"
    by (simp add: res rep_def reset_report_def jget_def)
  note same = broadcast_fleet_same [OF fleet]
  have s3: "tracks s3 = []" "frames s3 = []" "alerts s3 = []" "suppressed s3 = []"
    "reviews s3 = reset (reviews (meanwhile (s\<lparr>reset_pending := {}\<rparr>)))"
    "robots (reg s3) = dmap (\<lambda>k. rested) (robots (reg (meanwhile (s\<lparr>reset_pending := {}\<rparr>))))"
    using same by (simp_all add: s2_def cleared)
  have idem: "rested (rested r) = rested r" for r by (simp add: rested_def)
  show ?thesis
    by (auto simp: s' ok fresh_world_def s3 raise_alert_def open_alert_def Let_def keys_def reset_def dmap_def
        list_all_iff idem)
qed

lemma send_quiet_reset:
  "reset_pending (fst (send_msg (quietly up en) rid m s)) = reset_pending s"
  "reset_event (fst (send_msg (quietly up en) rid m s)) = reset_event s"
  "resetting (fst (send_msg (quietly up en) rid m s)) = resetting s"
  unfolding send_quiet by (auto simp: emit_def split: option.split)

lemma reached_pending [simp]: "reached up (s\<lparr>reset_pending := P\<rparr>) = reached up s"
  by (simp add: reached_def fun_eq_iff)

lemma send_resets_quiet:
  "reset_pending (send_resets (quietly up en) rids s) = reset_pending s \<union> {rid \<in> set rids. reached up s rid}
   \<and> reset_event (send_resets (quietly up en) rids s) = reset_event s
   \<and> resetting (send_resets (quietly up en) rids s) = resetting s"
proof (induction rids arbitrary: s)
  case (Cons rid rids)
  let ?m = "message (quietly up en) ''reset'' []"
  obtain t ok where send: "send_msg (quietly up en) rid ?m s = (t, ok)"
    by (cases "send_msg (quietly up en) rid ?m s")
  have t: "reset_pending t = reset_pending s" "reset_event t = reset_event s" "resetting t = resetting s"
    "ok = reached up s rid" "reached up t = reached up s"
    using send_quiet_reset [of up en rid ?m s] send_quiet_fst(3) [of up en rid ?m s] reached_send [of up en rid ?m s]
    by (simp_all add: send)
  show ?case by (cases ok) (auto simp: send t Cons.IH split: bool.splits)
qed simp

definition answered :: "(string \<times> json) list list \<Rightarrow> string set" where
  "answered msgs = {rid. JStr rid \<in> (\<lambda>m. jget m ''robot_id'' (JStr [])) ` set msgs}"

definition awaiting :: "server \<Rightarrow> bool" where
  "awaiting s = (resetting s \<and> (reset_event s \<longleftrightarrow> reset_pending s = {}))"

lemma reset_done_step:
  assumes "awaiting s"
  shows "awaiting (fst (reset_done_message m s))
    \<and> reset_pending (fst (reset_done_message m s)) = reset_pending s - answered [m]"
proof -
  have "answered [m] = (case jget m ''robot_id'' (JStr []) of JStr rid \<Rightarrow> {rid} | _ \<Rightarrow> {})"
    by (auto simp: answered_def split: json.splits)
  then show ?thesis
    using assms
    by (cases "jget m ''robot_id'' (JStr [])") (auto simp: reset_done_message_def Let_def text_id_def awaiting_def)
qed

lemma reset_done_run:
  "awaiting s \<Longrightarrow> awaiting (fold (\<lambda>m s. fst (reset_done_message m s)) msgs s)
    \<and> reset_pending (fold (\<lambda>m s. fst (reset_done_message m s)) msgs s) = reset_pending s - answered msgs"
proof (induction msgs arbitrary: s)
  case (Cons m msgs)
  have "answered (m # msgs) = answered [m] \<union> answered msgs" by (auto simp: answered_def)
  then show ?case using Cons.IH [of "fst (reset_done_message m s)"] reset_done_step [OF Cons.prems, of m] by auto
qed (simp add: answered_def)

text \<open>Where no answer arrives while the commands are still being sent, a reset waits for exactly
  the robots its command reached: whatever answers come, in whatever order and from whomever, the
  wait is over as soon as and only when every one of them has answered; the robots reported
  unreachable are those the command did not reach.\<close>

lemma reset_waits_for_all:
  assumes "reset_begin (quietly up en) s = Some (s1, p)"
  shows "let s2 = fold (\<lambda>m s. fst (reset_done_message m s)) msgs s1;
             missing = {rid \<in> set (p_targets p). reached up s rid} - answered msgs in
    reset_pending s2 = missing \<and> (reset_event s2 \<longleftrightarrow> missing = {})
    \<and> p_unreachable p = filter (\<lambda>rid. \<not> reached up s rid) (p_targets p)"
proof -
  define s0 where "s0 = (emit (sim_reset ((''phase'', JStr ''start'') # [(''robots'', strs (reset_targets s)), (''skipped'', strs (reset_skipped s))]))
    (emit (Logged ''reset_start'' (JObj [(''robots'', strs (reset_targets s)), (''skipped'', strs (reset_skipped s))]))
      (s\<lparr>resetting := True, reset_event := False\<rparr>)))\<lparr>reset_pending := {}, reset_failures := [], reset_event := False\<rparr>"
  define t where "t = send_resets (quietly up en) (reset_targets s) s0"
  have s0: "reached up s0 = reached up s" "reset_pending s0 = {}" "\<not> reset_event s0" "resetting s0"
    by (simp_all add: s0_def reached_def fun_eq_iff emit_def)
  have begin_eq: "s1 = (if reset_pending t = {} then t\<lparr>reset_event := True\<rparr> else t)"
    "p_targets p = reset_targets s" "p_unreachable p = filter (\<lambda>rid. rid \<notin> reset_pending t) (reset_targets s)"
    using assms by (auto simp: reset_begin_def Let_def s0_def [symmetric] t_def [symmetric] split: if_splits)
  have t: "reset_pending t = {rid \<in> set (reset_targets s). reached up s rid}" "\<not> reset_event t" "resetting t"
    using send_resets_quiet [of up en "reset_targets s" s0] by (simp_all add: t_def s0)
  have "awaiting s1" "reset_pending s1 = {rid \<in> set (p_targets p). reached up s rid}"
    using t by (auto simp: begin_eq awaiting_def)
  moreover have "p_unreachable p = filter (\<lambda>rid. \<not> reached up s rid) (p_targets p)"
    unfolding begin_eq by (rule filter_cong) (auto simp: t)
  ultimately show ?thesis
    using reset_done_run [of s1 msgs] by (simp add: Let_def awaiting_def)
qed

definition sim_hello :: "string \<Rightarrow> (string \<times> json) list" where
  "sim_hello rid = [(''type'', JStr ''hello''), (''robot_id'', JStr rid), (''protocol'', JInt 2),
     (''capabilities'', JList [JStr ''reset''])]"

definition sim_pair :: server where
  "sim_pair = pair_up\<lparr>reg := fold reg_step [Hello 0 (sim_hello ''r1'') 1 [], Hello 0 (sim_hello ''r2'') 2 []] no_robots\<rparr>"

definition done_msg :: "string \<Rightarrow> (string \<times> json) list" where
  "done_msg rid = [(''type'', JStr ''reset_done''), (''robot_id'', JStr rid), (''ok'', JBool True)]"

lemma reset_waits_for_all_witness:
  "\<exists>s1 p. reset_begin (quietly (\<lambda>_. True) plain_env) sim_pair = Some (s1, p)
     \<and> reset_pending (fst (reset_done_message (done_msg ''r1'') s1)) = {''r2''}"
proof -
  obtain s1 p where b: "reset_begin (quietly (\<lambda>_. True) plain_env) sim_pair = Some (s1, p)"
    by (auto simp: reset_begin_def sim_pair_def pair_up_def Let_def)
  have "p_targets p = reset_targets sim_pair"
    using b by (auto simp: reset_begin_def Let_def split: if_splits)
  moreover have "reset_targets sim_pair = [''r1'', ''r2'']" "reached (\<lambda>_. True) sim_pair ''r1''"
    "reached (\<lambda>_. True) sim_pair ''r2''"
    by code_simp+
  moreover have "answered [done_msg ''r1''] = {''r1''}"
    by (auto simp: answered_def done_msg_def jget_def)
  ultimately show ?thesis
    using b reset_waits_for_all [OF b, of "[done_msg ''r1'']"] by (auto simp: Let_def)
qed

definition old_world :: server where
  "old_world = sim_pair\<lparr>frames := [(''r1'', 1)], suppressed := [(''x'', 5)],
     alerts := [(''y'', \<lparr>al_level = [], al_kind = [], al_message = [], al_robot = JNull, al_time = 0, al_ack = False\<rparr>)]\<rparr>"

lemma reset_leaves_fresh_world_witness:
  "keys (alerts (fst (reset_finish (quietly (\<lambda>_. True) plain_env) 9 id
     \<lparr>p_targets = [''r1'', ''r2''], p_skipped = [], p_unreachable = [''r2'']\<rparr> old_world))) = [''reset_incomplete'']"
proof -
  let ?f = "reset_finish (quietly (\<lambda>_. True) plain_env) 9 id
     \<lparr>p_targets = [''r1'', ''r2''], p_skipped = [], p_unreachable = [''r2'']\<rparr> old_world"
  have "(case snd ?f of Inr rep \<Rightarrow> jget rep ''ok'' JNull = JBool False | _ \<Rightarrow> False)" by code_simp
  then obtain s' rep where f: "?f = (s', Inr rep)" and "jget rep ''ok'' JNull = JBool False"
    by (cases ?f) (auto split: sum.splits)
  with reset_leaves_fresh_world [OF f] show ?thesis by (simp add: f)
qed

subsection \<open>What goes wrong\<close>

text \<open>A transport over which the answer of one robot arrives while the command to the other is sent.\<close>

definition quick_answer :: env where
  "quick_answer = plain_env\<lparr>net := (\<lambda>k m s. (True, if k = 2 then fst (reset_done_message (done_msg ''r1'') s) else s))\<rparr>"

text \<open>A robot that confirms its reset while the command to the next one is still being sent ends
  the wait before it began: the old world is cleared at once, the robot that did confirm is
  reported unreachable, and the other one, which was given no time at all, as not responding.\<close>

lemma early_answer_ends_the_wait:
  "let (s, result) = reset_fleet quick_answer 9 id id sim_pair in
   (case result of Inl e \<Rightarrow> False | Inr rep \<Rightarrow>
      jget rep ''timed_out'' JNull = JBool False
      \<and> jget rep ''unreachable'' JNull = strs [''r1''] \<and> jget rep ''no_response'' JNull = strs [''r2'']
      \<and> jget rep ''reset'' JNull = strs [])"
  by code_simp

definition pose_report :: "string \<Rightarrow> (string \<times> json) list" where
  "pose_report rid = [(''type'', JStr ''robot_state''), (''robot_id'', JStr rid), (''pose'', JObj [])]"

lemma seq_steps_raises:
  assumes "f \<in> set fs" and "\<And>s. snd (f s) \<noteq> None"
  shows "snd (seq_steps fs s) \<noteq> None"
  using assms(1)
proof (induction fs arbitrary: s)
  case (Cons g gs)
  obtain t e where g: "g s = (t, e)" by (cases "g s")
  show ?case
    using Cons assms(2) [of s] g by (cases e) auto
qed simp

text \<open>One telemetry message with an empty pose, accepted without complaint, ends the task that keeps
  every dashboard informed: the next tick raises, and nothing the other handlers do later starts
  it again, for any robot.\<close>

lemma malformed_pose_ends_state_loop:
  assumes "dget (robots (reg s)) rid = Some r" and "r_frame r = Local"
  shows "snd (state_message t (pose_report rid) s) = None
    \<and> snd (state_loop (frames_env ts en) ((id, now) # later) (fst (state_message t (pose_report rid) s))) \<noteq> None"
proof -
  let ?r = "fst (state_fields t (pose_report rid) r)"
  have fields: "snd (state_fields t (pose_report rid) r) = None" "r_pose ?r = JObj []" "r_frame ?r = Local"
    using assms(2)
    by (simp_all add: state_fields_def pose_report_def set_field_def set_home_def set_explore_def set_paths_def
        set_network_def jget_def jhas_def nav_active_def is_obj.simps explore_states_def Let_def)
  define s1 where "s1 = s\<lparr>reg := (reg s)\<lparr>robots := dput rid ?r (robots (reg s))\<rparr>\<rparr>"
  obtain q where q: "state_fields t (pose_report rid) r = (q, None)"
    using fields(1) by (cases "state_fields t (pose_report rid) r") simp
  have jr: "jget (pose_report rid) ''robot_id'' (JStr []) = JStr rid" by (simp add: pose_report_def jget_def)
  have "update_state t (pose_report rid) (reg s) = ((reg s)\<lparr>robots := dput rid ?r (robots (reg s))\<rparr>, Inr (Some ?r))"
    using assms(1) jr by (simp add: update_state_def q)
  moreover have "network_sample (pose_report rid) = Inr None"
    by (simp add: network_sample_def pose_report_def jget_def)
  ultimately have msg: "state_message t (pose_report rid) s = (s1, None)"
    by (simp add: state_message_def s1_def)
  have "dget (robots (reg s1)) rid = Some ?r" by (simp add: s1_def)
  then have "(rid, ?r) \<in> set (robots (reg s1))" by (rule map_of_SomeD)
  moreover have "snd (check_robot (frames_env ts en) now th ?r s) \<noteq> None" for th s
    using fields by (simp add: check_robot_def robot_state_def frames_env_def robot_to_world_def float_at_def Let_def
        split: prod.splits)
  ultimately have "snd (state_tick (frames_env ts en) now s1) \<noteq> None"
    unfolding state_tick_def by (intro seq_steps_raises [where f = "check_robot (frames_env ts en) now th ?r" for th]) force+
  then show ?thesis by (auto simp: msg split: prod.splits option.splits)
qed

lemma malformed_pose_ends_state_loop_witness:
  "snd (state_loop (frames_env [] plain_env) [(id, 1), (id, 2)] (fst (state_message 0 (pose_report ''r1'') pair_up))) \<noteq> None"
proof -
  have "map_option r_frame (dget (robots (reg pair_up)) ''r1'') = Some Local" by code_simp
  then obtain r where r: "dget (robots (reg pair_up)) ''r1'' = Some r" "r_frame r = Local" by auto
  show ?thesis using malformed_pose_ends_state_loop [OF r, of 0 "[]" plain_env 1 "[(id, 2)]"] by blast
qed

subsection \<open>What the check tells the dashboards\<close>

lemma clear_alert_other: "a \<noteq> b \<Longrightarrow> dget (alerts (clear_alert b s)) a = dget (alerts s) a"
  by (simp add: clear_alert_alerts dict_simps)

lemma clear_alert_suppressed: "suppressed (clear_alert b s) = suppressed s"
  by simp

text \<open>The state of one alert: open, or to be kept quiet until some time.\<close>

definition alert_view :: "string \<Rightarrow> server \<Rightarrow> alert option \<times> real option" where
  "alert_view a s = (dget (alerts s) a, dget (suppressed s) a)"

lemma view_raise: "a \<noteq> b \<Longrightarrow> alert_view a (raise_alert now b level kind text rid s) = alert_view a s"
  by (simp add: alert_view_def raise_alert_other)

lemma view_clear: "a \<noteq> b \<Longrightarrow> alert_view a (clear_alert b s) = alert_view a s"
  by (simp add: alert_view_def clear_alert_other)

lemma view_emit: "alert_view a (emit e s) = alert_view a s"
  by (simp add: alert_view_def)

lemma alert_ids [simp]:
  "disconnect_id x \<noteq> unattended_id y" "disconnect_id x \<noteq> stream_id y"
  "disconnect_id x = disconnect_id y \<longleftrightarrow> x = y"
  by (simp_all add: unattended_id_def disconnect_id_def stream_id_def)

definition told :: "real \<Rightarrow> robot \<Rightarrow> server \<Rightarrow> bool" where
  "told now r s = (case alert_view (disconnect_id (r_id r)) s of
     (None, None) \<Rightarrow> online now r | (None, Some until) \<Rightarrow> online now r \<or> now < until | (Some a, _) \<Rightarrow> \<not> online now r)"

lemma told_view: "alert_view (disconnect_id (r_id r)) t = alert_view (disconnect_id (r_id r)) s \<Longrightarrow> told now r t = told now r s"
  by (simp add: told_def)

lemma check_robot_view:
  assumes "check_robot en now th r s = (s', None)"
  shows "told now r s'"
    and "x \<noteq> r_id r \<Longrightarrow> alert_view (disconnect_id x) s' = alert_view (disconnect_id x) s"
proof -
  obtain st where s': "s' = check_stream now r (check_link now r (check_attention now th r (emit (Broadcast st) s)))"
    using assms by (auto simp: check_robot_def split: sum.splits)
  have stream: "alert_view (disconnect_id x) (check_stream now r t) = alert_view (disconnect_id x) t" for x t
    by (simp add: check_stream_def view_raise view_clear split: option.split)
  have attention: "alert_view (disconnect_id x) (check_attention now th r t) = alert_view (disconnect_id x) t" for x t
    by (simp add: check_attention_def view_raise view_clear)
  have "told now r (check_link now r t)" for t
    by (auto simp: check_link_def told_def alert_view_def clear_alert_alerts raise_alert_def open_alert_def Let_def
        dict_simps split: option.splits)
  then show "told now r s'" by (simp add: s' told_view [OF stream])
  show "x \<noteq> r_id r \<Longrightarrow> alert_view (disconnect_id x) s' = alert_view (disconnect_id x) s"
    by (simp add: s' stream check_link_def view_raise view_clear attention view_emit)
qed

lemma seq_checks_told:
  assumes "distinct (map r_id rs)" and "seq_steps (map (check_robot en now th) rs) s = (s', None)"
  shows "(\<forall>r \<in> set rs. told now r s') \<and> (\<forall>x. x \<notin> r_id ` set rs \<longrightarrow> alert_view (disconnect_id x) s' = alert_view (disconnect_id x) s)"
  using assms
proof (induction rs arbitrary: s)
  case (Cons r rs)
  obtain t e where r: "check_robot en now th r s = (t, e)" by (cases "check_robot en now th r s")
  with Cons.prems have e: "e = None" and rest: "seq_steps (map (check_robot en now th) rs) t = (s', None)"
    by (cases e; simp)+
  note one = check_robot_view [OF r [unfolded e]]
  have IH: "\<forall>r \<in> set rs. told now r s'" "\<forall>x. x \<notin> r_id ` set rs \<longrightarrow> alert_view (disconnect_id x) s' = alert_view (disconnect_id x) t"
    using Cons.IH [OF _ rest] Cons.prems(1) by simp_all
  have "told now r s'" using one(1) IH(2) Cons.prems(1) told_view [of r s' t] by simp
  then show ?case using IH one(2) by simp
qed simp

text \<open>After a check that ran to its end, the dashboards are told the truth about every robot: one
  that has been silent too long has an open alert, unless an operator silenced that alert until a
  time not yet reached, and one that is heard from has none.\<close>

lemma check_flags_offline:
  assumes "state_tick en now s = (s', None)" and "distinct (map (r_id \<circ> snd) (robots (reg s)))"
    and "(k, r) \<in> set (robots (reg s))"
  shows "told now r s'"
proof -
  have "seq_steps (map (check_robot en now (of_int (unattended_threshold (cfg s)))) (map snd (robots (reg s)))) s = (s', None)"
    using assms(1) by (simp add: state_tick_def comp_def)
  from seq_checks_told [OF _ this] assms(2,3) show ?thesis by (force simp: comp_def)
qed

lemma check_flags_offline_witness:
  "\<exists>r. dget (robots (reg pair_up)) ''r1'' = Some r \<and> told 9 r (fst (state_tick plain_env 9 pair_up)) \<and> \<not> online 9 r"
proof -
  have "snd (state_tick plain_env 9 pair_up) = None" and d: "distinct (map (r_id \<circ> snd) (robots (reg pair_up)))"
    and up: "map_option (online 9) (dget (robots (reg pair_up)) ''r1'') = Some False"
    by code_simp+
  then have run: "state_tick plain_env 9 pair_up = (fst (state_tick plain_env 9 pair_up), None)"
    by (simp add: prod_eq_iff)
  obtain r where r: "dget (robots (reg pair_up)) ''r1'' = Some r" and "\<not> online 9 r"
    using up by blast
  with check_flags_offline [OF run d map_of_SomeD [OF r]] show ?thesis
    by blast
qed

end
