(* ===== verification/Map_Merge.thy ===== *)
theory Map_Merge
  imports Geometry "HOL-Library.Multiset"
begin

text \<open>
  The compositor of \<^verbatim>\<open>server/swarmdeck_server/mapsvc/service.py\<close>: how the grids of the robots become
  one grid. A grid is its metadata and a function of row and column; only the cells inside the
  extent count. A member is its metadata, its cells and its transform. The vote, the warp into the
  merged extent with its fast path, and the growth of that extent are here; which robots are
  members is decided in \<open>Map_Service\<close>. Votes are counted in natural numbers (the code's sixteen bits
  hold thirty thousand robots).
\<close>

subsection \<open>Grids\<close>

record grid_meta =
  resolution :: real
  width :: int
  height :: int
  origin_x :: real
  origin_y :: real

type_synonym cells = "int \<Rightarrow> int \<Rightarrow> int"
type_synonym member_grid = "grid_meta \<times> cells \<times> transform"

definition UNKNOWN :: int where "UNKNOWN = - 1"
definition FREE :: int where "FREE = 0"
definition OCCUPIED :: int where "OCCUPIED = 100"
definition OCCUPIED_MIN :: int where "OCCUPIED_MIN = 50"

lemmas cell_values = UNKNOWN_def FREE_def OCCUPIED_def OCCUPIED_MIN_def

definition blank :: cells where
  "blank = (\<lambda>_ _. UNKNOWN)"

definition inside :: "grid_meta \<Rightarrow> int \<Rightarrow> int \<Rightarrow> bool" where
  "inside m r c \<longleftrightarrow> 0 \<le> r \<and> r < height m \<and> 0 \<le> c \<and> c < width m"

definition meta_as_dict :: "grid_meta \<Rightarrow> int \<Rightarrow> json" where
  "meta_as_dict m seq = JObj
     [(''resolution'', JFloat (Fin (resolution m))), (''width'', JInt (width m)), (''height'', JInt (height m)),
      (''origin'', JObj [(''x'', JFloat (Fin (origin_x m))), (''y'', JFloat (Fin (origin_y m)))]), (''seq'', JInt seq)]"

subsection \<open>Warping one grid into the merged extent\<close>

text \<open>The centre of a cell in the coordinates of the grid's own frame.\<close>

definition centre_x :: "grid_meta \<Rightarrow> int \<Rightarrow> real" where
  "centre_x m c = origin_x m + (of_int c + 1 / 2) * resolution m"

definition centre_y :: "grid_meta \<Rightarrow> int \<Rightarrow> real" where
  "centre_y m r = origin_y m + (of_int r + 1 / 2) * resolution m"

definition warp_shifted :: "grid_meta \<Rightarrow> member_grid \<Rightarrow> cells" where
  "warp_shifted w g =
     (let (m, cells, tx, ty, _) = g; res = resolution w;
          shift_x = round_even ((origin_x w - tx - origin_x m) / res);
          shift_y = round_even ((origin_y w - ty - origin_y m) / res);
          c0 = max 0 (- shift_x); c1 = min (width w) (width m - shift_x);
          r0 = max 0 (- shift_y); r1 = min (height w) (height m - shift_y)
      in if c0 < c1 \<and> r0 < r1
         then (\<lambda>r c. if r0 \<le> r \<and> r < r1 \<and> c0 \<le> c \<and> c < c1 then cells (r + shift_y) (c + shift_x) else UNKNOWN)
         else blank)"

definition warp_sampled :: "grid_meta \<Rightarrow> member_grid \<Rightarrow> cells" where
  "warp_sampled w g =
     (let (m, cells, tx, ty, yaw) = g; cs = cos (- yaw); sn = sin (- yaw) in
      (\<lambda>r c. let dx = centre_x w c - tx; dy = centre_y w r - ty;
                 gx = \<lfloor>(dx * cs - dy * sn - origin_x m) / resolution m\<rfloor>;
                 gy = \<lfloor>(dx * sn + dy * cs - origin_y m) / resolution m\<rfloor>
             in if inside m gy gx then cells gy gx else UNKNOWN))"

definition warp :: "grid_meta \<Rightarrow> member_grid \<Rightarrow> cells" where
  "warp w g =
     (let (m, _, _, _, yaw) = g in
      if \<bar>yaw\<bar> < 1 / 10 ^ 5 \<and> \<bar>resolution w - resolution m\<bar> < 1 / 10 ^ 6
      then warp_shifted w g else warp_sampled w g)"

subsection \<open>Voting\<close>

definition occupied_votes :: "cells list \<Rightarrow> int \<Rightarrow> int \<Rightarrow> nat" where
  "occupied_votes gs r c = length (filter (\<lambda>g. g r c \<noteq> UNKNOWN \<and> OCCUPIED_MIN \<le> g r c) gs)"

definition free_votes :: "cells list \<Rightarrow> int \<Rightarrow> int \<Rightarrow> nat" where
  "free_votes gs r c = length (filter (\<lambda>g. g r c \<noteq> UNKNOWN \<and> g r c < OCCUPIED_MIN) gs)"

definition vote_majority :: "cells list \<Rightarrow> cells" where
  "vote_majority gs = (\<lambda>r c.
     if 0 < occupied_votes gs r c + free_votes gs r c
     then (if free_votes gs r c \<le> occupied_votes gs r c then OCCUPIED else FREE)
     else UNKNOWN)"

definition vote_occupied :: "cells list \<Rightarrow> cells" where
  "vote_occupied gs = (\<lambda>r c. fold (\<lambda>g v. if g r c \<noteq> UNKNOWN then max v (g r c) else v) gs UNKNOWN)"

definition resolve :: "string \<Rightarrow> cells list \<Rightarrow> cells" where
  "resolve conflict gs = (if conflict = ''occupied'' then vote_occupied gs else vote_majority gs)"

subsection \<open>Growing the merged extent\<close>

definition turned :: "transform \<Rightarrow> real \<times> real \<Rightarrow> real \<times> real" where
  "turned t p = (let (tx, ty, yaw) = t; (x, y) = p in
     (tx + x * cos yaw - y * sin yaw, ty + x * sin yaw + y * cos yaw))"

definition far_x :: "grid_meta \<Rightarrow> real" where
  "far_x m = origin_x m + of_int (width m) * resolution m"

definition far_y :: "grid_meta \<Rightarrow> real" where
  "far_y m = origin_y m + of_int (height m) * resolution m"

definition corners :: "member_grid \<Rightarrow> (real \<times> real) list" where
  "corners g = (let (m, _, t) = g in
     map (turned t) (List.product [origin_x m, far_x m] [origin_y m, far_y m]))"

definition CHUNK_M :: real where "CHUNK_M = 5"

definition ensure_extent :: "member_grid list \<Rightarrow> grid_meta \<times> cells \<Rightarrow> grid_meta \<times> cells" where
  "ensure_extent gs wm =
     (let (w, merged) = wm; res = resolution w; ps = concat (map corners gs);
          min_x = fold (\<lambda>p v. min v (fst p)) ps (origin_x w); max_x = fold (\<lambda>p v. max v (fst p)) ps (far_x w);
          min_y = fold (\<lambda>p v. min v (snd p)) ps (origin_y w); max_y = fold (\<lambda>p v. max v (snd p)) ps (far_y w)
      in if gs \<noteq> [] \<and> (min_x < origin_x w \<or> far_x w < max_x \<or> min_y < origin_y w \<or> far_y w < max_y)
         then (let x0 = of_int \<lfloor>(min_x - CHUNK_M) / res\<rfloor> * res; x1 = of_int \<lceil>(max_x + CHUNK_M) / res\<rceil> * res;
                   y0 = of_int \<lfloor>(min_y - CHUNK_M) / res\<rfloor> * res; y1 = of_int \<lceil>(max_y + CHUNK_M) / res\<rceil> * res
               in (\<lparr>resolution = res, width = round_even ((x1 - x0) / res), height = round_even ((y1 - y0) / res),
                    origin_x = x0, origin_y = y0\<rparr>, blank))
         else (w, merged))"

text \<open>What the compositor publishes for the members' grids.\<close>

definition compose :: "string \<Rightarrow> member_grid list \<Rightarrow> grid_meta \<times> cells \<Rightarrow> grid_meta \<times> cells" where
  "compose conflict gs wm =
     (if gs = [] then (fst wm, blank)
      else (let (w, _) = ensure_extent gs wm in (w, resolve conflict (map (warp w) gs))))"

text \<open>A grid that a pose-graph back end has already merged.\<close>

definition adopt_global :: "member_grid \<Rightarrow> grid_meta \<times> cells \<Rightarrow> grid_meta \<times> cells" where
  "adopt_global g wm = (let (w, _) = ensure_extent [g] wm in (w, warp w g))"

subsection \<open>The grown extent holds every member\<close>

lemma fold_min_bounds:
  "fold (\<lambda>p v. min v (f p :: real)) ps a \<le> a \<and> (\<forall>p \<in> set ps. fold (\<lambda>p v. min v (f p)) ps a \<le> f p)"
proof (induction ps arbitrary: a)
  case (Cons q ps)
  have "fold (\<lambda>p v. min v (f p)) ps (min a (f q)) \<le> min a (f q)"
    and "\<forall>p \<in> set ps. fold (\<lambda>p v. min v (f p)) ps (min a (f q)) \<le> f p"
    using Cons.IH by blast+
  then show ?case by simp
qed simp

lemma fold_max_bounds:
  "a \<le> fold (\<lambda>p v. max v (f p :: real)) ps a \<and> (\<forall>p \<in> set ps. f p \<le> fold (\<lambda>p v. max v (f p)) ps a)"
proof (induction ps arbitrary: a)
  case (Cons q ps)
  have "max a (f q) \<le> fold (\<lambda>p v. max v (f p)) ps (max a (f q))"
    and "\<forall>p \<in> set ps. f p \<le> fold (\<lambda>p v. max v (f p)) ps (max a (f q))"
    using Cons.IH by blast+
  then show ?case by simp
qed simp

lemma round_even_0 [simp]: "round_even 0 = 0"
  using round_even_of_int [of 0] by simp

text \<open>Rounding outwards to multiples of the resolution, and the number of cells between them.\<close>

lemma outward:
  assumes "0 < res"
  shows "of_int \<lfloor>(lo - CHUNK_M) / res\<rfloor> * res < lo" and "hi < of_int \<lceil>(hi + CHUNK_M) / res\<rceil> * res"
proof -
  have "of_int \<lfloor>(lo - CHUNK_M) / res\<rfloor> \<le> (lo - CHUNK_M) / res" by simp
  then have "of_int \<lfloor>(lo - CHUNK_M) / res\<rfloor> * res \<le> lo - CHUNK_M"
    using pos_le_divide_eq [OF assms] by blast
  then show "of_int \<lfloor>(lo - CHUNK_M) / res\<rfloor> * res < lo" by (simp add: CHUNK_M_def)
  have "(hi + CHUNK_M) / res \<le> of_int \<lceil>(hi + CHUNK_M) / res\<rceil>" by simp
  then have "hi + CHUNK_M \<le> of_int \<lceil>(hi + CHUNK_M) / res\<rceil> * res"
    using pos_divide_le_eq [OF assms] by blast
  then show "hi < of_int \<lceil>(hi + CHUNK_M) / res\<rceil> * res" by (simp add: CHUNK_M_def)
qed

lemma cells_between: "0 < res \<Longrightarrow> round_even ((of_int b * res - of_int a * res) / res) = b - a"
  using round_even_of_int [of "b - a"] by (simp add: diff_divide_distrib)

definition contains :: "grid_meta \<Rightarrow> grid_meta \<Rightarrow> bool" where
  "contains w' w \<longleftrightarrow> origin_x w' \<le> origin_x w \<and> far_x w \<le> far_x w' \<and> origin_y w' \<le> origin_y w \<and> far_y w \<le> far_y w'"

definition holds_point :: "grid_meta \<Rightarrow> real \<times> real \<Rightarrow> bool" where
  "holds_point w p \<longleftrightarrow> origin_x w \<le> fst p \<and> fst p \<le> far_x w \<and> origin_y w \<le> snd p \<and> snd p \<le> far_y w"

lemma ensure_extent_covers:
  assumes "0 < resolution w" and "ensure_extent gs (w, merged) = (w', merged')"
  shows "resolution w' = resolution w" and "contains w' w"
    and "p \<in> set (concat (map corners gs)) \<Longrightarrow> holds_point w' p"
proof -
  let ?ps = "concat (map corners gs)" and ?res = "resolution w"
  let ?lx = "fold (\<lambda>p v. min v (fst p)) ?ps (origin_x w)" and ?hx = "fold (\<lambda>p v. max v (fst p)) ?ps (far_x w)"
  let ?ly = "fold (\<lambda>p v. min v (snd p)) ?ps (origin_y w)" and ?hy = "fold (\<lambda>p v. max v (snd p)) ?ps (far_y w)"
  have bounds: "?lx \<le> origin_x w" "far_x w \<le> ?hx" "?ly \<le> origin_y w" "far_y w \<le> ?hy"
    by (simp_all only: fold_min_bounds fold_max_bounds)
  have points: "?lx \<le> fst p" "fst p \<le> ?hx" "?ly \<le> snd p" "snd p \<le> ?hy" if "p \<in> set ?ps" for p
    using that fold_min_bounds [of fst ?ps] fold_max_bounds [of _ fst ?ps]
      fold_min_bounds [of snd ?ps] fold_max_bounds [of _ snd ?ps] by blast+
  have "resolution w' = ?res \<and> origin_x w' \<le> ?lx \<and> ?hx \<le> far_x w' \<and> origin_y w' \<le> ?ly \<and> ?hy \<le> far_y w'"
  proof (cases "gs \<noteq> [] \<and> (?lx < origin_x w \<or> far_x w < ?hx \<or> ?ly < origin_y w \<or> far_y w < ?hy)")
    case True
    then have w': "w' = \<lparr>resolution = ?res,
        width = \<lceil>(?hx + CHUNK_M) / ?res\<rceil> - \<lfloor>(?lx - CHUNK_M) / ?res\<rfloor>,
        height = \<lceil>(?hy + CHUNK_M) / ?res\<rceil> - \<lfloor>(?ly - CHUNK_M) / ?res\<rfloor>,
        origin_x = of_int \<lfloor>(?lx - CHUNK_M) / ?res\<rfloor> * ?res, origin_y = of_int \<lfloor>(?ly - CHUNK_M) / ?res\<rfloor> * ?res\<rparr>"
      using assms by (simp add: ensure_extent_def Let_def cells_between)
    have far: "far_x w' = of_int \<lceil>(?hx + CHUNK_M) / ?res\<rceil> * ?res" "far_y w' = of_int \<lceil>(?hy + CHUNK_M) / ?res\<rceil> * ?res"
      by (simp_all add: w' far_x_def far_y_def left_diff_distrib)
    show ?thesis unfolding far
      using outward [OF assms(1)] by (simp add: w' less_imp_le)
  next
    case False
    then have w': "w' = w"
      using assms(2) by (auto simp: ensure_extent_def Let_def split: if_splits)
    show ?thesis
    proof (cases "gs = []")
      case True
      then show ?thesis by (simp add: w')
    next
      case nonempty: False
      then show ?thesis using False bounds by (simp add: w' not_less)
    qed
  qed
  then show "resolution w' = resolution w" and "contains w' w"
    and "p \<in> set ?ps \<Longrightarrow> holds_point w' p"
    using bounds points [of p] unfolding contains_def holds_point_def by (simp, linarith, linarith)
qed

text \<open>A point strictly inside a rectangle lies strictly inside the hull of its moved corners.\<close>

lemma edge_below:
  fixes u :: real
  assumes "v0 < u" "u < v1"
  obtains v where "v \<in> {v0, v1}" and "v * t \<le> u * t" and "t \<noteq> 0 \<Longrightarrow> v * t < u * t"
proof (cases t "0 :: real" rule: linorder_cases)
  case less
  then show ?thesis using assms by (intro that [of v1]) simp_all
next
  case equal
  then show ?thesis by (intro that [of v0]) simp_all
next
  case greater
  then show ?thesis using assms by (intro that [of v0]) simp_all
qed

lemma affine_above:
  fixes a b x y :: real
  assumes "x0 < x" "x < x1" "y0 < y" "y < y1" and "a \<noteq> 0 \<or> b \<noteq> 0"
    and corners: "\<And>x' y'. x' \<in> {x0, x1} \<Longrightarrow> y' \<in> {y0, y1} \<Longrightarrow> lo \<le> k + x' * a + y' * b"
  shows "lo < k + x * a + y * b"
proof -
  obtain x' where x': "x' \<in> {x0, x1}" "x' * a \<le> x * a" "a \<noteq> 0 \<Longrightarrow> x' * a < x * a"
    using edge_below [OF assms(1,2)] by blast
  obtain y' where y': "y' \<in> {y0, y1}" "y' * b \<le> y * b" "b \<noteq> 0 \<Longrightarrow> y' * b < y * b"
    using edge_below [OF assms(3,4)] by blast
  have "lo \<le> k + x' * a + y' * b" by (rule corners [OF x'(1) y'(1)])
  show ?thesis using assms(5)
  proof
    assume "a \<noteq> 0"
    with x'(3) y'(2) \<open>lo \<le> k + x' * a + y' * b\<close> show ?thesis by linarith
  next
    assume "b \<noteq> 0"
    with y'(3) x'(2) \<open>lo \<le> k + x' * a + y' * b\<close> show ?thesis by linarith
  qed
qed

lemma affine_below:
  fixes a b x y :: real
  assumes "x0 < x" "x < x1" "y0 < y" "y < y1" and "a \<noteq> 0 \<or> b \<noteq> 0"
    and "\<And>x' y'. x' \<in> {x0, x1} \<Longrightarrow> y' \<in> {y0, y1} \<Longrightarrow> k + x' * a + y' * b \<le> hi"
  shows "k + x * a + y * b < hi"
  using affine_above [OF assms(1-4), of "- a" "- b" "- hi" "- k"] assms(5,6) by fastforce

text \<open>Where a point of the merged frame lies in the merged grid.\<close>

definition cell_at :: "grid_meta \<Rightarrow> real \<times> real \<Rightarrow> int \<times> int" where
  "cell_at w p = (\<lfloor>(snd p - origin_y w) / resolution w\<rfloor>, \<lfloor>(fst p - origin_x w) / resolution w\<rfloor>)"

lemma cell_at_inside:
  assumes "0 < resolution w" and "origin_x w < X" "X < far_x w" "origin_y w < Y" "Y < far_y w"
  shows "case_prod (inside w) (cell_at w (X, Y))"
proof -
  have "(X - origin_x w) / resolution w < of_int (width w)" "(Y - origin_y w) / resolution w < of_int (height w)"
    using assms by (simp_all add: pos_divide_less_eq far_x_def far_y_def)
  then show ?thesis
    using assms by (simp add: inside_def cell_at_def floor_less_iff)
qed

lemma centre_between:
  assumes "0 < resolution m" and "inside m r c"
  shows "origin_x m < centre_x m c" "centre_x m c < far_x m" "origin_y m < centre_y m r" "centre_y m r < far_y m"
proof -
  have "0 \<le> real_of_int c" "real_of_int c + 1 \<le> of_int (width m)" "0 \<le> real_of_int r" "real_of_int r + 1 \<le> of_int (height m)"
    using assms(2) unfolding inside_def by linarith+
  then have "0 < (real_of_int c + 1 / 2) * resolution m" "0 < (real_of_int r + 1 / 2) * resolution m"
    "(real_of_int c + 1 / 2) * resolution m < of_int (width m) * resolution m"
    "(real_of_int r + 1 / 2) * resolution m < of_int (height m) * resolution m"
    using assms(1) by simp_all
  then show "origin_x m < centre_x m c" "centre_x m c < far_x m" "origin_y m < centre_y m r" "centre_y m r < far_y m"
    by (simp_all add: centre_x_def centre_y_def far_x_def far_y_def)
qed

text \<open>C20: The extent always grows far enough: whatever the transforms of the members, the centre of
  every cell of every member's grid lies in some cell of the map that is published for them.\<close>

theorem no_member_cell_falls_outside:
  assumes "compose conflict gs (w, merged) = (w', out)" and "0 < resolution w"
    and "(m, cells, t) \<in> set gs" and "0 < resolution m" and "inside m r c"
  shows "case_prod (inside w') (cell_at w' (turned t (centre_x m c, centre_y m r)))"
proof -
  obtain tx ty yaw where t: "t = (tx, ty, yaw)" by (cases t)
  have ext: "ensure_extent gs (w, merged) = (w', snd (ensure_extent gs (w, merged)))"
    using assms(1,3) by (auto simp: compose_def split: prod.splits if_splits)
  have held: "holds_point w' (turned t (x, y))" if "x \<in> {origin_x m, far_x m}" "y \<in> {origin_y m, far_y m}" for x y
  proof (rule ensure_extent_covers(3) [OF assms(2) ext])
    have "turned t (x, y) \<in> set (corners (m, cells, t))"
      unfolding corners_def using that by (simp del: insert_iff) blast
    then show "turned t (x, y) \<in> set (concat (map corners gs))" using assms(3) by force
  qed
  note mid = centre_between [OF assms(4,5)]
  have turn: "cos yaw \<noteq> 0 \<or> - sin yaw \<noteq> 0" "sin yaw \<noteq> 0 \<or> cos yaw \<noteq> 0"
    using sin_zero_norm_cos_one [of yaw] by auto
  let ?x = "centre_x m c" and ?y = "centre_y m r"
  have bounds: "origin_x w' \<le> tx + x * cos yaw + y * - sin yaw" "tx + x * cos yaw + y * - sin yaw \<le> far_x w'"
    "origin_y w' \<le> ty + x * sin yaw + y * cos yaw" "ty + x * sin yaw + y * cos yaw \<le> far_y w'"
    if "x \<in> {origin_x m, far_x m}" "y \<in> {origin_y m, far_y m}" for x y
    using held [OF that] by (simp_all add: holds_point_def turned_def t)
  have "origin_x w' < tx + ?x * cos yaw + ?y * - sin yaw" "tx + ?x * cos yaw + ?y * - sin yaw < far_x w'"
    "origin_y w' < ty + ?x * sin yaw + ?y * cos yaw" "ty + ?x * sin yaw + ?y * cos yaw < far_y w'"
    by (rule affine_above affine_below, rule mid, rule mid, rule mid, rule mid, rule turn, erule (1) bounds)+
  moreover have "0 < resolution w'" using ensure_extent_covers(1) [OF assms(2) ext] assms(2) by simp
  ultimately show ?thesis
    using cell_at_inside [of w' "fst (turned t (?x, ?y))" "snd (turned t (?x, ?y))"]
    by (simp add: turned_def t)
qed

definition small_map :: grid_meta where
  "small_map = \<lparr>resolution = 1 / 2, width = 8, height = 8, origin_x = - 2, origin_y = - 2\<rparr>"

definition wall_scan :: cells where
  "wall_scan = (\<lambda>r c. if c = 3 then OCCUPIED else if c < 3 then FREE else UNKNOWN)"

theorem no_member_cell_falls_outside_witness:
  "case_prod (inside (fst (compose ''majority'' [(small_map, wall_scan, 20, 0, pi / 2)] (small_map, blank))))
     (cell_at (fst (compose ''majority'' [(small_map, wall_scan, 20, 0, pi / 2)] (small_map, blank)))
       (turned (20, 0, pi / 2) (centre_x small_map 7, centre_y small_map 0)))"
  by (rule no_member_cell_falls_outside [OF prod.collapse [symmetric], where gs = "[(small_map, wall_scan, 20, 0, pi / 2)]"])
    (simp_all add: small_map_def inside_def)

subsection \<open>The vote\<close>

lemma fold_best_ge:
  "v \<le> fold (\<lambda>g v. if P g then max v (f g :: int) else v) gs v
   \<and> (\<forall>g \<in> set gs. P g \<longrightarrow> f g \<le> fold (\<lambda>g v. if P g then max v (f g) else v) gs v)"
proof (induction gs arbitrary: v)
  case (Cons h gs)
  let ?v = "if P h then max v (f h) else v"
  have "v \<le> ?v" "P h \<Longrightarrow> f h \<le> ?v" by simp_all
  then show ?case using Cons.IH [of ?v] by (auto simp del: if_split intro: order_trans)
qed simp

lemma vote_occupied_ge: "g \<in> set gs \<Longrightarrow> g r c \<noteq> UNKNOWN \<Longrightarrow> g r c \<le> vote_occupied gs r c"
  unfolding vote_occupied_def
  using fold_best_ge [of UNKNOWN "\<lambda>g. g r c \<noteq> UNKNOWN" "\<lambda>g. g r c" gs] by blast

text \<open>C19: When the published map shows a cell as passable although some member has seen an obstacle
  there, then the majority rule is on and strictly more members have seen the cell empty.\<close>

theorem shown_free_is_outvoted:
  assumes "compose conflict gs wm = (w', out)" and "g \<in> set gs"
    and "OCCUPIED_MIN \<le> warp w' g r c" and "out r c < OCCUPIED_MIN"
  shows "conflict \<noteq> ''occupied'' \<and> occupied_votes (map (warp w') gs) r c < free_votes (map (warp w') gs) r c"
proof -
  let ?gs = "map (warp w') gs"
  have out: "out = resolve conflict ?gs"
    using assms(1,2) by (auto simp: compose_def split: prod.splits if_splits)
  have known: "warp w' g \<in> set ?gs" "warp w' g r c \<noteq> UNKNOWN"
    using assms(2,3) by (simp_all add: cell_values)
  show ?thesis
  proof (cases "conflict = ''occupied''")
    case True
    then have "warp w' g r c \<le> out r c"
      using vote_occupied_ge [OF known] by (simp add: out resolve_def)
    then show ?thesis using assms(3,4) by simp
  next
    case False
    have "warp w' g \<in> set (filter (\<lambda>h. h r c \<noteq> UNKNOWN \<and> OCCUPIED_MIN \<le> h r c) ?gs)"
      using known assms(3) by simp
    then have "0 < occupied_votes ?gs r c"
      unfolding occupied_votes_def by (rule length_pos_if_in_set)
    then show ?thesis
      using False assms(4) by (simp add: out resolve_def vote_majority_def cell_values split: if_splits)
  qed
qed

text \<open>Two robots have driven through what a third one recorded as a wall.\<close>

definition empty_scan :: cells where
  "empty_scan = (\<lambda>r c. FREE)"

theorem shown_free_is_outvoted_witness:
  "let gs = [(small_map, wall_scan, 0, 0, 0), (small_map, empty_scan, 0, 0, 0), (small_map, empty_scan, 0, 0, 0)];
       (w', out) = compose ''majority'' gs (small_map, blank) in
   out 2 3 = FREE \<and> warp w' (hd gs) 2 3 = OCCUPIED
   \<and> occupied_votes (map (warp w') gs) 2 3 < free_votes (map (warp w') gs) 2 3"
proof -
  let ?gs = "[(small_map, wall_scan, 0, 0, 0), (small_map, empty_scan, 0, 0, 0), (small_map, empty_scan, 0, 0, 0)]"
  have same: "compose ''majority'' ?gs (small_map, blank) = (small_map, vote_majority (map (warp small_map) ?gs))"
    by (simp add: compose_def ensure_extent_def resolve_def corners_def turned_def far_x_def far_y_def small_map_def)
  have seen: "warp small_map (small_map, f, 0, 0, 0) 2 3 = f 2 3" for f
    by (simp add: warp_def warp_shifted_def small_map_def Let_def)
  have out: "vote_majority (map (warp small_map) ?gs) 2 3 = FREE" "warp small_map (hd ?gs) 2 3 = OCCUPIED"
    by (simp_all add: vote_majority_def occupied_votes_def free_votes_def seen wall_scan_def empty_scan_def cell_values)
  with shown_free_is_outvoted [OF same, of "hd ?gs" 2 3]
  show ?thesis by (simp add: same cell_values)
qed

lemma mset_corners: "mset gs = mset gs' \<Longrightarrow> mset (concat (map corners gs)) = mset (concat (map corners gs'))"
proof -
  have "mset (concat (map corners xs)) = \<Sum>\<^sub># (image_mset (mset \<circ> corners) (mset xs))" for xs
    by (induction xs) simp_all
  then show "mset gs = mset gs' \<Longrightarrow> ?thesis" by simp
qed

lemma fold_bounds_order:
  fixes f :: "'p \<Rightarrow> real"
  assumes "mset ps = mset ps'"
  shows "fold (\<lambda>p v. min v (f p)) ps a = fold (\<lambda>p v. min v (f p)) ps' a"
    and "fold (\<lambda>p v. max v (f p)) ps a = fold (\<lambda>p v. max v (f p)) ps' a"
  using fold_multiset_equiv [OF _ assms, of "\<lambda>p v. min v (f p)"] fold_multiset_equiv [OF _ assms, of "\<lambda>p v. max v (f p)"]
  by (simp_all add: fun_eq_iff min.assoc min.commute [of "f _" "f _"] max.assoc max.commute [of "f _" "f _"])

lemma votes_order:
  assumes "mset gs = mset gs'"
  shows "vote_majority gs = vote_majority gs'" and "vote_occupied gs = vote_occupied gs'"
proof -
  have count: "length (filter P gs) = length (filter P gs')" for P
    using assms by (metis mset_filter size_mset)
  have "occupied_votes gs = occupied_votes gs'"
    by (intro ext) (unfold occupied_votes_def, rule count)
  moreover have "free_votes gs = free_votes gs'"
    by (intro ext) (unfold free_votes_def, rule count)
  ultimately show "vote_majority gs = vote_majority gs'" by (simp add: vote_majority_def cong: if_cong)
  have "fold (\<lambda>g v. if g r c \<noteq> UNKNOWN then max v (g r c) else v) gs = fold (\<lambda>g v. if g r c \<noteq> UNKNOWN then max v (g r c) else v) gs'" for r c
    by (rule fold_multiset_equiv [OF _ assms]) (auto simp: fun_eq_iff)
  then show "vote_occupied gs = vote_occupied gs'" by (simp add: vote_occupied_def)
qed

text \<open>The order in which the robots were heard from does not matter: the same members give the
  same extent and the same cells.\<close>

lemma merge_order_irrelevant:
  assumes "mset gs = mset gs'"
  shows "compose conflict gs wm = compose conflict gs' wm"
proof -
  have "gs = [] \<longleftrightarrow> gs' = []" using assms by auto
  then have "ensure_extent gs wm = ensure_extent gs' wm"
    unfolding ensure_extent_def Let_def fold_bounds_order [OF mset_corners [OF assms]] by simp
  moreover have "resolve conflict (map (warp w) gs) = resolve conflict (map (warp w) gs')" for w
    using votes_order [of "map (warp w) gs" "map (warp w) gs'"] assms by (simp add: resolve_def)
  ultimately show ?thesis using \<open>gs = [] \<longleftrightarrow> gs' = []\<close> by (simp add: compose_def split: prod.split)
qed

lemma merge_order_irrelevant_witness:
  "compose ''majority'' [(small_map, wall_scan, 20, 0, pi / 2), (small_map, empty_scan, 0, 0, 0)] (small_map, blank)
   = compose ''majority'' [(small_map, empty_scan, 0, 0, 0), (small_map, wall_scan, 20, 0, pi / 2)] (small_map, blank)"
  by (rule merge_order_irrelevant) simp

subsection \<open>The two ways to warp\<close>

lemma round_half:
  assumes "\<And>k. s \<noteq> of_int k + 1 / 2"
  shows "round_even s = \<lfloor>s + 1 / 2\<rfloor>"
proof -
  have "\<bar>of_int (round_even s) - s\<bar> \<le> 1 / 2" by (rule round_even_close)
  moreover have "of_int (round_even s) \<noteq> s + 1 / 2" "of_int (round_even s) \<noteq> s - 1 / 2"
    using assms [of "round_even s - 1"] assms [of "round_even s"] by auto
  ultimately show ?thesis by (simp add: eq_commute [of "round_even s"] floor_eq_iff) argo
qed

lemma sampled_index:
  fixes res :: real
  assumes "0 < res" and "\<And>k. (o_w - t - o_m) / res \<noteq> of_int k + 1 / 2"
  shows "\<lfloor>(o_w + (of_int c + 1 / 2) * res - t - o_m) / res\<rfloor> = c + round_even ((o_w - t - o_m) / res)"
proof -
  have "(o_w + (of_int c + 1 / 2) * res - t - o_m) / res = of_int c + ((o_w - t - o_m) / res + 1 / 2)"
    using assms(1) by (simp add: divide_simps) argo
  then show ?thesis by (simp only: int_add_floor [symmetric] round_half [OF assms(2)])
qed

text \<open>For a grid of the same resolution that is not turned, the fast copy of a rectangle gives every
  cell of the merged extent what nearest-neighbour sampling gives it, unless the two grids are
  displaced by exactly half a cell.\<close>

lemma shifted_warp_is_sampling:
  assumes "0 < resolution w" and "resolution m = resolution w"
    and "\<And>k. (origin_x w - tx - origin_x m) / resolution w \<noteq> of_int k + 1 / 2"
    and "\<And>k. (origin_y w - ty - origin_y m) / resolution w \<noteq> of_int k + 1 / 2"
    and "inside w r c"
  shows "warp w (m, cells, tx, ty, 0) r c = warp_sampled w (m, cells, tx, ty, 0) r c"
proof -
  let ?sx = "round_even ((origin_x w - tx - origin_x m) / resolution w)"
  let ?sy = "round_even ((origin_y w - ty - origin_y m) / resolution w)"
  have index: "\<lfloor>(centre_x w c - tx - origin_x m) / resolution w\<rfloor> = c + ?sx" "\<lfloor>(centre_y w r - ty - origin_y m) / resolution w\<rfloor> = r + ?sy"
    unfolding centre_x_def centre_y_def using sampled_index assms(1,3,4) by blast+
  have "warp_sampled w (m, cells, tx, ty, 0) r c = (if inside m (r + ?sy) (c + ?sx) then cells (r + ?sy) (c + ?sx) else UNKNOWN)"
    using index by (simp add: warp_sampled_def assms(2))
  moreover have "warp w (m, cells, tx, ty, 0) = warp_shifted w (m, cells, tx, ty, 0)"
    by (simp add: warp_def assms(2))
  ultimately show ?thesis
    using assms(5) by (auto simp: warp_shifted_def Let_def blank_def inside_def)
qed

lemma shifted_warp_is_sampling_witness:
  "warp small_map (small_map, wall_scan, 1, 3 / 4 - 1 / 8, 0) 2 5 = warp_sampled small_map (small_map, wall_scan, 1, 3 / 4 - 1 / 8, 0) 2 5"
proof (rule shifted_warp_is_sampling)
  fix k :: int
  have "4 * k \<noteq> - 7" "2 * k \<noteq> - 5" by presburger+
  then have "real_of_int (4 * k) \<noteq> of_int (- 7)" "real_of_int (2 * k) \<noteq> of_int (- 5)"
    unfolding of_int_eq_iff .
  then show "(origin_x small_map - 1 - origin_x small_map) / resolution small_map \<noteq> of_int k + 1 / 2"
    "(origin_y small_map - (3 / 4 - 1 / 8) - origin_y small_map) / resolution small_map \<noteq> of_int k + 1 / 2"
    by (simp_all add: small_map_def)
qed (simp_all add: small_map_def inside_def)

end
