(* ===== verification/Map_Sync.thy ===== *)
theory Map_Sync
  imports Map_Merge
begin

text \<open>
  How the merged map reaches a dashboard. The server side is \<^verbatim>\<open>mapsvc/snapshot.py\<close> and
  \<^verbatim>\<open>mapsvc/synchronization.py\<close>: every generation is published with the baseline of the last patch,
  and a patch is the bounding box of what differs from that baseline. The dashboard side is
  \<open>applyGlobalPatch\<close> of \<^verbatim>\<open>ui/src/lib/stores/mapstore.svelte.ts\<close>: a canvas whose rows run downwards, resized
  and shifted when the extent of a patch differs from its own. Compression and base 64 are lossless
  and left out: a patch carries its cells. The last part shows that, as long as the extent only
  grows, every patch brings the canvas up to the server's map, and what a shrinking extent or a
  picture loaded between two patches does.
\<close>

subsection \<open>Snapshots\<close>

record map_snapshot =
  meta :: grid_meta
  merged :: cells
  patch_prev :: cells
  seq :: int

definition expand_patch_baseline :: "cells \<Rightarrow> grid_meta \<Rightarrow> grid_meta \<Rightarrow> cells" where
  "expand_patch_baseline previous old new =
     (if width old = width new \<and> height old = height new \<and> origin_x old = origin_x new \<and> origin_y old = origin_y new
      then previous
      else let res = resolution new;
               off_x = round_even ((origin_x old - origin_x new) / res);
               off_y = round_even ((origin_y old - origin_y new) / res);
               src_x0 = max 0 (- off_x); src_y0 = max 0 (- off_y); dst_x0 = max 0 off_x; dst_y0 = max 0 off_y;
               copy_w = min (width old - src_x0) (width new - dst_x0);
               copy_h = min (height old - src_y0) (height new - dst_y0)
           in if 0 < copy_w \<and> 0 < copy_h
              then (\<lambda>r c. if dst_y0 \<le> r \<and> r < dst_y0 + copy_h \<and> dst_x0 \<le> c \<and> c < dst_x0 + copy_w
                         then previous (r - dst_y0 + src_y0) (c - dst_x0 + src_x0) else UNKNOWN)
              else blank)"

definition make_store :: "grid_meta \<Rightarrow> cells \<Rightarrow> cells \<Rightarrow> map_snapshot" where
  "make_store m cs prev = \<lparr>meta = m, merged = cs, patch_prev = prev, seq = 0\<rparr>"

definition publish :: "grid_meta \<Rightarrow> cells \<Rightarrow> map_snapshot \<Rightarrow> map_snapshot" where
  "publish m cs st =
     \<lparr>meta = m, merged = cs, patch_prev = expand_patch_baseline (patch_prev st) (meta st) m, seq = seq st\<rparr>"

record map_patch =
  p_seq :: int
  p_resolution :: real
  p_x :: real
  p_y :: real
  p_width :: int
  p_height :: int
  p_x0 :: int
  p_y0 :: int
  p_w :: int
  p_h :: int
  p_data :: "int list"

definition changed_cells :: "map_snapshot \<Rightarrow> (int \<times> int) list" where
  "changed_cells st = filter (\<lambda>(r, c). merged st r c \<noteq> patch_prev st r c)
     (List.product [0..height (meta st) - 1] [0..width (meta st) - 1])"

text \<open>\<open>capture_patch\<close> and the message that \<open>take_patch\<close> makes of it.\<close>

definition take_patch :: "map_snapshot \<Rightarrow> map_snapshot \<times> map_patch option" where
  "take_patch st =
     (let ps = changed_cells st in
      if ps = [] then (st, None)
      else let y0 = Min (set (map fst ps)); y1 = Max (set (map fst ps)) + 1;
               x0 = Min (set (map snd ps)); x1 = Max (set (map snd ps)) + 1; m = meta st
           in (st\<lparr>patch_prev := merged st, seq := seq st + 1\<rparr>,
               Some \<lparr>p_seq = seq st + 1, p_resolution = resolution m, p_x = origin_x m, p_y = origin_y m,
                     p_width = width m, p_height = height m, p_x0 = x0, p_y0 = y0, p_w = x1 - x0, p_h = y1 - y0,
                     p_data = concat (map (\<lambda>r. map (merged st r) [x0..x1 - 1]) [y0..y1 - 1])\<rparr>))"

subsection \<open>The dashboard's canvas\<close>

datatype shade = Shade_Unknown | Shade_Free | Shade_Occupied

definition shade_of :: "int \<Rightarrow> shade" where
  "shade_of v = (if v < 0 then Shade_Unknown else if 50 \<le> v then Shade_Occupied else Shade_Free)"

record canvas =
  info :: grid_meta
  canvas_w :: int
  canvas_h :: int
  pixels :: "int \<Rightarrow> int \<Rightarrow> shade"
  global_seq :: int

definition js_round :: "real \<Rightarrow> int" where
  "js_round x = \<lfloor>x + 1 / 2\<rfloor>"

definition ensure_canvas :: "int \<Rightarrow> int \<Rightarrow> canvas \<Rightarrow> canvas" where
  "ensure_canvas w h cv =
     (if canvas_w cv \<noteq> w \<or> canvas_h cv \<noteq> h
      then cv\<lparr>canvas_w := w, canvas_h := h, pixels := (\<lambda>_ _. Shade_Unknown)\<rparr> else cv)"

definition draw_over :: "canvas \<Rightarrow> int \<Rightarrow> int \<Rightarrow> canvas \<Rightarrow> canvas" where
  "draw_over old off_x off_y cv = cv\<lparr>pixels := (\<lambda>y x.
     if 0 \<le> x - off_x \<and> x - off_x < min (width (info old)) (canvas_w old)
      \<and> 0 \<le> y - off_y \<and> y - off_y < min (height (info old)) (canvas_h old)
     then pixels old (y - off_y) (x - off_x) else pixels cv y x)\<rparr>"

definition put_cells :: "map_patch \<Rightarrow> canvas \<Rightarrow> canvas" where
  "put_cells p cv = (let y0 = p_height p - p_y0 p - p_h p in
     cv\<lparr>pixels := (\<lambda>y x. let ry = y - y0; rx = x - p_x0 p in
       if 0 \<le> ry \<and> ry < p_h p \<and> 0 \<le> rx \<and> rx < p_w p
       then shade_of (p_data p ! nat ((p_h p - 1 - ry) * p_w p + rx)) else pixels cv y x)\<rparr>)"

text \<open>A canvas that is showing the merged map: the other views only note the patch's number.\<close>

definition apply_global_patch :: "map_patch \<Rightarrow> canvas \<Rightarrow> canvas" where
  "apply_global_patch p cv0 =
     (let cv = cv0\<lparr>global_seq := max (global_seq cv0) (p_seq p)\<rparr>; i = info cv in
      if origin_x i \<noteq> p_x p \<or> origin_y i \<noteq> p_y p \<or> width i \<noteq> p_width p \<or> height i \<noteq> p_height p
      then put_cells p (draw_over cv (js_round ((origin_x i - p_x p) / p_resolution p))
             (js_round (of_int (p_height p) - of_int (height i) - (origin_y i - p_y p) / p_resolution p))
             (ensure_canvas (p_width p) (p_height p)
               (cv\<lparr>info := \<lparr>resolution = p_resolution p, width = p_width p, height = p_height p, origin_x = p_x p, origin_y = p_y p\<rparr>\<rparr>)))
      else put_cells p (ensure_canvas (width i) (height i) cv))"

text \<open>The picture of a whole map, loaded on connecting.\<close>

definition load_full :: "map_snapshot \<Rightarrow> canvas \<Rightarrow> canvas" where
  "load_full st cv =
     (if seq st < global_seq cv then cv
      else \<lparr>info = meta st, canvas_w = width (meta st), canvas_h = height (meta st),
            pixels = (\<lambda>y x. shade_of (merged st (height (meta st) - 1 - y) x)), global_seq = max (global_seq cv) (seq st)\<rparr>)"

subsection \<open>Server and dashboard together\<close>

definition initial_meta :: "real \<Rightarrow> real \<Rightarrow> grid_meta" where
  "initial_meta res size_m = (let n = (if 0 \<le> size_m / res then \<lfloor>size_m / res\<rfloor> else \<lceil>size_m / res\<rceil>) in
     \<lparr>resolution = res, width = n, height = n, origin_x = - size_m / 2, origin_y = - size_m / 2\<rparr>)"

record map_link =
  initial :: grid_meta
  working :: "grid_meta \<times> cells"
  store :: map_snapshot
  shown :: canvas

datatype map_event = Merge string "member_grid list" | Adopt member_grid | Reset | Patch | Reload

definition put_working :: "grid_meta \<times> cells \<Rightarrow> map_link \<Rightarrow> map_link" where
  "put_working wm s = s\<lparr>working := wm, store := publish (fst wm) (snd wm) (store s)\<rparr>"

fun sync_step :: "map_event \<Rightarrow> map_link \<Rightarrow> map_link" where
  "sync_step (Merge conflict gs) s = put_working (compose conflict gs (working s)) s"
| "sync_step (Adopt g) s = put_working (adopt_global g (working s)) s"
| "sync_step Reset s = put_working (initial s, blank) s"
| "sync_step Patch s =
     (case take_patch (store s) of (st, None) \<Rightarrow> s\<lparr>store := st\<rparr>
      | (st, Some p) \<Rightarrow> s\<lparr>store := st, shown := apply_global_patch p (shown s)\<rparr>)"
| "sync_step Reload s = s\<lparr>shown := load_full (store s) (shown s)\<rparr>"

text \<open>What the canvas shows at a cell of the server's grid; outside the canvas nothing is known.\<close>

definition view :: "canvas \<Rightarrow> grid_meta \<Rightarrow> int \<Rightarrow> int \<Rightarrow> shade" where
  "view cv m r c =
     (let i = info cv; r' = r - round_even ((origin_y i - origin_y m) / resolution m);
          c' = c - round_even ((origin_x i - origin_x m) / resolution m)
      in if inside i r' c' then pixels cv (height i - 1 - r') c' else Shade_Unknown)"

subsection \<open>Extents on the lattice of the resolution\<close>

definition column :: "grid_meta \<Rightarrow> int" where
  "column m = \<lfloor>origin_x m / resolution m\<rfloor>"

definition row :: "grid_meta \<Rightarrow> int" where
  "row m = \<lfloor>origin_y m / resolution m\<rfloor>"

definition on_lattice :: "grid_meta \<Rightarrow> bool" where
  "on_lattice m \<longleftrightarrow> 0 < resolution m \<and> origin_x m = of_int (column m) * resolution m \<and> origin_y m = of_int (row m) * resolution m"

text \<open>The second extent has every cell of the first.\<close>

definition grows :: "grid_meta \<Rightarrow> grid_meta \<Rightarrow> bool" where
  "grows i w \<longleftrightarrow> on_lattice i \<and> on_lattice w \<and> resolution w = resolution i
     \<and> column w \<le> column i \<and> column i + width i \<le> column w + width w
     \<and> row w \<le> row i \<and> row i + height i \<le> row w + height w"

lemma on_latticeI:
  "0 < resolution m \<Longrightarrow> origin_x m = of_int a * resolution m \<Longrightarrow> origin_y m = of_int b * resolution m \<Longrightarrow> on_lattice m"
  by (simp add: on_lattice_def column_def row_def)

lemma lattice_offsets:
  assumes "grows i w"
  shows "(origin_x i - origin_x w) / resolution w = of_int (column i - column w)"
    and "(origin_y i - origin_y w) / resolution w = of_int (row i - row w)"
  using assms unfolding grows_def on_lattice_def
  by (metis (no_types, opaque_lifting) left_diff_distrib nonzero_mult_div_cancel_right of_int_diff order_less_irrefl)+

lemma rounded_offsets:
  assumes "grows i w"
  shows "round_even ((origin_x i - origin_x w) / resolution w) = column i - column w"
    and "round_even ((origin_y i - origin_y w) / resolution w) = row i - row w"
  unfolding lattice_offsets [OF assms] round_even_of_int by (rule refl)+

lemma widening_refl: "on_lattice w \<Longrightarrow> grows w w"
  by (simp add: grows_def)

lemma widening_trans: "grows i w \<Longrightarrow> grows w w' \<Longrightarrow> grows i w'"
  unfolding grows_def by linarith

lemma contains_grows:
  assumes "contains w' w" and "resolution w' = resolution w" and "on_lattice w" and "on_lattice w'"
  shows "grows w w'"
proof -
  let ?res = "resolution w"
  have res: "0 < ?res" using assms(3) by (simp add: on_lattice_def)
  have cell: "of_int a * ?res \<le> of_int b * ?res \<longleftrightarrow> a \<le> b" for a b :: int
    using res by simp
  have at: "origin_x w = of_int (column w) * ?res" "origin_y w = of_int (row w) * ?res"
    "origin_x w' = of_int (column w') * ?res" "origin_y w' = of_int (row w') * ?res"
    using assms by (simp_all add: on_lattice_def)
  have far: "far_x w = of_int (column w + width w) * ?res" "far_y w = of_int (row w + height w) * ?res"
    "far_x w' = of_int (column w' + width w') * ?res" "far_y w' = of_int (row w' + height w') * ?res"
    unfolding far_x_def far_y_def at assms(2) by (simp_all only: of_int_add distrib_right)
  show ?thesis
    using assms(1) unfolding contains_def at far cell grows_def using assms(2-4) by simp
qed

lemma ensure_extent_grows:
  assumes "on_lattice w" and "ensure_extent gs (w, cs) = (w', cs')"
  shows "grows w w'"
proof -
  have res: "0 < resolution w" using assms(1) by (simp add: on_lattice_def)
  have "on_lattice w'"
    using assms res by (auto simp: ensure_extent_def Let_def split: if_splits intro!: on_latticeI)
  then show ?thesis
    using ensure_extent_covers(1,2) [OF res assms(2)] assms(1) by (intro contains_grows)
qed

lemma compose_grows: "on_lattice (fst wm) \<Longrightarrow> grows (fst wm) (fst (compose conflict gs wm))"
  by (cases wm) (auto simp: compose_def widening_refl dest: ensure_extent_grows split: prod.split)

lemma adopt_grows: "on_lattice (fst wm) \<Longrightarrow> grows (fst wm) (fst (adopt_global g wm))"
  by (cases wm) (auto simp: adopt_global_def dest: ensure_extent_grows split: prod.split)

subsection \<open>Baseline and canvas move alike\<close>

lemma baseline_grows:
  assumes "grows old new" and "inside new r c"
  shows "expand_patch_baseline prev old new r c =
    (let r' = r - (row old - row new); c' = c - (column old - column new) in
     if inside old r' c' then prev r' c' else UNKNOWN)"
proof (cases "width old = width new \<and> height old = height new \<and> origin_x old = origin_x new \<and> origin_y old = origin_y new")
  case True
  then have "column old = column new" "row old = row new"
    using assms(1) by (simp_all add: grows_def column_def row_def)
  then show ?thesis
    using True assms(2) by (simp add: expand_patch_baseline_def inside_def)
next
  case False
  have "column new \<le> column old" "column old + width old \<le> column new + width new"
    "row new \<le> row old" "row old + height old \<le> row new + height new"
    using assms(1) by (simp_all add: grows_def)
  then show ?thesis
    using assms(2) unfolding expand_patch_baseline_def if_not_P [OF False] Let_def rounded_offsets [OF assms(1)]
    by (auto simp: inside_def blank_def)
qed

lemma view_grows:
  "grows (info cv) m \<Longrightarrow> view cv m r c =
    (let r' = r - (row (info cv) - row m); c' = c - (column (info cv) - column m) in
     if inside (info cv) r' c' then pixels cv (height (info cv) - 1 - r') c' else Shade_Unknown)"
  unfolding view_def Let_def by (simp only: rounded_offsets)

text \<open>A canvas in step with a grid on some extent is in step with the moved grid on a larger one.\<close>

definition in_step :: "canvas \<Rightarrow> grid_meta \<Rightarrow> cells \<Rightarrow> bool" where
  "in_step cv m cs \<longleftrightarrow> grows (info cv) m \<and> canvas_w cv = width (info cv) \<and> canvas_h cv = height (info cv)
     \<and> (\<forall>r c. inside m r c \<longrightarrow> view cv m r c = shade_of (cs r c))"

lemma in_step_grows:
  assumes "in_step cv m cs" and "grows m m'"
  shows "in_step cv m' (expand_patch_baseline cs m m')"
proof -
  have g: "grows (info cv) m" "grows (info cv) m'"
    using assms widening_trans by (auto simp: in_step_def)
  have "view cv m' r c = shade_of (expand_patch_baseline cs m m' r c)" if "inside m' r c" for r c
  proof -
    let ?r = "r - (row m - row m')" and ?c = "c - (column m - column m')"
    have moved: "view cv m' r c = view cv m ?r ?c"
      by (simp add: view_grows g Let_def algebra_simps)
    show ?thesis
    proof (cases "inside m ?r ?c")
      case True
      then have "view cv m ?r ?c = shade_of (cs ?r ?c)" using assms(1) by (simp add: in_step_def)
      then show ?thesis using True by (simp add: moved baseline_grows [OF assms(2) that] Let_def)
    next
      case False
      then have "view cv m ?r ?c = Shade_Unknown"
        using g(1) by (auto simp: view_grows [OF g(1)] Let_def inside_def grows_def)
      then show ?thesis using False by (simp add: moved baseline_grows [OF assms(2) that] Let_def shade_of_def UNKNOWN_def)
    qed
  qed
  then show ?thesis using assms(1) g(2) by (simp add: in_step_def)
qed

subsection \<open>A patch brings the canvas up to date\<close>

lemma nth_concat_uniform:
  "(\<And>xs. xs \<in> set xss \<Longrightarrow> length xs = n) \<Longrightarrow> i < length xss \<Longrightarrow> j < n \<Longrightarrow> concat xss ! (i * n + j) = xss ! i ! j"
proof (induction xss arbitrary: i)
  case (Cons xs xss)
  show ?case
  proof (cases i)
    case 0
    then show ?thesis using Cons.prems by (simp add: nth_append)
  next
    case (Suc k)
    have "concat xss ! (k * n + j) = xss ! k ! j"
      using Cons.prems by (intro Cons.IH) (simp_all add: Suc)
    then show ?thesis using Cons.prems(1) [of xs] by (simp add: Suc nth_append)
  qed
qed simp

lemma box_data:
  assumes "y0 \<le> r" "r < y1" "x0 \<le> c" "c < x1"
  shows "concat (map (\<lambda>r. map (cs r) [x0..x1 - 1]) [y0..y1 - 1]) ! nat ((r - y0) * (x1 - x0) + (c - x0)) = cs r c"
proof -
  have "nat ((r - y0) * (x1 - x0) + (c - x0)) = nat (r - y0) * nat (x1 - x0) + nat (c - x0)"
    using assms by (simp add: nat_add_distrib nat_mult_distrib)
  moreover have "concat (map (\<lambda>r. map (cs r) [x0..x1 - 1]) [y0..y1 - 1]) ! (nat (r - y0) * nat (x1 - x0) + nat (c - x0)) = cs r c"
    using assms by (subst nth_concat_uniform) auto
  ultimately show ?thesis by simp
qed

text \<open>The box of a patch holds every cell that differs from the baseline.\<close>

lemma patch_box:
  assumes "take_patch st = (st', Some p)"
  shows "\<exists>x0 y0 x1 y1. p_x0 p = x0 \<and> p_y0 p = y0 \<and> p_w p = x1 - x0 \<and> p_h p = y1 - y0
    \<and> p_data p = concat (map (\<lambda>r. map (merged st r) [x0..x1 - 1]) [y0..y1 - 1])
    \<and> (\<forall>r c. inside (meta st) r c \<longrightarrow> merged st r c \<noteq> patch_prev st r c \<longrightarrow> y0 \<le> r \<and> r < y1 \<and> x0 \<le> c \<and> c < x1)"
proof -
  let ?ps = "changed_cells st"
  let ?ys = "set (map fst ?ps)" and ?xs = "set (map snd ?ps)"
  have "Min ?ys \<le> r \<and> r < Max ?ys + 1 \<and> Min ?xs \<le> c \<and> c < Max ?xs + 1"
    if "inside (meta st) r c" "merged st r c \<noteq> patch_prev st r c" for r c
  proof -
    have "(r, c) \<in> set ?ps" using that by (simp add: changed_cells_def inside_def)
    then have "r \<in> ?ys" "c \<in> ?xs" by force+
    then show ?thesis
      using Min_le [of ?ys r] Max_ge [of ?ys r] Min_le [of ?xs c] Max_ge [of ?xs c] by simp
  qed
  moreover have "p_x0 p = Min ?xs \<and> p_y0 p = Min ?ys \<and> p_w p = Max ?xs + 1 - Min ?xs \<and> p_h p = Max ?ys + 1 - Min ?ys
      \<and> p_data p = concat (map (\<lambda>r. map (merged st r) [Min ?xs..Max ?xs + 1 - 1]) [Min ?ys..Max ?ys + 1 - 1])"
    using assms unfolding take_patch_def Let_def by (cases "?ps = []") (simp_all del: set_map upto.simps, clarsimp)
  ultimately show ?thesis by blast
qed

lemma patch_fields:
  assumes "take_patch st = (st', Some p)"
  shows "p_x p = origin_x (meta st)" "p_y p = origin_y (meta st)" "p_width p = width (meta st)"
    "p_height p = height (meta st)" "p_resolution p = resolution (meta st)" and "st' = st\<lparr>patch_prev := merged st, seq := seq st + 1\<rparr>"
  using assms by (auto simp: take_patch_def Let_def split: if_splits)

text \<open>Moving the old canvas to the new extent does not change what it shows.\<close>

definition moved_canvas :: "map_patch \<Rightarrow> canvas \<Rightarrow> canvas" where
  "moved_canvas p cv = draw_over cv (js_round ((origin_x (info cv) - p_x p) / p_resolution p))
     (js_round (of_int (p_height p) - of_int (height (info cv)) - (origin_y (info cv) - p_y p) / p_resolution p))
     (ensure_canvas (p_width p) (p_height p)
       (cv\<lparr>info := \<lparr>resolution = p_resolution p, width = p_width p, height = p_height p, origin_x = p_x p, origin_y = p_y p\<rparr>\<rparr>))"

lemma js_round_of_int: "js_round (of_int n) = n"
  by (simp add: js_round_def floor_eq_iff)

lemma moved_shows:
  assumes "in_step cv m cs" and "info cv \<noteq> m"
    and p: "p_x p = origin_x m" "p_y p = origin_y m" "p_width p = width m" "p_height p = height m" "p_resolution p = resolution m"
    and "inside m r c"
  shows "pixels (moved_canvas p cv) (height m - 1 - r) c = view cv m r c"
proof -
  let ?i = "info cv"
  have g: "grows ?i m" and dims: "canvas_w cv = width ?i" "canvas_h cv = height ?i"
    using assms(1) by (simp_all add: in_step_def)
  have res: "resolution m = resolution ?i" "0 < resolution m" using g by (auto simp: grows_def on_lattice_def)
  have "\<not> (width m = width ?i \<and> height m = height ?i)"
  proof
    assume same: "width m = width ?i \<and> height m = height ?i"
    then have "column m = column ?i" "row m = row ?i" using g by (simp_all add: grows_def)
    then have "m = ?i" using g same by (simp add: grows_def on_lattice_def)
    then show False using assms(2) by simp
  qed
  then have cleared: "pixels (ensure_canvas (width m) (height m) (cv\<lparr>info := m'\<rparr>)) = (\<lambda>_ _. Shade_Unknown)" for m'
    using dims by (auto simp: ensure_canvas_def)
  have off_x: "js_round ((origin_x ?i - origin_x m) / resolution m) = column ?i - column m"
    unfolding lattice_offsets [OF g] by (rule js_round_of_int)
  have "of_int (height m) - of_int (height ?i) - (origin_y ?i - origin_y m) / resolution m
      = (of_int (height m - height ?i - (row ?i - row m)) :: real)"
    unfolding lattice_offsets [OF g] by simp
  then have off_y: "js_round (of_int (height m) - of_int (height ?i) - (origin_y ?i - origin_y m) / resolution m)
      = height m - height ?i - (row ?i - row m)"
    by (simp only: js_round_of_int)
  show ?thesis
    by (simp add: moved_canvas_def p off_x off_y draw_over_def dims cleared view_grows [OF g] Let_def inside_def)
      (auto simp: algebra_simps)
qed

lemma patch_in_step:
  assumes "in_step cv (meta st) (patch_prev st)" and "take_patch st = (st', Some p)"
  shows "in_step (apply_global_patch p cv) (meta st') (merged st)"
proof -
  let ?m = "meta st"
  note p = patch_fields(1-5) [OF assms(2)]
  have m': "meta st' = ?m" by (simp add: patch_fields(6) [OF assms(2)])
  have g: "grows (info cv) ?m" and dims: "canvas_w cv = width (info cv)" "canvas_h cv = height (info cv)"
    and shows_prev: "\<And>r c. inside ?m r c \<Longrightarrow> view cv ?m r c = shade_of (patch_prev st r c)"
    using assms(1) by (simp_all add: in_step_def)
  have res: "resolution ?m = resolution (info cv)" using g by (simp add: grows_def)
  define base where "base = (if info cv = ?m then cv else moved_canvas p cv)"
  have applied: "apply_global_patch p cv = (put_cells p base)\<lparr>global_seq := max (global_seq cv) (p_seq p)\<rparr>"
  proof (cases "info cv = ?m")
    case True
    then show ?thesis by (simp add: apply_global_patch_def base_def p ensure_canvas_def dims put_cells_def Let_def cong: if_cong)
  next
    case False
    then have "origin_x (info cv) \<noteq> p_x p \<or> origin_y (info cv) \<noteq> p_y p \<or> width (info cv) \<noteq> p_width p \<or> height (info cv) \<noteq> p_height p"
      using res by (auto simp: p)
    then show ?thesis
      using False by (simp add: apply_global_patch_def base_def moved_canvas_def put_cells_def draw_over_def ensure_canvas_def Let_def cong: if_cong)
  qed
  have fields: "info base = ?m" "canvas_w base = width ?m" "canvas_h base = height ?m"
    using dims by (auto simp: base_def moved_canvas_def draw_over_def ensure_canvas_def p)
  have pix: "pixels base (height ?m - 1 - r) c = shade_of (patch_prev st r c)" if "inside ?m r c" for r c
    using shows_prev [OF that] moved_shows [OF assms(1) _ p that] that
    by (auto simp: base_def view_def Let_def split: if_splits)
  obtain x0 y0 x1 y1 where box: "p_x0 p = x0" "p_y0 p = y0" "p_w p = x1 - x0" "p_h p = y1 - y0"
      "p_data p = concat (map (\<lambda>r. map (merged st r) [x0..x1 - 1]) [y0..y1 - 1])"
    and all: "\<And>r c. inside ?m r c \<Longrightarrow> merged st r c \<noteq> patch_prev st r c \<Longrightarrow> y0 \<le> r \<and> r < y1 \<and> x0 \<le> c \<and> c < x1"
    using patch_box [OF assms(2)] by blast
  have "pixels (put_cells p base) (height ?m - 1 - r) c = shade_of (merged st r c)" if "inside ?m r c" for r c
  proof (cases "y0 \<le> r \<and> r < y1 \<and> x0 \<le> c \<and> c < x1")
    case True
    have index: "(y1 - y0 - 1 - (height ?m - 1 - r - (height ?m - y0 - (y1 - y0)))) * (x1 - x0) + (c - x0) = (r - y0) * (x1 - x0) + (c - x0)"
      by (simp add: algebra_simps)
    show ?thesis
      using True unfolding put_cells_def Let_def box p by (simp add: index box_data)
  next
    case False
    then have "merged st r c = patch_prev st r c" using all [OF that] by blast
    then show ?thesis
      using False pix [OF that] unfolding put_cells_def Let_def box p by auto
  qed
  moreover have "on_lattice ?m" using g by (simp add: grows_def)
  moreover have "info (put_cells p base) = ?m" "canvas_w (put_cells p base) = width ?m" "canvas_h (put_cells p base) = height ?m"
    using fields by (simp_all add: put_cells_def Let_def)
  ultimately show ?thesis
    by (simp add: in_step_def applied m' widening_refl view_def Let_def inside_def)
qed

subsection \<open>Runs\<close>

definition sync_inv :: "map_link \<Rightarrow> bool" where
  "sync_inv s \<longleftrightarrow> on_lattice (fst (working s)) \<and> meta (store s) = fst (working s) \<and> merged (store s) = snd (working s)
     \<and> in_step (shown s) (fst (working s)) (patch_prev (store s))"

lemma put_working_inv:
  assumes "sync_inv s" and "grows (fst (working s)) (fst wm)"
  shows "sync_inv (put_working wm s)"
proof -
  have "in_step (shown s) (fst wm) (expand_patch_baseline (patch_prev (store s)) (meta (store s)) (fst wm))"
    using assms by (intro in_step_grows) (auto simp: sync_inv_def)
  moreover have "on_lattice (fst wm)" using assms(2) by (simp add: grows_def)
  ultimately show ?thesis by (simp add: sync_inv_def put_working_def publish_def)
qed

lemma patch_inv:
  assumes "sync_inv s"
  shows "sync_inv (sync_step Patch s)"
    and "in_step (shown (sync_step Patch s)) (fst (working (sync_step Patch s))) (snd (working (sync_step Patch s)))"
proof -
  have "sync_inv (sync_step Patch s) \<and> in_step (shown (sync_step Patch s)) (fst (working s)) (snd (working s))
      \<and> working (sync_step Patch s) = working s"
  proof (cases "snd (take_patch (store s))")
    case None
    then have "changed_cells (store s) = []" and st: "fst (take_patch (store s)) = store s"
      by (auto simp: take_patch_def Let_def split: if_splits)
    then have "merged (store s) r c = patch_prev (store s) r c" if "inside (meta (store s)) r c" for r c
      using that by (fastforce simp: changed_cells_def filter_empty_conv inside_def)
    moreover have "sync_step Patch s = s"
      using None st by (cases "take_patch (store s)") simp
    ultimately show ?thesis
      using assms by (simp add: sync_inv_def in_step_def)
  next
    case (Some p)
    then have taken: "take_patch (store s) = (fst (take_patch (store s)), Some p)" by (simp add: prod_eq_iff)
    note upd = patch_fields(6) [OF taken] and after = patch_in_step [OF _ taken]
    have step: "sync_step Patch s = s\<lparr>store := fst (take_patch (store s)), shown := apply_global_patch p (shown s)\<rparr>"
      by (simp only: sync_step.simps, subst taken) simp
    show ?thesis
      using assms after [of "shown s"] unfolding step by (simp add: sync_inv_def upd)
  qed
  then show "sync_inv (sync_step Patch s)"
    and "in_step (shown (sync_step Patch s)) (fst (working (sync_step Patch s))) (snd (working (sync_step Patch s)))"
    by simp_all
qed

fun growing :: "map_event \<Rightarrow> bool" where
  "growing Reset = False"
| "growing Reload = False"
| "growing _ = True"

lemma sync_lattice: "sync_inv s \<Longrightarrow> on_lattice (fst (working s))"
  by (simp add: sync_inv_def)

lemma step_grows: "growing e \<Longrightarrow> on_lattice (fst (working s)) \<Longrightarrow> grows (fst (working s)) (fst (working (sync_step e s)))"
  by (cases e) (simp_all add: put_working_def compose_grows adopt_grows widening_refl split: prod.split option.split)

lemma sync_step_inv: "growing e \<Longrightarrow> sync_inv s \<Longrightarrow> sync_inv (sync_step e s)"
  using step_grows [of e s] sync_lattice [of s]
  by (cases e) (simp_all del: sync_step.simps(4) add: put_working_inv patch_inv put_working_def [of _ s, symmetric] compose_grows adopt_grows)

lemma run_grows:
  "list_all growing es \<Longrightarrow> on_lattice (fst (working s)) \<Longrightarrow> grows (fst (working s)) (fst (working (fold sync_step es s)))"
proof (induction es arbitrary: s)
  case (Cons e es)
  have one: "grows (fst (working s)) (fst (working (sync_step e s)))"
    using Cons.prems by (intro step_grows) simp_all
  then have "on_lattice (fst (working (sync_step e s)))" by (simp add: grows_def)
  then have "grows (fst (working (sync_step e s))) (fst (working (fold sync_step es (sync_step e s))))"
    using Cons.prems(1) by (intro Cons.IH) simp_all
  then show ?case using widening_trans [OF one] by simp
qed (simp add: widening_refl)

interpretation map_sync: machine sync_step growing sync_inv
  by unfold_locales (rule sync_step_inv)

text \<open>C9: A dashboard that is in step with the server's baseline stays correct: after any sequence of
  merges, adopted maps and patches that ends with a patch, its canvas shows at every cell of the
  server's extent what the server's merged map holds there.\<close>

theorem dashboard_follows_server:
  assumes "list_all growing es" and "sync_inv s" and "inside (fst (working (fold sync_step (es @ [Patch]) s))) r c"
  shows "view (shown (fold sync_step (es @ [Patch]) s)) (fst (working (fold sync_step (es @ [Patch]) s))) r c
    = shade_of (snd (working (fold sync_step (es @ [Patch]) s)) r c)"
  using patch_inv(2) [OF map_sync.inv_run [OF assms(1,2)]] assms(3) by (simp add: in_step_def)

text \<open>A new server, and a dashboard connected to it.\<close>

definition new_link :: "real \<Rightarrow> real \<Rightarrow> map_link" where
  "new_link res size_m = (let m = initial_meta res size_m; st = make_store m blank blank in
     \<lparr>initial = m, working = (m, blank), store = st,
      shown = load_full st \<lparr>info = m, canvas_w = 0, canvas_h = 0, pixels = (\<lambda>_ _. Shade_Unknown), global_seq = 0\<rparr>\<rparr>)"

lemma new_link_in_sync:
  assumes "0 < res" and "size_m = 2 * of_int k * res"
  shows "sync_inv (new_link res size_m)"
proof -
  have "on_lattice (initial_meta res size_m)"
    by (rule on_latticeI [of _ "- k" "- k"]) (use assms in \<open>simp_all add: initial_meta_def Let_def\<close>)
  then show ?thesis
    by (simp add: sync_inv_def new_link_def make_store_def load_full_def in_step_def widening_refl view_def Let_def blank_def
        shade_of_def UNKNOWN_def)
qed

theorem dashboard_follows_server_witness:
  "let s = fold sync_step [Merge ''majority'' [(small_map, wall_scan, 20, 0, pi / 2)], Patch,
       Merge ''occupied'' [(small_map, empty_scan, 0, 0, 0)], Patch] (new_link (1 / 2) 4) in
   view (shown s) (fst (working s)) 3 3 = shade_of (snd (working s) 3 3)"
proof -
  let ?es = "[Merge ''majority'' [(small_map, wall_scan, 20, 0, pi / 2)], Patch, Merge ''occupied'' [(small_map, empty_scan, 0, 0, 0)]]"
  let ?s = "fold sync_step (?es @ [Patch]) (new_link (1 / 2) 4)"
  have start: "sync_inv (new_link (1 / 2) 4)" by (rule new_link_in_sync [of _ _ 4]) simp_all
  have "fst (working (new_link (1 / 2) 4)) = small_map"
    by (simp add: new_link_def initial_meta_def small_map_def Let_def)
  then have "grows small_map (fst (working ?s))"
    using run_grows [OF _ sync_lattice [OF start], of "?es @ [Patch]"] by simp
  then have "inside (fst (working ?s)) 3 3" by (simp add: grows_def inside_def small_map_def)
  with dashboard_follows_server [of ?es, OF _ start] show ?thesis by (simp add: Let_def)
qed

lemma take_patch_same: "take_patch st = (st, None)" if "merged st = patch_prev st"
  using that by (simp add: take_patch_def changed_cells_def Let_def)

lemma expand_same: "expand_patch_baseline prev m m = prev"
  by (simp add: expand_patch_baseline_def)

text \<open>A picture loaded between two patches can stay wrong. When the map changes, a dashboard loads
  it, and the map changes back before the next patch, no later patch mentions the cells: the canvas
  keeps showing the intermediate map however many patches are taken.\<close>

lemma picture_between_patches_goes_stale:
  assumes "working s = (w, cs)" and "meta (store s) = w" and "patch_prev (store s) = cs"
    and "compose c1 gs1 (w, cs) = (w, cs1)" and "compose c2 gs2 (w, cs1) = (w, cs)"
    and "global_seq (shown s) \<le> seq (store s)"
    and "inside w r c" and "shade_of (cs1 r c) \<noteq> shade_of (cs r c)"
  shows "let s' = fold sync_step ([Merge c1 gs1, Reload, Merge c2 gs2] @ replicate n Patch) s in
    working s' = (w, cs) \<and> view (shown s') w r c \<noteq> shade_of (cs r c)"
proof -
  define s1 where "s1 = fold sync_step [Merge c1 gs1, Reload, Merge c2 gs2] s"
  have store: "store s1 = \<lparr>meta = w, merged = cs, patch_prev = cs, seq = seq (store s)\<rparr>"
    and work: "working s1 = (w, cs)"
    using assms(1-5) by (simp_all add: s1_def put_working_def publish_def expand_same)
  have shown: "info (shown s1) = w" "pixels (shown s1) = (\<lambda>y x. shade_of (cs1 (height w - 1 - y) x))"
    using assms(1-6) by (simp_all add: s1_def put_working_def publish_def expand_same load_full_def)
  have "sync_step Patch s1 = s1"
    by (simp add: take_patch_same store)
  then have "fold sync_step (replicate n Patch) s1 = s1" by (induction n) (simp_all del: sync_step.simps)
  moreover have "view (shown s1) w r c = shade_of (cs1 r c)"
    using assms(7) by (simp add: view_def shown Let_def)
  ultimately show ?thesis
    using work assms(8) by (simp add: s1_def Let_def del: sync_step.simps)
qed

lemma picture_between_patches_goes_stale_witness:
  "let s = fold sync_step ([Merge ''majority'' [(small_map, wall_scan, 0, 0, 0)], Reload, Merge ''majority'' []] @ replicate 3 Patch)
       (new_link (1 / 2) 4) in
   working s = (small_map, blank) \<and> view (shown s) small_map 2 3 \<noteq> shade_of (blank 2 3)"
proof -
  define cs1 where "cs1 = vote_majority [warp small_map (small_map, wall_scan, 0, 0, 0)]"
  have start: "working (new_link (1 / 2) 4) = (small_map, blank)" "meta (store (new_link (1 / 2) 4)) = small_map"
    "patch_prev (store (new_link (1 / 2) 4)) = blank" "global_seq (shown (new_link (1 / 2) 4)) \<le> seq (store (new_link (1 / 2) 4))"
    by (simp_all add: new_link_def make_store_def load_full_def initial_meta_def small_map_def Let_def)
  have "compose ''majority'' [(small_map, wall_scan, 0, 0, 0)] (small_map, blank) = (small_map, cs1)"
    by (simp add: cs1_def compose_def ensure_extent_def resolve_def corners_def turned_def far_x_def far_y_def small_map_def)
  moreover have "compose ''majority'' [] (small_map, cs1) = (small_map, blank)" by (simp add: compose_def)
  moreover have "inside small_map 2 3" by (simp add: inside_def small_map_def)
  moreover have "shade_of (cs1 2 3) \<noteq> shade_of (blank 2 3)"
    by (simp add: cs1_def vote_majority_def occupied_votes_def free_votes_def warp_def warp_shifted_def small_map_def
        wall_scan_def blank_def shade_of_def cell_values Let_def)
  ultimately show ?thesis by (rule picture_between_patches_goes_stale [OF start(1-3) _ _ start(4)])
qed

end
