(* ===== verification/Map_Service.thy ===== *)
theory Map_Service
  imports Map_Sync
begin

text \<open>
  The state of \<^verbatim>\<open>server/swarmdeck_server/mapsvc/service.py\<close> and \<^verbatim>\<open>cslam.py\<close>: the grids of the robots, who is
  registered against whom, and which robots are in the shared map. The correlation of two grids
  (\<^verbatim>\<open>registration.py\<close>, a Fourier search) is an argument: an \<open>estimator\<close> answers for any search window,
  and the theorems hold for every answer. Transforms and poses are finite. The accumulators of
  scans and of Wi-Fi samples are represented by the set of robots that have one; clouds are the
  lists of their points.
\<close>

subsection \<open>Data\<close>

record registration =
  dx :: real
  dy :: real
  dyaw :: real
  score :: real
  overlap :: int
  ratio :: real
  yaw_ratio :: real
  support :: real

definition MIN_SUPPORT :: real where "MIN_SUPPORT = 35 / 100"
definition PRIOR_WINDOW_DEG :: real where "PRIOR_WINDOW_DEG = 40"
definition LOCKED_WINDOW_DEG :: real where "LOCKED_WINDOW_DEG = 8"
definition CLOUD_YAW_AGREE_DEG :: real where "CLOUD_YAW_AGREE_DEG = 45"
definition REGISTRATION_MISS_LIMIT :: nat where "REGISTRATION_MISS_LIMIT = 3"
definition CHECK_MIN_SUPPORT :: real where "CHECK_MIN_SUPPORT = 35 / 100"
definition TRANSFORM_SMOOTHING :: real where "TRANSFORM_SMOOTHING = 3 / 10"

definition confident :: "registration \<Rightarrow> bool" where
  "confident r \<longleftrightarrow> 80 \<le> overlap r \<and> 20 / 100 \<le> score r \<and> ratio r \<le> 80 / 100 \<and> yaw_ratio r \<le> 80 / 100 \<and> MIN_SUPPORT \<le> support r"

definition radians :: "real \<Rightarrow> real" where
  "radians d = d * pi / 180"

definition yaw_agrees :: "real \<Rightarrow> real \<Rightarrow> bool" where
  "yaw_agrees a b \<longleftrightarrow> \<bar>wrap (a - b)\<bar> \<le> radians CLOUD_YAW_AGREE_DEG"

type_synonym cloud = "(real \<times> real \<times> real) list"

text \<open>What the correlation of two grids or clouds answers, for a prior yaw and a window in degrees.\<close>

record estimator =
  fft :: "real option \<Rightarrow> real \<Rightarrow> registration"
  cloud_fft :: "real option \<Rightarrow> real \<Rightarrow> registration"
  score_at :: "registration \<Rightarrow> real \<times> int \<times> real"
  height_shift :: real

datatype nav_entry = Nav_Global int transform grid_meta cells | Nav_Local int grid_meta cells

record map_service =
  initial_extent :: grid_meta
  merge_mode :: string
  merge_conflict :: string
  reference :: "string option"
  excluded :: "string set"
  robot_grids :: "(string, grid_meta \<times> cells) dict"
  robot_revisions :: "(string, int) dict"
  transforms :: "(string, transform) dict"
  transform_priors :: "(string, transform) dict"
  registrations :: "(string, registration) dict"
  cloud_registrations :: "(string, registration) dict"
  registration_sources :: "(string, string) dict"
  registration_rejections :: "(string, string) dict"
  registered :: "string set"
  registration_misses :: "(string, nat) dict"
  locked_dyaw :: "(string, real) dict"
  slam_graphs :: "(string, json) dict"
  cslam_disagreement :: "(string, real \<times> real \<times> bool) dict"
  robot_clouds :: "(string, cloud) dict"
  cloud_z_offsets :: "(string, real) dict"
  cloud_resets :: int
  scan_grids :: "string set"
  network_grids :: "string set"
  global_grid :: "(grid_meta \<times> cells) option"
  global_map_seq :: int
  common_poses :: "(string, transform) dict"
  cslam_frames :: "(string, string) dict"
  registration_due :: "string set"
  nav_cache :: "(string, nav_entry) dict"
  extent_grid :: "grid_meta \<times> cells"
  snapshots :: map_snapshot

definition new_map_service :: "real \<Rightarrow> real \<Rightarrow> map_service" where
  "new_map_service res size_m = (let m = initial_meta res size_m in
     \<lparr>initial_extent = m, merge_mode = ''static'', merge_conflict = ''majority'', reference = None, excluded = {},
      robot_grids = [], robot_revisions = [], transforms = [], transform_priors = [], registrations = [],
      cloud_registrations = [], registration_sources = [], registration_rejections = [], registered = {},
      registration_misses = [], locked_dyaw = [], slam_graphs = [], cslam_disagreement = [], robot_clouds = [],
      cloud_z_offsets = [], cloud_resets = 0, scan_grids = {}, network_grids = {}, global_grid = None,
      global_map_seq = 0, common_poses = [], cslam_frames = [], registration_due = {}, nav_cache = [],
      extent_grid = (m, blank), snapshots = make_store m blank blank\<rparr>)"

definition transform_in :: "map_service \<Rightarrow> string \<Rightarrow> transform" where
  "transform_in s rid = (case dget (transforms s) rid of Some t \<Rightarrow> t | None \<Rightarrow> (0, 0, 0))"

subsection \<open>Set-up\<close>

definition set_transform :: "string \<Rightarrow> transform \<Rightarrow> map_service \<Rightarrow> map_service" where
  "set_transform rid t s = s\<lparr>transforms := dput rid t (transforms s), transform_priors := dput rid t (transform_priors s),
     reference := (if reference s = None then Some rid else reference s)\<rparr>"

definition set_mode :: "string \<Rightarrow> map_service \<Rightarrow> map_service" where
  "set_mode mode s = s\<lparr>merge_mode := (if mode \<in> {''static'', ''auto'', ''cslam'', ''graph''} then mode else ''static'')\<rparr>"

definition set_conflict_mode :: "string \<Rightarrow> map_service \<Rightarrow> map_service" where
  "set_conflict_mode mode s = s\<lparr>merge_conflict := (if mode \<in> {''majority'', ''occupied''} then mode else ''majority'')\<rparr>"

subsection \<open>The collaborative frame\<close>

definition is_pose_graph_mode :: "string \<Rightarrow> bool" where
  "is_pose_graph_mode mode \<longleftrightarrow> mode = ''cslam'' \<or> mode = ''graph''"

definition graph_flag :: "map_service \<Rightarrow> string \<Rightarrow> bool" where
  "graph_flag s rid = (case dget (slam_graphs s) rid of None \<Rightarrow> False
     | Some g \<Rightarrow> truthy (jget (obj_fields g) ''in_common_frame'' JNull))"

definition in_common_frame :: "map_service \<Rightarrow> string \<Rightarrow> bool" where
  "in_common_frame s rid \<longleftrightarrow> (if merge_mode s = ''graph'' then graph_flag s rid else reference s = Some rid \<or> graph_flag s rid)"

definition common_to_world :: "map_service \<Rightarrow> transform" where
  "common_to_world s =
     (if merge_mode s = ''graph'' then (0, 0, 0)
      else case reference s of None \<Rightarrow> (0, 0, 0)
           | Some rid \<Rightarrow> (case dget (transform_priors s) rid of Some t \<Rightarrow> t | None \<Rightarrow> (0, 0, 0)))"

text \<open>The frames of the robots in the common frame, each with its number of robots, in the order in
  which they are first met; the largest wins, the first of several.\<close>

definition frame_counts :: "map_service \<Rightarrow> (string, nat) dict" where
  "frame_counts s = fold (\<lambda>(rid, frame) counts.
     if frame \<noteq> [] \<and> in_common_frame s rid
     then dput frame ((case dget counts frame of None \<Rightarrow> 0 | Some n \<Rightarrow> n) + 1) counts else counts) (cslam_frames s) []"

definition majority_frame :: "map_service \<Rightarrow> string option" where
  "majority_frame s = (case frame_counts s of [] \<Rightarrow> None | c # cs \<Rightarrow> Some (fst (first_max snd c cs)))"

subsection \<open>Who is in the shared map\<close>

definition grid_ids :: "map_service \<Rightarrow> string set" where
  "grid_ids s = set (keys (robot_grids s))"

definition global_members :: "map_service \<Rightarrow> string set" where
  "global_members s =
     (if merge_mode s = ''static''
      then Set.filter (\<lambda>rid. dget (transforms s) rid \<noteq> None \<or> reference s = Some rid) (grid_ids s) - excluded s
      else if merge_mode s = ''cslam''
      then Set.filter (\<lambda>rid. in_common_frame s rid
             \<and> (majority_frame s = None \<or> dget (cslam_frames s) rid = majority_frame s)) (grid_ids s) - excluded s
      else if merge_mode s = ''graph''
      then Set.filter (\<lambda>rid. in_common_frame s rid \<and> majority_frame s \<noteq> None
             \<and> dget (cslam_frames s) rid = majority_frame s) (grid_ids s \<union> set (keys (slam_graphs s))) - excluded s
      else (let accepted = Set.filter (\<lambda>rid. dget (registration_rejections s) rid = None) (registered s) in
            case reference s of None \<Rightarrow> {}
            | Some ref \<Rightarrow> if accepted = {} then {} else insert ref accepted - excluded s))"

subsection \<open>Merging\<close>

definition member_grids :: "map_service \<Rightarrow> member_grid list" where
  "member_grids s = map (\<lambda>(rid, m, cs). (m, cs, transform_in s rid))
     (filter (\<lambda>(rid, _). rid \<in> global_members s) (robot_grids s))"

definition merged_now :: "map_service \<Rightarrow> grid_meta \<times> cells" where
  "merged_now s =
     (case global_grid s of
        Some (m, cs) \<Rightarrow> if is_pose_graph_mode (merge_mode s) then adopt_global (m, cs, common_to_world s) (extent_grid s)
                       else compose (merge_conflict s) (member_grids s) (extent_grid s)
      | None \<Rightarrow> compose (merge_conflict s) (member_grids s) (extent_grid s))"

definition publish_map :: "grid_meta \<times> cells \<Rightarrow> map_service \<Rightarrow> map_service" where
  "publish_map wm s = s\<lparr>extent_grid := wm, snapshots := publish (fst wm) (snd wm) (snapshots s)\<rparr>"

definition remerge :: "map_service \<Rightarrow> map_service" where
  "remerge s = publish_map (merged_now s) s"

definition set_excluded :: "string list \<Rightarrow> map_service \<Rightarrow> map_service" where
  "set_excluded rids s = (let nxt = set (filter (\<lambda>rid. rid \<noteq> []) rids) in
     if nxt = excluded s then s else remerge (s\<lparr>excluded := nxt\<rparr>))"

subsection \<open>Registration\<close>

text \<open>The yaw to search around, and the width of the search in degrees.\<close>

definition search_window :: "map_service \<Rightarrow> string \<Rightarrow> real \<Rightarrow> real option \<times> real" where
  "search_window s rid ryaw =
     (case dget (locked_dyaw s) rid of Some y \<Rightarrow> (Some y, LOCKED_WINDOW_DEG)
      | None \<Rightarrow> (case dget (transform_priors s) rid of Some (_, _, pyaw) \<Rightarrow> (Some (wrap (pyaw - ryaw)), PRIOR_WINDOW_DEG)
                | None \<Rightarrow> (None, PRIOR_WINDOW_DEG)))"

definition inside_grid :: "grid_meta \<Rightarrow> cloud \<Rightarrow> cloud" where
  "inside_grid m = filter (\<lambda>(x, y, _). origin_x m \<le> x \<and> x < far_x m \<and> origin_y m \<le> y \<and> y < far_y m)"

definition update_cloud_registration :: "estimator \<Rightarrow> string \<Rightarrow> map_service update" where
  "update_cloud_registration est rid s =
     (case reference s of None \<Rightarrow> (s, None)
      | Some ref \<Rightarrow>
          if rid = ref then (s, None)
          else case (dget (robot_clouds s) ref, dget (robot_clouds s) rid) of
            (Some ref_points, Some mov_points) \<Rightarrow>
              (case (dget (robot_grids s) ref, dget (robot_grids s) rid) of
                 (Some (ref_meta, _), Some (mov_meta, _)) \<Rightarrow>
                   if length (inside_grid ref_meta ref_points) < 40 \<or> length (inside_grid mov_meta mov_points) < 40
                   then (s\<lparr>cloud_registrations := ddel rid (cloud_registrations s)\<rparr>, None)
                   else (let (yaw, window) = search_window s rid (snd (snd (transform_in s ref))) in
                     (s\<lparr>cloud_registrations := dput rid (cloud_fft est yaw window) (cloud_registrations s)\<rparr>, None))
               | _ \<Rightarrow> (s, Some KeyError))
          | _ \<Rightarrow> (s\<lparr>cloud_registrations := ddel rid (cloud_registrations s)\<rparr>, None))"

definition blend_transform :: "map_service \<Rightarrow> string \<Rightarrow> transform \<Rightarrow> transform" where
  "blend_transform s rid candidate =
     (case dget (transforms s) rid of None \<Rightarrow> candidate
      | Some (px, py, pyaw) \<Rightarrow>
          if rid \<notin> registered s then candidate
          else (let (cx, cy, cyaw) = candidate; a = TRANSFORM_SMOOTHING in
            (px + a * (cx - px), py + a * (cy - py), wrap (pyaw + a * wrap (cyaw - pyaw)))))"

text \<open>A cloud answer speaks against the held transform or against the grids' answer.\<close>

definition cloud_unambiguous :: "registration \<Rightarrow> bool" where
  "cloud_unambiguous c \<longleftrightarrow> ratio c \<le> 80 / 100 \<and> yaw_ratio c \<le> 80 / 100 \<and> 40 \<le> overlap c"

definition grid_vetoes :: "real \<times> int \<times> real \<Rightarrow> bool" where
  "grid_vetoes sc = (let (score, overlap, support) = sc in
     MIN_SUPPORT \<le> support \<and> (overlap < 80 \<or> score < 20 / 100))"

definition validated :: "estimator \<Rightarrow> registration \<Rightarrow> registration" where
  "validated est c = (let (score, overlap, support) = score_at est c in
     c\<lparr>score := score, overlap := overlap, support := support\<rparr>)"

text \<open>Which of the two answers counts, where it comes from, and whether it is accepted.\<close>

record verdict =
  v_result :: registration
  v_source :: string
  v_use_cloud :: bool
  v_blocked :: bool

definition judge :: "estimator \<Rightarrow> registration \<Rightarrow> registration option \<Rightarrow> verdict" where
  "judge est grid_result cloud =
     (case cloud of None \<Rightarrow> \<lparr>v_result = grid_result, v_source = ''grid'', v_use_cloud = False, v_blocked = False\<rparr>
      | Some c \<Rightarrow>
          (let use_cloud = (cloud_unambiguous c \<and> \<not> grid_vetoes (score_at est c));
               (_, _, support) = score_at est c
           in if use_cloud
              then \<lparr>v_result = validated est c, v_source = (if MIN_SUPPORT \<le> support then ''pointcloud+grid'' else ''pointcloud''),
                    v_use_cloud = True, v_blocked = False\<rparr>
              else \<lparr>v_result = grid_result, v_source = ''grid'', v_use_cloud = False,
                    v_blocked = (cloud_unambiguous c \<and> confident grid_result \<and> \<not> yaw_agrees (dyaw grid_result) (dyaw c))\<rparr>))"

definition v_accepted :: "verdict \<Rightarrow> bool" where
  "v_accepted v \<longleftrightarrow> v_use_cloud v \<or> (confident (v_result v) \<and> \<not> v_blocked v)"

definition misses_of :: "map_service \<Rightarrow> string \<Rightarrow> nat" where
  "misses_of s rid = (case dget (registration_misses s) rid of None \<Rightarrow> 0 | Some n \<Rightarrow> n)"

definition cloud_against_hold :: "map_service \<Rightarrow> string \<Rightarrow> real \<Rightarrow> registration option \<Rightarrow> bool" where
  "cloud_against_hold s rid ryaw cloud =
     (case (cloud, dget (transforms s) rid) of
        (Some c, Some (_, _, held_yaw)) \<Rightarrow>
          cloud_unambiguous c \<and> radians CLOUD_YAW_AGREE_DEG < \<bar>wrap (wrap (ryaw + dyaw c) - held_yaw)\<bar>
      | _ \<Rightarrow> False)"

text \<open>A robot leaves the shared map: the reason is kept, the count starts again.\<close>

definition evict :: "string \<Rightarrow> string \<Rightarrow> map_service \<Rightarrow> map_service" where
  "evict rid why s = s\<lparr>registration_rejections := dput rid why (registration_rejections s),
     registered := registered s - {rid}, registration_misses := dput rid 0 (registration_misses s)\<rparr>"

definition missed :: "string \<Rightarrow> verdict \<Rightarrow> bool \<Rightarrow> bool \<Rightarrow> map_service \<Rightarrow> map_service" where
  "missed rid v has_cloud against s =
     (let misses = misses_of s rid + 1;
          s1 = s\<lparr>locked_dyaw := ddel rid (locked_dyaw s), registration_misses := dput rid misses (registration_misses s)\<rparr>
      in if rid \<in> registered s \<and> misses < REGISTRATION_MISS_LIMIT \<and> \<not> against then s1
         else evict rid (if v_blocked v \<or> against then ''grid/cloud yaw disagreement''
                         else if has_cloud then ''ambiguous grid and point-cloud match'' else ''ambiguous occupancy match'') s1)"

definition outside_prior :: "transform \<Rightarrow> transform \<Rightarrow> bool" where
  "outside_prior candidate prior = (let (wx, wy, wyaw) = candidate; (px, py, pyaw) = prior in
     2 < hypot (wx - px) (wy - py) \<or> radians 30 < \<bar>wrap (wyaw - pyaw)\<bar>)"

definition accept_match :: "string \<Rightarrow> registration \<Rightarrow> transform \<Rightarrow> map_service \<Rightarrow> map_service" where
  "accept_match rid result ref_tf s =
     (let (rx, ry, ryaw) = ref_tf; c = cos ryaw; sn = sin ryaw;
          candidate = (rx + dx result * c - dy result * sn, ry + dx result * sn + dy result * c, wrap (ryaw + dyaw result));
          entered = s\<lparr>registration_rejections := ddel rid (registration_rejections s),
             transforms := dput rid (blend_transform s rid candidate) (transforms s),
             locked_dyaw := dput rid (dyaw result) (locked_dyaw s),
             registered := insert rid (registered s), registration_misses := dput rid 0 (registration_misses s)\<rparr>
      in case dget (transform_priors s) rid of
           None \<Rightarrow> entered
         | Some prior \<Rightarrow>
             if outside_prior candidate prior
             then evict rid ''outside configured prior''
                    (s\<lparr>transforms := dput rid prior (transforms s), locked_dyaw := ddel rid (locked_dyaw s)\<rparr>)
             else entered)"

definition reregister :: "estimator \<Rightarrow> string \<Rightarrow> map_service update" where
  "reregister est rid s =
     (if reference s = Some rid
      then (s\<lparr>transforms := (if dget (transforms s) rid = None then dput rid (0, 0, 0) (transforms s) else transforms s)\<rparr>, None)
      else let ref = (case reference s of None \<Rightarrow> [] | Some r \<Rightarrow> r) in
        if dget (robot_grids s) ref = None \<or> dget (robot_grids s) rid = None then (s, None)
        else let ref_tf = transform_in s ref; ryaw = snd (snd ref_tf);
                 grid_result = (let (yaw, window) = search_window s rid ryaw in fft est yaw window);
                 (s1, err) = (if dget (cloud_registrations s) rid = None \<and> dget (robot_clouds s) rid \<noteq> None
                              then update_cloud_registration est rid s else (s, None))
             in case err of Some e \<Rightarrow> (s1, Some e)
                | None \<Rightarrow>
                    (let cloud = dget (cloud_registrations s1) rid;
                         v = judge est grid_result cloud;
                         s2 = s1\<lparr>registrations := dput rid (v_result v) (registrations s1),
                                 registration_sources := dput rid (v_source v) (registration_sources s1)\<rparr>
                     in if v_accepted v then (accept_match rid (v_result v) ref_tf s2, None)
                        else (missed rid v (cloud \<noteq> None) (cloud_against_hold s2 rid ryaw cloud) s2, None)))"

subsection \<open>Uploads and the registration worker\<close>

definition mark_registration_due :: "string \<Rightarrow> map_service \<Rightarrow> map_service" where
  "mark_registration_due rid s =
     (if merge_mode s \<noteq> ''auto'' then s else s\<lparr>registration_due := insert rid (registration_due s)\<rparr>)"

definition update_z_offset :: "estimator \<Rightarrow> string \<Rightarrow> map_service \<Rightarrow> map_service" where
  "update_z_offset est rid s =
     (case reference s of None \<Rightarrow> s\<lparr>cloud_z_offsets := ddel rid (cloud_z_offsets s)\<rparr>
      | Some ref \<Rightarrow>
          if rid = ref then s\<lparr>cloud_z_offsets := ddel rid (cloud_z_offsets s)\<rparr>
          else case (dget (robot_clouds s) ref, dget (robot_clouds s) rid) of
            (Some (_ # _), Some (_ # _)) \<Rightarrow> s\<lparr>cloud_z_offsets := dput rid (height_shift est) (cloud_z_offsets s)\<rparr>
          | _ \<Rightarrow> s)"

definition register_and_merge :: "estimator \<Rightarrow> string \<Rightarrow> map_service update" where
  "register_and_merge est rid =
     seq_steps [reregister est rid, \<lambda>s. (update_z_offset est rid s, None), \<lambda>s. (remerge s, None)]"

text \<open>One round of the worker: any of the waiting robots may be taken.\<close>

definition worker_step :: "estimator \<Rightarrow> string \<Rightarrow> map_service update" where
  "worker_step est rid s =
     (if rid \<in> registration_due s
      then register_and_merge est rid (s\<lparr>registration_due := registration_due s - {rid}\<rparr>) else (s, None))"

definition cslam_check :: "estimator \<Rightarrow> string \<Rightarrow> map_service \<Rightarrow> map_service" where
  "cslam_check est rid s =
     (if reference s = Some rid \<or> \<not> in_common_frame s rid
      then s\<lparr>cslam_disagreement := ddel rid (cslam_disagreement s)\<rparr>
      else let ref = (case reference s of None \<Rightarrow> [] | Some r \<Rightarrow> r) in
        if dget (robot_grids s) ref = None \<or> dget (robot_grids s) rid = None then s
        else let result = fft est (Some 0) LOCKED_WINDOW_DEG;
                 s1 = s\<lparr>registrations := dput rid result (registrations s)\<rparr>
             in s1\<lparr>cslam_disagreement :=
                  (if CHECK_MIN_SUPPORT \<le> support result
                   then dput rid (hypot (dx result) (dy result), \<bar>dyaw result\<bar>, confident result) (cslam_disagreement s)
                   else ddel rid (cslam_disagreement s))\<rparr>)"

definition ingest :: "estimator \<Rightarrow> bool \<Rightarrow> string \<Rightarrow> grid_meta \<Rightarrow> int \<times> int \<Rightarrow> cells \<Rightarrow> map_service update" where
  "ingest est inline rid m shape cs s =
     (if shape \<noteq> (height m, width m) then (s, Some ValueError)
      else let s1 = s\<lparr>robot_grids := dput rid (m, cs) (robot_grids s),
               robot_revisions := dput rid ((case dget (robot_revisions s) rid of None \<Rightarrow> 0 | Some n \<Rightarrow> n) + 1) (robot_revisions s),
               reference := (if reference s = None then Some rid else reference s)\<rparr>
           in if \<not> inline then (s1, None)
              else seq_steps [\<lambda>s. if merge_mode s = ''auto'' then reregister est rid s
                                 else if merge_mode s = ''cslam'' then (cslam_check est rid s, None) else (s, None),
                              \<lambda>s. (remerge s, None)] s1)"

text \<open>The upload path: storing only, the transform catches up in the worker.\<close>

definition ingest_async :: "estimator \<Rightarrow> string \<Rightarrow> grid_meta \<Rightarrow> int \<times> int \<Rightarrow> cells \<Rightarrow> map_service update" where
  "ingest_async est rid m shape cs =
     seq_steps [ingest est False rid m shape cs, \<lambda>s. (mark_registration_due rid s, None)]"

definition cloud_targets :: "string \<Rightarrow> map_service \<Rightarrow> string list" where
  "cloud_targets rid s =
     (case reference s of None \<Rightarrow> []
      | Some ref \<Rightarrow>
          if merge_mode s \<noteq> ''auto'' then []
          else filter (\<lambda>r. r \<in> grid_ids s) (if rid = ref then filter (\<lambda>r. r \<noteq> ref) (keys (robot_clouds s)) else [rid]))"

definition set_cloud :: "estimator \<Rightarrow> bool \<Rightarrow> string \<Rightarrow> cloud \<Rightarrow> map_service update" where
  "set_cloud est inline rid points s =
     (let s1 = s\<lparr>robot_clouds := dput rid points (robot_clouds s)\<rparr>; targets = cloud_targets rid s1;
          renew = (\<lambda>r. seq_steps ((\<lambda>s. (s\<lparr>cloud_registrations := ddel r (cloud_registrations s)\<rparr>, None)) #
                    (if inline then [update_cloud_registration est r, reregister est r] else [])))
      in if targets = [] then (s1, None)
         else seq_steps (map renew targets @ (if inline then [\<lambda>s. (remerge s, None)] else [])) s1)"

definition set_cloud_async :: "estimator \<Rightarrow> string \<Rightarrow> cloud \<Rightarrow> map_service update" where
  "set_cloud_async est rid points =
     seq_steps [set_cloud est False rid points, \<lambda>s. (fold mark_registration_due (cloud_targets rid s) s, None)]"

subsection \<open>Resets\<close>

definition forget_registrations :: "map_service \<Rightarrow> map_service" where
  "forget_registrations s = s\<lparr>registrations := [], cloud_registrations := [], cloud_z_offsets := [],
     registration_sources := [], registration_rejections := [], registered := {}, registration_misses := [], locked_dyaw := []\<rparr>"

definition reset_all_robots :: "map_service \<Rightarrow> map_service \<times> string set" where
  "reset_all_robots s =
     (let ids = set (keys (robot_grids s)) \<union> set (keys (robot_clouds s)) \<union> scan_grids s \<union> network_grids s \<union> set (keys (slam_graphs s))
      in (remerge ((forget_registrations s)\<lparr>registration_due := {}, robot_grids := [], robot_revisions := [], slam_graphs := [],
            cslam_disagreement := [], robot_clouds := [], cloud_resets := cloud_resets s + 1, scan_grids := {}, network_grids := {},
            global_grid := None, global_map_seq := 0, common_poses := [], cslam_frames := [], nav_cache := [],
            transforms := transform_priors s,
            reference := (case transform_priors s of [] \<Rightarrow> None | (rid, _) # _ \<Rightarrow> Some rid)\<rparr>), ids))"

definition reset_one_robot :: "string \<Rightarrow> map_service \<Rightarrow> map_service \<times> string set" where
  "reset_one_robot rid s =
     (let existed = (rid \<in> grid_ids s \<or> dget (robot_clouds s) rid \<noteq> None \<or> rid \<in> scan_grids s \<or> rid \<in> network_grids s
            \<or> dget (slam_graphs s) rid \<noteq> None \<or> dget (common_poses s) rid \<noteq> None \<or> dget (cslam_frames s) rid \<noteq> None);
          prior = dget (transform_priors s) rid;
          s1 = s\<lparr>robot_grids := ddel rid (robot_grids s), robot_revisions := ddel rid (robot_revisions s),
            registrations := ddel rid (registrations s), cloud_registrations := ddel rid (cloud_registrations s),
            cloud_z_offsets := ddel rid (cloud_z_offsets s), registration_sources := ddel rid (registration_sources s),
            registration_rejections := ddel rid (registration_rejections s), registered := registered s - {rid},
            registration_misses := ddel rid (registration_misses s), locked_dyaw := ddel rid (locked_dyaw s),
            slam_graphs := ddel rid (slam_graphs s), cslam_disagreement := ddel rid (cslam_disagreement s),
            robot_clouds := ddel rid (robot_clouds s), cloud_resets := cloud_resets s + 1,
            scan_grids := scan_grids s - {rid}, network_grids := network_grids s - {rid},
            common_poses := ddel rid (common_poses s), cslam_frames := ddel rid (cslam_frames s),
            registration_due := registration_due s - {rid}, nav_cache := ddel rid (nav_cache s),
            transforms := (case prior of None \<Rightarrow> ddel rid (transforms s) | Some t \<Rightarrow> dput rid t (transforms s))\<rparr>;
          s2 = (if reference s = Some rid \<and> prior = None
                then (forget_registrations s1)\<lparr>reference := (case robot_grids s1 of [] \<Rightarrow> None | (r, _) # _ \<Rightarrow> Some r)\<rparr>
                else s1)
      in (remerge s2, if existed then {rid} else {}))"

definition reset_robot :: "string option \<Rightarrow> map_service \<Rightarrow> map_service \<times> string set" where
  "reset_robot which s = (case which of None \<Rightarrow> reset_all_robots s | Some rid \<Rightarrow> reset_one_robot rid s)"

definition reset :: "map_service \<Rightarrow> map_service" where
  "reset s = publish_map (initial_extent s, blank) ((forget_registrations s)\<lparr>robot_grids := [], robot_revisions := [],
     robot_clouds := [], cloud_resets := cloud_resets s + 1, slam_graphs := [], cslam_disagreement := [], common_poses := [],
     cslam_frames := [], global_grid := None, global_map_seq := 0, nav_cache := [], transforms := transform_priors s,
     scan_grids := {}, network_grids := {}\<rparr>)"

subsection \<open>What the pose-graph back end sends\<close>

definition pose_numbers :: "json \<Rightarrow> pyerr + transform" where
  "pose_numbers pose =
     (let num = (\<lambda>k. real_of (jget (obj_fields pose) k (JFloat (Fin 0)))) in
      ebind (num ''x'') (\<lambda>x. ebind (num ''y'') (\<lambda>y. ebind (num ''yaw'') (\<lambda>w. Inr (x, y, w)))))"

definition set_common_pose :: "string \<Rightarrow> json \<Rightarrow> map_service update" where
  "set_common_pose rid pose = assign (\<lambda>t s. s\<lparr>common_poses := dput rid t (common_poses s)\<rparr>) (pose_numbers pose)"

definition common_pose :: "string \<Rightarrow> map_service \<Rightarrow> transform option" where
  "common_pose rid s =
     (if \<not> is_pose_graph_mode (merge_mode s) \<or> rid \<notin> global_members s then None
      else case dget (common_poses s) rid of None \<Rightarrow> None
           | Some (x, y, w) \<Rightarrow> (let t = common_to_world s; (wx, wy) = turned t (x, y) in Some (wx, wy, wrap (w + snd (snd t)))))"

definition set_global_grid :: "grid_meta \<Rightarrow> int \<times> int \<Rightarrow> cells \<Rightarrow> map_service update" where
  "set_global_grid m shape cs s =
     (if \<not> is_pose_graph_mode (merge_mode s) then (s, None)
      else if shape \<noteq> (height m, width m) then (s, Some ValueError)
      else (remerge (s\<lparr>global_grid := Some (m, cs), global_map_seq := global_map_seq s + 1\<rparr>), None))"

text \<open>A robot was removed from the pose graph: the fused grid describes the old graph.\<close>

definition drop_global :: "map_service \<Rightarrow> map_service" where
  "drop_global s = remerge (s\<lparr>global_grid := None, global_map_seq := global_map_seq s + 1\<rparr>)"

definition set_cslam_origin :: "string \<Rightarrow> transform \<Rightarrow> string \<Rightarrow> bool \<Rightarrow> map_service \<Rightarrow> map_service" where
  "set_cslam_origin rid t frame do_merge s =
     (let s1 = s\<lparr>cslam_frames := dput rid frame (cslam_frames s)\<rparr> in
      if \<not> is_pose_graph_mode (merge_mode s) then s1
      else let s2 = s1\<lparr>transforms := dput rid t (transforms s), reference := (if reference s = None then Some rid else reference s)\<rparr>
           in if do_merge then remerge s2 else s2)"

definition set_slam_graph :: "string \<Rightarrow> json \<Rightarrow> map_service \<Rightarrow> map_service" where
  "set_slam_graph rid g s = s\<lparr>slam_graphs := dput rid g (slam_graphs s)\<rparr>"

definition origin_step :: "(json \<Rightarrow> string) \<Rightarrow> string \<times> json \<Rightarrow> map_service update" where
  "origin_step rep p =
     (let (rid, origin) = p; f = jget (obj_fields origin) ''frame'' JNull; frame = (if truthy f then py_str rep f else []) in
      if \<not> is_obj origin then (\<lambda>s. (s, None))
      else assign (\<lambda>t. set_cslam_origin rid t frame False) (pose_numbers origin))"

text \<open>A snapshot of the back end: graphs, then origins, then poses, then one merge. An origin or a pose
  that is not a number raises where it stands, with what came before already stored.\<close>

definition or_empty_obj :: "json \<Rightarrow> json" where
  "or_empty_obj v = (if truthy v then v else JObj [])"

definition apply_slam_update :: "(json \<Rightarrow> string) \<Rightarrow> (string \<times> json) list \<Rightarrow> map_service update" where
  "apply_slam_update rep payload s =
     (let graphs = or_empty_obj (jget payload ''graphs'' JNull); origins = or_empty_obj (jget payload ''origins'' JNull);
          poses = or_empty_obj (jget payload ''common_poses'' JNull)
      in if \<not> is_obj graphs \<or> \<not> is_obj origins then (s, Some ValueError)
         else seq_steps
           (map (\<lambda>(rid, g) s. (if is_obj g then set_slam_graph rid g s else s, None)) (obj_fields graphs)
            @ map (origin_step rep) (obj_fields origins)
            @ (if is_obj poses then map (\<lambda>(rid, p). if is_obj p then set_common_pose rid p else (\<lambda>s. (s, None))) (obj_fields poses) else [])
            @ [\<lambda>s. (remerge s, None)]) s)"

subsection \<open>The grid a robot plans in\<close>

definition warp_to_robot_frame :: "grid_meta \<Rightarrow> cells \<Rightarrow> transform \<Rightarrow> grid_meta \<times> cells" where
  "warp_to_robot_frame m cs t =
     (let (tx, ty, yaw) = t; res = resolution m; c = cos yaw; sn = sin yaw; pad = 1;
          corners = List.product [origin_x m, far_x m] [origin_y m, far_y m];
          xs = map (\<lambda>(wx, wy). (wx - tx) * c + (wy - ty) * sn) corners;
          ys = map (\<lambda>(wx, wy). - (wx - tx) * sn + (wy - ty) * c) corners;
          min_x = of_int \<lfloor>(min_list xs - pad) / res\<rfloor> * res; max_x = of_int \<lceil>(Max (set xs) + pad) / res\<rceil> * res;
          min_y = of_int \<lfloor>(min_list ys - pad) / res\<rfloor> * res; max_y = of_int \<lceil>(Max (set ys) + pad) / res\<rceil> * res;
          w = \<lparr>resolution = res, width = max 1 (round_even ((max_x - min_x) / res)),
               height = max 1 (round_even ((max_y - min_y) / res)), origin_x = min_x, origin_y = min_y\<rparr>
      in (w, (\<lambda>r col. let x = centre_x w col; y = centre_y w r; wx = tx + x * c - y * sn; wy = ty + x * sn + y * c;
                         gc = \<lfloor>(wx - origin_x m) / res\<rfloor>; gr = \<lfloor>(wy - origin_y m) / res\<rfloor>
                     in if inside m gr gc then cs gr gc else UNKNOWN)))"

definition revision_of :: "map_service \<Rightarrow> string \<Rightarrow> int" where
  "revision_of s rid = (case dget (robot_revisions s) rid of None \<Rightarrow> 0 | Some n \<Rightarrow> n)"

definition nav_grid_seq :: "string \<Rightarrow> map_service \<Rightarrow> int option" where
  "nav_grid_seq rid s =
     (if rid \<in> global_members s \<and> global_grid s \<noteq> None then Some (global_map_seq s)
      else if rid \<in> grid_ids s then Some (revision_of s rid) else None)"

definition nav_local :: "string \<Rightarrow> map_service \<Rightarrow> map_service \<times> (grid_meta \<times> cells \<times> int) option" where
  "nav_local rid s =
     (case dget (robot_grids s) rid of None \<Rightarrow> (s, None)
      | Some (m, cs) \<Rightarrow>
          (let seq = revision_of s rid;
               renewed = (s\<lparr>nav_cache := dput rid (Nav_Local seq m cs) (nav_cache s)\<rparr>, Some (m, cs, seq))
           in case dget (nav_cache s) rid of
                Some (Nav_Local q m' cs') \<Rightarrow> if q = seq then (s, Some (m', cs', seq)) else renewed
              | _ \<Rightarrow> renewed))"

definition nav_global :: "string \<Rightarrow> grid_meta \<Rightarrow> cells \<Rightarrow> map_service \<Rightarrow> map_service \<times> (grid_meta \<times> cells \<times> int) option" where
  "nav_global rid m cs s =
     (let seq = global_map_seq s; tf = transform_in s rid; (m', cs') = warp_to_robot_frame m cs tf;
          renewed = (s\<lparr>nav_cache := dput rid (Nav_Global seq tf m' cs') (nav_cache s)\<rparr>, Some (m', cs', seq))
      in case dget (nav_cache s) rid of
           Some (Nav_Global q t m'' cs'') \<Rightarrow> if q = seq \<and> t = tf then (s, Some (m'', cs'', seq)) else renewed
         | _ \<Rightarrow> renewed)"

text \<open>The warp runs outside the lock in the code; here a request is one step.\<close>

definition nav_grid :: "string \<Rightarrow> map_service \<Rightarrow> map_service \<times> (grid_meta \<times> cells \<times> int) option" where
  "nav_grid rid s =
     (case global_grid s of
        Some (m, cs) \<Rightarrow> if rid \<in> global_members s then nav_global rid m cs s else nav_local rid s
      | None \<Rightarrow> nav_local rid s)"

end
