(* ===== verification/Map_Registration.thy ===== *)
theory Map_Registration
  imports Map_Service
begin

text \<open>
  What the map service guarantees about registration. An event is one call that changes its state;
  the set-up calls come first, as in \<open>configure\<close>; a robot that says hello in the merged frame has its
  transform set again. The invariant speaks of one robot at a time:
  whether it is registered, how often it missed, whether its search is locked, and how far its
  transform is from the configured start pose.
\<close>

subsection \<open>Events\<close>

datatype map_op =
    Ingest estimator bool string grid_meta "int \<times> int" cells
  | Ingest_Async estimator string grid_meta "int \<times> int" cells
  | Set_Cloud estimator bool string cloud
  | Set_Cloud_Async estimator string cloud
  | Worker estimator string
  | Reset_Robot "string option"
  | Reset_Service
  | Set_Excluded "string list"
  | Set_Global_Grid grid_meta "int \<times> int" cells
  | Drop_Global
  | Set_Origin string transform string bool
  | Set_Graph string json
  | Slam_Update "json \<Rightarrow> string" "(string \<times> json) list"
  | Nav_Request string
  | Merged_Hello string

fun map_step :: "map_op \<Rightarrow> map_service \<Rightarrow> map_service" where
  "map_step (Ingest est inline rid m shape cs) s = fst (ingest est inline rid m shape cs s)"
| "map_step (Ingest_Async est rid m shape cs) s = fst (ingest_async est rid m shape cs s)"
| "map_step (Set_Cloud est inline rid points) s = fst (set_cloud est inline rid points s)"
| "map_step (Set_Cloud_Async est rid points) s = fst (set_cloud_async est rid points s)"
| "map_step (Worker est rid) s = fst (worker_step est rid s)"
| "map_step (Reset_Robot which) s = fst (reset_robot which s)"
| "map_step Reset_Service s = reset s"
| "map_step (Set_Excluded rids) s = set_excluded rids s"
| "map_step (Set_Global_Grid m shape cs) s = fst (set_global_grid m shape cs s)"
| "map_step Drop_Global s = drop_global s"
| "map_step (Set_Origin rid t frame do_merge) s = set_cslam_origin rid t frame do_merge s"
| "map_step (Set_Graph rid g) s = set_slam_graph rid g s"
| "map_step (Slam_Update rep payload) s = fst (apply_slam_update rep payload s)"
| "map_step (Nav_Request rid) s = fst (nav_grid rid s)"
| "map_step (Merged_Hello rid) s = set_transform rid (0, 0, 0) s"

definition configure :: "real \<Rightarrow> real \<Rightarrow> string \<Rightarrow> string \<Rightarrow> (string \<times> transform) list \<Rightarrow> map_service" where
  "configure res size_m mode conflict starts =
     fold (\<lambda>(rid, t). set_transform rid t) starts
       (set_conflict_mode conflict (set_mode mode (new_map_service res size_m)))"

subsection \<open>What the operations leave alone\<close>

lemma publish_map_simps [simp]:
  "reference (publish_map wm s) = reference s" "robot_grids (publish_map wm s) = robot_grids s"
  "robot_revisions (publish_map wm s) = robot_revisions s" "merge_mode (publish_map wm s) = merge_mode s"
  "transforms (publish_map wm s) = transforms s" "transform_priors (publish_map wm s) = transform_priors s"
  "registered (publish_map wm s) = registered s" "registration_rejections (publish_map wm s) = registration_rejections s"
  "registration_misses (publish_map wm s) = registration_misses s" "locked_dyaw (publish_map wm s) = locked_dyaw s"
  "registration_due (publish_map wm s) = registration_due s" "nav_cache (publish_map wm s) = nav_cache s"
  "global_grid (publish_map wm s) = global_grid s" "global_map_seq (publish_map wm s) = global_map_seq s"
  "excluded (publish_map wm s) = excluded s" "robot_clouds (publish_map wm s) = robot_clouds s" "cloud_registrations (publish_map wm s) = cloud_registrations s"
  by (simp_all add: publish_map_def)

lemma remerge_simps [simp]:
  "reference (remerge s) = reference s" "robot_grids (remerge s) = robot_grids s"
  "robot_revisions (remerge s) = robot_revisions s" "merge_mode (remerge s) = merge_mode s"
  "transforms (remerge s) = transforms s" "transform_priors (remerge s) = transform_priors s"
  "registered (remerge s) = registered s" "registration_rejections (remerge s) = registration_rejections s"
  "registration_misses (remerge s) = registration_misses s" "locked_dyaw (remerge s) = locked_dyaw s"
  "registration_due (remerge s) = registration_due s" "nav_cache (remerge s) = nav_cache s"
  "global_grid (remerge s) = global_grid s" "global_map_seq (remerge s) = global_map_seq s"
  "excluded (remerge s) = excluded s" "robot_clouds (remerge s) = robot_clouds s" "cloud_registrations (remerge s) = cloud_registrations s"
  by (simp_all add: remerge_def)

subsection \<open>The invariant\<close>

definition robot_ok :: "map_service \<Rightarrow> string \<Rightarrow> bool" where
  "robot_ok s rid \<longleftrightarrow>
     (rid \<in> registered s \<longrightarrow> dget (registration_rejections s) rid = None
        \<and> (\<exists>t. dget (transforms s) rid = Some t \<and> (\<forall>prior. dget (transform_priors s) rid = Some prior \<longrightarrow> \<not> outside_prior t prior)))
     \<and> misses_of s rid < REGISTRATION_MISS_LIMIT
     \<and> (rid \<notin> registered s \<longrightarrow> misses_of s rid = 0 \<and> dget (locked_dyaw s) rid = None)"

definition map_ok :: "map_service \<Rightarrow> bool" where
  "map_ok s \<longleftrightarrow> (\<forall>rid. robot_ok s rid)
     \<and> (merge_mode s \<noteq> ''auto'' \<longrightarrow> registered s = {} \<and> registration_due s = {})"

text \<open>The fields the invariant reads.\<close>

definition same_robots :: "map_service \<Rightarrow> map_service \<Rightarrow> bool" where
  "same_robots s s' \<longleftrightarrow> registered s' = registered s \<and> registration_rejections s' = registration_rejections s
     \<and> registration_misses s' = registration_misses s \<and> locked_dyaw s' = locked_dyaw s
     \<and> transforms s' = transforms s \<and> transform_priors s' = transform_priors s \<and> merge_mode s' = merge_mode s"

lemma robot_ok_same: "same_robots s s' \<Longrightarrow> robot_ok s' rid = robot_ok s rid"
  by (simp add: robot_ok_def same_robots_def misses_of_def)

lemma map_ok_same: "map_ok s \<Longrightarrow> same_robots s s' \<Longrightarrow> registration_due s' = registration_due s \<Longrightarrow> map_ok s'"
  using robot_ok_same [of s s'] by (simp add: map_ok_def same_robots_def)

lemma map_ok_forgotten:
  assumes "map_ok s" and "registered s' = {}" and "registration_misses s' = []" and "locked_dyaw s' = []"
    and "registration_due s' \<subseteq> registration_due s" and "merge_mode s' = merge_mode s"
  shows "map_ok s'"
  using assms by (auto simp: map_ok_def robot_ok_def misses_of_def REGISTRATION_MISS_LIMIT_def)

text \<open>An update of one robot's entries leaves the others as they are.\<close>

definition only_robot :: "string \<Rightarrow> map_service \<Rightarrow> map_service \<Rightarrow> bool" where
  "only_robot rid s s' \<longleftrightarrow> merge_mode s' = merge_mode s \<and> registration_due s' \<subseteq> registration_due s \<and>
     (\<forall>r. r \<noteq> rid \<longrightarrow> (r \<in> registered s' \<longleftrightarrow> r \<in> registered s)
        \<and> dget (registration_rejections s') r = dget (registration_rejections s) r
        \<and> dget (registration_misses s') r = dget (registration_misses s) r
        \<and> dget (locked_dyaw s') r = dget (locked_dyaw s) r
        \<and> dget (transforms s') r = dget (transforms s) r
        \<and> dget (transform_priors s') r = dget (transform_priors s) r)"

lemma map_ok_robot:
  assumes "map_ok s" and "only_robot rid s s'" and "robot_ok s' rid" and "merge_mode s \<noteq> ''auto'' \<Longrightarrow> rid \<notin> registered s'"
  shows "map_ok s'"
proof -
  have "robot_ok s' r" for r
  proof (cases "r = rid")
    case False
    then have "robot_ok s' r = robot_ok s r"
      using assms(2) by (simp add: only_robot_def robot_ok_def misses_of_def)
    then show ?thesis using assms(1) by (simp add: map_ok_def)
  qed (simp add: assms(3))
  moreover have "registered s' = {}" if "merge_mode s \<noteq> ''auto''"
    using assms that by (auto simp: map_ok_def only_robot_def)
  ultimately show ?thesis
    using assms(1,2) by (auto simp: map_ok_def only_robot_def)
qed

subsection \<open>Smoothing stays near the configured pose\<close>

lemma near_prior: "\<not> outside_prior (x, y, w) (px, py, pw) \<longleftrightarrow> hypot (x - px) (y - py) \<le> 2 \<and> \<bar>wrap (w - pw)\<bar> \<le> radians 30"
  by (auto simp: outside_prior_def)

lemma wrap_split: "wrap w = w + 2 * pi * of_int (- \<lfloor>(w + pi) / (2 * pi)\<rfloor>)"
  by (simp add: wrap_turns)

lemma wrap_inner: "wrap (wrap v + w) = wrap (v + w)"
proof -
  let ?k = "- \<lfloor>(v + pi) / (2 * pi)\<rfloor>"
  have "wrap v + w = v + w + 2 * pi * of_int ?k" by (simp add: wrap_turns)
  then show ?thesis by (simp only: wrap_shift)
qed

lemma wrap_small: "\<bar>d\<bar> \<le> radians 60 \<Longrightarrow> wrap d = d"
  using pi_gt_zero unfolding radians_def by (intro wrap_id) linarith+

lemma blend_yaw:
  assumes "\<bar>wrap (y0 - p)\<bar> \<le> radians 30" and "\<bar>wrap (y1 - p)\<bar> \<le> radians 30" and "0 \<le> a" and "a \<le> 1"
  shows "\<bar>wrap (wrap (y0 + a * wrap (y1 - y0)) - p)\<bar> \<le> radians 30"
proof -
  let ?d0 = "wrap (y0 - p)" and ?d1 = "wrap (y1 - p)"
  have half: "radians 60 = 2 * radians 30" by (simp add: radians_def)
  have "wrap (y1 - y0) = wrap (?d1 + - (y0 - p))" using wrap_inner [of "y1 - p" "- (y0 - p)"] by simp
  also have "\<dots> = wrap (?d1 - ?d0)"
    using wrap_shift [of "?d1 - (y0 - p)" "\<lfloor>(y0 - p + pi) / (2 * pi)\<rfloor>"] by (simp add: wrap_turns [of "y0 - p"] algebra_simps)
  also have "\<dots> = ?d1 - ?d0" using assms(1,2) by (intro wrap_small) (simp add: half abs_le_iff)
  finally have diff: "wrap (y1 - y0) = ?d1 - ?d0" .
  have "wrap (wrap (y0 + a * (?d1 - ?d0)) - p) = wrap (y0 - p + a * (?d1 - ?d0))"
    using wrap_inner [of "y0 + a * (?d1 - ?d0)" "- p"] by (simp add: algebra_simps)
  also have "\<dots> = wrap (?d0 + a * (?d1 - ?d0))" by (simp only: wrap_inner)
  finally have out: "wrap (wrap (y0 + a * (?d1 - ?d0)) - p) = wrap (?d0 + a * (?d1 - ?d0))" .
  have "?d0 + a * (?d1 - ?d0) = (1 - a) * ?d0 + a * ?d1" by (simp add: algebra_simps)
  moreover have "\<bar>(1 - a) * ?d0 + a * ?d1\<bar> \<le> (1 - a) * \<bar>?d0\<bar> + a * \<bar>?d1\<bar>"
    using assms(3,4) by (intro order_trans [OF abs_triangle_ineq]) (simp add: abs_mult)
  moreover have "(1 - a) * \<bar>?d0\<bar> + a * \<bar>?d1\<bar> \<le> radians 30"
    using assms by (intro convex_bound_le) simp_all
  ultimately have small: "\<bar>?d0 + a * (?d1 - ?d0)\<bar> \<le> radians 30" by linarith
  then have "wrap (?d0 + a * (?d1 - ?d0)) = ?d0 + a * (?d1 - ?d0)"
    by (intro wrap_small) (simp add: half)
  then show ?thesis using small by (simp add: diff out)
qed

lemma blend_distance:
  assumes "hypot u v \<le> 2" and "hypot u' v' \<le> 2" and "0 \<le> a" and "a \<le> 1"
  shows "hypot (u + a * (u' - u)) (v + a * (v' - v)) \<le> 2"
proof -
  have sq: "u\<^sup>2 + v\<^sup>2 \<le> 4" "u'\<^sup>2 + v'\<^sup>2 \<le> 4"
    using assms(1,2) by (simp_all add: hypot_le_iff)
  have "(1 - a) * (u\<^sup>2 + v\<^sup>2) + a * (u'\<^sup>2 + v'\<^sup>2) - ((u + a * (u' - u))\<^sup>2 + (v + a * (v' - v))\<^sup>2)
      = a * (1 - a) * ((u - u')\<^sup>2 + (v - v')\<^sup>2)"
    by (simp add: power2_eq_square algebra_simps)
  moreover have "0 \<le> a * (1 - a) * ((u - u')\<^sup>2 + (v - v')\<^sup>2)" using assms(3,4) by simp
  moreover have "(1 - a) * (u\<^sup>2 + v\<^sup>2) + a * (u'\<^sup>2 + v'\<^sup>2) \<le> 4"
    using assms(3,4) sq by (intro convex_bound_le) simp_all
  ultimately show ?thesis by (simp add: hypot_le_iff)
qed

lemma blend_near_prior:
  assumes "dget (transforms s) rid = Some t" and "\<not> outside_prior t prior" and "\<not> outside_prior candidate prior"
  shows "\<not> outside_prior (blend_transform s rid candidate) prior"
proof -
  obtain x y w where t: "t = (x, y, w)" by (cases t)
  obtain cx cy cw where c: "candidate = (cx, cy, cw)" by (cases candidate)
  obtain px py pw where p: "prior = (px, py, pw)" by (cases prior)
  let ?a = TRANSFORM_SMOOTHING
  have a: "0 \<le> ?a" "?a \<le> 1" by (simp_all add: TRANSFORM_SMOOTHING_def)
  have near: "hypot (x - px) (y - py) \<le> 2" "\<bar>wrap (w - pw)\<bar> \<le> radians 30"
    "hypot (cx - px) (cy - py) \<le> 2" "\<bar>wrap (cw - pw)\<bar> \<le> radians 30"
    using assms(2,3) by (simp_all add: t c p near_prior)
  have "hypot (x + ?a * (cx - x) - px) (y + ?a * (cy - y) - py) \<le> 2"
    using blend_distance [OF near(1,3) a] by (simp add: algebra_simps)
  moreover have "\<bar>wrap (wrap (w + ?a * wrap (cw - w)) - pw)\<bar> \<le> radians 30"
    by (rule blend_yaw [OF near(2,4) a])
  ultimately show ?thesis
    using assms(1,3) by (simp add: blend_transform_def t c p near_prior Let_def)
qed

subsection \<open>One registration\<close>

lemma registered_near:
  "robot_ok s rid \<Longrightarrow> rid \<in> registered s \<Longrightarrow> dget (transform_priors s) rid = Some prior
    \<Longrightarrow> \<exists>t. dget (transforms s) rid = Some t \<and> \<not> outside_prior t prior"
  unfolding robot_ok_def by blast

lemma map_ok_robotD: "map_ok s \<Longrightarrow> robot_ok s rid"
  by (simp add: map_ok_def)

lemma update_cloud_same:
  "same_robots s (fst (update_cloud_registration est rid s))"
  "registration_due (fst (update_cloud_registration est rid s)) = registration_due s"
  "robot_grids (fst (update_cloud_registration est rid s)) = robot_grids s"
  by (simp_all add: update_cloud_registration_def same_robots_def split: option.split prod.split)

lemma misses_of_dput: "misses_of (s\<lparr>registration_misses := dput r n (registration_misses s)\<rparr>) rid = (if rid = r then n else misses_of s rid)"
  by (simp add: misses_of_def dict_simps)

lemma evict_ok:
  assumes "map_ok s'" and "only_robot rid s' s" and "dget (locked_dyaw s) rid = None"
  shows "map_ok (evict rid why s)"
  using assms(1)
proof (rule map_ok_robot [of _ rid])
  show "only_robot rid s' (evict rid why s)"
    using assms(2) by (simp add: only_robot_def evict_def dict_simps)
  show "robot_ok (evict rid why s) rid"
    using assms(3) by (simp add: robot_ok_def evict_def misses_of_def dict_simps REGISTRATION_MISS_LIMIT_def)
qed (simp add: evict_def)

lemma missed_ok:
  assumes "map_ok s"
  shows "map_ok (missed rid v has_cloud against s)"
proof -
  let ?s1 = "s\<lparr>locked_dyaw := ddel rid (locked_dyaw s), registration_misses := dput rid (misses_of s rid + 1) (registration_misses s)\<rparr>"
  have only: "only_robot rid s ?s1" by (simp add: only_robot_def dict_simps)
  show ?thesis
  proof (cases "rid \<in> registered s \<and> misses_of s rid + 1 < REGISTRATION_MISS_LIMIT \<and> \<not> against")
    case True
    have "robot_ok s rid" using assms by (simp add: map_ok_def)
    then have "robot_ok ?s1 rid" using True by (simp add: robot_ok_def misses_of_def dict_simps)
    moreover have "rid \<notin> registered ?s1" if "merge_mode s \<noteq> ''auto''" using assms that by (simp add: map_ok_def)
    ultimately have "map_ok ?s1" by (rule map_ok_robot [OF assms only])
    then show ?thesis using True by (simp add: missed_def Let_def)
  next
    case False
    then have "missed rid v has_cloud against s = evict rid (if v_blocked v \<or> against then ''grid/cloud yaw disagreement''
        else if has_cloud then ''ambiguous grid and point-cloud match'' else ''ambiguous occupancy match'') ?s1"
      unfolding missed_def Let_def by (simp only: if_False)
    then show ?thesis using evict_ok [OF assms only] by (simp add: dict_simps)
  qed
qed

lemma accept_match_ok:
  assumes "map_ok s" and "merge_mode s = ''auto''"
  shows "map_ok (accept_match rid result ref_tf s)"
proof -
  obtain rx ry ryaw where ref: "ref_tf = (rx, ry, ryaw)" by (cases ref_tf)
  define candidate where "candidate = (rx + dx result * cos ryaw - dy result * sin ryaw,
    ry + dx result * sin ryaw + dy result * cos ryaw, wrap (ryaw + dyaw result))"
  define entered where "entered = s\<lparr>registration_rejections := ddel rid (registration_rejections s),
     transforms := dput rid (blend_transform s rid candidate) (transforms s),
     locked_dyaw := dput rid (dyaw result) (locked_dyaw s),
     registered := insert rid (registered s), registration_misses := dput rid 0 (registration_misses s)\<rparr>"
  have in_ok: "map_ok entered" if near: "\<And>prior. dget (transform_priors s) rid = Some prior \<Longrightarrow> \<not> outside_prior candidate prior"
  proof (rule map_ok_robot [OF assms(1)])
    show "only_robot rid s entered" by (simp add: only_robot_def entered_def dict_simps)
    have "\<not> outside_prior (blend_transform s rid candidate) prior" if p: "dget (transform_priors s) rid = Some prior" for prior
    proof (cases "rid \<in> registered s")
      case True
      then obtain t where "dget (transforms s) rid = Some t" "\<not> outside_prior t prior"
        using registered_near [OF map_ok_robotD [OF assms(1)] _ p] by blast
      then show ?thesis using near [OF p] by (rule blend_near_prior)
    next
      case False
      then show ?thesis using near [OF p] by (simp add: blend_transform_def split: option.split prod.split)
    qed
    then show "robot_ok entered rid"
      by (simp add: robot_ok_def entered_def misses_of_def dict_simps REGISTRATION_MISS_LIMIT_def)
  qed (simp add: assms(2))
  have out_ok: "map_ok (evict rid why (s\<lparr>transforms := dput rid prior (transforms s), locked_dyaw := ddel rid (locked_dyaw s)\<rparr>))" for why prior
    using assms(1) by (rule evict_ok) (simp_all add: only_robot_def dict_simps)
  show ?thesis
    unfolding accept_match_def ref Let_def prod.case candidate_def [symmetric] entered_def [symmetric]
    using in_ok out_ok by (cases "dget (transform_priors s) rid") simp_all
qed

lemma reregister_ok:
  assumes "map_ok s" and "merge_mode s = ''auto''"
  shows "map_ok (fst (reregister est rid s))"
proof -
  have reference: "map_ok (s\<lparr>transforms := (if dget (transforms s) rid = None then dput rid (0, 0, 0) (transforms s) else transforms s)\<rparr>)"
  proof (rule map_ok_robot [OF assms(1), of rid])
    let ?s = "s\<lparr>transforms := (if dget (transforms s) rid = None then dput rid (0, 0, 0) (transforms s) else transforms s)\<rparr>"
    show "only_robot rid s ?s" by (simp add: only_robot_def dict_simps)
    show "robot_ok ?s rid" using assms(1) unfolding map_ok_def robot_ok_def by (force simp: misses_of_def)
  qed (simp add: assms(2))
  let ?c = "if dget (cloud_registrations s) rid = None \<and> dget (robot_clouds s) rid \<noteq> None
    then update_cloud_registration est rid s else (s, None)"
  obtain s1 err where c: "?c = (s1, err)" by (cases ?c)
  have s1: "map_ok s1" "merge_mode s1 = ''auto''"
  proof -
    have "same_robots s s1 \<and> registration_due s1 = registration_due s"
      using c update_cloud_same(1) [of s est rid] update_cloud_same(2) [of est rid s]
      by (auto simp: same_robots_def split: if_splits)
    then show "map_ok s1" "merge_mode s1 = ''auto''"
      using map_ok_same [OF assms(1)] assms(2) by (auto simp: same_robots_def)
  qed
  have s2: "map_ok (s1\<lparr>registrations := r, registration_sources := q\<rparr>)"
    "merge_mode (s1\<lparr>registrations := r, registration_sources := q\<rparr>) = ''auto''" for r q
    using map_ok_same [OF s1(1)] s1(2) by (simp_all add: same_robots_def)
  show ?thesis
    unfolding reregister_def Let_def c prod.case
    using reference assms(1) s1(1) accept_match_ok [OF s2] missed_ok [OF s2(1)] by (simp split: option.split)
qed

subsection \<open>Every operation\<close>

text \<open>Updates of fields that the invariant does not read.\<close>

lemma same_keeps:
  "same_robots s s' \<Longrightarrow> registration_due s' = registration_due s \<Longrightarrow> map_ok s \<Longrightarrow> map_ok s'"
  by (rule map_ok_same)

lemma remerge_ok: "map_ok s \<Longrightarrow> map_ok (remerge s)"
  by (rule same_keeps [of s]) (simp_all add: same_robots_def)

lemma due_ok: "map_ok s \<Longrightarrow> map_ok (mark_registration_due rid s)"
  by (cases "merge_mode s = ''auto''") (auto simp: map_ok_def mark_registration_due_def robot_ok_def misses_of_def)

lemma keeps_remerge: "keeps map_ok (\<lambda>s. (remerge s, None))"
  by (rule keeps_set) (rule remerge_ok)

lemma keeps_update_cloud: "keeps map_ok (update_cloud_registration est rid)"
  by (rule keepsI) (rule same_keeps [OF update_cloud_same(1,2)])

text \<open>The mode does not change, so that a sequence of steps stays in the automatic mode.\<close>

definition auto_ok :: "map_service \<Rightarrow> bool" where
  "auto_ok s \<longleftrightarrow> map_ok s \<and> merge_mode s = ''auto''"

lemma reregister_mode: "merge_mode (fst (reregister est rid s)) = merge_mode s"
proof -
  have "merge_mode (fst (update_cloud_registration est rid s)) = merge_mode s"
    using update_cloud_same(1) [of s est rid] by (simp add: same_robots_def)
  moreover have "merge_mode (missed rid v hc ag s') = merge_mode s'" for v hc ag s'
    by (simp add: missed_def evict_def Let_def)
  moreover have "merge_mode (accept_match rid r tf s') = merge_mode s'" for r tf s'
    by (simp add: accept_match_def evict_def Let_def split: prod.split option.split)
  ultimately show ?thesis
    by (cases "update_cloud_registration est rid s") (simp add: reregister_def Let_def split: option.split)
qed

lemma keeps_auto_reregister: "keeps auto_ok (reregister est rid)"
  by (rule keepsI) (simp add: auto_ok_def reregister_ok reregister_mode)

lemma keeps_auto_update_cloud: "keeps auto_ok (update_cloud_registration est rid)"
proof (rule keepsI)
  fix s assume s: "auto_ok s"
  have "map_ok (fst (update_cloud_registration est rid s))"
    using s by (intro keepsD [OF keeps_update_cloud]) (simp add: auto_ok_def)
  then show "auto_ok (fst (update_cloud_registration est rid s))"
    using s update_cloud_same(1) [of s est rid] by (simp add: auto_ok_def same_robots_def)
qed

lemma keeps_auto_set:
  assumes "\<And>s. same_robots s (f s)" and "\<And>s. registration_due (f s) = registration_due s"
  shows "keeps auto_ok (\<lambda>s. (f s, None))"
proof (rule keepsI)
  fix s assume s: "auto_ok s"
  then have "map_ok (f s)" using same_keeps [OF assms(1,2), of s] by (simp add: auto_ok_def)
  then show "auto_ok (fst (f s, None))"
    using s assms(1) [of s] by (simp add: auto_ok_def same_robots_def)
qed

lemma z_offset_same: "same_robots s (update_z_offset est rid s)" "registration_due (update_z_offset est rid s) = registration_due s"
  by (simp_all add: update_z_offset_def same_robots_def split: option.split list.split)

lemma remerge_same: "same_robots s (remerge s)" "registration_due (remerge s) = registration_due s"
  by (simp_all add: same_robots_def)

lemma worker_ok:
  assumes "map_ok s"
  shows "map_ok (fst (worker_step est rid s))"
proof (cases "rid \<in> registration_due s")
  case True
  let ?s = "s\<lparr>registration_due := registration_due s - {rid}\<rparr>"
  have "merge_mode s = ''auto''" using assms True by (auto simp: map_ok_def)
  then have "auto_ok ?s" using assms by (simp add: auto_ok_def map_ok_def robot_ok_def misses_of_def)
  moreover have "keeps auto_ok (register_and_merge est rid)"
    unfolding register_and_merge_def
    by (rule keeps_seq) (simp add: keeps_auto_reregister keeps_auto_set z_offset_same remerge_same)
  ultimately have "auto_ok (fst (register_and_merge est rid ?s))" by (rule keepsD [rotated])
  then show ?thesis using True by (simp add: worker_step_def auto_ok_def)
qed (use assms in \<open>simp add: worker_step_def\<close>)

lemma ingest_ok:
  assumes "map_ok s"
  shows "map_ok (fst (ingest est inline rid m shape cs s))"
proof (cases "shape = (height m, width m)")
  case True
  define s1 where "s1 = s\<lparr>robot_grids := dput rid (m, cs) (robot_grids s),
     robot_revisions := dput rid ((case dget (robot_revisions s) rid of None \<Rightarrow> 0 | Some n \<Rightarrow> n) + 1) (robot_revisions s),
     reference := (if reference s = None then Some rid else reference s)\<rparr>"
  have "same_robots s s1" "registration_due s1 = registration_due s" by (simp_all add: s1_def same_robots_def)
  then have s1: "map_ok s1" using assms by (rule same_keeps)
  have "keeps map_ok (\<lambda>s. if merge_mode s = ''auto'' then reregister est rid s
      else if merge_mode s = ''cslam'' then (cslam_check est rid s, None) else (s, None))"
  proof (rule keepsI)
    fix t assume t: "map_ok t"
    have "same_robots t (cslam_check est rid t)" "registration_due (cslam_check est rid t) = registration_due t"
      by (simp_all add: cslam_check_def same_robots_def Let_def)
    then have "map_ok (cslam_check est rid t)" using t by (rule same_keeps)
    then show "map_ok (fst (if merge_mode t = ''auto'' then reregister est rid t
        else if merge_mode t = ''cslam'' then (cslam_check est rid t, None) else (t, None)))"
      using t reregister_ok by simp
  qed
  then have "keeps map_ok (seq_steps [\<lambda>s. if merge_mode s = ''auto'' then reregister est rid s
      else if merge_mode s = ''cslam'' then (cslam_check est rid s, None) else (s, None), \<lambda>s. (remerge s, None)])"
    by (intro keeps_seq) (simp add: keeps_remerge)
  from keepsD [OF this s1] show ?thesis
    using True s1 unfolding ingest_def s1_def [symmetric] Let_def by simp
qed (use assms in \<open>simp add: ingest_def\<close>)

lemma ingest_async_ok:
  assumes "map_ok s"
  shows "map_ok (fst (ingest_async est rid m shape cs s))"
proof -
  have "keeps map_ok (ingest est False rid m shape cs)" by (rule keepsI) (rule ingest_ok)
  moreover have "keeps map_ok (\<lambda>s. (mark_registration_due rid s, None))" by (rule keeps_set) (rule due_ok)
  ultimately have "keeps map_ok (ingest_async est rid m shape cs)"
    unfolding ingest_async_def by (intro keeps_seq) simp
  then show ?thesis using assms by (rule keepsD)
qed

lemma set_cloud_ok:
  assumes "map_ok s"
  shows "map_ok (fst (set_cloud est inline rid points s))"
proof -
  define s1 where "s1 = s\<lparr>robot_clouds := dput rid points (robot_clouds s)\<rparr>"
  have "same_robots s s1" "registration_due s1 = registration_due s" by (simp_all add: s1_def same_robots_def)
  then have s1: "map_ok s1" using assms by (rule same_keeps)
  show ?thesis
  proof (cases "cloud_targets rid s1 = []")
    case True
    then show ?thesis using s1 unfolding set_cloud_def s1_def [symmetric] Let_def by simp
  next
    case False
    then have "merge_mode s1 = ''auto''" by (auto simp: cloud_targets_def split: option.splits if_splits)
    then have auto: "auto_ok s1" using s1 by (simp add: auto_ok_def)
    have drop: "keeps auto_ok (\<lambda>s. (s\<lparr>cloud_registrations := ddel r (cloud_registrations s)\<rparr>, None))" for r
      by (rule keeps_auto_set) (simp_all add: same_robots_def)
    have renew: "keeps auto_ok (seq_steps ((\<lambda>s. (s\<lparr>cloud_registrations := ddel r (cloud_registrations s)\<rparr>, None)) #
        (if inline then [update_cloud_registration est r, reregister est r] else [])))" for r
      by (rule keeps_seq) (simp add: drop keeps_auto_reregister keeps_auto_update_cloud)
    have "keeps auto_ok (seq_steps (map (\<lambda>r. seq_steps ((\<lambda>s. (s\<lparr>cloud_registrations := ddel r (cloud_registrations s)\<rparr>, None)) #
        (if inline then [update_cloud_registration est r, reregister est r] else []))) (cloud_targets rid s1)
        @ (if inline then [\<lambda>s. (remerge s, None)] else [])))"
      by (rule keeps_seq) (auto simp: list_all_iff intro: renew keeps_auto_set [OF remerge_same])
    from keepsD [OF this auto] show ?thesis
      using False unfolding set_cloud_def s1_def [symmetric] Let_def by (simp add: auto_ok_def)
  qed
qed

lemma fold_due_ok: "map_ok t \<Longrightarrow> map_ok (fold mark_registration_due rs t)"
  by (induction rs arbitrary: t) (simp_all add: due_ok)

lemma set_cloud_async_ok:
  assumes "map_ok s"
  shows "map_ok (fst (set_cloud_async est rid points s))"
proof -
  have "keeps map_ok (set_cloud est False rid points)" by (rule keepsI) (rule set_cloud_ok)
  moreover have "keeps map_ok (\<lambda>s. (fold mark_registration_due (cloud_targets rid s) s, None))"
    by (rule keeps_set) (rule fold_due_ok)
  ultimately have "keeps map_ok (set_cloud_async est rid points)"
    unfolding set_cloud_async_def by (intro keeps_seq) simp
  then show ?thesis using assms by (rule keepsD)
qed

lemma forget_simps [simp]:
  "registered (forget_registrations s) = {}" "registration_misses (forget_registrations s) = []"
  "locked_dyaw (forget_registrations s) = []" "registration_due (forget_registrations s) = registration_due s"
  "merge_mode (forget_registrations s) = merge_mode s"
  by (simp_all add: forget_registrations_def)

lemma reset_ok:
  assumes "map_ok s"
  shows "map_ok (reset s)"
proof (rule map_ok_forgotten [OF assms])
  show "registered (reset s) = {}" "registration_misses (reset s) = []" "locked_dyaw (reset s) = []"
    "registration_due (reset s) \<subseteq> registration_due s" "merge_mode (reset s) = merge_mode s"
    by (simp_all add: reset_def)
qed

lemma reset_all_ok:
  assumes "map_ok s"
  shows "map_ok (fst (reset_all_robots s))"
  unfolding reset_all_robots_def Let_def fst_conv
  by (rule remerge_ok, rule map_ok_forgotten [OF assms]) simp_all

lemma reset_one_ok:
  assumes "map_ok s"
  shows "map_ok (fst (reset_one_robot rid s))"
proof -
  define s1 where "s1 = s\<lparr>robot_grids := ddel rid (robot_grids s), robot_revisions := ddel rid (robot_revisions s),
     registrations := ddel rid (registrations s), cloud_registrations := ddel rid (cloud_registrations s),
     cloud_z_offsets := ddel rid (cloud_z_offsets s), registration_sources := ddel rid (registration_sources s),
     registration_rejections := ddel rid (registration_rejections s), registered := registered s - {rid},
     registration_misses := ddel rid (registration_misses s), locked_dyaw := ddel rid (locked_dyaw s),
     slam_graphs := ddel rid (slam_graphs s), cslam_disagreement := ddel rid (cslam_disagreement s),
     robot_clouds := ddel rid (robot_clouds s), cloud_resets := cloud_resets s + 1,
     scan_grids := scan_grids s - {rid}, network_grids := network_grids s - {rid},
     common_poses := ddel rid (common_poses s), cslam_frames := ddel rid (cslam_frames s),
     registration_due := registration_due s - {rid}, nav_cache := ddel rid (nav_cache s),
     transforms := (case dget (transform_priors s) rid of None \<Rightarrow> ddel rid (transforms s) | Some t \<Rightarrow> dput rid t (transforms s))\<rparr>"
  have "only_robot rid s s1" by (auto simp: only_robot_def s1_def dict_simps split: option.split)
  moreover have "robot_ok s1 rid" by (simp add: robot_ok_def s1_def misses_of_def dict_simps REGISTRATION_MISS_LIMIT_def)
  ultimately have s1: "map_ok s1" by (rule map_ok_robot [OF assms]) (simp add: s1_def)
  have "map_ok ((forget_registrations s1)\<lparr>reference := r\<rparr>)" for r
    by (rule map_ok_forgotten [OF s1]) (simp_all add: forget_registrations_def)
  then show ?thesis
    using s1 unfolding reset_one_robot_def Let_def s1_def [symmetric] by (simp add: remerge_ok)
qed

lemma global_grid_ok: "map_ok s \<Longrightarrow> map_ok (fst (set_global_grid m shape cs s))"
proof -
  assume "map_ok s"
  then have "map_ok (s\<lparr>global_grid := g, global_map_seq := q\<rparr>)" for g q
    by (rule same_keeps [rotated 2]) (simp_all add: same_robots_def)
  then show ?thesis using \<open>map_ok s\<close> by (simp add: set_global_grid_def remerge_ok)
qed

lemma drop_global_ok: "map_ok s \<Longrightarrow> map_ok (drop_global s)"
  unfolding drop_global_def by (rule remerge_ok) (simp add: same_keeps [of s] same_robots_def)

lemma origin_ok: "map_ok s \<Longrightarrow> map_ok (set_cslam_origin rid t frame do_merge s)"
proof -
  assume s: "map_ok s"
  then have "map_ok (s\<lparr>cslam_frames := f\<rparr>)" for f
    by (rule same_keeps [rotated 2]) (simp_all add: same_robots_def)
  moreover have "map_ok (s\<lparr>cslam_frames := f, transforms := ts, reference := r\<rparr>)" if "is_pose_graph_mode (merge_mode s)" for f ts r
    using s that by (auto simp: map_ok_def robot_ok_def misses_of_def is_pose_graph_mode_def)
  ultimately show ?thesis by (simp add: set_cslam_origin_def Let_def remerge_ok)
qed

lemma slam_graph_ok: "map_ok s \<Longrightarrow> map_ok (set_slam_graph rid g s)"
  by (rule same_keeps [rotated 2]) (simp_all add: set_slam_graph_def same_robots_def)

lemma common_pose_keeps: "keeps map_ok (set_common_pose rid pose)"
  unfolding set_common_pose_def
  by (rule keeps_assign) (rule same_keeps [rotated 2]; simp add: same_robots_def)

lemma origin_step_keeps: "keeps map_ok (origin_step rep p)"
  by (cases p) (simp add: origin_step_def Let_def keeps_skip keeps_assign origin_ok)

lemma slam_update_ok: "map_ok s \<Longrightarrow> map_ok (fst (apply_slam_update rep payload s))"
proof -
  have "keeps map_ok (\<lambda>s. (if is_obj g then set_slam_graph rid g s else s, None))" for rid g
    by (rule keeps_set) (simp add: slam_graph_ok)
  moreover have "keeps map_ok (if is_obj q then set_common_pose rid q else (\<lambda>s. (s, None)))" for rid q
    by (simp add: common_pose_keeps keeps_skip)
  ultimately have "keeps map_ok (seq_steps
      (map (\<lambda>(rid, g) s. (if is_obj g then set_slam_graph rid g s else s, None)) gs @ map (origin_step rep) os
       @ (if b then map (\<lambda>(rid, p). if is_obj p then set_common_pose rid p else (\<lambda>s. (s, None))) ps else [])
       @ [\<lambda>s. (remerge s, None)]))" for gs os b ps
    by (intro keeps_seq) (auto simp: list_all_iff origin_step_keeps keeps_remerge)
  then show "map_ok s \<Longrightarrow> ?thesis"
    by (simp add: apply_slam_update_def Let_def keepsD)
qed

lemma nav_ok: "map_ok s \<Longrightarrow> map_ok (fst (nav_grid rid s))"
proof (rule same_keeps)
  show "same_robots s (fst (nav_grid rid s))"
    by (simp add: nav_grid_def nav_local_def nav_global_def same_robots_def Let_def split: option.split nav_entry.split prod.split)
  show "registration_due (fst (nav_grid rid s)) = registration_due s"
    by (simp add: nav_grid_def nav_local_def nav_global_def Let_def split: option.split nav_entry.split prod.split)
qed

lemma excluded_ok: "map_ok s \<Longrightarrow> map_ok (set_excluded rids s)"
  unfolding set_excluded_def Let_def
  by (simp add: remerge_ok same_keeps [of s] same_robots_def)

lemma merged_hello_ok: "map_ok s \<Longrightarrow> map_ok (set_transform rid (0, 0, 0) s)"
proof (rule map_ok_robot)
  assume s: "map_ok s"
  then have "robot_ok s rid" by (simp add: map_ok_def)
  moreover have "\<not> outside_prior (0, 0, 0) (0, 0, 0)" by (simp add: near_prior wrap_def radians_def)
  ultimately show "robot_ok (set_transform rid (0, 0, 0) s) rid" by (simp add: robot_ok_def set_transform_def misses_of_def dict_simps)
  show "only_robot rid s (set_transform rid (0, 0, 0) s)" by (simp add: only_robot_def set_transform_def dict_simps)
  show "rid \<notin> registered (set_transform rid (0, 0, 0) s)" if "merge_mode s \<noteq> ''auto''"
    using s that by (simp add: map_ok_def set_transform_def)
qed

lemma map_step_ok: "map_ok s \<Longrightarrow> map_ok (map_step e s)"
  by (cases e) (simp_all add: ingest_ok ingest_async_ok set_cloud_ok set_cloud_async_ok worker_ok reset_robot_def
      reset_all_ok reset_one_ok reset_ok excluded_ok global_grid_ok drop_global_ok origin_ok slam_graph_ok
      slam_update_ok nav_ok merged_hello_ok split: option.split)

interpretation map_service: machine map_step "\<lambda>_. True" map_ok
  by unfold_locales (rule map_step_ok)

subsection \<open>Reachable states\<close>

lemma configure_fields:
  "registered (configure res size_m mode conflict starts) = {}" (is ?r)
  "registration_misses (configure res size_m mode conflict starts) = []" (is ?m)
  "locked_dyaw (configure res size_m mode conflict starts) = []" (is ?l)
  "registration_due (configure res size_m mode conflict starts) = {}" (is ?d)
  "nav_cache (configure res size_m mode conflict starts) = []" (is ?n)
proof -
  let ?P = "\<lambda>s. registered s = {} \<and> registration_misses s = [] \<and> locked_dyaw s = [] \<and> registration_due s = {} \<and> nav_cache s = []"
  have "?P s \<Longrightarrow> ?P (fold (\<lambda>(rid, t). set_transform rid t) starts s)" for s
    by (induction starts arbitrary: s) (auto simp: set_transform_def)
  moreover have "?P (set_conflict_mode conflict (set_mode mode (new_map_service res size_m)))"
    by (simp add: set_conflict_mode_def set_mode_def new_map_service_def Let_def)
  ultimately have "?P (configure res size_m mode conflict starts)"
    unfolding configure_def by blast
  then show ?r ?m ?l ?d ?n by simp_all
qed

lemma configure_ok: "map_ok (configure res size_m mode conflict starts)"
  by (simp add: map_ok_def robot_ok_def misses_of_def configure_fields REGISTRATION_MISS_LIMIT_def)

lemma reachable_ok: "map_ok (fold map_step es (configure res size_m mode conflict starts))"
  by (rule map_service.inv_run [OF _ configure_ok]) (simp add: list_all_iff)

text \<open>C22: In every reachable state a registered robot has a transform and no reason of rejection, no robot
  has missed three times in a row, and a robot that is not registered has no misses counted and no
  search locked; outside the automatic mode nobody is registered or waits for registration.\<close>

theorem registration_reachable_ok:
  "map_ok (fold map_step es (configure res size_m mode conflict starts))"
  by (rule reachable_ok)

text \<open>C21: However the correlation of the maps answers, a registered robot with a configured start pose is
  shown within two metres and thirty degrees of it.\<close>

theorem registered_stays_near_start:
  assumes "s = fold map_step es (configure res size_m mode conflict starts)"
    and "rid \<in> registered s" and "dget (transform_priors s) rid = Some (px, py, pw)"
  shows "\<exists>x y w. dget (transforms s) rid = Some (x, y, w) \<and> hypot (x - px) (y - py) \<le> 2 \<and> \<bar>wrap (w - pw)\<bar> \<le> radians 30"
proof -
  have "map_ok s" unfolding assms(1) by (rule reachable_ok)
  from registered_near [OF map_ok_robotD [OF this] assms(2,3)] show ?thesis
    by (auto simp: near_prior)
qed

subsection \<open>Ambiguous matches\<close>

text \<open>A robot registered by its grid alone, against a reference that has one too.\<close>

definition grid_only :: "string \<Rightarrow> map_service \<Rightarrow> bool" where
  "grid_only rid s \<longleftrightarrow> (\<exists>ref. reference s = Some ref \<and> ref \<noteq> rid \<and> dget (robot_grids s) ref \<noteq> None)
     \<and> dget (robot_grids s) rid \<noteq> None \<and> dget (cloud_registrations s) rid = None \<and> dget (robot_clouds s) rid = None"

definition ambiguous :: "estimator \<Rightarrow> bool" where
  "ambiguous est \<longleftrightarrow> (\<forall>y w. \<not> confident (fft est y w))"

definition after_misses :: "string \<Rightarrow> map_service \<Rightarrow> nat \<Rightarrow> map_service \<Rightarrow> bool" where
  "after_misses rid s n s' \<longleftrightarrow> grid_only rid s' \<and> merge_mode s' = merge_mode s \<and> reference s' = reference s
     \<and> excluded s' = excluded s \<and> transforms s' = transforms s
     \<and> (rid \<in> registered s' \<longleftrightarrow> n < REGISTRATION_MISS_LIMIT) \<and> (n < REGISTRATION_MISS_LIMIT \<longrightarrow> misses_of s' rid = n)
     \<and> (dget (registration_rejections s') rid = None \<longleftrightarrow> n < REGISTRATION_MISS_LIMIT)"

lemma grid_only_missed [simp]:
  "grid_only rid (missed rid' v has_cloud against s) = grid_only rid s"
  "grid_only rid (s\<lparr>registrations := r, registration_sources := q\<rparr>) = grid_only rid s"
  by (simp_all add: missed_def evict_def grid_only_def Let_def)

lemma missed_simps [simp]:
  "merge_mode (missed rid v has_cloud against s) = merge_mode s" "reference (missed rid v has_cloud against s) = reference s"
  "excluded (missed rid v has_cloud against s) = excluded s" "transforms (missed rid v has_cloud against s) = transforms s"
  by (simp_all add: missed_def evict_def Let_def)

lemma missed_last:
  assumes "\<not> (rid \<in> registered s \<and> misses_of s rid + 1 < REGISTRATION_MISS_LIMIT \<and> \<not> against)"
  shows "rid \<notin> registered (missed rid v has_cloud against s)"
    and "dget (registration_rejections (missed rid v has_cloud against s)) rid \<noteq> None"
  unfolding missed_def Let_def if_not_P [OF assms] by (simp_all add: evict_def dict_simps)

lemma miss_step:
  assumes "after_misses rid s n s'" and "ambiguous est"
  shows "after_misses rid s (Suc n) (fst (reregister est rid s'))"
proof -
  obtain ref rg mg where ref: "reference s' = Some ref" "ref \<noteq> rid" "dget (robot_grids s') ref = Some rg"
      "dget (robot_grids s') rid = Some mg" and g: "grid_only rid s'"
    using assms(1) unfolding after_misses_def grid_only_def by blast
  let ?g = "(case search_window s' rid (snd (snd (transform_in s' ref))) of (yaw, window) \<Rightarrow> fft est yaw window)"
  let ?v = "judge est ?g None"
  let ?s2 = "s'\<lparr>registrations := dput rid (v_result ?v) (registrations s'), registration_sources := dput rid (v_source ?v) (registration_sources s')\<rparr>"
  have "\<not> v_accepted ?v" "\<not> v_blocked ?v"
    using assms(2) by (simp_all add: v_accepted_def judge_def ambiguous_def split: prod.split)
  then have step: "fst (reregister est rid s') = missed rid ?v False False ?s2"
    using g ref by (simp add: reregister_def grid_only_def Let_def cloud_against_hold_def)
  have same: "misses_of ?s2 rid = misses_of s' rid" by (simp add: misses_of_def)
  show ?thesis
  proof (cases "Suc n < REGISTRATION_MISS_LIMIT")
    case True
    then have "rid \<in> registered s'" "misses_of s' rid = n" "dget (registration_rejections s') rid = None"
      using assms(1) by (simp_all add: after_misses_def)
    then have "missed rid ?v False False ?s2 = ?s2\<lparr>locked_dyaw := ddel rid (locked_dyaw ?s2),
        registration_misses := dput rid (Suc n) (registration_misses ?s2)\<rparr>"
      using True by (simp add: missed_def same Let_def)
    then have "misses_of (missed rid ?v False False ?s2) rid = Suc n" "rid \<in> registered (missed rid ?v False False ?s2)"
      "dget (registration_rejections (missed rid ?v False False ?s2)) rid = None"
      using \<open>rid \<in> registered s'\<close> \<open>dget (registration_rejections s') rid = None\<close> by (simp_all add: misses_of_def dict_simps)
    then show ?thesis using assms(1) True unfolding step by (simp add: after_misses_def)
  next
    case False
    then have "\<not> (rid \<in> registered ?s2 \<and> misses_of ?s2 rid + 1 < REGISTRATION_MISS_LIMIT \<and> \<not> False)"
      using assms(1) by (auto simp: same after_misses_def)
    from missed_last [OF this, of ?v False]
    show ?thesis using assms(1) False unfolding step by (simp add: after_misses_def)
  qed
qed

lemma miss_run:
  "after_misses rid s n s' \<Longrightarrow> list_all ambiguous ests
    \<Longrightarrow> after_misses rid s (n + length ests) (fold (\<lambda>est s. fst (reregister est rid s)) ests s')"
proof (induction ests arbitrary: n s')
  case (Cons est ests)
  then show ?case using Cons.IH [OF miss_step] by simp
qed simp

text \<open>A registered robot whose map stops matching is held for two ambiguous answers and leaves the
  shared map with the third; its transform does not move meanwhile.\<close>

lemma third_miss_evicts:
  assumes "map_ok s" and "merge_mode s = ''auto''" and "grid_only rid s" and "rid \<notin> excluded s"
    and "rid \<in> registered s" and "misses_of s rid = 0" and "list_all ambiguous ests"
  shows "let s' = fold (\<lambda>est s. fst (reregister est rid s)) ests s in
    (rid \<in> global_members s' \<longleftrightarrow> length ests < 3) \<and> transforms s' = transforms s"
proof -
  have "dget (registration_rejections s) rid = None"
    using map_ok_robotD [OF assms(1)] assms(5) by (simp add: robot_ok_def)
  then have "after_misses rid s 0 s"
    using assms by (simp add: after_misses_def REGISTRATION_MISS_LIMIT_def)
  from miss_run [OF this assms(7)]
  have after: "after_misses rid s (length ests) (fold (\<lambda>est s. fst (reregister est rid s)) ests s)" by simp
  obtain ref where "reference s = Some ref" "ref \<noteq> rid" using assms(3) by (auto simp: grid_only_def)
  then show ?thesis
    using after assms(2,4) by (auto simp: after_misses_def global_members_def Let_def REGISTRATION_MISS_LIMIT_def)
qed

subsection \<open>Two robots in one room\<close>

definition answering :: "real \<Rightarrow> estimator" where
  "answering q = (let r = \<lparr>dx = 1, dy = 1, dyaw = 0, score = 1, overlap = 100, ratio = q, yaw_ratio = 0, support = 1\<rparr> in
     \<lparr>fft = (\<lambda>_ _. r), cloud_fft = (\<lambda>_ _. r), score_at = (\<lambda>_. (1, 100, 1)), height_shift = 0\<rparr>)"

definition uploaded :: map_service where
  "uploaded = fold map_step [Ingest_Async (answering 0) ''a'' small_map (8, 8) empty_scan, Ingest_Async (answering 0) ''b'' small_map (8, 8) wall_scan]
     (configure (1 / 2) 4 ''auto'' ''majority'' [(''a'', 0, 0, 0), (''b'', 1, 0, 0)])"

lemma uploaded_fields:
  "reference uploaded = Some ''a''" "merge_mode uploaded = ''auto''" "registered uploaded = {}" "excluded uploaded = {}"
  "transforms uploaded = [(''a'', 0, 0, 0), (''b'', 1, 0, 0)]" "transform_priors uploaded = [(''a'', 0, 0, 0), (''b'', 1, 0, 0)]"
  "robot_grids uploaded = [(''a'', small_map, empty_scan), (''b'', small_map, wall_scan)]"
  "cloud_registrations uploaded = []" "robot_clouds uploaded = []" "registration_due uploaded = {''a'', ''b''}"
  "registration_rejections uploaded = []" "locked_dyaw uploaded = []" "registration_misses uploaded = []"
  by (auto simp: uploaded_def configure_def set_transform_def set_mode_def set_conflict_mode_def new_map_service_def Let_def
      ingest_async_def ingest_def small_map_def mark_registration_due_def)

definition joined :: map_service where
  "joined = map_step (Worker (answering 0) ''b'') uploaded"

lemma wrap_0 [simp]: "wrap 0 = 0"
  by (rule wrap_small) (simp add: radians_def)

lemma accept_fields:
  assumes "dget (transform_priors s) rid = Some prior" and "rid \<notin> registered s"
    and "\<not> outside_prior (dx r, dy r, wrap (dyaw r)) prior"
  shows "registered (accept_match rid r (0, 0, 0) s) = insert rid (registered s)"
    and "misses_of (accept_match rid r (0, 0, 0) s) rid = 0"
    and "reference (accept_match rid r (0, 0, 0) s) = reference s" and "merge_mode (accept_match rid r (0, 0, 0) s) = merge_mode s"
    and "excluded (accept_match rid r (0, 0, 0) s) = excluded s" and "robot_grids (accept_match rid r (0, 0, 0) s) = robot_grids s"
    and "transform_priors (accept_match rid r (0, 0, 0) s) = transform_priors s"
    and "cloud_registrations (accept_match rid r (0, 0, 0) s) = cloud_registrations s"
    and "robot_clouds (accept_match rid r (0, 0, 0) s) = robot_clouds s"
  using assms by (simp_all add: accept_match_def misses_of_def dict_simps Let_def)

lemma joined_eq:
  "\<exists>rs qs. joined = remerge (accept_match ''b'' (fft (answering 0) None 0) (0, 0, 0)
     (uploaded\<lparr>registration_due := {''a''}, registrations := rs, registration_sources := qs\<rparr>))"
proof -
  let ?s = "uploaded\<lparr>registration_due := {''a''}\<rparr>"
  define r where "r = fft (answering 0) None 0"
  have ans: "fft (answering 0) y w = r" for y w by (simp add: r_def answering_def Let_def)
  have conf: "confident r" by (simp add: r_def answering_def confident_def MIN_SUPPORT_def Let_def)
  have near: "\<not> outside_prior (dx r, dy r, wrap (dyaw r)) (1, 0, 0)"
    by (simp add: r_def answering_def outside_prior_def radians_def Let_def)
  let ?t = "?s\<lparr>registrations := dput ''b'' r (registrations ?s), registration_sources := dput ''b'' ''grid'' (registration_sources ?s)\<rparr>"
  have "registration_due uploaded - {''b''} = {''a''}" by (auto simp: uploaded_fields)
  then have "joined = fst (register_and_merge (answering 0) ''b'' ?s)"
    unfolding joined_def map_step.simps worker_step_def by (simp only: uploaded_fields insertI1 insertI2 if_True)
  moreover have "reregister (answering 0) ''b'' ?s = (accept_match ''b'' r (0, 0, 0) ?t, None)"
    by (simp add: reregister_def uploaded_fields transform_in_def Let_def ans judge_def v_accepted_def conf split: prod.split)
  moreover have "update_z_offset (answering 0) ''b'' (accept_match ''b'' r (0, 0, 0) ?t) = accept_match ''b'' r (0, 0, 0) ?t"
    using accept_fields [of ?t "''b''" "(1, 0, 0)" r] near by (simp add: update_z_offset_def uploaded_fields)
  ultimately have "joined = remerge (accept_match ''b'' r (0, 0, 0) ?t)"
    by (simp add: register_and_merge_def)
  then show ?thesis unfolding r_def by auto
qed

lemma joined_fields:
  "reference joined = Some ''a''" "merge_mode joined = ''auto''" "registered joined = {''b''}" "excluded joined = {}"
  "transform_priors joined = [(''a'', 0, 0, 0), (''b'', 1, 0, 0)]"
  "robot_grids joined = [(''a'', small_map, empty_scan), (''b'', small_map, wall_scan)]"
  "cloud_registrations joined = []" "robot_clouds joined = []" "misses_of joined ''b'' = 0"
proof -
  let ?r = "fft (answering 0) None 0"
  obtain rs qs where eq: "joined = remerge (accept_match ''b'' ?r (0, 0, 0)
     (uploaded\<lparr>registration_due := {''a''}, registrations := rs, registration_sources := qs\<rparr>))" (is "_ = remerge (accept_match _ _ _ ?t)")
    using joined_eq by blast
  have near: "\<not> outside_prior (dx ?r, dy ?r, wrap (dyaw ?r)) (1, 0, 0)"
    by (simp add: answering_def outside_prior_def radians_def Let_def)
  have "dget (transform_priors ?t) ''b'' = Some (1, 0, 0)" "''b'' \<notin> registered ?t" by (simp_all add: uploaded_fields)
  note fields = accept_fields [OF this near]
  show "reference joined = Some ''a''" "merge_mode joined = ''auto''" "registered joined = {''b''}" "excluded joined = {}"
    "transform_priors joined = [(''a'', 0, 0, 0), (''b'', 1, 0, 0)]"
    "robot_grids joined = [(''a'', small_map, empty_scan), (''b'', small_map, wall_scan)]"
    "cloud_registrations joined = []" "robot_clouds joined = []"
    by (simp_all add: eq fields uploaded_fields)
  show "misses_of joined ''b'' = 0" using fields(2) by (simp add: eq misses_of_def)
qed

lemma joined_reachable:
  "joined = fold map_step [Ingest_Async (answering 0) ''a'' small_map (8, 8) empty_scan,
     Ingest_Async (answering 0) ''b'' small_map (8, 8) wall_scan, Worker (answering 0) ''b'']
     (configure (1 / 2) 4 ''auto'' ''majority'' [(''a'', 0, 0, 0), (''b'', 1, 0, 0)])"
  by (simp add: joined_def uploaded_def)

theorem registered_stays_near_start_witness:
  "\<exists>x y w. dget (transforms joined) ''b'' = Some (x, y, w) \<and> hypot (x - 1) (y - 0) \<le> 2 \<and> \<bar>wrap (w - 0)\<bar> \<le> radians 30"
  by (rule registered_stays_near_start [OF joined_reachable]) (simp_all add: joined_fields)

lemma third_miss_evicts_witness:
  "let miss = (\<lambda>s. fst (reregister (answering 1) ''b'' s)) in
   ''b'' \<in> global_members (miss (miss joined)) \<and> ''b'' \<notin> global_members (miss (miss (miss joined)))"
proof -
  have ok: "map_ok joined" unfolding joined_reachable by (rule reachable_ok)
  have g: "grid_only ''b'' joined" by (simp add: grid_only_def joined_fields)
  have amb: "ambiguous (answering 1)" by (simp add: ambiguous_def answering_def confident_def Let_def)
  have all: "list_all ambiguous (replicate n (answering 1))" for n using amb by (simp add: list_all_iff)
  have run: "(''b'' \<in> global_members (fold (\<lambda>est s. fst (reregister est ''b'' s)) (replicate n (answering 1)) joined)) = (n < 3)" for n
    using third_miss_evicts [OF ok _ g _ _ _ all, of n] by (simp add: joined_fields Let_def)
  have "replicate 2 (answering 1) = [answering 1, answering 1]" "replicate 3 (answering 1) = [answering 1, answering 1, answering 1]"
    by (simp_all add: numeral_eq_Suc)
  then show ?thesis using run [of 2] run [of 3] by (simp add: Let_def)
qed

end
