(* ===== verification/Map_Products.thy ===== *)
theory Map_Products
  imports Map_Registration
begin

text \<open>
  What the map service hands out: the grid a robot plans in, which is cached, and the members of a
  map that the pose-graph back end has put together.
\<close>

subsection \<open>The cache of planning grids\<close>

fun entry_ok :: "map_service \<Rightarrow> string \<Rightarrow> nav_entry \<Rightarrow> bool" where
  "entry_ok s rid (Nav_Local q m cs) \<longleftrightarrow>
     q \<le> revision_of s rid \<and> (q = revision_of s rid \<longrightarrow> dget (robot_grids s) rid = Some (m, cs))"
| "entry_ok s rid (Nav_Global q t m' cs') \<longleftrightarrow>
     q \<le> global_map_seq s \<and> (q = global_map_seq s \<longrightarrow> (\<exists>m cs. global_grid s = Some (m, cs) \<and> warp_to_robot_frame m cs t = (m', cs')))"

definition cache_ok :: "map_service \<Rightarrow> bool" where
  "cache_ok s \<longleftrightarrow> (\<forall>rid e. dget (nav_cache s) rid = Some e \<longrightarrow> entry_ok s rid e)"

text \<open>The fields the cache depends on.\<close>

definition same_maps :: "map_service \<Rightarrow> map_service \<Rightarrow> bool" where
  "same_maps s s' \<longleftrightarrow> robot_grids s' = robot_grids s \<and> robot_revisions s' = robot_revisions s \<and> nav_cache s' = nav_cache s
     \<and> global_grid s' = global_grid s \<and> global_map_seq s' = global_map_seq s"

lemma cache_ok_same: "same_maps s s' \<Longrightarrow> cache_ok s \<Longrightarrow> cache_ok s'"
proof -
  assume same: "same_maps s s'"
  then have "entry_ok s' rid e = entry_ok s rid e" for rid e
    by (cases e) (simp_all add: same_maps_def revision_of_def)
  then show "cache_ok s \<Longrightarrow> cache_ok s'" using same by (simp add: cache_ok_def same_maps_def)
qed

lemma keeps_same: "(\<And>s. same_maps s (fst (f s))) \<Longrightarrow> keeps cache_ok f"
  by (rule keepsI) (rule cache_ok_same)

lemma same_maps_trans: "same_maps s s' \<Longrightarrow> same_maps s' s'' \<Longrightarrow> same_maps s s''"
  by (simp add: same_maps_def)

lemma same_maps_remerge: "same_maps s (remerge s)"
  by (simp add: same_maps_def)

lemma same_maps_cloud: "same_maps s (fst (update_cloud_registration est rid s))"
  by (simp add: update_cloud_registration_def same_maps_def split: option.split prod.split)

lemma same_maps_missed: "same_maps s (missed rid v has_cloud against s)"
  by (simp add: missed_def evict_def same_maps_def Let_def)

lemma same_maps_accept: "same_maps s (accept_match rid r tf s)"
  by (simp add: accept_match_def evict_def same_maps_def Let_def split: prod.split option.split)

lemma same_maps_reregister: "same_maps s (fst (reregister est rid s))"
proof -
  have after: "same_maps s (missed rid v hc ag (s'\<lparr>registrations := a, registration_sources := b\<rparr>))"
    "same_maps s (accept_match rid r tf (s'\<lparr>registrations := a, registration_sources := b\<rparr>))" if "same_maps s s'" for s' v hc ag a b r tf
    using that same_maps_missed [of "s'\<lparr>registrations := a, registration_sources := b\<rparr>"]
      same_maps_accept [of "s'\<lparr>registrations := a, registration_sources := b\<rparr>"] by (simp_all add: same_maps_def)
  obtain s1 err where c: "(if dget (cloud_registrations s) rid = None \<and> dget (robot_clouds s) rid \<noteq> None
    then update_cloud_registration est rid s else (s, None)) = (s1, err)" (is "?c = _") by (cases ?c)
  have "same_maps s s1" using c same_maps_cloud [of s est rid] by (auto simp: same_maps_def split: if_splits)
  then show ?thesis
    unfolding reregister_def Let_def c prod.case using after [of s1]
    by (simp add: same_maps_def split: option.split)
qed

lemma same_maps_z: "same_maps s (update_z_offset est rid s)"
  by (simp add: update_z_offset_def same_maps_def split: option.split list.split)

lemma same_maps_check: "same_maps s (cslam_check est rid s)"
  by (simp add: cslam_check_def same_maps_def Let_def)

lemma same_maps_due: "same_maps s (mark_registration_due rid s)"
  by (simp add: mark_registration_due_def same_maps_def)

lemma same_maps_fold_due: "same_maps s (fold mark_registration_due rs s)"
proof (induction rs arbitrary: s)
  case (Cons r rs)
  show ?case using same_maps_trans [OF same_maps_due Cons.IH] by simp
qed (simp add: same_maps_def)

lemmas keeps_cache = keeps_same [of "reregister est rid" for est rid, OF same_maps_reregister]
  keeps_same [of "update_cloud_registration est rid" for est rid, OF same_maps_cloud]

lemma keeps_cache_set: "(\<And>s. same_maps s (f s)) \<Longrightarrow> keeps cache_ok (\<lambda>s. (f s, None))"
  by (rule keeps_same) simp

lemma ingest_cache: "keeps cache_ok (ingest est inline rid m shape cs)"
proof (rule keepsI)
  fix s assume s: "cache_ok s"
  show "cache_ok (fst (ingest est inline rid m shape cs s))"
  proof (cases "shape = (height m, width m)")
    case True
    define s1 where "s1 = s\<lparr>robot_grids := dput rid (m, cs) (robot_grids s),
       robot_revisions := dput rid ((case dget (robot_revisions s) rid of None \<Rightarrow> 0 | Some n \<Rightarrow> n) + 1) (robot_revisions s),
       reference := (if reference s = None then Some rid else reference s)\<rparr>"
    have rev: "revision_of s1 r = (if r = rid then revision_of s r + 1 else revision_of s r)" for r
      by (simp add: s1_def revision_of_def dict_simps)
    have "entry_ok s1 r e" if "entry_ok s r e" for r e
      using that by (cases e) (auto simp: rev, auto simp: s1_def dict_simps)
    then have s1: "cache_ok s1" using s by (simp add: cache_ok_def s1_def)
    have "keeps cache_ok (\<lambda>s. if merge_mode s = ''auto'' then reregister est rid s
        else if merge_mode s = ''cslam'' then (cslam_check est rid s, None) else (s, None))"
      by (rule keeps_same) (simp add: same_maps_reregister same_maps_check, simp add: same_maps_def)
    then have "keeps cache_ok (seq_steps [\<lambda>s. if merge_mode s = ''auto'' then reregister est rid s
        else if merge_mode s = ''cslam'' then (cslam_check est rid s, None) else (s, None), \<lambda>s. (remerge s, None)])"
      by (intro keeps_seq) (simp add: keeps_cache_set same_maps_remerge)
    from keepsD [OF this s1] show ?thesis
      using True s1 unfolding ingest_def s1_def [symmetric] Let_def by simp
  qed (use s in \<open>simp add: ingest_def\<close>)
qed

lemma set_cloud_cache: "keeps cache_ok (set_cloud est inline rid points)"
proof (rule keepsI)
  fix s assume s: "cache_ok s"
  define s1 where "s1 = s\<lparr>robot_clouds := dput rid points (robot_clouds s)\<rparr>"
  have "same_maps s s1" by (simp add: s1_def same_maps_def)
  then have s1: "cache_ok s1" using s by (rule cache_ok_same)
  have renew: "keeps cache_ok (seq_steps ((\<lambda>s. (s\<lparr>cloud_registrations := ddel r (cloud_registrations s)\<rparr>, None)) #
      (if inline then [update_cloud_registration est r, reregister est r] else [])))" for r
    by (rule keeps_seq) (simp add: keeps_cache keeps_cache_set same_maps_def)
  have "keeps cache_ok (seq_steps (map (\<lambda>r. seq_steps ((\<lambda>s. (s\<lparr>cloud_registrations := ddel r (cloud_registrations s)\<rparr>, None)) #
      (if inline then [update_cloud_registration est r, reregister est r] else []))) (cloud_targets rid s1)
      @ (if inline then [\<lambda>s. (remerge s, None)] else [])))"
    by (rule keeps_seq) (auto simp: list_all_iff intro: renew keeps_cache_set [OF same_maps_remerge])
  from keepsD [OF this s1] show "cache_ok (fst (set_cloud est inline rid points s))"
    using s1 unfolding set_cloud_def s1_def [symmetric] Let_def by simp
qed

lemma worker_cache: "keeps cache_ok (worker_step est rid)"
proof (rule keepsI)
  fix s assume s: "cache_ok s"
  have "keeps cache_ok (register_and_merge est rid)"
    unfolding register_and_merge_def
    by (rule keeps_seq) (simp add: keeps_cache keeps_cache_set same_maps_z same_maps_remerge)
  moreover have "cache_ok (s\<lparr>registration_due := d\<rparr>)" for d
    by (rule cache_ok_same [OF _ s]) (simp add: same_maps_def)
  ultimately show "cache_ok (fst (worker_step est rid s))"
    using s by (simp add: worker_step_def keepsD)
qed

lemma cache_cleared: "nav_cache s = [] \<Longrightarrow> cache_ok s"
  by (simp add: cache_ok_def)

lemma reset_one_cache:
  assumes "cache_ok s"
  shows "cache_ok (fst (reset_one_robot rid s))"
proof -
  let ?s' = "fst (reset_one_robot rid s)"
  have fields: "nav_cache ?s' = ddel rid (nav_cache s)" "robot_grids ?s' = ddel rid (robot_grids s)"
    "robot_revisions ?s' = ddel rid (robot_revisions s)" "global_grid ?s' = global_grid s" "global_map_seq ?s' = global_map_seq s"
    by (simp_all add: reset_one_robot_def forget_registrations_def Let_def)
  have "entry_ok ?s' r e" if "entry_ok s r e" "r \<noteq> rid" for r e
    using that by (cases e) (simp_all add: fields revision_of_def dict_simps)
  then show ?thesis using assms by (auto simp: cache_ok_def fields dict_simps split: if_splits)
qed

lemma global_grid_cache: "cache_ok s \<Longrightarrow> cache_ok (fst (set_global_grid m shape cs s))"
proof -
  assume s: "cache_ok s"
  let ?s = "s\<lparr>global_grid := Some (m, cs), global_map_seq := global_map_seq s + 1\<rparr>"
  have "entry_ok ?s r e" if "entry_ok s r e" for r e
    using that by (cases e) (simp_all add: revision_of_def)
  then have "cache_ok ?s" using s by (simp add: cache_ok_def)
  then show ?thesis using s cache_ok_same [OF same_maps_remerge] by (simp add: set_global_grid_def)
qed

lemma origin_cache: "same_maps s (set_cslam_origin rid t frame do_merge s)"
  by (simp add: set_cslam_origin_def same_maps_def Let_def)

lemma slam_update_cache: "keeps cache_ok (apply_slam_update rep payload)"
proof (rule keepsI)
  fix s assume s: "cache_ok s"
  have "keeps cache_ok (\<lambda>s. (if is_obj g then set_slam_graph rid g s else s, None))" for rid g
    by (rule keeps_same) (simp add: set_slam_graph_def same_maps_def)
  moreover have "keeps cache_ok (if is_obj q then set_common_pose rid q else (\<lambda>s. (s, None)))" for rid q
    by (auto simp: set_common_pose_def assign_def same_maps_def intro!: keeps_same split: sum.split)
  moreover have "keeps cache_ok (origin_step rep p)" for p
    by (rule keeps_same) (auto simp: origin_step_def assign_def Let_def origin_cache same_maps_def [of s s for s] split: prod.split sum.split)
  ultimately have "keeps cache_ok (seq_steps
      (map (\<lambda>(rid, g) s. (if is_obj g then set_slam_graph rid g s else s, None)) gs @ map (origin_step rep) os
       @ (if b then map (\<lambda>(rid, p). if is_obj p then set_common_pose rid p else (\<lambda>s. (s, None))) ps else [])
       @ [\<lambda>s. (remerge s, None)]))" for gs os b ps
    by (intro keeps_seq) (auto simp: list_all_iff intro: keeps_cache_set [OF same_maps_remerge])
  then show "cache_ok (fst (apply_slam_update rep payload s))"
    using s by (simp add: apply_slam_update_def Let_def keepsD)
qed

lemma drop_global_cache: "cache_ok s \<Longrightarrow> cache_ok (drop_global s)"
proof -
  assume s: "cache_ok s"
  let ?s = "s\<lparr>global_grid := None, global_map_seq := global_map_seq s + 1\<rparr>"
  have "entry_ok ?s r e" if "entry_ok s r e" for r e
    using that by (cases e) (simp_all add: revision_of_def)
  then have "cache_ok ?s" using s by (simp add: cache_ok_def)
  then show ?thesis unfolding drop_global_def by (rule cache_ok_same [OF same_maps_remerge])
qed

lemma cache_update_simps [simp]:
  "global_members (s\<lparr>nav_cache := c\<rparr>) = global_members s" "transform_in (s\<lparr>nav_cache := c\<rparr>) rid = transform_in s rid"
  "revision_of (s\<lparr>nav_cache := c\<rparr>) rid = revision_of s rid"
  by (cases s, simp only: global_members_def in_common_frame_def graph_flag_def majority_frame_def frame_counts_def
      grid_ids_def transform_in_def revision_of_def map_service.simps)+

lemma nav_put_ok:
  "cache_ok s \<Longrightarrow> entry_ok s rid e \<Longrightarrow> cache_ok (s\<lparr>nav_cache := dput rid e (nav_cache s)\<rparr>)"
proof -
  assume "cache_ok s" "entry_ok s rid e"
  moreover have "entry_ok (s\<lparr>nav_cache := c\<rparr>) r e' = entry_ok s r e'" for c r e'
    by (cases e') simp_all
  ultimately show ?thesis by (auto simp: cache_ok_def dict_simps)
qed

lemma nav_local_cases:
  assumes "cache_ok s"
  shows "cache_ok (fst (nav_local rid s))"
    and "snd (nav_local rid s) = map_option (\<lambda>(m, cs). (m, cs, revision_of s rid)) (dget (robot_grids s) rid)"
proof -
  have "cache_ok (fst (nav_local rid s))
    \<and> snd (nav_local rid s) = map_option (\<lambda>(m, cs). (m, cs, revision_of s rid)) (dget (robot_grids s) rid)"
  proof (cases "dget (robot_grids s) rid")
    case (Some g)
    obtain m cs where g: "g = (m, cs)" by (cases g)
    have put: "cache_ok (s\<lparr>nav_cache := dput rid (Nav_Local (revision_of s rid) m cs) (nav_cache s)\<rparr>)"
      using assms Some g by (intro nav_put_ok) simp_all
    have hit: "m' = m \<and> cs' = cs" if "dget (nav_cache s) rid = Some (Nav_Local (revision_of s rid) m' cs')" for m' cs'
      using assms that Some g by (fastforce simp: cache_ok_def)
    show ?thesis
      using assms put hit by (simp add: nav_local_def Some g Let_def split: option.split nav_entry.split)
  qed (use assms in \<open>simp add: nav_local_def\<close>)
  then show "cache_ok (fst (nav_local rid s))"
    and "snd (nav_local rid s) = map_option (\<lambda>(m, cs). (m, cs, revision_of s rid)) (dget (robot_grids s) rid)"
    by simp_all
qed

lemma nav_global_cases:
  assumes "cache_ok s" and "global_grid s = Some (m, cs)"
  shows "cache_ok (fst (nav_global rid m cs s))"
    and "snd (nav_global rid m cs s) = (let (m', cs') = warp_to_robot_frame m cs (transform_in s rid) in Some (m', cs', global_map_seq s))"
proof -
  obtain m' cs' where w: "warp_to_robot_frame m cs (transform_in s rid) = (m', cs')"
    by (cases "warp_to_robot_frame m cs (transform_in s rid)")
  have put: "cache_ok (s\<lparr>nav_cache := dput rid (Nav_Global (global_map_seq s) (transform_in s rid) m' cs') (nav_cache s)\<rparr>)"
    using assms w by (intro nav_put_ok) simp_all
  have hit: "m'' = m' \<and> cs'' = cs'"
    if "dget (nav_cache s) rid = Some (Nav_Global (global_map_seq s) (transform_in s rid) m'' cs'')" for m'' cs''
    using assms that w by (fastforce simp: cache_ok_def)
  show "cache_ok (fst (nav_global rid m cs s))"
    using assms put by (simp add: nav_global_def w Let_def split: option.split nav_entry.split)
  show "snd (nav_global rid m cs s) = (let (m', cs') = warp_to_robot_frame m cs (transform_in s rid) in Some (m', cs', global_map_seq s))"
    using hit by (auto simp: nav_global_def w Let_def split: option.split nav_entry.split)
qed

lemma nav_cache_ok: "cache_ok s \<Longrightarrow> cache_ok (fst (nav_grid rid s))"
  by (simp add: nav_grid_def nav_local_cases nav_global_cases split: option.split prod.split)

lemma map_step_cache: "cache_ok s \<Longrightarrow> cache_ok (map_step e s)"
proof (cases e)
  case (Ingest_Async est rid m shape cs)
  assume "cache_ok s"
  moreover have "keeps cache_ok (ingest_async est rid m shape cs)"
    unfolding ingest_async_def by (rule keeps_seq) (simp add: ingest_cache keeps_cache_set same_maps_due)
  ultimately show ?thesis by (simp add: Ingest_Async keepsD)
next
  case (Set_Cloud_Async est rid points)
  assume "cache_ok s"
  moreover have "keeps cache_ok (set_cloud_async est rid points)"
    unfolding set_cloud_async_def by (rule keeps_seq) (simp add: set_cloud_cache keeps_cache_set same_maps_fold_due)
  ultimately show ?thesis by (simp add: Set_Cloud_Async keepsD)
next
  case (Reset_Robot which)
  assume "cache_ok s"
  then show ?thesis
    by (cases which) (simp_all add: Reset_Robot reset_robot_def reset_one_cache cache_cleared reset_all_robots_def Let_def)
next
  case (Set_Excluded rids)
  assume s: "cache_ok s"
  have "same_maps s (remerge (s\<lparr>excluded := x\<rparr>))" for x by (simp add: same_maps_def)
  then show ?thesis using cache_ok_same [OF _ s] s by (simp add: Set_Excluded set_excluded_def Let_def)
next
  case (Set_Graph rid g)
  assume s: "cache_ok s"
  have "same_maps s (set_slam_graph rid g s)" by (simp add: set_slam_graph_def same_maps_def)
  then show ?thesis using cache_ok_same [OF _ s] by (simp add: Set_Graph)
next
  case (Set_Origin rid t frame do_merge)
  assume "cache_ok s"
  then show ?thesis using cache_ok_same [OF origin_cache] by (simp add: Set_Origin)
next
  case (Merged_Hello rid)
  assume s: "cache_ok s"
  have "same_maps s (set_transform rid (0, 0, 0) s)" by (simp add: set_transform_def same_maps_def)
  then show ?thesis using cache_ok_same [OF _ s] by (simp add: Merged_Hello)
qed (simp_all add: keepsD [OF ingest_cache] keepsD [OF set_cloud_cache] keepsD [OF worker_cache] cache_cleared reset_def
    global_grid_cache drop_global_cache keepsD [OF slam_update_cache] nav_cache_ok)

interpretation nav_products: machine map_step "\<lambda>_. True" cache_ok
  by unfold_locales (rule map_step_cache)

text \<open>C30: In every reachable state a robot that asks for its planning grid gets what it would get
  without the cache, under the number that \<open>nav_grid_seq\<close> announces.\<close>

theorem cached_grid_is_current:
  assumes "s = fold map_step es (configure res size_m mode conflict starts)"
  shows "snd (nav_grid rid s) = snd (nav_grid rid (s\<lparr>nav_cache := []\<rparr>))
    \<and> map_option (\<lambda>(m, cs, q). q) (snd (nav_grid rid s)) = nav_grid_seq rid s"
proof -
  have s: "cache_ok s" unfolding assms
    by (rule nav_products.inv_run) (simp_all add: list_all_iff cache_cleared configure_fields)
  have fresh: "cache_ok (s\<lparr>nav_cache := []\<rparr>)" by (simp add: cache_cleared)
  have known: "rid \<in> grid_ids s \<longleftrightarrow> dget (robot_grids s) rid \<noteq> None"
    unfolding grid_ids_def keys_def set_map map_of_eq_None_iff by simp
  show ?thesis
  proof (cases "global_grid s")
    case None
    then show ?thesis using known
      by (auto simp: nav_grid_def nav_local_cases(2) [OF s] nav_local_cases(2) [OF fresh] nav_grid_seq_def)
  next
    case (Some g)
    obtain m cs where g: "global_grid s = Some (m, cs)" using Some by (cases g) simp
    then have g': "global_grid (s\<lparr>nav_cache := []\<rparr>) = Some (m, cs)" by simp
    show ?thesis using known g
      by (auto simp: nav_grid_def nav_local_cases(2) [OF s] nav_local_cases(2) [OF fresh] nav_grid_seq_def
          nav_global_cases(2) [OF s g] nav_global_cases(2) [OF fresh g'] Let_def split: prod.split)
  qed
qed

theorem cached_grid_is_current_witness:
  "snd (nav_grid ''b'' joined) = snd (nav_grid ''b'' (joined\<lparr>nav_cache := []\<rparr>))
   \<and> map_option (\<lambda>(m, cs, q). q) (snd (nav_grid ''b'' joined)) = nav_grid_seq ''b'' joined"
  by (rule cached_grid_is_current [OF joined_reachable])

subsection \<open>The frame of a merged map\<close>

definition robots_in_frame :: "map_service \<Rightarrow> string \<Rightarrow> nat" where
  "robots_in_frame s frame = length (filter (\<lambda>(rid, f). f = frame \<and> in_common_frame s rid) (cslam_frames s))"

definition count_frame :: "map_service \<Rightarrow> string \<times> string \<Rightarrow> (string, nat) dict \<Rightarrow> (string, nat) dict" where
  "count_frame s = (\<lambda>(rid, frame) counts.
     if frame \<noteq> [] \<and> in_common_frame s rid
     then dput frame ((case dget counts frame of None \<Rightarrow> 0 | Some n \<Rightarrow> n) + 1) counts else counts)"

definition counted :: "(string, nat) dict \<Rightarrow> string \<Rightarrow> nat" where
  "counted counts f = (case dget counts f of None \<Rightarrow> 0 | Some n \<Rightarrow> n)"

lemma counted_fold:
  assumes "f \<noteq> []"
  shows "counted (fold (count_frame s) xs counts) f
    = counted counts f + length (filter (\<lambda>(rid, g). g = f \<and> in_common_frame s rid) xs)"
proof (induction xs arbitrary: counts)
  case (Cons x xs)
  obtain rid g where x: "x = (rid, g)" by (cases x)
  have "counted (count_frame s x counts) f = counted counts f + (if g = f \<and> in_common_frame s rid then 1 else 0)"
    using assms by (auto simp: x count_frame_def counted_def dict_simps)
  then show ?case by (simp add: Cons.IH x)
qed simp

lemma counts_wf:
  "wf_dict counts \<Longrightarrow> [] \<notin> fst ` set counts \<Longrightarrow>
    wf_dict (fold (count_frame s) xs counts) \<and> [] \<notin> fst ` set (fold (count_frame s) xs counts)"
proof (induction xs arbitrary: counts)
  case (Cons x xs)
  obtain rid g where x: "x = (rid, g)" by (cases x)
  have "[] \<notin> fst ` set (dput g n counts)" if "g \<noteq> []" for n
    using Cons.prems(2) that set_dput_subset [of g n counts] by force
  then have "wf_dict (count_frame s x counts) \<and> [] \<notin> fst ` set (count_frame s x counts)"
    using Cons.prems by (simp add: x count_frame_def)
  then show ?case using Cons.IH by simp
qed simp

lemma frame_counts_fold: "frame_counts s = fold (count_frame s) (cslam_frames s) []"
  by (simp add: frame_counts_def count_frame_def)

lemma majority_frame_spec:
  assumes "majority_frame s = Some frame"
  shows "frame \<noteq> []" and "f \<noteq> [] \<Longrightarrow> robots_in_frame s f \<le> robots_in_frame s frame"
proof -
  have wf: "wf_dict (frame_counts s)" and nonempty: "[] \<notin> fst ` set (frame_counts s)"
    using counts_wf [of "[]" s "cslam_frames s"] by (simp_all add: frame_counts_fold)
  have count: "counted (frame_counts s) g = robots_in_frame s g" if "g \<noteq> []" for g
    using counted_fold [OF that, of s "cslam_frames s" "[]"] by (simp add: frame_counts_fold robots_in_frame_def counted_def)
  obtain c cs where fc: "frame_counts s = c # cs" and best: "frame = fst (first_max snd c cs)"
    using assms by (auto simp: majority_frame_def split: list.splits)
  have mem: "first_max snd c cs \<in> set (frame_counts s)" using first_max_in [of snd c cs] by (simp add: fc)
  then show "frame \<noteq> []" using nonempty unfolding best by (metis image_eqI)
  have best_count: "dget (frame_counts s) frame = Some (snd (first_max snd c cs))"
    using mem wf wf_dict_dget [OF wf, of frame "snd (first_max snd c cs)"] by (simp add: best)
  show "robots_in_frame s f \<le> robots_in_frame s frame" if "f \<noteq> []"
  proof (cases "dget (frame_counts s) f")
    case None
    then show ?thesis using count [OF that] by (simp add: counted_def)
  next
    case (Some n)
    then have "(f, n) \<in> insert c (set cs)" using wf_dict_dget [OF wf] by (simp add: fc)
    then have "n \<le> snd (first_max snd c cs)" using first_max_ge [of "(f, n)" c cs snd] by simp
    then show ?thesis
      using count [OF that] count [OF \<open>frame \<noteq> []\<close>] Some best_count by (simp add: counted_def)
  qed
qed

text \<open>In graph mode two robots are drawn in one map only when the back end has put both into the same
  named frame, and no other frame has more robots.\<close>

lemma graph_members_share_frame:
  assumes "merge_mode s = ''graph''" and "a \<in> global_members s" and "b \<in> global_members s"
  shows "\<exists>frame. frame \<noteq> [] \<and> dget (cslam_frames s) a = Some frame \<and> dget (cslam_frames s) b = Some frame
    \<and> graph_flag s a \<and> graph_flag s b \<and> (\<forall>f. f = [] \<or> robots_in_frame s f \<le> robots_in_frame s frame)"
proof -
  obtain frame where m: "majority_frame s = Some frame"
    using assms by (cases "majority_frame s") (auto simp: global_members_def)
  then show ?thesis
    using assms majority_frame_spec [OF m]
    by (intro exI [of _ frame]) (auto simp: global_members_def in_common_frame_def)
qed

definition met :: map_service where
  "met = fold map_step [Set_Graph ''a'' (JObj [(''in_common_frame'', JBool True)]), Set_Graph ''b'' (JObj [(''in_common_frame'', JBool True)]),
     Set_Origin ''a'' (0, 0, 0) ''f1'' False, Set_Origin ''b'' (1, 2, 0) ''f1'' False, Set_Origin ''c'' (5, 5, 0) ''f2'' False]
     (configure (1 / 2) 4 ''graph'' ''majority'' [])"

lemma graph_members_share_frame_witness:
  "\<exists>frame. frame \<noteq> [] \<and> dget (cslam_frames met) ''a'' = Some frame \<and> dget (cslam_frames met) ''b'' = Some frame
    \<and> graph_flag met ''a'' \<and> graph_flag met ''b'' \<and> (\<forall>f. f = [] \<or> robots_in_frame met f \<le> robots_in_frame met frame)"
proof (rule graph_members_share_frame)
  have fields: "merge_mode met = ''graph''" "excluded met = {}" "robot_grids met = []"
    "slam_graphs met = [(''a'', JObj [(''in_common_frame'', JBool True)]), (''b'', JObj [(''in_common_frame'', JBool True)])]"
    "cslam_frames met = [(''a'', ''f1''), (''b'', ''f1''), (''c'', ''f2'')]"
    by (simp_all add: met_def configure_def set_mode_def set_conflict_mode_def new_map_service_def Let_def set_slam_graph_def
        set_cslam_origin_def is_pose_graph_mode_def)
  show "merge_mode met = ''graph''" by (rule fields)
  show "''a'' \<in> global_members met" "''b'' \<in> global_members met"
    by (simp_all add: global_members_def fields in_common_frame_def graph_flag_def jget_def majority_frame_def frame_counts_def
        grid_ids_def keys_def)
qed

end
