(* ===== verification/Path_Planner.thy ===== *)
theory Path_Planner
  imports Map_Products "HOL-Library.Product_Lexorder"
begin

text \<open>
  \<^verbatim>\<open>server/swarmdeck_server/mapsvc/planner.py\<close>: the A* search on an occupancy grid for robots without a
  planner of their own, and \<open>plan_path\<close> of the map service, which chooses the grid. The widening of
  obstacles is \<open>binary_dilation\<close> of SciPy and an argument: all that is used of it is that an occupied
  cell stays occupied. The heap is the list of its entries, of which the least is taken. Following the
  predecessors back to the start is a loop that might not end; it is a partial function here, and
  the first theorem says that it ends. A grid's own numbers are finite, and so are the points that \<open>plan_path\<close>
  turns between frames; \<open>plan_global_path\<close> takes any floats.
\<close>

type_synonym point = "real \<times> real"
type_synonym node = "int \<times> int"
type_synonym dilation = "nat \<Rightarrow> (int \<Rightarrow> int \<Rightarrow> bool) \<Rightarrow> (int \<Rightarrow> int \<Rightarrow> bool)"

subsection \<open>The grid as seen by the search\<close>

definition to_index :: "real \<Rightarrow> real \<Rightarrow> int \<Rightarrow> real \<Rightarrow> int" where
  "to_index res org n v = max 0 (min (n - 1) (round_even ((v - org) / res)))"

definition clearance_cells :: "real \<Rightarrow> real \<Rightarrow> nat" where
  "clearance_cells res clearance_m = nat (max 1 (round_even (clearance_m / res)))"

definition any_occupied :: "int \<Rightarrow> int \<Rightarrow> cells \<Rightarrow> bool" where
  "any_occupied w h cs \<longleftrightarrow> list_ex (\<lambda>r. list_ex (\<lambda>c. 50 \<le> cs r c) [0..w - 1]) [0..h - 1]"

definition occupied_mask :: "dilation \<Rightarrow> nat \<Rightarrow> int \<Rightarrow> int \<Rightarrow> cells \<Rightarrow> int \<Rightarrow> int \<Rightarrow> bool" where
  "occupied_mask dilate px w h cs =
     (let blocked = (\<lambda>r c. 50 \<le> cs r c) in if 1 < px \<and> any_occupied w h cs then dilate px blocked else blocked)"

definition cell_cost :: "(int \<Rightarrow> int \<Rightarrow> bool) \<Rightarrow> cells \<Rightarrow> int \<Rightarrow> int \<Rightarrow> int" where
  "cell_cost blocked cs r c = (if blocked r c then 255 else if cs r c = - 1 then 8 else 1)"

definition neighbors :: "(int \<times> int \<times> real) list" where
  "neighbors = [(-1, 0, 1), (1, 0, 1), (0, -1, 1), (0, 1, 1),
     (-1, -1, 1414 / 1000), (-1, 1, 1414 / 1000), (1, -1, 1414 / 1000), (1, 1, 1414 / 1000)]"

subsection \<open>The search\<close>

record search_state =
  open_set :: "(real \<times> real \<times> int \<times> int) list"
  came_from :: "(node, node) dict"
  g_score :: "(node, real) dict"

record search_problem =
  sp_w :: int
  sp_h :: int
  sp_cost :: "int \<Rightarrow> int \<Rightarrow> int"
  sp_start :: node
  sp_goal :: node

definition passable :: "search_problem \<Rightarrow> node \<Rightarrow> bool" where
  "passable p n \<longleftrightarrow> 0 \<le> fst n \<and> fst n < sp_w p \<and> 0 \<le> snd n \<and> snd n < sp_h p \<and> sp_cost p (snd n) (fst n) < 200"

definition distance :: "node \<Rightarrow> node \<Rightarrow> real" where
  "distance a b = hypot (of_int (fst a - fst b)) (of_int (snd a - snd b))"

definition step_score :: "search_problem \<Rightarrow> real \<Rightarrow> real \<Rightarrow> node \<Rightarrow> real" where
  "step_score p g step_cost n = g + step_cost * (1 + of_int (sp_cost p (snd n) (fst n)) * (15 / 100))"

definition reach :: "search_problem \<Rightarrow> node \<Rightarrow> real \<Rightarrow> node \<Rightarrow> search_state \<Rightarrow> search_state" where
  "reach p cur ng n s = s\<lparr>g_score := dput n ng (g_score s),
     open_set := (ng + distance n (sp_goal p), ng, fst n, snd n) # open_set s, came_from := dput n cur (came_from s)\<rparr>"

definition better :: "search_state \<Rightarrow> node \<Rightarrow> real \<Rightarrow> bool" where
  "better s n ng \<longleftrightarrow> (case dget (g_score s) n of None \<Rightarrow> True | Some old \<Rightarrow> ng < old)"

definition relax :: "search_problem \<Rightarrow> real \<Rightarrow> node \<Rightarrow> int \<times> int \<times> real \<Rightarrow> search_state \<Rightarrow> search_state" where
  "relax p g cur d s =
     (let (dx, dy, step_cost) = d; n = (fst cur + dx, snd cur + dy); ng = step_score p g step_cost n in
      if passable p n \<and> better s n ng then reach p cur ng n s else s)"

text \<open>The least entry is taken from the heap; its cell is expanded unless it was reached better since.\<close>

definition least :: "search_state \<Rightarrow> real \<times> real \<times> int \<times> int" where
  "least s = Min (set (open_set s))"

definition at_goal :: "search_problem \<Rightarrow> node \<Rightarrow> bool" where
  "at_goal p n \<longleftrightarrow> n = sp_goal p \<or> distance n (sp_goal p) \<le> 3 / 2"

definition visit :: "search_problem \<Rightarrow> search_state \<Rightarrow> search_state" where
  "visit p s =
     (let (f, g, n) = least s; s1 = s\<lparr>open_set := remove1 (f, g, n) (open_set s)\<rparr> in
      if (case dget (g_score s1) n of None \<Rightarrow> False | Some best \<Rightarrow> best < g) then s1
      else fold (relax p g n) neighbors s1)"

primrec search :: "search_problem \<Rightarrow> nat \<Rightarrow> search_state \<Rightarrow> (node \<times> search_state) option" where
  "search p 0 s = None"
| "search p (Suc fuel) s =
     (if open_set s = [] then None
      else if at_goal p (snd (snd (least s))) then Some (snd (snd (least s)), s)
      else search p fuel (visit p s))"

definition search_begin :: "search_problem \<Rightarrow> search_state" where
  "search_begin p = \<lparr>open_set = [(0, 0, fst (sp_start p), snd (sp_start p))], came_from = [], g_score = [(sp_start p, 0)]\<rparr>"

definition max_expansions :: nat where "max_expansions = 40000"

subsection \<open>From the search to a path\<close>

partial_function (option) trace_back :: "(node, node) dict \<Rightarrow> node \<Rightarrow> node list option" where
  "trace_back came n = (case dget came n of None \<Rightarrow> Some []
     | Some prev \<Rightarrow> Option.bind (trace_back came prev) (\<lambda>ns. Some (n # ns)))"

text \<open>The outer option is whether the code returns, the inner whether a path was found.\<close>

definition pixel_path :: "search_problem \<Rightarrow> node list option option" where
  "pixel_path p =
     (case search p max_expansions (search_begin p) of None \<Rightarrow> Some None
      | Some (n, s) \<Rightarrow> map_option (\<lambda>ns. Some (rev (ns @ [sp_start p]))) (trace_back (came_from s) n))"

fun every_nth :: "nat \<Rightarrow> 'a list \<Rightarrow> 'a list" where
  "every_nth k [] = []"
| "every_nth k (x # xs) = x # every_nth k (drop k xs)"

text \<open>\<open>xs[::stride]\<close> with the last element added when it was skipped.\<close>

definition sampled :: "'a list \<Rightarrow> 'a list" where
  "sampled path = (let stride = max 1 (length path div 40); xs = every_nth (stride - 1) path in
     if last xs \<noteq> last path then xs @ [last path] else xs)"

definition straight :: "point \<Rightarrow> point \<Rightarrow> point list" where
  "straight a b = [(py_round 3 (fst a), py_round 3 (snd a)), (py_round 3 (fst b), py_round 3 (snd b))]"

definition problem_of :: "dilation \<Rightarrow> cells \<Rightarrow> grid_meta \<Rightarrow> point \<Rightarrow> point \<Rightarrow> real \<Rightarrow> search_problem" where
  "problem_of dilate cs m a b clearance_m =
     (let w = width m; h = height m; px = clearance_cells (resolution m) clearance_m;
          ix = to_index (resolution m) (origin_x m) w; iy = to_index (resolution m) (origin_y m) h
      in \<lparr>sp_w = w, sp_h = h, sp_cost = cell_cost (occupied_mask dilate px w h cs) cs,
          sp_start = (ix (fst a), iy (snd a)), sp_goal = (ix (fst b), iy (snd b))\<rparr>)"

definition point_of :: "grid_meta \<Rightarrow> node \<Rightarrow> point" where
  "point_of m n = (py_round 3 (origin_x m + of_int (fst n) * resolution m), py_round 3 (origin_y m + of_int (snd n) * resolution m))"

definition plan_on_grid :: "dilation \<Rightarrow> cells \<Rightarrow> grid_meta \<Rightarrow> point \<Rightarrow> point \<Rightarrow> real \<Rightarrow> point list option" where
  "plan_on_grid dilate cs m a b clearance_m =
     (let p = problem_of dilate cs m a b clearance_m in
      if sp_start p = sp_goal p then Some (straight a b)
      else map_option (\<lambda>found. case found of None \<Rightarrow> straight a b | Some path \<Rightarrow> map (point_of m) (sampled path)) (pixel_path p))"

text \<open>\<^verbatim>\<open>int(round((v - origin) / res))\<close> raises for a resolution of zero, which an upload may have, and for a coordinate that
  is no finite number. The four indices are computed first.\<close>

type_synonym float_point = "pyfloat \<times> pyfloat"

definition finite_index :: "real \<Rightarrow> pyfloat \<Rightarrow> pyerr + real" where
  "finite_index res v = (if res = 0 then Inl ZeroDivisionError
     else case v of Fin r \<Rightarrow> Inr r | NaN \<Rightarrow> Inl ValueError | _ \<Rightarrow> Inl OverflowError)"

definition finite_points :: "real \<Rightarrow> float_point \<Rightarrow> float_point \<Rightarrow> pyerr + point \<times> point" where
  "finite_points res a b =
     ebind (finite_index res (fst a)) (\<lambda>ax. ebind (finite_index res (snd a)) (\<lambda>ay.
     ebind (finite_index res (fst b)) (\<lambda>bx. ebind (finite_index res (snd b)) (\<lambda>by. Inr ((ax, ay), (bx, by))))))"

definition plan_global_path :: "dilation \<Rightarrow> cells \<Rightarrow> grid_meta \<Rightarrow> float_point \<Rightarrow> float_point \<Rightarrow> real \<Rightarrow> (pyerr + point list) option" where
  "plan_global_path dilate cs m a b clearance_m =
     (case finite_points (resolution m) a b of Inl e \<Rightarrow> Some (Inl e)
      | Inr (a, b) \<Rightarrow> map_option Inr (plan_on_grid dilate cs m a b clearance_m))"

subsection \<open>Which grid is planned on\<close>

definition turned_back :: "transform \<Rightarrow> point \<Rightarrow> point" where
  "turned_back t q = (let (tx, ty, yaw) = t; dx = fst q - tx; dy = snd q - ty in
     (dx * cos yaw + dy * sin yaw, - dx * sin yaw + dy * cos yaw))"

definition float_pt :: "point \<Rightarrow> float_point" where
  "float_pt q = (Fin (fst q), Fin (snd q))"

definition plan_path :: "dilation \<Rightarrow> map_service \<Rightarrow> string \<Rightarrow> point \<Rightarrow> point \<Rightarrow> real \<Rightarrow> (pyerr + point list) option" where
  "plan_path dilate s rid a b clearance_m =
     (case (if in_common_frame s rid then global_grid s else None) of
        Some (m, cs) \<Rightarrow> plan_global_path dilate cs m (float_pt a) (float_pt b) clearance_m
      | None \<Rightarrow>
          (case dget (robot_grids s) rid of
             Some (m, cs) \<Rightarrow> (let t = transform_in s rid in
               map_option (map_sum id (map (turned t)))
                 (plan_global_path dilate cs m (float_pt (turned_back t a)) (float_pt (turned_back t b)) clearance_m))
           | None \<Rightarrow> Some (Inr (straight a b))))"

subsection \<open>What the search keeps\<close>

definition adjacent :: "node \<Rightarrow> node \<Rightarrow> bool" where
  "adjacent a b \<longleftrightarrow> a \<noteq> b \<and> \<bar>fst a - fst b\<bar> \<le> 1 \<and> \<bar>snd a - snd b\<bar> \<le> 1"

definition score_of :: "search_state \<Rightarrow> node \<Rightarrow> real" where
  "score_of s n = the (dget (g_score s) n)"

definition search_inv :: "search_problem \<Rightarrow> search_state \<Rightarrow> bool" where
  "search_inv p s \<longleftrightarrow>
     dget (g_score s) (sp_start p) = Some 0 \<and> dget (came_from s) (sp_start p) = None
     \<and> (\<forall>n g. dget (g_score s) n = Some g \<longrightarrow> 0 \<le> g \<and> (n = sp_start p \<or> dget (came_from s) n \<noteq> None))
     \<and> (\<forall>n c. dget (came_from s) n = Some c \<longrightarrow> passable p n \<and> adjacent c n
          \<and> dget (g_score s) n \<noteq> None \<and> dget (g_score s) c \<noteq> None \<and> score_of s c < score_of s n)
     \<and> (\<forall>(f, g, n) \<in> set (open_set s). \<exists>best. dget (g_score s) n = Some best \<and> best \<le> g)"

lemma inv_start: "search_inv p s \<Longrightarrow> dget (g_score s) (sp_start p) = Some 0"
  and inv_root: "search_inv p s \<Longrightarrow> dget (came_from s) (sp_start p) = None"
  and inv_score: "search_inv p s \<Longrightarrow> dget (g_score s) n = Some g \<Longrightarrow> 0 \<le> g \<and> (n = sp_start p \<or> dget (came_from s) n \<noteq> None)"
  and inv_parent: "search_inv p s \<Longrightarrow> dget (came_from s) n = Some c \<Longrightarrow> passable p n \<and> adjacent c n
    \<and> dget (g_score s) n \<noteq> None \<and> dget (g_score s) c \<noteq> None \<and> score_of s c < score_of s n"
  and inv_queued: "search_inv p s \<Longrightarrow> (f, g, n) \<in> set (open_set s) \<Longrightarrow> \<exists>best. dget (g_score s) n = Some best \<and> best \<le> g"
  unfolding search_inv_def by (blast, blast, blast, blast, blast)

lemma search_inv_open: "search_inv p s \<Longrightarrow> set os \<subseteq> set (open_set s) \<Longrightarrow> search_inv p (s\<lparr>open_set := os\<rparr>)"
  unfolding search_inv_def score_of_def by simp blast

text \<open>While a cell is being expanded, its score_of stays what it was.\<close>

definition at_score :: "search_problem \<Rightarrow> node \<Rightarrow> real \<Rightarrow> search_state \<Rightarrow> bool" where
  "at_score p cur g s \<longleftrightarrow> search_inv p s \<and> dget (g_score s) cur = Some g"

lemma relax_inv:
  assumes "at_score p cur g s" and d: "d \<in> set neighbors" and cost: "\<And>r c. 0 \<le> sp_cost p r c"
  shows "at_score p cur g (relax p g cur d s)"
proof -
  obtain dx dy st where d_eq: "d = (dx, dy, st)" by (cases d)
  let ?n = "(fst cur + dx, snd cur + dy)"
  let ?ng = "step_score p g st ?n"
  have step: "0 < st" "(dx, dy) \<noteq> (0, 0)" "\<bar>dx\<bar> \<le> 1" "\<bar>dy\<bar> \<le> 1"
    using d by (auto simp: d_eq neighbors_def)
  have inv: "search_inv p s" and cur: "dget (g_score s) cur = Some g" using assms(1) by (simp_all add: at_score_def)
  have g0: "0 \<le> g" using inv_score [OF inv cur] by simp
  have up: "g < ?ng"
  proof -
    have "0 < 1 + real_of_int (sp_cost p (snd ?n) (fst ?n)) * (15 / 100)"
      using cost [of "snd ?n" "fst ?n"] by (simp add: add_pos_nonneg)
    then show ?thesis using step(1) by (simp add: step_score_def)
  qed
  have ncur: "?n \<noteq> cur" using step(2) by (cases cur) auto
  show ?thesis
  proof (cases "passable p ?n \<and> better s ?n ?ng")
    case False
    then have "relax p g cur d s = s" by (auto simp: relax_def d_eq Let_def)
    then show ?thesis using assms(1) by simp
  next
    case True
    define s' where "s' = reach p cur ?ng ?n s"
    have relax: "relax p g cur d s = s'"
      using True by (simp add: relax_def d_eq Let_def s'_def)
    have nstart: "?n \<noteq> sp_start p"
      using True inv_start [OF inv] up g0 by (auto simp: better_def)
    have gs: "dget (g_score s') n = (if n = ?n then Some ?ng else dget (g_score s) n)"
      and cf: "dget (came_from s') n = (if n = ?n then Some cur else dget (came_from s) n)" for n
      by (auto simp: s'_def reach_def dict_simps)
    have lower: "\<exists>new. dget (g_score s') n = Some new \<and> new \<le> old" if "dget (g_score s) n = Some old" for n old
      using that True by (auto simp: gs better_def)
    have start: "dget (g_score s') (sp_start p) = Some 0 \<and> dget (came_from s') (sp_start p) = None"
      using inv_start [OF inv] inv_root [OF inv] nstart by (auto simp: gs cf)
    have scored: "0 \<le> h \<and> (n = sp_start p \<or> dget (came_from s') n \<noteq> None)" if "dget (g_score s') n = Some h" for n h
      using inv_score [OF inv, of n h] that g0 up by (cases "n = ?n") (simp_all add: gs cf)
    have parents: "passable p n \<and> adjacent c n \<and> dget (g_score s') n \<noteq> None \<and> dget (g_score s') c \<noteq> None \<and> score_of s' c < score_of s' n"
      if "dget (came_from s') n = Some c" for n c
    proof (cases "n = ?n")
      case True
      then have c: "c = cur" using that by (simp add: cf)
      have "adjacent cur ?n" using step ncur by (auto simp: adjacent_def)
      moreover have "score_of s' cur = g" using cur ncur unfolding score_of_def gs by simp
      moreover have "score_of s' ?n = ?ng" unfolding score_of_def gs by simp
      ultimately show ?thesis using True c cur up \<open>passable p ?n \<and> _\<close> by (simp add: gs)
    next
      case False
      then have old: "passable p n" "adjacent c n" "dget (g_score s) n \<noteq> None" "dget (g_score s) c \<noteq> None" "score_of s c < score_of s n"
        using inv_parent [OF inv, of n c] that False by (simp_all add: cf)
      obtain h new where h: "dget (g_score s) c = Some h" "dget (g_score s') c = Some new" "new \<le> h"
        using old(4) lower by blast
      have "score_of s' c = new" using h(2) by (simp add: score_of_def)
      moreover have "score_of s c = h" using h(1) by (simp add: score_of_def)
      moreover have "score_of s' n = score_of s n" using False unfolding score_of_def gs by simp
      ultimately have "score_of s' c < score_of s' n" using old(5) h(3) by simp
      then show ?thesis using old False h by (simp add: gs)
    qed
    have queued: "\<exists>best. dget (g_score s') m = Some best \<and> best \<le> h" if "(f, h, m) \<in> set (open_set s')" for f h m
    proof (cases "(f, h, m) \<in> set (open_set s)")
      case True
      then obtain old where "dget (g_score s) m = Some old" "old \<le> h" using inv_queued [OF inv] by blast
      then show ?thesis using lower order_trans by blast
    next
      case False
      then have "m = ?n \<and> h = ?ng" using that by (auto simp: s'_def reach_def)
      then show ?thesis by (simp add: gs)
    qed
    have "search_inv p s'"
      unfolding search_inv_def using start scored parents queued by blast
    moreover have "dget (g_score s') cur = Some g" using cur ncur by (auto simp: gs)
    ultimately show ?thesis by (simp add: at_score_def relax)
  qed
qed

lemma relax_fold_inv:
  "at_score p cur g s \<Longrightarrow> set ds \<subseteq> set neighbors \<Longrightarrow> (\<And>r c. 0 \<le> sp_cost p r c) \<Longrightarrow> at_score p cur g (fold (relax p g cur) ds s)"
  by (induction ds arbitrary: s) (simp_all add: relax_inv)

lemma least_in: "open_set s \<noteq> [] \<Longrightarrow> least s \<in> set (open_set s)"
  unfolding least_def by (rule Min_in) simp_all

lemma visit_inv:
  assumes "search_inv p s" and "open_set s \<noteq> []" and cost: "\<And>r c. 0 \<le> sp_cost p r c"
  shows "search_inv p (visit p s)"
proof -
  obtain f g n where e: "least s = (f, g, n)" by (cases "least s")
  let ?s1 = "s\<lparr>open_set := remove1 (f, g, n) (open_set s)\<rparr>"
  have s1: "search_inv p ?s1"
    by (rule search_inv_open [OF assms(1)]) (rule set_remove1_subset)
  obtain best where best: "dget (g_score s) n = Some best" "best \<le> g"
    using inv_queued [OF assms(1)] least_in [OF assms(2)] e by metis
  show ?thesis
  proof (cases "best < g")
    case True
    then show ?thesis using s1 best by (simp add: visit_def e Let_def)
  next
    case False
    then have "at_score p n g ?s1" using s1 best by (simp add: at_score_def)
    then have "at_score p n g (fold (relax p g n) neighbors ?s1)" using cost by (intro relax_fold_inv) simp_all
    then show ?thesis using False best by (simp add: visit_def e Let_def at_score_def)
  qed
qed

lemma search_begin_inv: "search_inv p (search_begin p)"
  by (simp add: search_inv_def search_begin_def)

lemma search_found:
  assumes "search p fuel s = Some (n, s')" and "search_inv p s" and cost: "\<And>r c. 0 \<le> sp_cost p r c"
  shows "search_inv p s' \<and> at_goal p n \<and> dget (g_score s') n \<noteq> None"
  using assms(1,2)
proof (induction fuel arbitrary: s)
  case (Suc fuel)
  have ne: "open_set s \<noteq> []" using Suc.prems(1) by (auto split: if_splits)
  show ?case
  proof (cases "at_goal p (snd (snd (least s)))")
    case True
    then have eq: "n = snd (snd (least s))" "s' = s" using Suc.prems(1) ne by auto
    have "dget (g_score s) n \<noteq> None"
      using inv_queued [OF Suc.prems(2)] least_in [OF ne] unfolding eq(1) by (metis option.distinct(1) prod.collapse)
    then show ?thesis using True Suc.prems(2) by (simp add: eq)
  next
    case False
    then show ?thesis
      using Suc.prems ne by (intro Suc.IH [of "visit p s"] visit_inv) (simp_all add: cost)
  qed
qed simp

subsection \<open>Going back to the start\<close>

text \<open>Scores fall along predecessors, of which there are finitely many: following them ends.\<close>

lemma trace_back_total:
  assumes "search_inv p s" and "dget (g_score s) n \<noteq> None"
  shows "\<exists>ns. trace_back (came_from s) n = Some ns \<and> hd (ns @ [sp_start p]) = n
    \<and> successively (\<lambda>a b. adjacent b a) (ns @ [sp_start p]) \<and> list_all (passable p) ns"
  using assms(2)
proof (induction n rule: measure_induct_rule [where f = "\<lambda>n. card {m \<in> fst ` set (came_from s). score_of s m < score_of s n}"])
  case (less n)
  show ?case
  proof (cases "dget (came_from s) n")
    case None
    then have "n = sp_start p" using inv_score [OF assms(1), of n] less.prems by auto
    then show ?thesis using None by (intro exI [of _ "[]"]) (simp add: trace_back.simps)
  next
    case (Some c)
    note up = inv_parent [OF assms(1) Some]
    show ?thesis
    proof (cases "dget (came_from s) c")
      case None
      then have "c = sp_start p" using inv_score [OF assms(1), of c] up by auto
      moreover have "trace_back (came_from s) c = Some []" using None by (subst trace_back.simps) simp
      then have "trace_back (came_from s) n = Some [n]" using Some by (subst trace_back.simps) simp
      ultimately show ?thesis using up by (intro exI [of _ "[n]"]) simp
    next
      case (Some d)
      let ?below = "\<lambda>n. {m \<in> fst ` set (came_from s). score_of s m < score_of s n}"
      have "c \<in> ?below n" using Some up map_of_SomeD [OF Some] by force
      moreover have "c \<notin> ?below c" by simp
      moreover have "?below c \<subseteq> ?below n" using up by auto
      ultimately have "?below c \<subset> ?below n" by blast
      then have "card (?below c) < card (?below n)" by (intro psubset_card_mono) simp_all
      then obtain ns where ns: "trace_back (came_from s) c = Some ns" "hd (ns @ [sp_start p]) = c"
          "successively (\<lambda>a b. adjacent b a) (ns @ [sp_start p])" "list_all (passable p) ns"
        using less.IH [of c] up by blast
      have "successively (\<lambda>a b. adjacent b a) ((n # ns) @ [sp_start p])"
        using ns(2,3) up by (cases ns) (simp_all add: successively_Cons)
      moreover have "trace_back (came_from s) n = Some (n # ns)"
        using ns(1) \<open>dget (came_from s) n = Some c\<close> by (subst trace_back.simps) simp
      ultimately show ?thesis using ns(4) up by (intro exI [of _ "n # ns"]) simp
    qed
  qed
qed

text \<open>A path begins at the start, ends within one and a half cells of the goal, goes from cell to
  neighbouring cell, and every cell after the first can be passed.\<close>

definition good_path :: "search_problem \<Rightarrow> node list \<Rightarrow> bool" where
  "good_path p path \<longleftrightarrow> path \<noteq> [] \<and> hd path = sp_start p \<and> at_goal p (last path) \<and> successively adjacent path
     \<and> list_all (passable p) (tl path)"

lemma pixel_path_good:
  assumes "p = problem_of dilate cs m a b clearance_m"
  shows "\<exists>found. pixel_path p = Some found \<and> (\<forall>path. found = Some path \<longrightarrow> good_path p path)"
proof (cases "search p max_expansions (search_begin p)")
  case None
  then show ?thesis by (simp add: pixel_path_def)
next
  case (Some r)
  obtain n s where r: "r = (n, s)" by (cases r)
  have cost: "0 \<le> sp_cost p r c" for r c by (simp add: assms problem_of_def cell_cost_def Let_def)
  have found: "search_inv p s" "at_goal p n" "dget (g_score s) n \<noteq> None"
    using search_found [OF Some [unfolded r] search_begin_inv cost] by simp_all
  obtain ns where ns: "trace_back (came_from s) n = Some ns" "hd (ns @ [sp_start p]) = n"
      "successively (\<lambda>a b. adjacent b a) (ns @ [sp_start p])" "list_all (passable p) ns"
    using trace_back_total [OF found(1,3)] by blast
  have "successively adjacent (rev (ns @ [sp_start p]))"
    using ns(3) by (simp only: successively_rev)
  then have "good_path p (rev (ns @ [sp_start p]))"
    using ns(2,4) found(2) by (cases ns) (simp_all add: good_path_def last_rev list_all_iff)
  then show ?thesis using Some ns(1) by (simp add: pixel_path_def r)
qed

subsection \<open>Sampling\<close>

lemma every_nth_0 [simp]: "every_nth 0 xs = xs"
  by (induction xs) simp_all

lemma length_every_nth: "length (every_nth k xs) = (length xs + k) div Suc k"
proof (induction k xs rule: every_nth.induct)
  case (2 k x xs)
  show ?case
  proof (cases "k \<le> length xs")
    case True
    then have "length (x # xs) + k = Suc k + (length (drop k xs) + k)" by simp
    then have "(length (x # xs) + k) div Suc k = Suc ((length (drop k xs) + k) div Suc k)"
      by (simp only: div_add_self1 [OF Suc_not_Zero])
    then show ?thesis using 2 by (simp del: length_drop)
  next
    case False
    then have "(length (x # xs) + k) div Suc k = Suc ((length xs) div Suc k)"
      using div_add_self2 [of "Suc k" "length xs"] by (simp add: add.commute)
    then show ?thesis using False by simp
  qed
qed simp

lemma set_every_nth: "set (every_nth k xs) \<subseteq> set xs"
proof (induction k xs rule: every_nth.induct)
  case (2 k x xs)
  then show ?case using set_drop_subset [of k xs] by auto
qed simp

lemma sampled_bounds:
  assumes "path \<noteq> []"
  shows "length (sampled path) \<le> 79" and "set (sampled path) \<subseteq> set path"
proof -
  let ?n = "length path" and ?s = "max 1 (length path div 40)"
  show "length (sampled path) \<le> 79"
  proof (cases "?n < 80")
    case True
    then have "?s = 1" by simp
    then show ?thesis using True by (simp add: sampled_def Let_def)
  next
    case False
    then have s: "2 \<le> ?s" "?s = ?n div 40" by simp_all
    have "?n < 40 * ?s + 40" using s(2) by simp
    then have "?n + (?s - 1) \<le> 60 * ?s" using s(1) by simp
    then have "(?n + (?s - 1)) div ?s \<le> 60 * ?s div ?s" by (rule div_le_mono)
    then have "length (every_nth (?s - 1) path) \<le> 60"
      using s(1) by (simp add: length_every_nth)
    then show ?thesis by (simp add: sampled_def Let_def)
  qed
  show "set (sampled path) \<subseteq> set path"
    using set_every_nth [of "?s - 1" path] last_in_set [OF assms] by (auto simp: sampled_def Let_def)
qed

subsection \<open>What a plan guarantees\<close>

lemma plan_on_grid_returns:
  "\<exists>pts. plan_on_grid dilate cs m a b clearance_m = Some pts \<and> 0 < length pts \<and> length pts \<le> 79"
proof -
  obtain found where "pixel_path (problem_of dilate cs m a b clearance_m) = Some found"
    and "\<forall>path. found = Some path \<longrightarrow> good_path (problem_of dilate cs m a b clearance_m) path"
    using pixel_path_good by blast
  moreover have "path \<noteq> [] \<Longrightarrow> sampled path \<noteq> []" for path :: "node list"
    by (cases path) (simp_all add: sampled_def Let_def)
  ultimately show ?thesis
    using sampled_bounds(1) by (cases found) (auto simp: plan_on_grid_def Let_def straight_def good_path_def)
qed

definition is_number :: "float_point \<Rightarrow> bool" where
  "is_number q \<longleftrightarrow> is_finite (fst q) \<and> is_finite (snd q)"

fun coordinate :: "pyfloat \<Rightarrow> real" where
  "coordinate (Fin r) = r"
| "coordinate _ = 0"

lemma finite_index_cases:
  "finite_index res v = (if res = 0 then Inl ZeroDivisionError else if is_finite v then Inr (coordinate v)
     else Inl (if v = NaN then ValueError else OverflowError))"
  by (cases v) (simp_all add: finite_index_def)

text \<open>C17: The planner always returns: with an error exactly when the resolution of the grid is zero or a coordinate of the
  start or the goal is no finite number, and otherwise with between one and seventy-nine points. The search is limited to
  forty thousand expansions, and the predecessors lead back to the start without a loop.\<close>

theorem planner_returns:
  "\<exists>r. plan_global_path dilate cs m a b clearance_m = Some r
    \<and> (case r of Inr pts \<Rightarrow> resolution m \<noteq> 0 \<and> is_number a \<and> is_number b \<and> 0 < length pts \<and> length pts \<le> 79
       | Inl e \<Rightarrow> if resolution m = 0 then e = ZeroDivisionError
           else \<not> (is_number a \<and> is_number b) \<and> e \<in> {ValueError, OverflowError})"
proof (cases "resolution m \<noteq> 0 \<and> is_number a \<and> is_number b")
  case True
  obtain pts where "plan_on_grid dilate cs m (coordinate (fst a), coordinate (snd a)) (coordinate (fst b), coordinate (snd b)) clearance_m = Some pts"
      "0 < length pts" "length pts \<le> 79" using plan_on_grid_returns by blast
  then show ?thesis using True
    by (simp add: plan_global_path_def finite_points_def finite_index_cases is_number_def)
next
  case False
  then show ?thesis
    by (auto simp: plan_global_path_def finite_points_def finite_index_cases is_number_def)
qed

text \<open>The only property of the library's dilation that is used.\<close>

definition keeps_occupied :: "dilation \<Rightarrow> bool" where
  "keeps_occupied dilate \<longleftrightarrow> (\<forall>px m r c. m r c \<longrightarrow> dilate px m r c)"

lemma passable_free:
  assumes "keeps_occupied dilate" and "passable (problem_of dilate cs m a b clearance_m) n"
  shows "inside m (snd n) (fst n) \<and> cs (snd n) (fst n) < 50"
proof -
  have "\<not> occupied_mask dilate (clearance_cells (resolution m) clearance_m) (width m) (height m) cs (snd n) (fst n)"
    using assms(2) by (auto simp: passable_def problem_of_def cell_cost_def Let_def)
  then have "\<not> 50 \<le> cs (snd n) (fst n)"
    using assms(1) unfolding keeps_occupied_def occupied_mask_def Let_def by (auto split: if_splits)
  then show ?thesis using assms(2) by (simp add: passable_def problem_of_def inside_def Let_def)
qed

lemma plan_on_grid_avoids:
  assumes "keeps_occupied dilate"
    and "plan_on_grid dilate cs m a b clearance_m = Some pts" and "pts \<noteq> straight a b"
  shows "\<exists>path. pts = map (point_of m) (sampled path) \<and> set (sampled path) \<subseteq> set path \<and> successively adjacent path
    \<and> hd path = sp_start (problem_of dilate cs m a b clearance_m) \<and> at_goal (problem_of dilate cs m a b clearance_m) (last path)
    \<and> list_all (\<lambda>(x, y). inside m y x \<and> cs y x < 50) (tl path)"
proof -
  let ?p = "problem_of dilate cs m a b clearance_m"
  obtain path where path: "pixel_path ?p = Some (Some path)" "pts = map (point_of m) (sampled path)"
    using assms(2,3) by (auto simp: plan_on_grid_def Let_def split: if_splits option.splits)
  have good: "good_path ?p path" using pixel_path_good [OF refl, of dilate cs m a b clearance_m] path(1) by auto
  have "list_all (\<lambda>(x, y). inside m y x \<and> cs y x < 50) (tl path)"
    using good passable_free [OF assms(1)] by (fastforce simp: good_path_def list_all_iff)
  moreover have "path \<noteq> []" using good by (simp add: good_path_def)
  ultimately show ?thesis using good path(2) sampled_bounds(2) [of path] by (intro exI [of _ path]) (simp add: good_path_def)
qed

text \<open>C16: Unless the answer is the straight line, its points are taken from a chain of neighbouring cells
  that begins at the start and ends within one and a half cells of the goal, and every cell of the
  chain after the first is inside the grid and not occupied. Start and goal are finite and the resolution is not zero, and the
  dilation leaves occupied cells occupied.\<close>

theorem plan_avoids_obstacles:
  assumes "keeps_occupied dilate"
    and "plan_global_path dilate cs m a b clearance_m = Some (Inr pts)" and "finite_points (resolution m) a b = Inr (start, goal)"
    and "pts \<noteq> straight start goal"
  shows "\<exists>path. pts = map (point_of m) (sampled path) \<and> set (sampled path) \<subseteq> set path \<and> successively adjacent path
    \<and> hd path = sp_start (problem_of dilate cs m start goal clearance_m)
    \<and> at_goal (problem_of dilate cs m start goal clearance_m) (last path)
    \<and> list_all (\<lambda>(x, y). inside m y x \<and> cs y x < 50) (tl path)"
  using assms plan_on_grid_avoids [OF assms(1), of cs m start goal clearance_m pts] by (simp add: plan_global_path_def)

text \<open>When there is no way to the goal, the answer is not a refusal but the straight line to it,
  whatever lies across.\<close>

lemma no_route_gives_straight_line:
  assumes "\<And>path. \<not> good_path (problem_of dilate cs m a b clearance_m) path"
  shows "plan_on_grid dilate cs m a b clearance_m = Some (straight a b)"
proof -
  obtain found where found: "pixel_path (problem_of dilate cs m a b clearance_m) = Some found"
    and "\<forall>path. found = Some path \<longrightarrow> good_path (problem_of dilate cs m a b clearance_m) path"
    using pixel_path_good by blast
  then have "found = None" using assms by (cases found) simp_all
  then show ?thesis using found by (simp add: plan_on_grid_def Let_def)
qed

subsection \<open>Examples\<close>

definition corridor :: grid_meta where
  "corridor = \<lparr>resolution = 1, width = 7, height = 1, origin_x = 0, origin_y = 0\<rparr>"

definition barred :: cells where
  "barred = (\<lambda>r c. if c = 3 then OCCUPIED else FREE)"

lemma round_nat [simp]: "round_even (numeral k) = numeral k" "round_even 1 = 1"
  using round_even_of_int [of "numeral k"] round_even_of_int [of 1] by simp_all

lemma corridor_problem:
  "sp_start (problem_of dilate barred corridor (0, 0) (numeral k, 0) cl) = (0, 0)"
  "sp_goal (problem_of dilate barred corridor (0, 0) (6, 0) cl) = (6, 0)"
  "sp_goal (problem_of dilate barred corridor (0, 0) (1, 0) cl) = (1, 0)"
  "sp_start (problem_of dilate barred corridor (0, 0) (1, 0) cl) = (0, 0)"
  by (simp_all add: problem_of_def corridor_def to_index_def Let_def)

lemma search_at_once:
  "0 < fuel \<Longrightarrow> open_set s \<noteq> [] \<Longrightarrow> at_goal p (snd (snd (least s)))
    \<Longrightarrow> search p fuel s = Some (snd (snd (least s)), s)"
  by (cases fuel) simp_all

theorem plan_avoids_obstacles_witness:
  "\<exists>path. [point_of corridor (0, 0)] = map (point_of corridor) (sampled path) \<and> set (sampled path) \<subseteq> set path
    \<and> successively adjacent path
    \<and> hd path = sp_start (problem_of (\<lambda>_ m. m) barred corridor (0, 0) (1, 0) (35 / 100))
    \<and> at_goal (problem_of (\<lambda>_ m. m) barred corridor (0, 0) (1, 0) (35 / 100)) (last path)
    \<and> list_all (\<lambda>(x, y). inside corridor y x \<and> barred y x < 50) (tl path)"
proof (rule plan_avoids_obstacles [where a = "float_pt (0, 0)" and b = "float_pt (1, 0)"])
  let ?p = "problem_of (\<lambda>_ m. m) barred corridor (0, 0) (1, 0) (35 / 100)"
  have least: "least (search_begin ?p) = (0, 0, 0, 0)" by (simp add: search_begin_def least_def corridor_problem)
  have "at_goal ?p (0, 0)" by (simp add: at_goal_def corridor_problem distance_def)
  then have "search ?p max_expansions (search_begin ?p) = Some (snd (snd (least (search_begin ?p))), search_begin ?p)"
    unfolding least by (intro search_at_once [of _ "search_begin ?p", unfolded least])
      (simp_all add: max_expansions_def search_begin_def)
  then have "search ?p max_expansions (search_begin ?p) = Some ((0, 0), search_begin ?p)" by (simp only: least snd_conv)
  moreover have "trace_back [] (0, 0) = Some []" by (subst trace_back.simps) simp
  ultimately have "pixel_path ?p = Some (Some [(0, 0)])"
    by (simp add: pixel_path_def search_begin_def corridor_problem)
  then have "plan_on_grid (\<lambda>_ m. m) barred corridor (0, 0) (1, 0) (35 / 100) = Some [point_of corridor (0, 0)]"
    by (simp add: plan_on_grid_def Let_def corridor_problem sampled_def)
  moreover have pts: "finite_points (resolution corridor) (float_pt (0, 0)) (float_pt (1, 0)) = Inr ((0, 0), (1, 0))"
    by (simp add: finite_points_def finite_index_def float_pt_def corridor_def)
  ultimately show "plan_global_path (\<lambda>_ m. m) barred corridor (float_pt (0, 0)) (float_pt (1, 0)) (35 / 100) = Some (Inr [point_of corridor (0, 0)])"
    by (simp add: plan_global_path_def)
  show "finite_points (resolution corridor) (float_pt (0, 0)) (float_pt (1, 0)) = Inr ((0, 0), (1, 0))" by (rule pts)
qed (simp_all add: keeps_occupied_def straight_def)

lemma stays_before_bar:
  "successively adjacent (n # ns) \<Longrightarrow> fst n < 3 \<Longrightarrow> list_all (\<lambda>k. fst k \<noteq> 3) ns \<Longrightarrow> fst (last (n # ns)) < 3"
proof (induction ns arbitrary: n)
  case (Cons k ns)
  then have "fst k < 3" by (auto simp: adjacent_def)
  then show ?case using Cons by simp
qed simp

lemma no_route_gives_straight_line_witness:
  "plan_on_grid (\<lambda>_ m. m) barred corridor (0, 0) (6, 0) (35 / 100) = Some (straight (0, 0) (6, 0)) \<and> barred 0 3 = OCCUPIED"
proof -
  let ?p = "problem_of (\<lambda>_ m. m) barred corridor (0, 0) (6, 0) (35 / 100)"
  have free: "fst k \<noteq> 3" if "passable ?p k" for k
    using passable_free [OF _ that] by (auto simp: keeps_occupied_def barred_def cell_values)
  have "\<not> good_path ?p path" for path
  proof
    assume g: "good_path ?p path"
    then obtain ns where ns: "path = (0, 0) # ns" by (cases path) (auto simp: good_path_def corridor_problem)
    have "list_all (\<lambda>k. fst k \<noteq> 3) ns" using g free by (auto simp: good_path_def ns list_all_iff)
    moreover have "successively adjacent ((0, 0) # ns)" using g unfolding good_path_def ns by blast
    ultimately have before: "fst (last path) < 3" unfolding ns by (intro stays_before_bar) simp_all
    have "at_goal ?p (last path)" using g by (simp add: good_path_def)
    then have "distance (last path) (6, 0) \<le> 3 / 2" using before by (auto simp: at_goal_def corridor_problem)
    then have "(real_of_int (fst (last path)) - 6)\<^sup>2 + (real_of_int (snd (last path)))\<^sup>2 \<le> (3 / 2)\<^sup>2"
      unfolding distance_def hypot_def by (simp add: real_sqrt_le_iff real_le_rsqrt sqrt_le_D)
    then have "(real_of_int (fst (last path)) - 6)\<^sup>2 \<le> (3 / 2)\<^sup>2"
      by (rule order_trans [rotated]) simp
    then have "(6 - real_of_int (fst (last path)))\<^sup>2 \<le> (3 / 2)\<^sup>2" by (subst power2_commute)
    then have "6 - real_of_int (fst (last path)) \<le> 3 / 2" by (rule power2_le_imp_le) simp
    then show False using before by simp
  qed
  then show ?thesis by (intro conjI no_route_gives_straight_line) (simp_all add: barred_def)
qed

end
