(* ===== verification/Place_Index.thy ===== *)
theory Place_Index
  imports Trajectory
begin

text \<open>
  \<^verbatim>\<open>slam/swarmdeck_slam/descriptors.py\<close>, \<open>ScanContextIndex\<close>: the index of place descriptors that
  proposes loop closures. Descriptors are opaque; the nearest neighbours among ring keys (SciPy's
  k-d tree) and the comparison of two descriptors at every rotation are arguments. What is modelled
  is the bookkeeping around them: the widening of the search until enough candidates survive the
  exclusion of neighbours in time, and the ranking. The search doubles its width until it covers
  the index; it is a partial function, and the theorem says that it ends.
\<close>

record place_candidate =
  pc_id :: kf_id
  pc_distance :: real
  pc_yaw :: real

text \<open>What the index uses of its descriptors: a shape test, the indices of the nearest entries for a
  number asked for, and distance and yaw of two descriptors.\<close>

record 'd place_kit =
  d_valid :: "'d \<Rightarrow> bool"
  d_nearest :: "'d list \<Rightarrow> 'd \<Rightarrow> nat \<Rightarrow> nat list"
  d_compare :: "'d \<Rightarrow> 'd \<Rightarrow> real \<times> real"

type_synonym 'd place_index = "(kf_id \<times> 'd) list"

definition index_add :: "'d place_kit \<Rightarrow> kf_id \<Rightarrow> 'd \<Rightarrow> 'd place_index \<Rightarrow> pyerr + 'd place_index" where
  "index_add kit k d idx = (if d_valid kit d then Inr (idx @ [(k, d)]) else Inl ValueError)"

definition near_in_time :: "nat \<Rightarrow> kf_id \<Rightarrow> kf_id \<Rightarrow> bool" where
  "near_in_time w q k \<longleftrightarrow> kf_robot k = kf_robot q \<and> \<bar>kf_seq k - kf_seq q\<bar> \<le> int w"

definition admissible :: "nat \<Rightarrow> kf_id option \<Rightarrow> kf_id \<Rightarrow> bool" where
  "admissible w q k = (case q of None \<Rightarrow> True | Some query_id \<Rightarrow> \<not> near_in_time w query_id k)"

partial_function (option) widen :: "(nat \<Rightarrow> nat list) \<Rightarrow> (nat \<Rightarrow> bool) \<Rightarrow> nat \<Rightarrow> nat \<Rightarrow> nat \<Rightarrow> nat list option" where
  "widen nearest ok k n fetch =
     (let kept = filter ok (nearest fetch) in
      if k \<le> length kept \<or> n \<le> fetch then Some kept else widen nearest ok k n (min n (fetch * 2)))"

definition candidate_of :: "'d place_kit \<Rightarrow> 'd place_index \<Rightarrow> 'd \<Rightarrow> nat \<Rightarrow> place_candidate" where
  "candidate_of kit idx d i =
     (let (dist, yaw) = d_compare kit (snd (idx ! i)) d in \<lparr>pc_id = fst (idx ! i), pc_distance = dist, pc_yaw = yaw\<rparr>)"

text \<open>The outer option is whether the search returns.\<close>

definition index_query :: "'d place_kit \<Rightarrow> nat \<Rightarrow> 'd place_index \<Rightarrow> 'd \<Rightarrow> int \<Rightarrow> kf_id option
    \<Rightarrow> (pyerr + place_candidate list) option" where
  "index_query kit w idx d k query_id =
     (if \<not> d_valid kit d then Some (Inl ValueError)
      else if k \<le> 0 then Some (Inl ValueError)
      else if idx = [] then Some (Inr [])
      else let n = length idx;
               margin = (if query_id = None then 0 else 2 * w + 1)
           in map_option (\<lambda>kept. Inr (sort_key pc_distance (map (candidate_of kit idx d) (take (nat k) kept))))
                (widen (d_nearest kit (map snd idx) d) (\<lambda>i. admissible w query_id (fst (idx ! i)))
                  (nat k) n (min n (nat k + margin))))"

subsection \<open>The search returns, and misses nothing\<close>

text \<open>The documented behaviour of the k-d tree: asked for \<open>f\<close> neighbours of at least \<open>f\<close> entries it
  returns \<open>f\<close> different ones, nearest first, and none it leaves out is nearer (\<open>ring\<close> is the distance of two ring keys).\<close>

definition nearest_ok :: "(nat \<Rightarrow> real) \<Rightarrow> nat \<Rightarrow> nat \<Rightarrow> nat list \<Rightarrow> bool" where
  "nearest_ok far n f xs \<longleftrightarrow> length xs = f \<and> distinct xs \<and> set xs \<subseteq> {..<n} \<and> sorted (map far xs)
     \<and> (\<forall>i \<in> set xs. \<forall>j \<in> {..<n} - set xs. far i \<le> far j)"

definition tree_ok :: "'d place_kit \<Rightarrow> ('d \<Rightarrow> 'd \<Rightarrow> real) \<Rightarrow> bool" where
  "tree_ok kit ring \<longleftrightarrow> (\<forall>ds d f. 0 < f \<longrightarrow> f \<le> length ds \<longrightarrow> nearest_ok (\<lambda>i. ring (ds ! i) d) (length ds) f (d_nearest kit ds d f))"

lemma widen_found:
  assumes "0 < fetch" and "fetch \<le> n"
  shows "\<exists>f. 0 < f \<and> f \<le> n \<and> widen nearest ok k n fetch = Some (filter ok (nearest f)) \<and> (k \<le> length (filter ok (nearest f)) \<or> f = n)"
  using assms
proof (induction "n - fetch" arbitrary: fetch rule: less_induct)
  case less
  show ?case
  proof (cases "k \<le> length (filter ok (nearest fetch)) \<or> n \<le> fetch")
    case True
    then have "widen nearest ok k n fetch = Some (filter ok (nearest fetch))"
      by (subst widen.simps) (simp add: Let_def)
    then show ?thesis using True less.prems by (intro exI [of _ fetch]) auto
  next
    case False
    then have w: "widen nearest ok k n fetch = widen nearest ok k n (min n (fetch * 2))"
      by (subst widen.simps) (simp add: Let_def)
    have "\<exists>f. 0 < f \<and> f \<le> n \<and> widen nearest ok k n (min n (fetch * 2)) = Some (filter ok (nearest f))
        \<and> (k \<le> length (filter ok (nearest f)) \<or> f = n)"
      using False less.prems by (intro less.hyps) auto
    then show ?thesis by (simp only: w)
  qed
qed

lemma distinct_filter_all:
  assumes "distinct xs" and "set xs = {..<n}"
  shows "length (filter P xs) = card {i. i < n \<and> P i}"
proof -
  have "length (filter P xs) = card (set (filter P xs))"
    using assms(1) by (intro distinct_card [symmetric] distinct_filter)
  also have "set (filter P xs) = {i. i < n \<and> P i}" using assms(2) by auto
  finally show ?thesis .
qed

definition offered :: "nat \<Rightarrow> kf_id option \<Rightarrow> 'd place_index \<Rightarrow> nat set" where
  "offered w q idx = {i. i < length idx \<and> admissible w q (fst (idx ! i))}"

lemma insort_key_map: "insort_key g (f x) (map f xs) = map f (insort_key (\<lambda>y. g (f y)) x xs)"
  by (induction xs) simp_all

lemma sort_key_map: "sort_key g (map f xs) = map f (sort_key (g \<circ> f) xs)"
  by (induction xs) (simp_all add: insort_key_map comp_def)

text \<open>The first \<open>k\<close> admissible ones of enough neighbours are the \<open>k\<close> nearest admissible ones of all.\<close>

lemma kept_nearest:
  assumes "nearest_ok far n f xs" and "k \<le> length (filter ok xs) \<or> f = n"
  shows "length (take k (filter ok xs)) = min k (card {i. i < n \<and> ok i})"
    and "i \<in> set (take k (filter ok xs)) \<Longrightarrow> j < n \<Longrightarrow> ok j \<Longrightarrow> j \<notin> set (take k (filter ok xs)) \<Longrightarrow> far i \<le> far j"
proof -
  have xs: "length xs = f" "distinct xs" "set xs \<subseteq> {..<n}" "sorted (map far xs)"
    "\<forall>i \<in> set xs. \<forall>j \<in> {..<n} - set xs. far i \<le> far j"
    using assms(1) unfolding nearest_ok_def by blast+
  have all: "length (filter ok xs) \<le> card {i. i < n \<and> ok i}"
  proof -
    have "length (filter ok xs) = card (set (filter ok xs))"
      using xs(2) by (intro distinct_card [symmetric] distinct_filter)
    also have "\<dots> \<le> card {i. i < n \<and> ok i}" using xs(3) by (intro card_mono) auto
    finally show ?thesis .
  qed
  show "length (take k (filter ok xs)) = min k (card {i. i < n \<and> ok i})"
  proof (cases "f = n")
    case True
    have "card (set xs) = card {..<n}" using xs(1,2) True by (simp add: distinct_card)
    then have "set xs = {..<n}" using xs(3) by (intro card_subset_eq) auto
    then show ?thesis using distinct_filter_all [OF xs(2)] by (simp add: min.commute)
  next
    case False
    then show ?thesis using assms(2) all by simp
  qed
  assume i: "i \<in> set (take k (filter ok xs))" and j: "j < n" "ok j" "j \<notin> set (take k (filter ok xs))"
  have i_in: "i \<in> set xs" using i by (auto dest: in_set_takeD)
  show "far i \<le> far j"
  proof (cases "j \<in> set xs")
    case True
    then have "j \<in> set (filter ok xs)" using j(2) by simp
    then have later: "j \<in> set (drop k (filter ok xs))" using j(3) by (metis Un_iff append_take_drop_id set_append)
    have "sorted (map far (filter ok xs))" using xs(4) by (rule sorted_filter)
    then have "sorted (map far (take k (filter ok xs)) @ map far (drop k (filter ok xs)))"
      by (simp flip: map_append)
    then show ?thesis using i later by (simp add: sorted_append)
  qed (use xs(5) i_in j(1) in auto)
qed

lemma query_spec:
  assumes "tree_ok kit ring" and "d_valid kit d" and "0 < k"
  shows "\<exists>is. index_query kit w idx d k q = Some (Inr (map (candidate_of kit idx d) is))
    \<and> distinct is \<and> set is \<subseteq> offered w q idx \<and> length is = min (nat k) (card (offered w q idx))
    \<and> sorted (map (\<lambda>i. fst (d_compare kit (snd (idx ! i)) d)) is)
    \<and> (\<forall>i \<in> set is. \<forall>j \<in> offered w q idx - set is. ring (snd (idx ! i)) d \<le> ring (snd (idx ! j)) d)"
proof (cases "idx = []")
  case True
  then show ?thesis using assms by (auto simp: index_query_def offered_def)
next
  case False
  let ?n = "length idx"
  let ?near = "d_nearest kit (map snd idx) d"
  let ?ok = "\<lambda>i. admissible w q (fst (idx ! i))"
  let ?margin = "if q = None then 0 else 2 * w + 1"
  have "0 < min ?n (nat k + ?margin)" using False assms(3) by simp
  then obtain f where f0: "0 < f" and f: "f \<le> ?n" "widen ?near ?ok (nat k) ?n (min ?n (nat k + ?margin)) = Some (filter ?ok (?near f))"
      "nat k \<le> length (filter ?ok (?near f)) \<or> f = ?n"
    using widen_found [of "min ?n (nat k + ?margin)" ?n ?near ?ok "nat k"] by auto
  have tree: "nearest_ok (\<lambda>i. ring (map snd idx ! i) d) ?n f (?near f)"
    using assms(1) f0 f(1) unfolding tree_ok_def by (metis length_map)
  note kept = kept_nearest [OF tree f(3)]
  let ?kept = "take (nat k) (filter ?ok (?near f))"
  define "is" where "is = sort_key (pc_distance \<circ> candidate_of kit idx d) ?kept"
  have set_is: "set is = set ?kept" by (simp add: is_def)
  have q: "index_query kit w idx d k q = Some (Inr (map (candidate_of kit idx d) is))"
    using assms(2,3) False f(2) by (simp add: index_query_def Let_def is_def sort_key_map)
  have dist: "distinct is" using tree by (simp add: is_def nearest_ok_def)
  have sub: "set is \<subseteq> offered w q idx"
    using tree unfolding set_is nearest_ok_def by (auto simp: offered_def dest!: in_set_takeD)
  have len: "length is = min (nat k) (card (offered w q idx))" using kept(1) by (simp add: is_def offered_def)
  have "pc_distance \<circ> candidate_of kit idx d = (\<lambda>i. fst (d_compare kit (snd (idx ! i)) d))"
    by (simp add: fun_eq_iff candidate_of_def case_prod_beta)
  then have "sorted (map (\<lambda>i. fst (d_compare kit (snd (idx ! i)) d)) is)" unfolding is_def by (metis sorted_sort_key)
  moreover have "ring (snd (idx ! i)) d \<le> ring (snd (idx ! j)) d" if "i \<in> set is" "j \<in> offered w q idx - set is" for i j
  proof -
    have "i < ?n" "j < ?n" "?ok j" using that sub by (auto simp: offered_def)
    then show ?thesis using kept(2) [of i j] that unfolding set_is by simp
  qed
  ultimately show ?thesis using q dist sub len by (intro exI [of _ "is"]) blast
qed

text \<open>C40: A query of a valid descriptor for at least one candidate returns candidates at different entries of the index,
  none a neighbour in time of the query, each with the distance and yaw of its own descriptor, most similar first; as many
  as asked for whenever there are that many; and no entry that is left out has a nearer ring key than one
  that is returned.\<close>

theorem query_is_complete:
  assumes "tree_ok kit ring" and "d_valid kit d" and "0 < k"
  shows "\<exists>is. index_query kit w idx d k q = Some (Inr (map (candidate_of kit idx d) is))
    \<and> distinct is \<and> set is \<subseteq> offered w q idx \<and> length is = min (nat k) (card (offered w q idx))
    \<and> sorted (map (\<lambda>i. fst (d_compare kit (snd (idx ! i)) d)) is)
    \<and> (\<forall>i \<in> set is. \<forall>j \<in> offered w q idx - set is. ring (snd (idx ! i)) d \<le> ring (snd (idx ! j)) d)"
  using assms by (rule query_spec)

definition plain_kit :: "int place_kit" where
  "plain_kit = \<lparr>d_valid = (\<lambda>d. 0 \<le> d), d_nearest = (\<lambda>ds d f. [0..<f]), d_compare = (\<lambda>a b. (\<bar>of_int (a - b)\<bar>, 0))\<rparr>"

lemma plain_tree: "tree_ok plain_kit (\<lambda>_ _. 0)"
  by (auto simp: tree_ok_def nearest_ok_def plain_kit_def sorted_iff_nth_mono)

text \<open>A tree that sorts by the last digit.\<close>

definition digit_gap :: "int \<Rightarrow> int \<Rightarrow> real" where
  "digit_gap a b = of_int \<bar>a mod 10 - b mod 10\<bar>"

definition digit_kit :: "int place_kit" where
  "digit_kit = plain_kit\<lparr>d_nearest := \<lambda>ds d f. take f (sort_key (\<lambda>i. digit_gap (ds ! i) d) [0..<length ds])\<rparr>"

lemma digit_tree: "tree_ok digit_kit digit_gap"
proof -
  have "nearest_ok far n f (take f (sort_key far [0..<n]))" if "f \<le> n" for far n f
  proof -
    let ?xs = "sort_key far [0..<n]"
    have all: "set ?xs = {..<n}" "distinct ?xs" "sorted (map far ?xs)" "length ?xs = n" by (simp_all add: lessThan_atLeast0)
    then have both: "sorted (map far (take f ?xs) @ map far (drop f ?xs))" by (simp flip: map_append)
    have "far i \<le> far j" if "i \<in> set (take f ?xs)" "j \<in> {..<n} - set (take f ?xs)" for i j
    proof -
      have "j \<in> set ?xs" using that(2) all(1) by simp
      then have "j \<in> set (drop f ?xs)" using that(2) by (metis DiffD2 Un_iff append_take_drop_id set_append)
      then show ?thesis using both that(1) by (simp add: sorted_append)
    qed
    moreover have "sorted (map far (take f ?xs))" using all(3) sorted_wrt_take by (simp add: take_map [symmetric] del: sorted_sort_key)
    moreover have "set (take f ?xs) \<subseteq> {..<n}" using all(1) set_take_subset by metis
    ultimately show ?thesis using all(4) that by (simp add: nearest_ok_def)
  qed
  then show ?thesis by (simp add: tree_ok_def digit_kit_def)
qed

definition three_places :: "int place_index" where
  "three_places = [(Kf ''a'' 0 [], 17), (Kf ''a'' 1 [], 28), (Kf ''b'' 0 [], 49)]"

theorem query_is_complete_witness:
  "\<exists>is. index_query digit_kit 5 three_places 7 1 (Some (Kf ''a'' 2 [])) = Some (Inr (map (candidate_of digit_kit three_places 7) is))
    \<and> distinct is \<and> set is \<subseteq> offered 5 (Some (Kf ''a'' 2 [])) three_places
    \<and> length is = min (nat 1) (card (offered 5 (Some (Kf ''a'' 2 [])) three_places))
    \<and> sorted (map (\<lambda>i. fst (d_compare digit_kit (snd (three_places ! i)) 7)) is)"
proof -
  have "d_valid digit_kit 7" by (simp add: digit_kit_def plain_kit_def)
  from query_is_complete [OF digit_tree this, of 1 5 three_places "Some (Kf ''a'' 2 [])"] show ?thesis by fastforce
qed

end
