(* ===== verification/Slam_Backend.thy ===== *)
theory Slam_Backend
  imports Components Place_Index
begin

text \<open>
  \<^verbatim>\<open>slam/swarmdeck_slam/backend.py\<close>, \<open>CollaborativeBackend\<close>: the store of keyframes and edges, the selection of
  trajectories and the solver's copy of it, with \<open>add_keyframe\<close>, \<open>add_edge\<close> and \<open>optimize\<close> of \<^verbatim>\<open>graph.py\<close> and
  the queries of \<open>OptimizedGraph\<close>. Poses, information matrices, points and descriptors are opaque;
  the operations on them (matrices, GICP, Scan Context, GTSAM, the odometry-free reconstruction,
  the gauge of the start poses) are the functions of a kit. The kit's \<open>solve\<close> and \<open>reconstruct\<close> may raise.
  A graph solver's components carry no keyframe ids, so that a trajectory is in at most one.
\<close>

subsection \<open>Data\<close>

record ('m, 'p, 'd) keyframe =
  k_id :: kf_id
  k_stamp :: real
  k_pose :: 'm
  k_points :: "'p list"
  k_descriptor :: "'d option"

record 'm optimized =
  og_poses :: "(kf_id, 'm) dict"
  og_robot_frames :: "(string, 'm) dict"
  og_frames :: "(trajectory, 'm) dict"
  og_components :: "component list"
  og_error :: real

text \<open>What the model keeps of a rendered grid.\<close>

record rendered =
  rg_component :: nat
  rg_robots :: "string list"
  rg_width :: nat
  rg_height :: nat

definition component_of_trajectory :: "'m optimized \<Rightarrow> trajectory \<Rightarrow> component option" where
  "component_of_trajectory g t =
     (case filter (in_component t) (og_components g) of [] \<Rightarrow> None | c # _ \<Rightarrow> Some c)"

definition share_frame :: "'m optimized \<Rightarrow> string \<Rightarrow> string \<Rightarrow> bool" where
  "share_frame g a b = list_ex (\<lambda>c. a \<in> set (c_robots c) \<and> b \<in> set (c_robots c)) (og_components g)"

definition share_frame_trajectory :: "'m optimized \<Rightarrow> trajectory \<Rightarrow> trajectory \<Rightarrow> bool" where
  "share_frame_trajectory g a b = (case component_of_trajectory g a of None \<Rightarrow> False | Some c \<Rightarrow> in_component b c)"

record ('m, 'i, 'p, 'd) slam_kit =
  m_mul :: "'m \<Rightarrow> 'm \<Rightarrow> 'm"
  m_inv :: "'m \<Rightarrow> 'm"
  m_size :: "'m \<Rightarrow> real \<times> real"
  m_apart :: "'m \<Rightarrow> 'm \<Rightarrow> real"
  odometry_info :: "bool \<Rightarrow> 'i"
  describe :: "'p list \<Rightarrow> 'd"
  places :: "'d place_kit"
  verify :: "('m, 'p, 'd) keyframe \<Rightarrow> ('m, 'p, 'd) keyframe \<Rightarrow> real \<Rightarrow> 'm option \<Rightarrow> ('m \<times> 'i) option"
  solve :: "(kf_id \<times> ('m, 'p, 'd) keyframe) list \<Rightarrow> ('m, 'i) edge list \<Rightarrow> pyerr + 'm optimized"
  reconstruct :: "('m, 'p, 'd) keyframe list \<Rightarrow> pyerr + 'm optimized \<times> nat \<times> nat"
  gauge :: "'m optimized \<Rightarrow> ('m, 'p, 'd) keyframe list \<Rightarrow> 'm optimized"
  render_all :: "'m optimized \<Rightarrow> ('m, 'p, 'd) keyframe list
    \<Rightarrow> (nat, rendered) dict \<times> (string, rendered) dict \<times> (trajectory, rendered) dict"

text \<open>The settings of a process; \<open>allow_inter_robot\<close> can be changed and is part of the state.\<close>

record slam_config =
  min_points :: nat
  descriptor_k :: int
  temporal_window :: nat
  descriptor_ratio :: real
  ambiguity_radius :: real
  max_speed :: real
  max_yaw_rate :: real
  min_hop :: real
  fallback_hop :: real
  legacy_split :: bool
  registration_prior :: string
  odom_free :: bool

subsection \<open>Trajectories of packets without a session\<close>

record segment =
  sg_session :: string
  sg_min :: int
  sg_seen :: "(int, real) dict"
  sg_restarts :: nat

type_synonym segments = "(string, segment) dict"

definition session_for :: "segments \<Rightarrow> string \<Rightarrow> int \<Rightarrow> real \<Rightarrow> segments \<times> string" where
  "session_for gs rid seq stamp =
     (case dget gs rid of
        None \<Rightarrow> (dput rid \<lparr>sg_session = [], sg_min = seq, sg_seen = [(seq, stamp)], sg_restarts = 0\<rparr> gs, [])
      | Some g \<Rightarrow>
          if dget (sg_seen g) seq = Some stamp then (gs, sg_session g)
          else if seq \<le> sg_min g \<or> dget (sg_seen g) seq \<noteq> None
          then (let name = ''restart-'' @ dec (sg_restarts g + 1) in
            (dput rid \<lparr>sg_session = name, sg_min = seq, sg_seen = [(seq, stamp)], sg_restarts = sg_restarts g + 1\<rparr> gs, name))
          else (dput rid (g\<lparr>sg_seen := dput seq stamp (sg_seen g)\<rparr>) gs, sg_session g))"

definition forget_segments :: "string \<Rightarrow> segments \<Rightarrow> segments" where
  "forget_segments rid gs = ddel rid gs"

subsection \<open>The solver's graph\<close>

record ('m, 'i, 'p, 'd) solver =
  sv_nodes :: "(kf_id, ('m, 'p, 'd) keyframe) dict"
  sv_keys :: key_registry
  sv_edges :: "('m, 'i) edge list"

definition new_solver :: "('m, 'i, 'p, 'd) solver" where
  "new_solver = \<lparr>sv_nodes = [], sv_keys = empty_registry, sv_edges = []\<rparr>"

text \<open>The node is stored before its key is asked for.\<close>

definition solver_add :: "('m, 'p, 'd) keyframe \<Rightarrow> ('m, 'i, 'p, 'd) solver \<Rightarrow> ('m, 'i, 'p, 'd) solver \<times> pyerr option" where
  "solver_add kf s =
     (let s1 = s\<lparr>sv_nodes := dput (k_id kf) kf (sv_nodes s)\<rparr> in
      case registry_key (k_id kf) (sv_keys s) of
        Inl e \<Rightarrow> (s1, Some e)
      | Inr (_, r) \<Rightarrow> (s1\<lparr>sv_keys := r\<rparr>, None))"

definition solver_edge :: "('m, 'i) edge \<Rightarrow> ('m, 'i, 'p, 'd) solver \<Rightarrow> ('m, 'i, 'p, 'd) solver" where
  "solver_edge e s = s\<lparr>sv_edges := sv_edges s @ [e]\<rparr>"

definition solver_optimize :: "('m, 'i, 'p, 'd) slam_kit \<Rightarrow> ('m, 'i, 'p, 'd) solver \<Rightarrow> pyerr + 'm optimized" where
  "solver_optimize kit s =
     (if sv_nodes s = [] then Inr \<lparr>og_poses = [], og_robot_frames = [], og_frames = [], og_components = [], og_error = 0\<rparr>
      else let odometry = filter (\<lambda>e. e_kind e = Odometry) (sv_edges s);
               loops = filter (\<lambda>e. is_loop_closure (e_kind e)) (sv_edges s) in
        if missing_endpoints (keys (sv_nodes s)) (odometry @ loops) \<noteq> [] then Inl ValueError
        else ebind (registry_keys (keys (sv_nodes s)) (sv_keys s)) (\<lambda>_. solve kit (sv_nodes s) (sv_edges s)))"

subsection \<open>The back end\<close>

record ('m, 'i, 'p, 'd) backend =
  bk_keyframes :: "(kf_id, ('m, 'p, 'd) keyframe) dict"
  bk_edges :: "('m, 'i) edge list"
  bk_last :: "(trajectory, kf_id) dict"
  bk_excluded :: "trajectory set"
  bk_solver :: "('m, 'i, 'p, 'd) solver"
  bk_stale :: bool
  bk_index :: "'d place_index"
  bk_segments :: segments
  bk_solved :: "'m optimized option"
  bk_ambiguous :: nat
  bk_hops :: nat
  bk_primed :: nat
  bk_accepted :: nat
  bk_inter :: nat
  bk_dirty :: bool
  bk_new :: nat
  bk_allow_inter :: bool

definition fresh_backend :: "bool \<Rightarrow> ('m, 'i, 'p, 'd) backend" where
  "fresh_backend allow = \<lparr>bk_keyframes = [], bk_edges = [], bk_last = [], bk_excluded = {}, bk_solver = new_solver,
     bk_stale = False, bk_index = [], bk_segments = [], bk_solved = None, bk_ambiguous = 0, bk_hops = 0, bk_primed = 0,
     bk_accepted = 0, bk_inter = 0, bk_dirty = False, bk_new = 0, bk_allow_inter = allow\<rparr>"

definition included :: "trajectory set \<Rightarrow> kf_id \<Rightarrow> bool" where
  "included excl k \<longleftrightarrow> kf_trajectory k \<notin> excl"

definition edge_included :: "trajectory set \<Rightarrow> ('m, 'i) edge \<Rightarrow> bool" where
  "edge_included excl e \<longleftrightarrow> included excl (e_src e) \<and> included excl (e_dst e)"

definition add_edge :: "trajectory set \<Rightarrow> ('m, 'i) edge \<Rightarrow> ('m, 'i, 'p, 'd) backend \<Rightarrow> ('m, 'i, 'p, 'd) backend" where
  "add_edge excl e b = b\<lparr>bk_edges := bk_edges b @ [e],
     bk_solver := (if edge_included excl e then solver_edge e (bk_solver b) else bk_solver b)\<rparr>"

subsection \<open>Taking in a keyframe\<close>

definition implausible_hop :: "slam_config \<Rightarrow> real \<times> real \<Rightarrow> real \<Rightarrow> bool" where
  "implausible_hop cfg hop dt =
     (let (dist, turn) = hop in
      if dist < min_hop cfg \<and> turn < max_yaw_rate cfg then False
      else if dt \<le> 0 then fallback_hop cfg < dist
      else max_speed cfg < dist / dt \<or> max_yaw_rate cfg < turn / dt)"

definition link_previous :: "('m, 'i, 'p, 'd) slam_kit \<Rightarrow> slam_config \<Rightarrow> trajectory set \<Rightarrow> kf_id option
    \<Rightarrow> ('m, 'p, 'd) keyframe \<Rightarrow> ('m, 'i, 'p, 'd) backend \<Rightarrow> ('m, 'i, 'p, 'd) backend" where
  "link_previous kit cfg excl prev_id kf b =
     (case Option.bind prev_id (dget (bk_keyframes b)) of
        None \<Rightarrow> b
      | Some prev \<Rightarrow>
          (let t = se3_relative (m_mul kit) (m_inv kit) (k_pose prev) (k_pose kf);
               jump = implausible_hop cfg (m_size kit t) (k_stamp kf - k_stamp prev) in
           add_edge excl \<lparr>e_kind = Odometry, e_src = k_id prev, e_dst = k_id kf, e_t = t, e_info = odometry_info kit jump\<rparr>
             (b\<lparr>bk_hops := bk_hops b + of_bool jump\<rparr>)))"

fun ambiguous_after :: "('m, 'i, 'p, 'd) slam_kit \<Rightarrow> slam_config \<Rightarrow> (kf_id, ('m, 'p, 'd) keyframe) dict
    \<Rightarrow> place_candidate \<Rightarrow> ('m, 'p, 'd) keyframe \<Rightarrow> place_candidate list \<Rightarrow> bool" where
  "ambiguous_after kit cfg kfs best best_kf [] = False"
| "ambiguous_after kit cfg kfs best best_kf (c # cs) =
     (if kf_trajectory (pc_id c) \<noteq> kf_trajectory (pc_id best) then ambiguous_after kit cfg kfs best best_kf cs
      else case dget kfs (pc_id c) of
        None \<Rightarrow> ambiguous_after kit cfg kfs best best_kf cs
      | Some other \<Rightarrow>
          if m_apart kit (k_pose best_kf) (k_pose other) < ambiguity_radius cfg
          then ambiguous_after kit cfg kfs best best_kf cs
          else descriptor_ratio cfg * max (pc_distance c) (1 / 10 ^ 9) \<le> pc_distance best)"

definition ambiguous_match :: "('m, 'i, 'p, 'd) slam_kit \<Rightarrow> slam_config \<Rightarrow> (kf_id, ('m, 'p, 'd) keyframe) dict \<Rightarrow> place_candidate list \<Rightarrow> bool" where
  "ambiguous_match kit cfg kfs cs =
     (if descriptor_ratio cfg \<le> 0 \<or> length cs < 2 then False
      else case dget kfs (pc_id (hd cs)) of None \<Rightarrow> False
        | Some best_kf \<Rightarrow> ambiguous_after kit cfg kfs (hd cs) best_kf (tl cs))"

definition registration_prior_of :: "('m, 'i, 'p, 'd) slam_kit \<Rightarrow> slam_config \<Rightarrow> 'm optimized option
    \<Rightarrow> ('m, 'p, 'd) keyframe \<Rightarrow> ('m, 'p, 'd) keyframe \<Rightarrow> 'm option" where
  "registration_prior_of kit cfg solved source target =
     (let s = kf_trajectory (k_id source); t = kf_trajectory (k_id target) in
      if registration_prior cfg = ''none'' then None
      else if s \<noteq> t \<and> registration_prior cfg \<noteq> ''all'' then None
      else case solved of None \<Rightarrow> None
        | Some g \<Rightarrow> (case dget (og_poses g) (k_id target) of None \<Rightarrow> None
            | Some pose \<Rightarrow>
                if \<not> share_frame_trajectory g s t then None
                else map_option (\<lambda>frame. m_mul kit (m_inv kit pose) (m_mul kit frame (k_pose source))) (dget (og_frames g) s)))"

definition closure_edge :: "('m, 'p, 'd) keyframe \<Rightarrow> ('m, 'p, 'd) keyframe \<Rightarrow> 'm \<times> 'i \<Rightarrow> ('m, 'i) edge" where
  "closure_edge source target v =
     \<lparr>e_kind = (if kf_robot (k_id source) \<noteq> kf_robot (k_id target) then Inter_Loop else Intra_Loop),
      e_src = k_id source, e_dst = k_id target, e_t = fst v, e_info = snd v\<rparr>"

definition consider_candidate :: "('m, 'i, 'p, 'd) slam_kit \<Rightarrow> slam_config \<Rightarrow> trajectory set \<Rightarrow> ('m, 'p, 'd) keyframe
    \<Rightarrow> place_candidate \<Rightarrow> ('m, 'i, 'p, 'd) backend \<Rightarrow> ('m, 'i, 'p, 'd) backend" where
  "consider_candidate kit cfg excl kf cand b =
     (case dget (bk_keyframes b) (pc_id cand) of
        None \<Rightarrow> b
      | Some target \<Rightarrow>
          if \<not> bk_allow_inter b \<and> kf_robot (k_id target) \<noteq> kf_robot (k_id kf) then b
          else if kf_trajectory (k_id target) \<in> excl then b
          else (let prior = registration_prior_of kit cfg (bk_solved b) kf target;
                    b1 = b\<lparr>bk_primed := bk_primed b + of_bool (prior \<noteq> None)\<rparr> in
                case verify kit kf target (pc_yaw cand) prior of
                  None \<Rightarrow> b1
                | Some v \<Rightarrow> (let e = closure_edge kf target v; b2 = add_edge excl e b1 in
                    b2\<lparr>bk_accepted := bk_accepted b2 + 1, bk_inter := bk_inter b2 + of_bool (is_inter_robot e)\<rparr>)))"

text \<open>A raise leaves behind what was stored before it. The descriptor is computed first; only the
  search for candidates reads it.\<close>

definition with_descriptor :: "('m, 'i, 'p, 'd) slam_kit \<Rightarrow> ('m, 'p, 'd) keyframe \<Rightarrow> ('m, 'p, 'd) keyframe" where
  "with_descriptor kit kf = (case k_descriptor kf of None \<Rightarrow> kf\<lparr>k_descriptor := Some (describe kit (k_points kf))\<rparr> | Some _ \<Rightarrow> kf)"

definition find_candidates :: "('m, 'i, 'p, 'd) slam_kit \<Rightarrow> slam_config \<Rightarrow> 'd place_index \<Rightarrow> ('m, 'p, 'd) keyframe
    \<Rightarrow> (pyerr + place_candidate list) option" where
  "find_candidates kit cfg idx kf =
     index_query (places kit) (temporal_window cfg) idx (the (k_descriptor kf)) (descriptor_k cfg) (Some (k_id kf))"

definition closures :: "('m, 'i, 'p, 'd) slam_kit \<Rightarrow> slam_config \<Rightarrow> trajectory set \<Rightarrow> ('m, 'p, 'd) keyframe
    \<Rightarrow> place_candidate list \<Rightarrow> ('m, 'i, 'p, 'd) backend \<Rightarrow> ('m, 'i, 'p, 'd) backend" where
  "closures kit cfg excl kf cs b =
     (if ambiguous_match kit cfg (bk_keyframes b) cs then b\<lparr>bk_ambiguous := bk_ambiguous b + 1\<rparr>
      else fold (consider_candidate kit cfg excl kf) cs b)"

definition file_keyframe :: "('m, 'i, 'p, 'd) slam_kit \<Rightarrow> ('m, 'p, 'd) keyframe \<Rightarrow> ('m, 'i, 'p, 'd) backend
    \<Rightarrow> ('m, 'i, 'p, 'd) backend \<times> (pyerr + bool)" where
  "file_keyframe kit kf b =
     (case index_add (places kit) (k_id kf) (the (k_descriptor kf)) (bk_index b) of
        Inl e \<Rightarrow> (b, Inl e)
      | Inr idx \<Rightarrow> (b\<lparr>bk_index := idx, bk_last := dput (kf_trajectory (k_id kf)) (k_id kf) (bk_last b),
          bk_dirty := True, bk_new := bk_new b + 1\<rparr>, Inr True))"

definition store_keyframe :: "trajectory set \<Rightarrow> ('m, 'p, 'd) keyframe \<Rightarrow> ('m, 'i, 'p, 'd) backend
    \<Rightarrow> ('m, 'i, 'p, 'd) backend \<times> pyerr option" where
  "store_keyframe excl kf b =
     (let (sv, e) = (if included excl (k_id kf) then solver_add kf (bk_solver b) else (bk_solver b, None));
          b1 = b\<lparr>bk_solver := sv\<rparr> in
      case e of Some err \<Rightarrow> (b1, Some err) | None \<Rightarrow> (b1\<lparr>bk_keyframes := dput (k_id kf) kf (bk_keyframes b1)\<rparr>, None))"

text \<open>The outer option is whether the call returns.\<close>

definition ingest_keyframe :: "('m, 'i, 'p, 'd) slam_kit \<Rightarrow> slam_config \<Rightarrow> ('m, 'p, 'd) keyframe \<Rightarrow> ('m, 'i, 'p, 'd) backend
    \<Rightarrow> (('m, 'i, 'p, 'd) backend \<times> (pyerr + bool)) option" where
  "ingest_keyframe kit cfg kf0 b =
     (if dget (bk_keyframes b) (k_id kf0) \<noteq> None then Some (b, Inr False)
      else if length (k_points kf0) < min_points cfg then Some (b, Inr False)
      else let kf = with_descriptor kit kf0; excl = bk_excluded b;
               prev = dget (bk_last b) (kf_trajectory (k_id kf)) in
        case store_keyframe excl kf b of
          (b1, Some err) \<Rightarrow> Some (b1, Inl err)
        | (b1, None) \<Rightarrow>
            (let b2 = link_previous kit cfg excl prev kf b1 in
             case find_candidates kit cfg (bk_index b2) kf of
               None \<Rightarrow> None
             | Some (Inl err) \<Rightarrow> Some (b2, Inl err)
             | Some (Inr cs) \<Rightarrow> Some (file_keyframe kit kf (closures kit cfg excl kf cs b2))))"

subsection \<open>Choosing trajectories\<close>

definition trajectory_ids :: "('m, 'i, 'p, 'd) backend \<Rightarrow> trajectory list" where
  "trajectory_ids b = trajectories_of (keys (bk_keyframes b))"

definition is_included :: "('m, 'i, 'p, 'd) backend \<Rightarrow> trajectory \<Rightarrow> bool" where
  "is_included b t \<longleftrightarrow> t \<notin> bk_excluded b"

definition selection_changed :: "('m, 'i, 'p, 'd) backend \<Rightarrow> ('m, 'i, 'p, 'd) backend" where
  "selection_changed b = b\<lparr>bk_stale := True, bk_dirty := True, bk_solved := None\<rparr>"

definition set_included :: "trajectory \<Rightarrow> bool \<Rightarrow> ('m, 'i, 'p, 'd) backend \<Rightarrow> ('m, 'i, 'p, 'd) backend \<times> bool" where
  "set_included t inc b =
     (if inc = is_included b t then (b, False)
      else (selection_changed (b\<lparr>bk_excluded := (if inc then bk_excluded b - {t} else insert t (bk_excluded b))\<rparr>), True))"

definition include_only :: "trajectory list \<Rightarrow> ('m, 'i, 'p, 'd) backend \<Rightarrow> ('m, 'i, 'p, 'd) backend" where
  "include_only ts b = selection_changed (b\<lparr>bk_excluded := set (filter (\<lambda>t. t \<notin> set ts) (trajectory_ids b))\<rparr>)"

subsection \<open>Deleting a robot\<close>

fun reindex :: "'d place_kit \<Rightarrow> (kf_id \<times> 'd) list \<Rightarrow> 'd place_index \<Rightarrow> 'd place_index \<times> pyerr option" where
  "reindex kit [] idx = (idx, None)"
| "reindex kit ((k, d) # es) idx =
     (case index_add kit k d idx of Inl e \<Rightarrow> (idx, Some e) | Inr idx' \<Rightarrow> reindex kit es idx')"

definition edge_without :: "string \<Rightarrow> ('m, 'i) edge \<Rightarrow> bool" where
  "edge_without rid e \<longleftrightarrow> kf_robot (e_src e) \<noteq> rid \<and> kf_robot (e_dst e) \<noteq> rid"

definition drop_robot :: "string \<Rightarrow> ('m, 'i, 'p, 'd) backend \<Rightarrow> ('m, 'i, 'p, 'd) backend" where
  "drop_robot rid b = b\<lparr>bk_keyframes := filter (\<lambda>(k, _). kf_robot k \<noteq> rid) (bk_keyframes b),
     bk_edges := filter (edge_without rid) (bk_edges b),
     bk_last := filter (\<lambda>(t, _). robot_of t \<noteq> rid) (bk_last b),
     bk_excluded := {t \<in> bk_excluded b. robot_of t \<noteq> rid}\<rparr>"

definition after_drop :: "string \<Rightarrow> ('m, 'i, 'p, 'd) backend \<Rightarrow> ('m, 'i, 'p, 'd) backend" where
  "after_drop rid b = b\<lparr>bk_segments := forget_segments rid (bk_segments b), bk_stale := True, bk_solved := None,
     bk_dirty := True, bk_new := max 1 (bk_new b),
     bk_accepted := length (filter (\<lambda>e. is_loop_closure (e_kind e)) (bk_edges b)),
     bk_inter := length (filter (\<lambda>e. is_loop_closure (e_kind e) \<and> is_inter_robot e) (bk_edges b))\<rparr>"

definition descriptors :: "('m, 'i, 'p, 'd) slam_kit \<Rightarrow> (kf_id, ('m, 'p, 'd) keyframe) dict \<Rightarrow> (kf_id \<times> 'd) list" where
  "descriptors kit kfs = map (\<lambda>(k, kf). (k, the (k_descriptor (with_descriptor kit kf)))) kfs"

definition delete_robot :: "('m, 'i, 'p, 'd) slam_kit \<Rightarrow> string \<Rightarrow> ('m, 'i, 'p, 'd) backend
    \<Rightarrow> ('m, 'i, 'p, 'd) backend \<times> (pyerr + nat)" where
  "delete_robot kit rid b =
     (let n = length (filter (\<lambda>k. kf_robot k = rid) (keys (bk_keyframes b))) in
      if n = 0 then (b\<lparr>bk_segments := forget_segments rid (bk_segments b)\<rparr>, Inr 0)
      else if list_all (\<lambda>k. kf_robot k = rid) (keys (bk_keyframes b)) then (fresh_backend (bk_allow_inter b), Inr n)
      else let b1 = drop_robot rid b;
               (idx, e) = reindex (places kit) (descriptors kit (bk_keyframes b1)) [] in
        case e of Some err \<Rightarrow> (b1\<lparr>bk_index := idx\<rparr>, Inl err)
        | None \<Rightarrow> (after_drop rid (b1\<lparr>bk_index := idx\<rparr>), Inr n))"

subsection \<open>Solving\<close>

fun solver_add_all :: "('m, 'p, 'd) keyframe list \<Rightarrow> ('m, 'i, 'p, 'd) solver \<Rightarrow> ('m, 'i, 'p, 'd) solver \<times> pyerr option" where
  "solver_add_all [] s = (s, None)"
| "solver_add_all (kf # kfs) s =
     (case solver_add kf s of (s1, Some e) \<Rightarrow> (s1, Some e) | (s1, None) \<Rightarrow> solver_add_all kfs s1)"

definition included_keyframes :: "('m, 'i, 'p, 'd) backend \<Rightarrow> ('m, 'p, 'd) keyframe list" where
  "included_keyframes b = filter (\<lambda>kf. included (bk_excluded b) (k_id kf)) (map snd (bk_keyframes b))"

definition included_edges :: "('m, 'i, 'p, 'd) backend \<Rightarrow> ('m, 'i) edge list" where
  "included_edges b = filter (edge_included (bk_excluded b)) (bk_edges b)"

definition rebuild_graph :: "('m, 'i, 'p, 'd) backend \<Rightarrow> ('m, 'i, 'p, 'd) backend \<times> pyerr option" where
  "rebuild_graph b =
     (let (sv, e) = solver_add_all (included_keyframes b) new_solver; b1 = b\<lparr>bk_stale := False\<rparr> in
      case e of Some err \<Rightarrow> (b1\<lparr>bk_solver := sv\<rparr>, Some err)
      | None \<Rightarrow> (b1\<lparr>bk_solver := sv\<lparr>sv_edges := sv_edges sv @ included_edges b\<rparr>\<rparr>, None))"

record trajectory_summary =
  ts_trajectory :: trajectory
  ts_keyframes :: nat
  ts_seqs :: "int \<times> int"
  ts_stamps :: "real \<times> real"
  ts_component :: "nat option"
  ts_included :: bool

definition max_of :: "'a::linorder list \<Rightarrow> 'a" where
  "max_of xs = foldl max (hd xs) (tl xs)"

definition trajectory_summaries :: "'m optimized option \<Rightarrow> ('m, 'i, 'p, 'd) backend \<Rightarrow> trajectory_summary list" where
  "trajectory_summaries g b = map (\<lambda>t.
     let members = filter (\<lambda>kf. kf_trajectory (k_id kf) = t) (map snd (bk_keyframes b));
         seqs = map (kf_seq \<circ> k_id) members; stamps = map k_stamp members in
     \<lparr>ts_trajectory = t, ts_keyframes = length members, ts_seqs = (min_of seqs, max_of seqs), ts_stamps = (min_of stamps, max_of stamps),
      ts_component = Option.bind g (\<lambda>g. map_option c_id (component_of_trajectory g t)), ts_included = is_included b t\<rparr>)
     (trajectory_ids b)"

definition robot_counts :: "kf_id list \<Rightarrow> (string, nat) dict" where
  "robot_counts ks = fold (\<lambda>k counts. dput (kf_robot k) ((case dget counts (kf_robot k) of None \<Rightarrow> 0 | Some n \<Rightarrow> n) + 1) counts) ks []"

record 'm slam_snapshot =
  sn_optimized :: "'m optimized"
  sn_grids :: "(nat, rendered) dict"
  sn_robot_grids :: "(string, rendered) dict"
  sn_trajectory_grids :: "(trajectory, rendered) dict"
  sn_counts :: "(string, nat) dict"
  sn_accepted :: nat
  sn_inter :: nat
  sn_trajectories :: "trajectory_summary list"
  sn_stamp :: real

definition solve_graph :: "('m, 'i, 'p, 'd) slam_kit \<Rightarrow> slam_config \<Rightarrow> ('m, 'i, 'p, 'd) backend
    \<Rightarrow> ('m, 'i, 'p, 'd) backend \<times> (pyerr + 'm optimized \<times> nat \<times> nat)" where
  "solve_graph kit cfg b =
     (if odom_free cfg then (b, reconstruct kit (included_keyframes b))
      else let (b1, e) = (if bk_stale b then rebuild_graph b else (b, None)) in
        case e of Some err \<Rightarrow> (b1, Inl err)
        | None \<Rightarrow> (b1, ebind (solver_optimize kit (bk_solver b1)) (\<lambda>g.
            let loops = filter (\<lambda>e. is_loop_closure (e_kind e)) (included_edges b1) in
            Inr (g, length loops, length (filter is_inter_robot loops)))))"

definition optimize_and_render :: "('m, 'i, 'p, 'd) slam_kit \<Rightarrow> slam_config \<Rightarrow> real \<Rightarrow> ('m, 'i, 'p, 'd) backend
    \<Rightarrow> ('m, 'i, 'p, 'd) backend \<times> (pyerr + 'm slam_snapshot option)" where
  "optimize_and_render kit cfg now b =
     (if included_keyframes b = [] then (b, Inr None)
      else case solve_graph kit cfg b of
        (b1, Inl err) \<Rightarrow> (b1, Inl err)
      | (b1, Inr (g, accepted, across)) \<Rightarrow>
          (let b2 = b1\<lparr>bk_solved := Some g, bk_dirty := False, bk_new := 0\<rparr>;
               g1 = gauge kit g (included_keyframes b);
               (grids, robots, trajs) = render_all kit g1 (included_keyframes b) in
           (b2, Inr (Some \<lparr>sn_optimized = g1, sn_grids = grids, sn_robot_grids = robots, sn_trajectory_grids = trajs,
             sn_counts = robot_counts (map k_id (included_keyframes b)), sn_accepted = accepted, sn_inter = across,
             sn_trajectories = trajectory_summaries (Some g1) b2, sn_stamp = now\<rparr>))))"

definition allow_inter_robot :: "bool \<Rightarrow> ('m, 'i, 'p, 'd) backend \<Rightarrow> ('m, 'i, 'p, 'd) backend" where
  "allow_inter_robot allow b = b\<lparr>bk_allow_inter := allow, bk_dirty := True\<rparr>"

definition reset_backend :: "('m, 'i, 'p, 'd) backend \<Rightarrow> ('m, 'i, 'p, 'd) backend" where
  "reset_backend b = fresh_backend (bk_allow_inter b)"

end
