(* ===== verification/Slam_Selection.thy ===== *)
theory Slam_Selection
  imports Slam_Backend
begin

text \<open>
  What the back end promises about its selection of trajectories: whatever was taken in, excluded,
  included again or deleted, a solve is a solve of the stored keyframes and edges that are included
  now. A back end is reachable by its operations, a call that raises in the worker's hands ending
  the run; the invariant is proved by rule induction.
\<close>

inductive backend_reach :: "('m, 'i, 'p, 'd) slam_kit \<Rightarrow> slam_config \<Rightarrow> ('m, 'i, 'p, 'd) backend \<Rightarrow> bool"
  for kit cfg where
  start: "backend_reach kit cfg (fresh_backend allow)"
| take_in: "backend_reach kit cfg b \<Longrightarrow> ingest_keyframe kit cfg kf b = Some (b', r) \<Longrightarrow> backend_reach kit cfg b'"
| choose: "backend_reach kit cfg b \<Longrightarrow> backend_reach kit cfg (fst (set_included t inc b))"
| choose_only: "backend_reach kit cfg b \<Longrightarrow> backend_reach kit cfg (include_only ts b)"
| delete: "backend_reach kit cfg b \<Longrightarrow> delete_robot kit rid b = (b', Inr n) \<Longrightarrow> backend_reach kit cfg b'"
| solved: "backend_reach kit cfg b \<Longrightarrow> optimize_and_render kit cfg now b = (b', Inr sn) \<Longrightarrow> backend_reach kit cfg b'"
| allow: "backend_reach kit cfg b \<Longrightarrow> backend_reach kit cfg (allow_inter_robot a b)"
| forget: "backend_reach kit cfg b \<Longrightarrow> backend_reach kit cfg (reset_backend b)"

subsection \<open>The invariant\<close>

definition stored :: "('m, 'i, 'p, 'd) backend \<Rightarrow> kf_id \<Rightarrow> bool" where
  "stored b k \<longleftrightarrow> dget (bk_keyframes b) k \<noteq> None"

definition selected :: "('m, 'i, 'p, 'd) backend \<Rightarrow> (kf_id, ('m, 'p, 'd) keyframe) dict" where
  "selected b = filter (included (bk_excluded b) \<circ> fst) (bk_keyframes b)"

definition store_ok :: "('m, 'i, 'p, 'd) backend \<Rightarrow> bool" where
  "store_ok b \<longleftrightarrow> wf_dict (bk_keyframes b) \<and> (\<forall>(k, kf) \<in> set (bk_keyframes b). k_id kf = k)
     \<and> (\<forall>e \<in> set (bk_edges b). stored b (e_src e) \<and> stored b (e_dst e))
     \<and> (\<forall>t k. (t, k) \<in> set (bk_last b) \<longrightarrow> stored b k \<and> kf_trajectory k = t)
     \<and> (\<forall>(k, d) \<in> set (bk_index b). stored b k)"

definition unkeyable :: "key_registry \<Rightarrow> kf_id \<Rightarrow> bool" where
  "unkeyable r k \<longleftrightarrow> (\<exists>e. registry_key k r = Inl e)"

text \<open>The solver holds the selection; what it holds beside it has no key, so that a solve raises.\<close>

definition in_step :: "('m, 'i, 'p, 'd) backend \<Rightarrow> bool" where
  "in_step b \<longleftrightarrow> filter (stored b \<circ> fst) (sv_nodes (bk_solver b)) = selected b
     \<and> sv_edges (bk_solver b) = included_edges b
     \<and> list_all (\<lambda>k. included (bk_excluded b) k \<and> (stored b k \<or> unkeyable (sv_keys (bk_solver b)) k)) (keys (sv_nodes (bk_solver b)))"

definition backend_inv :: "('m, 'i, 'p, 'd) backend \<Rightarrow> bool" where
  "backend_inv b \<longleftrightarrow> store_ok b \<and> (bk_stale b \<or> in_step b)"

lemmas inv_defs = backend_inv_def store_ok_def in_step_def stored_def selected_def included_edges_def

lemma inv_counters [simp]:
  "backend_inv (b\<lparr>bk_hops := n\<rparr>) = backend_inv b" "backend_inv (b\<lparr>bk_primed := n\<rparr>) = backend_inv b"
  "backend_inv (b\<lparr>bk_accepted := n\<rparr>) = backend_inv b" "backend_inv (b\<lparr>bk_inter := n\<rparr>) = backend_inv b"
  "backend_inv (b\<lparr>bk_ambiguous := n\<rparr>) = backend_inv b" "backend_inv (b\<lparr>bk_segments := gs\<rparr>) = backend_inv b"
  "backend_inv (b\<lparr>bk_dirty := d\<rparr>) = backend_inv b" "backend_inv (b\<lparr>bk_new := n\<rparr>) = backend_inv b"
  "backend_inv (b\<lparr>bk_solved := g\<rparr>) = backend_inv b" "backend_inv (b\<lparr>bk_allow_inter := a\<rparr>) = backend_inv b"
  by (simp_all add: inv_defs comp_def)

lemma fresh_inv: "backend_inv (fresh_backend allow)"
  by (simp add: inv_defs fresh_backend_def new_solver_def keys_def)

lemma stored_list: "wf_dict (bk_keyframes b) \<Longrightarrow> stored b k \<longleftrightarrow> k \<in> set (keys (bk_keyframes b))"
  by (simp add: stored_def keys_def map_of_eq_None_iff)

lemma filter_dput: "\<not> P k \<Longrightarrow> filter (P \<circ> fst) (dput k v d) = filter (P \<circ> fst) d"
  by (induction d) auto

subsection \<open>Keys stay as they are\<close>

lemma unkeyable_grows:
  assumes "unkeyable r k" and "registry_key k' r = Inr (key, r')"
  shows "unkeyable r' k"
proof (cases "0 \<le> kf_seq k \<and> kf_seq k < 2 ^ seq_bits")
  case False
  then show ?thesis by (simp add: unkeyable_def registry_key_def)
next
  case True
  then have full: "dget (kr_index r) (kf_trajectory k) = None" "max_robots \<le> length (kr_trajectories r)"
    using assms(1) by (auto simp: unkeyable_def registry_key_def trajectory_index_def Let_def
        split: if_splits sum.splits option.splits)
  then have "r' = r" using assms(2)
    by (auto simp: registry_key_def trajectory_index_def Let_def split: if_splits sum.splits option.splits)
  then show ?thesis using assms(1) by simp
qed

lemma keys_of_unkeyable:
  "k \<in> set ks \<Longrightarrow> unkeyable r k \<Longrightarrow> \<exists>e. registry_keys ks r = Inl e"
proof (induction ks arbitrary: r)
  case (Cons k' ks)
  show ?case
  proof (cases "registry_key k' r")
    case (Inl e)
    then show ?thesis by simp
  next
    case (Inr p)
    obtain key r' where p: "p = (key, r')" by (cases p)
    have "k' \<noteq> k" using Cons.prems(2) Inr by (auto simp: unkeyable_def)
    then obtain e where "registry_keys ks r' = Inl e"
      using Cons.IH Cons.prems unkeyable_grows [OF Cons.prems(2) Inr [unfolded p]] by auto
    then show ?thesis by (simp add: Inr p)
  qed
qed simp

subsection \<open>Taking in\<close>

lemma add_edge_inv:
  assumes "backend_inv b" and "excl = bk_excluded b" and "stored b (e_src e)" "stored b (e_dst e)"
  shows "backend_inv (add_edge excl e b)"
  using assms by (auto simp: inv_defs add_edge_def solver_edge_def comp_def)

lemma add_edge_keeps [simp]:
  "bk_excluded (add_edge x e b) = bk_excluded b" "bk_keyframes (add_edge x e b) = bk_keyframes b"
  "bk_index (add_edge x e b) = bk_index b" "bk_last (add_edge x e b) = bk_last b"
  by (simp_all add: add_edge_def)

lemma stored_id: "backend_inv b \<Longrightarrow> dget (bk_keyframes b) k = Some kf \<Longrightarrow> k_id kf = k"
  by (auto simp: backend_inv_def store_ok_def dest!: map_of_SomeD)

text \<open>What the later steps of taking in a keyframe keep.\<close>

definition takes :: "trajectory set \<Rightarrow> (kf_id, ('m, 'p, 'd) keyframe) dict \<Rightarrow> ('m, 'i, 'p, 'd) backend \<Rightarrow> bool" where
  "takes excl kfs b \<longleftrightarrow> backend_inv b \<and> bk_excluded b = excl \<and> bk_keyframes b = kfs"

lemma takes_edge:
  "takes excl kfs b \<Longrightarrow> dget kfs (e_src e) \<noteq> None \<Longrightarrow> dget kfs (e_dst e) \<noteq> None \<Longrightarrow> takes excl kfs (add_edge excl e b)"
  by (auto simp: takes_def stored_def intro: add_edge_inv)

lemma takes_counters [simp]:
  "takes x kfs (b\<lparr>bk_hops := n\<rparr>) = takes x kfs b" "takes x kfs (b\<lparr>bk_primed := n\<rparr>) = takes x kfs b"
  "takes x kfs (b\<lparr>bk_accepted := n\<rparr>) = takes x kfs b" "takes x kfs (b\<lparr>bk_inter := n\<rparr>) = takes x kfs b"
  "takes x kfs (b\<lparr>bk_ambiguous := n\<rparr>) = takes x kfs b"
  by (simp_all add: takes_def)

lemma takes_id: "takes x kfs b \<Longrightarrow> dget kfs k = Some kf \<Longrightarrow> k_id kf = k"
  by (auto simp: takes_def intro: stored_id)

lemma link_previous_takes:
  assumes "takes x kfs b" and "dget kfs (k_id kf) \<noteq> None"
  shows "takes x kfs (link_previous kit cfg x prev kf b)"
proof (cases "Option.bind prev (dget (bk_keyframes b))")
  case None
  then show ?thesis using assms(1) by (simp add: link_previous_def)
next
  case (Some p)
  then obtain k where "dget kfs k = Some p" using assms(1) by (cases prev) (auto simp: takes_def)
  then have "dget kfs (k_id p) \<noteq> None" using takes_id [OF assms(1)] by auto
  then show ?thesis using assms Some by (simp add: link_previous_def Let_def takes_edge)
qed

lemma consider_takes:
  assumes "takes x kfs b" and "dget kfs (k_id kf) \<noteq> None"
  shows "takes x kfs (consider_candidate kit cfg x kf c b)"
proof (cases "dget (bk_keyframes b) (pc_id c)")
  case None
  then show ?thesis using assms(1) by (simp add: consider_candidate_def)
next
  case (Some target)
  then have "dget kfs (k_id target) \<noteq> None" using takes_id [OF assms(1)] assms(1) by (auto simp: takes_def)
  then show ?thesis using assms Some
    by (simp add: consider_candidate_def Let_def takes_edge closure_edge_def split: option.split)
qed

lemma closures_takes:
  assumes "takes x kfs b" and "dget kfs (k_id kf) \<noteq> None"
  shows "takes x kfs (closures kit cfg x kf cs b)"
proof -
  have "takes x kfs (fold (consider_candidate kit cfg x kf) cs b)"
    using assms(1) by (induction cs arbitrary: b) (simp_all add: consider_takes assms(2))
  then show ?thesis using assms(1) by (simp add: closures_def)
qed

lemma file_keyframe_inv:
  "takes x kfs b \<Longrightarrow> dget kfs (k_id kf) \<noteq> None \<Longrightarrow> backend_inv (fst (file_keyframe kit kf b))"
  by (auto simp: takes_def file_keyframe_def index_add_def inv_defs comp_def
      dest!: set_dput_subset [THEN subsetD] split: sum.split)

lemma filter_stored_new:
  assumes "\<not> stored b k" and "k \<notin> fst ` set d"
  shows "filter ((\<lambda>j. stored b j \<or> j = k) \<circ> fst) (d @ [(k, v)]) = filter (stored b \<circ> fst) d @ [(k, v)]"
proof -
  have "filter ((\<lambda>j. stored b j \<or> j = k) \<circ> fst) d = filter (stored b \<circ> fst) d"
    using assms(2) by (intro filter_cong) (auto simp: image_iff)
  then show ?thesis by simp
qed

lemma store_ok_new:
  assumes "store_ok b" and "\<not> stored b (k_id kf)"
  shows "store_ok (b\<lparr>bk_solver := sv, bk_keyframes := bk_keyframes b @ [(k_id kf, kf)]\<rparr>)"
  using assms by (auto simp: store_ok_def stored_def wf_dict_def map_add_def map_of_eq_None_iff split: option.splits)

lemma registry_none: "registry_key k r = Inr p \<Longrightarrow> \<not> unkeyable r k"
  by (simp add: unkeyable_def)

lemma in_step_stored:
  assumes "in_step b" and "\<not> stored b (k_id kf)" and "included (bk_excluded b) (k_id kf)"
    and key: "registry_key (k_id kf) (sv_keys (bk_solver b)) = Inr (key, r)"
  shows "in_step (b\<lparr>bk_solver := (bk_solver b)\<lparr>sv_nodes := dput (k_id kf) kf (sv_nodes (bk_solver b)), sv_keys := r\<rparr>,
    bk_keyframes := bk_keyframes b @ [(k_id kf, kf)]\<rparr>)"
proof -
  let ?k = "k_id kf" and ?nodes = "sv_nodes (bk_solver b)"
  have fresh: "?k \<notin> fst ` set ?nodes"
    using assms(1,2) registry_none [OF key] by (auto simp: in_step_def list_all_iff keys_def)
  have nodes: "dput ?k kf ?nodes = ?nodes @ [(?k, kf)]" by (rule dput_new [OF fresh])
  let ?b = "b\<lparr>bk_solver := (bk_solver b)\<lparr>sv_nodes := dput ?k kf ?nodes, sv_keys := r\<rparr>, bk_keyframes := bk_keyframes b @ [(?k, kf)]\<rparr>"
  have stored': "stored ?b = (\<lambda>j. stored b j \<or> j = ?k)"
    by (auto simp: stored_def fun_eq_iff map_add_def split: option.splits)
  have "filter (stored ?b \<circ> fst) (?nodes @ [(?k, kf)]) = selected ?b"
    unfolding stored' filter_stored_new [OF assms(2) fresh] using assms(1,3) by (simp add: in_step_def selected_def)
  moreover have "list_all (\<lambda>j. included (bk_excluded b) j \<and> (stored ?b j \<or> unkeyable r j)) (keys (?nodes @ [(?k, kf)]))"
    using assms(1,3) unkeyable_grows [OF _ key] by (auto simp: in_step_def stored' list_all_iff keys_def)
  moreover have "sv_edges (bk_solver b) = included_edges b" using assms(1) by (simp add: in_step_def)
  ultimately show ?thesis by (simp add: in_step_def nodes included_edges_def)
qed

lemma in_step_refused:
  assumes "in_step b" and "\<not> stored b (k_id kf)" and "included (bk_excluded b) (k_id kf)"
    and "unkeyable (sv_keys (bk_solver b)) (k_id kf)"
  shows "in_step (b\<lparr>bk_solver := (bk_solver b)\<lparr>sv_nodes := dput (k_id kf) kf (sv_nodes (bk_solver b))\<rparr>\<rparr>)"
proof -
  let ?nodes = "sv_nodes (bk_solver b)" and ?k = "k_id kf"
  let ?b = "b\<lparr>bk_solver := (bk_solver b)\<lparr>sv_nodes := dput ?k kf ?nodes\<rparr>\<rparr>"
  have stored': "stored ?b = stored b" by (simp add: stored_def fun_eq_iff)
  have "filter (stored b \<circ> fst) (dput ?k kf ?nodes) = selected ?b"
    using assms(1) by (simp add: filter_dput [of "stored b", OF assms(2)] in_step_def selected_def)
  moreover have "list_all (\<lambda>j. included (bk_excluded b) j \<and> (stored b j \<or> unkeyable (sv_keys (bk_solver b)) j)) (keys (dput ?k kf ?nodes))"
    using assms by (auto simp: in_step_def list_all_iff keys_def dest!: set_dput_subset [THEN subsetD])
  moreover have "sv_edges (bk_solver b) = included_edges b" using assms(1) by (simp add: in_step_def)
  ultimately show ?thesis by (simp add: in_step_def stored' included_edges_def)
qed

lemma in_step_excluded:
  assumes "in_step b" and "\<not> stored b (k_id kf)" and "\<not> included (bk_excluded b) (k_id kf)"
  shows "in_step (b\<lparr>bk_keyframes := bk_keyframes b @ [(k_id kf, kf)]\<rparr>)"
proof -
  let ?b = "b\<lparr>bk_keyframes := bk_keyframes b @ [(k_id kf, kf)]\<rparr>"
  have "filter (stored ?b \<circ> fst) (sv_nodes (bk_solver b)) = filter (stored b \<circ> fst) (sv_nodes (bk_solver b))"
    using assms by (intro filter_cong) (auto simp: in_step_def stored_def list_all_iff keys_def map_add_def split: option.splits)
  then show ?thesis using assms
    by (auto simp: in_step_def selected_def included_edges_def list_all_iff stored_def map_add_def split: option.splits)
qed

lemma store_keyframe_inv:
  assumes "backend_inv b" and "\<not> stored b (k_id kf)" and "store_keyframe (bk_excluded b) kf b = (b1, e)"
  shows "backend_inv b1" and "e = None \<Longrightarrow> takes (bk_excluded b) (dput (k_id kf) kf (bk_keyframes b)) b1"
proof -
  have new: "dput (k_id kf) kf (bk_keyframes b) = bk_keyframes b @ [(k_id kf, kf)]"
    using assms(2) by (intro dput_new) (force simp: stored_def map_of_eq_None_iff)
  have ok: "store_ok b" using assms(1) by (simp add: backend_inv_def)
  show "backend_inv b1"
  proof (cases "included (bk_excluded b) (k_id kf)")
    case False
    then have "b1 = b\<lparr>bk_keyframes := bk_keyframes b @ [(k_id kf, kf)]\<rparr>"
      using assms(3) by (auto simp: store_keyframe_def new)
    then show ?thesis using store_ok_new [OF ok assms(2), of "bk_solver b"] in_step_excluded [OF _ assms(2) False] assms(1)
      by (auto simp: backend_inv_def)
  next
    case True
    show ?thesis
    proof (cases "registry_key (k_id kf) (sv_keys (bk_solver b))")
      case (Inl err)
      then have b1: "b1 = b\<lparr>bk_solver := (bk_solver b)\<lparr>sv_nodes := dput (k_id kf) kf (sv_nodes (bk_solver b))\<rparr>\<rparr>"
        using assms(3) True by (auto simp: store_keyframe_def solver_add_def Let_def)
      have "store_ok b1" using ok by (simp add: b1 store_ok_def stored_def)
      moreover have "bk_stale b1 \<or> in_step b1"
        using assms(1,2) True Inl in_step_refused [of b kf] unfolding b1 backend_inv_def unkeyable_def by auto
      ultimately show ?thesis by (simp add: backend_inv_def)
    next
      case (Inr p)
      obtain key r where p: "p = (key, r)" by (cases p)
      have b1: "b1 = b\<lparr>bk_solver := (bk_solver b)\<lparr>sv_nodes := dput (k_id kf) kf (sv_nodes (bk_solver b)), sv_keys := r\<rparr>,
          bk_keyframes := bk_keyframes b @ [(k_id kf, kf)]\<rparr>"
        using assms(3) True Inr p by (auto simp: store_keyframe_def solver_add_def Let_def new)
      have "bk_stale b1 \<or> in_step b1"
        using assms(1,2) True in_step_stored [OF _ assms(2) True Inr [unfolded p]] unfolding b1 backend_inv_def by auto
      then show ?thesis using store_ok_new [OF ok assms(2)] by (simp add: b1 backend_inv_def)
    qed
  qed
  then show "takes (bk_excluded b) (dput (k_id kf) kf (bk_keyframes b)) b1" if "e = None"
    using assms(3) that by (auto simp: takes_def store_keyframe_def Let_def split: prod.splits option.splits)
qed

lemma with_descriptor_id [simp]: "k_id (with_descriptor kit kf) = k_id kf"
  by (simp add: with_descriptor_def split: option.split)

lemma ingest_inv:
  assumes "backend_inv b" and "ingest_keyframe kit cfg kf b = Some (b', r)"
  shows "backend_inv b'"
proof (cases "stored b (k_id kf) \<or> length (k_points kf) < min_points cfg")
  case True
  then show ?thesis using assms by (auto simp: ingest_keyframe_def stored_def split: if_splits)
next
  case False
  let ?kf = "with_descriptor kit kf"
  obtain b1 e where s: "store_keyframe (bk_excluded b) ?kf b = (b1, e)" by (cases "store_keyframe (bk_excluded b) ?kf b")
  note inv = store_keyframe_inv [OF assms(1) _ s]
  show ?thesis
  proof (cases e)
    case (Some err)
    then show ?thesis using assms(2) False s inv(1) by (simp add: ingest_keyframe_def stored_def)
  next
    case None
    let ?kfs = "dput (k_id kf) ?kf (bk_keyframes b)"
    let ?b2 = "link_previous kit cfg (bk_excluded b) (dget (bk_last b) (kf_trajectory (k_id kf))) ?kf b1"
    have here: "dget ?kfs (k_id ?kf) \<noteq> None" by (simp add: dict_simps)
    have b2: "takes (bk_excluded b) ?kfs ?b2"
      using inv(2) None False by (intro link_previous_takes) (simp_all add: dict_simps)
    have filed: "backend_inv (fst (file_keyframe kit ?kf (closures kit cfg (bk_excluded b) ?kf cs ?b2)))" for cs
      by (rule file_keyframe_inv [OF closures_takes [OF b2 here] here])
    have out: "ingest_keyframe kit cfg kf b = (case find_candidates kit cfg (bk_index ?b2) ?kf of None \<Rightarrow> None
        | Some (Inl err) \<Rightarrow> Some (?b2, Inl err)
        | Some (Inr cs) \<Rightarrow> Some (file_keyframe kit ?kf (closures kit cfg (bk_excluded b) ?kf cs ?b2)))"
      using False None s by (simp add: ingest_keyframe_def stored_def Let_def cong: option.case_cong sum.case_cong)
    show ?thesis using assms(2) b2 filed unfolding out takes_def
      by (cases "find_candidates kit cfg (bk_index ?b2) ?kf") (auto split: sum.splits, metis fst_conv)
  qed
qed

subsection \<open>Selecting, deleting, solving\<close>

lemma stale_inv: "store_ok b \<Longrightarrow> bk_stale b \<Longrightarrow> backend_inv b"
  by (simp add: backend_inv_def)

lemma selection_inv:
  assumes "backend_inv b"
  shows "backend_inv (fst (set_included t inc b))" "backend_inv (include_only ts b)"
  using assms by (auto simp: set_included_def include_only_def selection_changed_def backend_inv_def store_ok_def stored_def)

lemma reindex_set: "reindex kit es idx = (idx', e) \<Longrightarrow> set idx' \<subseteq> set idx \<union> set es"
  by (induction kit es idx rule: reindex.induct) (auto simp: index_add_def split: sum.splits if_splits)

lemma dget_without: "dget (filter (\<lambda>(k, _). P k) d) k = (if P k then dget d k else None)"
  using dget_filter_fst [of P d k] by (simp add: case_prod_beta')

lemma drop_stored: "stored (drop_robot rid b) k \<longleftrightarrow> stored b k \<and> kf_robot k \<noteq> rid"
  by (auto simp: stored_def drop_robot_def dget_without)

lemma drop_store_ok:
  assumes "store_ok b" and "set idx \<subseteq> set (descriptors kit (bk_keyframes (drop_robot rid b)))"
  shows "store_ok (drop_robot rid b\<lparr>bk_index := idx\<rparr>)"
proof -
  let ?b = "drop_robot rid b\<lparr>bk_index := idx\<rparr>"
  have stored': "stored ?b k \<longleftrightarrow> stored b k \<and> kf_robot k \<noteq> rid" for k
    using drop_stored [of rid b k] by (simp add: stored_def)
  have wf: "wf_dict (bk_keyframes ?b)" "\<forall>(k, kf) \<in> set (bk_keyframes ?b). k_id kf = k"
    using assms(1) by (auto simp: store_ok_def drop_robot_def)
  have edges: "stored ?b (e_src e) \<and> stored ?b (e_dst e)" if "e \<in> set (bk_edges ?b)" for e
    using that assms(1) unfolding stored' by (auto simp: store_ok_def drop_robot_def edge_without_def)
  have last: "stored ?b k \<and> kf_trajectory k = t" if "(t, k) \<in> set (bk_last ?b)" for t k
  proof -
    have "stored b k \<and> kf_trajectory k = t \<and> robot_of t \<noteq> rid"
      using that assms(1) by (auto simp: store_ok_def drop_robot_def)
    then show ?thesis unfolding stored' by (auto simp: kf_trajectory_def)
  qed
  have index: "stored ?b k" if "(k, d) \<in> set idx" for k d
  proof -
    have "k \<in> set (keys (bk_keyframes ?b))"
      using that assms(2) by (force simp: descriptors_def keys_def image_iff)
    then show ?thesis using stored_list [OF wf(1)] by simp
  qed
  show ?thesis unfolding store_ok_def using wf edges last index by auto
qed

lemma delete_inv:
  assumes "backend_inv b" and "delete_robot kit rid b = (b', Inr n)"
  shows "backend_inv b'"
proof -
  let ?d = "drop_robot rid b"
  obtain idx e where r: "reindex (places kit) (descriptors kit (bk_keyframes ?d)) [] = (idx, e)"
    by (cases "reindex (places kit) (descriptors kit (bk_keyframes ?d)) []")
  have "store_ok (?d\<lparr>bk_index := idx\<rparr>)"
    using assms(1) reindex_set [OF r] by (intro drop_store_ok) (auto simp: backend_inv_def)
  then have "backend_inv (after_drop rid (?d\<lparr>bk_index := idx\<rparr>))"
    by (intro stale_inv) (simp_all add: after_drop_def store_ok_def stored_def)
  then show ?thesis using assms r
    by (auto simp: delete_robot_def Let_def fresh_inv split: if_splits option.splits)
qed

lemma solver_add_all_nodes:
  assumes "solver_add_all kfs s = (s', None)" and "distinct (keys (sv_nodes s) @ map k_id kfs)"
  shows "sv_nodes s' = sv_nodes s @ map (\<lambda>kf. (k_id kf, kf)) kfs \<and> sv_edges s' = sv_edges s"
  using assms
proof (induction kfs arbitrary: s)
  case (Cons kf kfs)
  obtain s1 where s1: "solver_add kf s = (s1, None)" "solver_add_all kfs s1 = (s', None)"
    using Cons.prems(1) by (auto split: prod.splits option.splits)
  have "sv_nodes s1 = sv_nodes s @ [(k_id kf, kf)] \<and> sv_edges s1 = sv_edges s"
    using s1(1) Cons.prems(2) by (auto simp: solver_add_def Let_def keys_def dput_new split: sum.splits)
  then show ?case using Cons.IH [OF s1(2)] Cons.prems(2) by (simp add: keys_def)
qed simp

lemma included_selected: "store_ok b \<Longrightarrow> included_keyframes b = map snd (selected b)"
proof -
  assume "store_ok b"
  then have "\<forall>(k, kf) \<in> set (bk_keyframes b). k_id kf = k" by (simp add: store_ok_def)
  then show ?thesis unfolding included_keyframes_def selected_def
    by (induction "bk_keyframes b") (auto simp: comp_def filter_map split: prod.splits intro!: map_cong filter_cong)
qed

lemma selected_ids:
  assumes "store_ok b"
  shows "map (\<lambda>kf. (k_id kf, kf)) (included_keyframes b) = selected b" "map k_id (included_keyframes b) = keys (selected b)"
    "distinct (keys (selected b))"
proof -
  have same: "(k, kf) \<in> set (selected b) \<Longrightarrow> k_id kf = k" for k kf using assms by (auto simp: store_ok_def selected_def)
  have "map (\<lambda>p. (k_id (snd p), snd p)) (selected b) = map (\<lambda>p. p) (selected b)"
    using same by (intro map_cong) (auto simp: prod_eq_iff)
  then show "map (\<lambda>kf. (k_id kf, kf)) (included_keyframes b) = selected b"
    by (simp add: included_selected [OF assms] comp_def)
  show "map k_id (included_keyframes b) = keys (selected b)"
    using same by (auto simp: included_selected [OF assms] keys_def)
  have "wf_dict (selected b)" using assms by (simp add: store_ok_def selected_def)
  then show "distinct (keys (selected b))" by (simp add: wf_dict_def keys_def)
qed

lemma rebuild_in_step:
  assumes "store_ok b" and "rebuild_graph b = (b', None)"
  shows "in_step b' \<and> store_ok b' \<and> selected b' = selected b \<and> included_edges b' = included_edges b
    \<and> sv_nodes (bk_solver b') = selected b"
proof -
  obtain sv where sv: "solver_add_all (included_keyframes b) new_solver = (sv, None)"
    and b': "b' = b\<lparr>bk_stale := False, bk_solver := sv\<lparr>sv_edges := sv_edges sv @ included_edges b\<rparr>\<rparr>"
    using assms(2) by (auto simp: rebuild_graph_def Let_def split: prod.splits option.splits)
  have nodes: "sv_nodes sv = selected b" "sv_edges sv = []"
    using solver_add_all_nodes [OF sv] selected_ids [OF assms(1)] by (auto simp: new_solver_def keys_def)
  have stored': "stored b' = stored b" by (simp add: b' stored_def fun_eq_iff)
  have all: "stored b k \<and> included (bk_excluded b) k" if "k \<in> set (keys (selected b))" for k
  proof -
    have "k \<in> set (keys (bk_keyframes b))" "included (bk_excluded b) k" using that by (auto simp: selected_def keys_def)
    then show ?thesis using stored_list assms(1) by (auto simp: store_ok_def)
  qed
  have sel: "selected b' = selected b" "included_edges b' = included_edges b" by (simp_all add: b' selected_def included_edges_def)
  have nodes': "sv_nodes (bk_solver b') = selected b" by (simp add: b' nodes)
  have "filter (stored b \<circ> fst) (selected b) = selected b"
    using all by (auto simp: filter_id_conv keys_def)
  then have "in_step b'"
    using all by (auto simp: in_step_def stored' nodes' sel list_all_iff) (simp_all add: b' nodes)
  moreover have "store_ok b'" using assms(1) by (simp add: b' store_ok_def stored_def)
  ultimately show ?thesis using sel nodes' by blast
qed

lemma solver_optimize_nodes:
  assumes "in_step b" and "selected b \<noteq> []" and "solver_optimize kit (bk_solver b) = Inr g"
  shows "solve kit (selected b) (included_edges b) = Inr g"
proof -
  let ?sv = "bk_solver b"
  have some: "sv_nodes ?sv \<noteq> []" using assms(1,2) by (auto simp: in_step_def)
  obtain p where keyed: "registry_keys (keys (sv_nodes ?sv)) (sv_keys ?sv) = Inr p" and g: "solve kit (sv_nodes ?sv) (sv_edges ?sv) = Inr g"
    using assms(3) some by (cases "registry_keys (keys (sv_nodes ?sv)) (sv_keys ?sv)")
      (auto simp: solver_optimize_def Let_def split: if_splits)
  have "list_all (stored b) (keys (sv_nodes ?sv))"
    using assms(1) keys_of_unkeyable [of _ "keys (sv_nodes ?sv)" "sv_keys ?sv"] keyed by (auto simp: in_step_def list_all_iff)
  then have "filter (stored b \<circ> fst) (sv_nodes ?sv) = sv_nodes ?sv" by (auto simp: filter_id_conv list_all_iff keys_def)
  then show ?thesis using assms(1) g by (simp add: in_step_def)
qed

lemma solve_graph_ok:
  assumes "backend_inv b" and "solve_graph kit cfg b = (b1, r)" and "r = Inr (g, a, i)"
  shows "backend_inv b1" and "\<not> odom_free cfg \<Longrightarrow> included_keyframes b \<noteq> [] \<Longrightarrow> solve kit (selected b) (included_edges b) = Inr g
    \<and> a = length (filter (\<lambda>e. is_loop_closure (e_kind e)) (included_edges b))
    \<and> i = length (filter (\<lambda>e. is_loop_closure (e_kind e) \<and> is_inter_robot e) (included_edges b))"
proof -
  have ok: "store_ok b" using assms(1) by (simp add: backend_inv_def)
  have graph: "backend_inv b1 \<and> in_step b1 \<and> selected b1 = selected b \<and> included_edges b1 = included_edges b
      \<and> solver_optimize kit (bk_solver b1) = Inr g
      \<and> a = length (filter (\<lambda>e. is_loop_closure (e_kind e)) (included_edges b1))
      \<and> i = length (filter (\<lambda>e. is_loop_closure (e_kind e) \<and> is_inter_robot e) (included_edges b1))" if "\<not> odom_free cfg"
  proof (cases "bk_stale b")
    case True
    obtain b2 e where r: "rebuild_graph b = (b2, e)" by (cases "rebuild_graph b")
    have e: "e = None" using assms(2,3) that True r by (auto simp: solve_graph_def split: option.splits)
    note re = rebuild_in_step [OF ok r [unfolded e]]
    have "b1 = b2" using assms(2) that True r e by (simp add: solve_graph_def)
    then show ?thesis using assms(2,3) that True r e re
      by (cases "solver_optimize kit (bk_solver b2)") (auto simp: solve_graph_def backend_inv_def Let_def conj_commute)
  next
    case False
    then have "b1 = b" "in_step b" using assms(1,2) that by (auto simp: solve_graph_def backend_inv_def)
    then show ?thesis using assms(1,2,3) that False
      by (cases "solver_optimize kit (bk_solver b)") (auto simp: solve_graph_def Let_def conj_commute)
  qed
  show "backend_inv b1"
  proof (cases "odom_free cfg")
    case True
    then show ?thesis using assms(1,2) by (simp add: solve_graph_def)
  next
    case False
    then show ?thesis using graph by blast
  qed
  assume "\<not> odom_free cfg" and "included_keyframes b \<noteq> []"
  then show "solve kit (selected b) (included_edges b) = Inr g
    \<and> a = length (filter (\<lambda>e. is_loop_closure (e_kind e)) (included_edges b))
    \<and> i = length (filter (\<lambda>e. is_loop_closure (e_kind e) \<and> is_inter_robot e) (included_edges b))"
    using graph solver_optimize_nodes [of b1 kit g] included_selected [OF ok] by auto
qed

lemma optimize_inv:
  assumes "backend_inv b" and "optimize_and_render kit cfg now b = (b', Inr sn)"
  shows "backend_inv b'"
proof (cases "included_keyframes b = []")
  case True
  then show ?thesis using assms by (simp add: optimize_and_render_def)
next
  case False
  obtain b1 r where s: "solve_graph kit cfg b = (b1, r)" by (cases "solve_graph kit cfg b")
  obtain v where v: "r = Inr v" using assms(2) False s by (cases r) (auto simp: optimize_and_render_def)
  obtain g a i where "v = (g, a, i)" by (cases v)
  then have "backend_inv b1" using solve_graph_ok(1) [OF assms(1) s] v by auto
  then show ?thesis using assms(2) False s v \<open>v = (g, a, i)\<close>
    by (auto simp: optimize_and_render_def Let_def split: prod.splits)
qed

lemma reach_inv: "backend_reach kit cfg b \<Longrightarrow> backend_inv b"
proof (induction rule: backend_reach.induct)
  case (take_in b kf b' r)
  then show ?case by (rule_tac ingest_inv)
next
  case (delete b rid b' n)
  then show ?case by (rule_tac delete_inv)
next
  case (solved b now b' sn)
  then show ?case by (rule_tac optimize_inv)
qed (simp_all add: fresh_inv selection_inv reset_backend_def allow_inter_robot_def)

subsection \<open>A solve is a solve of the selection\<close>

text \<open>C3: Whatever was taken in, refused, excluded, included again or deleted before, a graph solve is a
  solve of exactly the stored keyframes and edges whose trajectories are included now, in the order
  in which they arrived; the closures it reports are the closures among those edges.\<close>

theorem solve_is_of_selection:
  assumes "backend_reach kit cfg b" and "\<not> odom_free cfg" and "included_keyframes b \<noteq> []"
    and "solve_graph kit cfg b = (b1, Inr (g, a, i))"
  shows "solve kit (selected b) (included_edges b) = Inr g
    \<and> a = length (filter (\<lambda>e. is_loop_closure (e_kind e)) (included_edges b))
    \<and> i = length (filter (\<lambda>e. is_loop_closure (e_kind e) \<and> is_inter_robot e) (included_edges b))"
  using solve_graph_ok(2) [OF reach_inv [OF assms(1)] assms(4) refl assms(2,3)] .

subsection \<open>Excluding and including again\<close>

lemma registry_distinct: "registry_wf r \<Longrightarrow> distinct (kr_trajectories r)"
  unfolding registry_wf_def distinct_conv_nth by (metis option.inject)

definition keyable :: "key_registry \<Rightarrow> kf_id \<Rightarrow> bool" where
  "keyable r k \<longleftrightarrow> 0 \<le> kf_seq k \<and> kf_seq k < 2 ^ seq_bits \<and> kf_trajectory k \<in> set (kr_trajectories r)"

lemma registry_key_keyable:
  assumes "registry_wf r" and "registry_key k r = Inr (key, r')"
  shows "keyable r' k"
proof -
  obtain i where i: "0 \<le> kf_seq k" "kf_seq k < 2 ^ seq_bits" "trajectory_index (kf_trajectory k) r = Inr (i, r')"
    using assms(2) by (auto simp: registry_key_def split: if_splits sum.splits)
  have "kf_trajectory k \<in> set (kr_trajectories r')"
    using trajectory_index_wf(2,3) [OF assms(1) i(3)] nth_mem by metis
  then show ?thesis using i by (simp add: keyable_def)
qed

lemma registry_keys_keyable:
  "registry_wf r \<Longrightarrow> registry_keys ks r = Inr (out, r') \<Longrightarrow> list_all (keyable r') ks"
proof (induction ks arbitrary: r out)
  case (Cons k ks)
  obtain key r1 rest where k: "registry_key k r = Inr (key, r1)" and ks: "registry_keys ks r1 = Inr (rest, r')"
    using Cons.prems(2) by (auto split: sum.splits)
  note wf1 = registry_key_wf [OF Cons.prems(1) k]
  have "keyable r' k"
    using registry_key_keyable [OF Cons.prems(1) k] registry_keys_wf [OF wf1 ks] by (auto simp: keyable_def)
  then show ?case using Cons.IH [OF wf1 ks] by simp
qed simp

lemma registry_keys_within:
  assumes "registry_wf r"
  shows "registry_wf s \<Longrightarrow> set (kr_trajectories s) \<subseteq> set (kr_trajectories r) \<Longrightarrow> list_all (keyable r) ks
    \<Longrightarrow> \<exists>out s'. registry_keys ks s = Inr (out, s') \<and> registry_wf s' \<and> set (kr_trajectories s') \<subseteq> set (kr_trajectories r)"
proof (induction ks arbitrary: s)
  case (Cons k ks)
  let ?t = "kf_trajectory k"
  have room: "length (kr_trajectories s) < max_robots" if "?t \<notin> set (kr_trajectories s)"
  proof -
    have "set (kr_trajectories s) \<subset> set (kr_trajectories r)" using Cons.prems(2,3) that by (auto simp: keyable_def)
    then have "card (set (kr_trajectories s)) < card (set (kr_trajectories r))" by (intro psubset_card_mono) simp_all
    then have "length (kr_trajectories s) < length (kr_trajectories r)"
      using registry_distinct [OF Cons.prems(1)] registry_distinct [OF assms] by (simp add: distinct_card)
    then show ?thesis using assms by (auto simp: registry_wf_def)
  qed
  have known: "dget (kr_index s) ?t = None \<longleftrightarrow> ?t \<notin> set (kr_trajectories s)"
    using Cons.prems(1) unfolding registry_wf_def in_set_conv_nth by (metis not_Some_eq)
  have "\<exists>i s1. trajectory_index ?t s = Inr (i, s1) \<and> set (kr_trajectories s1) \<subseteq> insert ?t (set (kr_trajectories s))"
    using room known by (auto simp: trajectory_index_def Let_def split: option.split)
  then obtain i s1 where s1: "trajectory_index ?t s = Inr (i, s1)" "set (kr_trajectories s1) \<subseteq> insert ?t (set (kr_trajectories s))"
    by blast
  then have key: "\<exists>key. registry_key k s = Inr (key, s1)"
    using Cons.prems(3) by (auto simp: registry_key_def keyable_def)
  then obtain key where key: "registry_key k s = Inr (key, s1)" by blast
  have "set (kr_trajectories s1) \<subseteq> set (kr_trajectories r)" using s1(2) Cons.prems(2,3) by (auto simp: keyable_def)
  then obtain out s' where "registry_keys ks s1 = Inr (out, s')" "registry_wf s'" "set (kr_trajectories s') \<subseteq> set (kr_trajectories r)"
    using Cons.IH [of s1] registry_key_wf [OF Cons.prems(1) key] Cons.prems(3) by auto
  then show ?case by (simp add: key)
qed simp

lemma solver_add_all_keys:
  "registry_keys (map k_id kfs) (sv_keys s) = Inr (out, r) \<Longrightarrow> \<exists>s'. solver_add_all kfs s = (s', None) \<and> sv_keys s' = r"
proof (induction kfs arbitrary: s out)
  case (Cons kf kfs)
  obtain key r1 rest where k: "registry_key (k_id kf) (sv_keys s) = Inr (key, r1)" "registry_keys (map k_id kfs) r1 = Inr (rest, r)"
    using Cons.prems by (auto split: sum.splits)
  then show ?case using Cons.IH [of "s\<lparr>sv_nodes := dput (k_id kf) kf (sv_nodes s), sv_keys := r1\<rparr>"]
    by (auto simp: solver_add_def Let_def)
qed auto

text \<open>If the included keyframes have keys, the graph can be built anew and solved.\<close>

lemma stale_solve:
  fixes b :: "('m, 'i, 'p, 'd) backend"
  assumes "store_ok b" and "bk_stale b" and "\<not> odom_free cfg" and "selected b \<noteq> []"
    and "registry_wf r" and "list_all (keyable r) (keys (selected b))"
  shows "snd (solve_graph kit cfg b) = ebind (solve kit (selected b) (included_edges b)) (\<lambda>g.
    let loops = filter (\<lambda>e. is_loop_closure (e_kind e)) (included_edges b) in
    Inr (g, length loops, length (filter is_inter_robot loops)))"
proof -
  have ids: "map k_id (included_keyframes b) = keys (selected b)" by (rule selected_ids(2) [OF assms(1)])
  obtain out s where s: "registry_keys (keys (selected b)) empty_registry = Inr (out, s)" "registry_wf s"
      "set (kr_trajectories s) \<subseteq> set (kr_trajectories r)"
    using registry_keys_within [OF assms(5) empty_registry_wf _ assms(6)] by (auto simp: empty_registry_def)
  obtain sv :: "('m, 'i, 'p, 'd) solver" where sv: "solver_add_all (included_keyframes b) new_solver = (sv, None)" "sv_keys sv = s"
    using solver_add_all_keys [of "included_keyframes b" new_solver] s(1) by (auto simp: ids new_solver_def)
  define b1 where "b1 = b\<lparr>bk_stale := False, bk_solver := sv\<lparr>sv_edges := sv_edges sv @ included_edges b\<rparr>\<rparr>"
  have re: "rebuild_graph b = (b1, None)" by (simp add: rebuild_graph_def sv b1_def)
  note b1 = rebuild_in_step [OF assms(1) re]
  have edges: "sv_edges (bk_solver b1) = included_edges b" using b1 by (simp add: in_step_def)
  have nodes: "sv_nodes (bk_solver b1) = selected b" using b1 by simp
  have here: "k \<in> set (keys (selected b))" if "stored b k" "included (bk_excluded b) k" for k
    using that stored_list [of b k] assms(1) by (auto simp: store_ok_def selected_def keys_def)
  have ends: "e_src e \<in> set (keys (selected b)) \<and> e_dst e \<in> set (keys (selected b))" if "e \<in> set (included_edges b)" for e
  proof -
    have "e \<in> set (bk_edges b)" "edge_included (bk_excluded b) e" using that by (auto simp: included_edges_def)
    then show ?thesis using assms(1) here [of "e_src e"] here [of "e_dst e"] by (simp add: store_ok_def edge_included_def)
  qed
  have "missing_endpoints (keys (selected b)) es = []" if "set es \<subseteq> set (included_edges b)" for es
    using that ends by (auto simp: missing_endpoints_def filter_empty_conv)
  moreover obtain out2 s2 where "registry_keys (keys (selected b)) (sv_keys (bk_solver b1)) = Inr (out2, s2)"
    using registry_keys_within [OF assms(5) s(2,3) assms(6)] by (auto simp: b1_def sv)
  ultimately have "solver_optimize kit (bk_solver b1) = solve kit (selected b) (included_edges b)"
    using assms(4) by (simp add: solver_optimize_def nodes edges Let_def)
  then show ?thesis using assms(2,3) b1 re by (simp add: solve_graph_def)
qed

definition keys_ok :: "('m, 'i, 'p, 'd) backend \<Rightarrow> bool" where
  "keys_ok b \<longleftrightarrow> registry_wf (sv_keys (bk_solver b))"

lemma solver_add_wf: "registry_wf (sv_keys s) \<Longrightarrow> registry_wf (sv_keys (fst (solver_add kf s)))"
  by (auto simp: solver_add_def Let_def registry_key_wf split: sum.split)

lemma solver_add_all_wf: "registry_wf (sv_keys s) \<Longrightarrow> registry_wf (sv_keys (fst (solver_add_all kfs s)))"
proof (induction kfs arbitrary: s)
  case (Cons kf kfs)
  obtain s1 e where s: "solver_add kf s = (s1, e)" by (cases "solver_add kf s")
  then have "registry_wf (sv_keys s1)" using solver_add_wf [OF Cons.prems, of kf] by simp
  then show ?case using Cons.IH [of s1] Cons.prems s by (cases e) simp_all
qed simp

lemma new_solver_wf: "registry_wf (sv_keys new_solver)"
  by (simp add: new_solver_def empty_registry_wf)

lemma add_edge_keys [simp]: "sv_keys (bk_solver (add_edge x e b)) = sv_keys (bk_solver b)"
  by (simp add: add_edge_def solver_edge_def)

lemma consider_keys [simp]: "sv_keys (bk_solver (consider_candidate kit cfg x kf c b)) = sv_keys (bk_solver b)"
  by (simp add: consider_candidate_def Let_def split: option.split)

lemma closures_keys [simp]: "sv_keys (bk_solver (closures kit cfg x kf cs b)) = sv_keys (bk_solver b)"
proof -
  have "sv_keys (bk_solver (fold (consider_candidate kit cfg x kf) cs b)) = sv_keys (bk_solver b)"
    by (induction cs arbitrary: b) simp_all
  then show ?thesis by (simp add: closures_def)
qed

lemma link_previous_keys [simp]: "sv_keys (bk_solver (link_previous kit cfg x prev kf b)) = sv_keys (bk_solver b)"
  by (simp add: link_previous_def Let_def split: option.split)

lemma file_keyframe_keys [simp]: "sv_keys (bk_solver (fst (file_keyframe kit kf b))) = sv_keys (bk_solver b)"
  by (simp add: file_keyframe_def split: sum.split)

lemma store_keyframe_keys: "keys_ok b \<Longrightarrow> keys_ok (fst (store_keyframe x kf b))"
  using solver_add_wf [of "bk_solver b" kf]
  by (auto simp: store_keyframe_def keys_ok_def Let_def split: prod.split option.split)

lemma ingest_keys:
  assumes "keys_ok b" and "ingest_keyframe kit cfg kf b = Some (b', r)"
  shows "keys_ok b'"
proof -
  let ?kf = "with_descriptor kit kf"
  obtain b1 e where s: "store_keyframe (bk_excluded b) ?kf b = (b1, e)" by (cases "store_keyframe (bk_excluded b) ?kf b")
  have b1: "keys_ok b1" using store_keyframe_keys [OF assms(1), of "bk_excluded b" ?kf] s by simp
  have "keys_ok (fst (file_keyframe kit ?kf (closures kit cfg x ?kf cs (link_previous kit cfg x prev ?kf b1))))" for x cs prev
    using b1 by (simp add: keys_ok_def)
  moreover have "keys_ok (link_previous kit cfg x prev ?kf b1)" for x prev using b1 by (simp add: keys_ok_def)
  ultimately show ?thesis using assms s b1
    by (auto simp: ingest_keyframe_def Let_def split: if_splits option.splits sum.splits) (metis fst_conv)+
qed

lemma rebuild_keys:
  fixes b :: "('m, 'i, 'p, 'd) backend"
  shows "keys_ok (fst (rebuild_graph b))"
proof -
  obtain sv :: "('m, 'i, 'p, 'd) solver" and e where sv: "solver_add_all (included_keyframes b) new_solver = (sv, e)"
    by (cases "solver_add_all (included_keyframes b) new_solver :: ('m, 'i, 'p, 'd) solver \<times> pyerr option")
  then have "registry_wf (sv_keys sv)" using solver_add_all_wf [OF new_solver_wf] by (metis fst_conv)
  then show ?thesis by (simp add: rebuild_graph_def keys_ok_def Let_def sv split: option.split)
qed

lemma solve_graph_keys: "keys_ok b \<Longrightarrow> keys_ok (fst (solve_graph kit cfg b))"
  using rebuild_keys [of b] by (auto simp: solve_graph_def split: prod.split option.split)

lemma optimize_keys: "keys_ok b \<Longrightarrow> keys_ok (fst (optimize_and_render kit cfg now b))"
  using solve_graph_keys [of b kit cfg]
  by (auto simp: optimize_and_render_def keys_ok_def Let_def split: prod.splits sum.split)

lemma delete_keys:
  assumes "keys_ok b" and "delete_robot kit rid b = (b', r)"
  shows "keys_ok b'"
  using assms new_solver_wf
  by (auto simp: delete_robot_def Let_def keys_ok_def drop_robot_def after_drop_def fresh_backend_def
      split: if_splits prod.splits option.splits)

lemma reach_keys: "backend_reach kit cfg b \<Longrightarrow> keys_ok b"
proof (induction rule: backend_reach.induct)
  case (take_in b kf b' r)
  then show ?case by (rule_tac ingest_keys)
next
  case (delete b rid b' n)
  then show ?case by (rule_tac delete_keys)
next
  case (solved b now b' sn)
  then show ?case using optimize_keys by (metis fst_conv)
qed (simp_all add: keys_ok_def set_included_def include_only_def selection_changed_def allow_inter_robot_def
    reset_backend_def fresh_backend_def new_solver_wf)

lemma solved_keyable:
  assumes "backend_reach kit cfg b" and "\<not> odom_free cfg" and "included_keyframes b \<noteq> []"
    and "solve_graph kit cfg b = (b1, Inr r)"
  shows "\<exists>keys_of. registry_wf keys_of \<and> list_all (keyable keys_of) (keys (selected b))"
proof -
  have inv: "backend_inv b" "store_ok b" using reach_inv [OF assms(1)] by (simp_all add: backend_inv_def)
  have wf: "registry_wf (sv_keys (bk_solver b1))"
    using solve_graph_keys [OF reach_keys [OF assms(1)], of kit cfg] assms(4) by (simp add: keys_ok_def)
  have opt: "\<exists>g. solver_optimize kit (bk_solver b1) = Inr g"
    using assms(2,4) by (cases "solver_optimize kit (bk_solver b1)") (auto simp: solve_graph_def Let_def split: if_splits prod.splits option.splits)
  have sel: "selected b \<noteq> []" using assms(3) included_selected [OF inv(2)] by auto
  have nodes: "in_step b1 \<and> selected b1 = selected b"
  proof (cases "bk_stale b")
    case True
    obtain b2 where "rebuild_graph b = (b2, None)" "b1 = b2"
      using assms(2,4) True by (auto simp: solve_graph_def split: prod.splits option.splits)
    then show ?thesis using rebuild_in_step [OF inv(2)] by blast
  next
    case False
    then have "b1 = b" using assms(2,4) by (simp add: solve_graph_def)
    then show ?thesis using inv(1) False by (simp add: backend_inv_def)
  qed
  then have some: "sv_nodes (bk_solver b1) \<noteq> []" using sel by (auto simp: in_step_def)
  obtain out r' where k: "registry_keys (keys (sv_nodes (bk_solver b1))) (sv_keys (bk_solver b1)) = Inr (out, r')"
    using opt some by (cases "registry_keys (keys (sv_nodes (bk_solver b1))) (sv_keys (bk_solver b1))")
      (auto simp: solver_optimize_def Let_def split: if_splits)
  have "set (selected b) \<subseteq> set (sv_nodes (bk_solver b1))"
    using nodes unfolding in_step_def by (metis filter_is_subset)
  then have "set (keys (selected b)) \<subseteq> set (keys (sv_nodes (bk_solver b1)))" by (auto simp: keys_def)
  then show ?thesis using registry_keys_keyable [OF wf k] registry_keys_wf [OF wf k]
    by (intro exI [of _ r']) (auto simp: list_all_iff)
qed

text \<open>C25: Excluding a trajectory and including it again loses nothing: the next solve gives what it gave
  before, from a graph built anew from what is stored.\<close>

theorem exclude_include_restores:
  assumes "backend_reach kit cfg b" and "\<not> odom_free cfg" and "included_keyframes b \<noteq> []" and "is_included b t"
    and "solve_graph kit cfg b = (b1, Inr r)"
  shows "snd (solve_graph kit cfg (fst (set_included t True (fst (set_included t False b))))) = Inr r"
proof -
  let ?b = "fst (set_included t True (fst (set_included t False b)))"
  obtain g a i where r: "r = (g, a, i)" by (cases r)
  note sol = solve_graph_ok(2) [OF reach_inv [OF assms(1)] assms(5) [unfolded r] refl assms(2,3)]
  obtain kr where kr: "registry_wf kr" "list_all (keyable kr) (keys (selected b))"
    using solved_keyable [OF assms(1-3,5)] by blast
  have same: "selected ?b = selected b" "included_edges ?b = included_edges b" "bk_stale ?b"
    using assms(4) by (auto simp: set_included_def is_included_def selection_changed_def selected_def included_edges_def insert_absorb)
  have ok: "store_ok ?b" using selection_inv(1) reach_inv [OF assms(1)] by (metis backend_inv_def)
  have "selected b \<noteq> []" using assms(1,3) reach_inv included_selected by (fastforce simp: backend_inv_def)
  then show ?thesis using stale_solve [OF ok same(3) assms(2) _ kr(1), of kit] kr(2) sol r
    by (simp add: same Let_def conj_commute)
qed

end
