(* ===== verification/Slam_Runs.thy ===== *)
theory Slam_Runs
  imports Slam_Selection
begin

text \<open>
  Deleting a robot, the sessions given to packets without one, and runs of a small back end on which
  the properties of the selection are seen at work.
\<close>

subsection \<open>Deleting a robot\<close>

definition of_others :: "string \<Rightarrow> (kf_id, 'v) dict \<Rightarrow> (kf_id, 'v) dict" where
  "of_others rid d = filter (\<lambda>(k, _). kf_robot k \<noteq> rid) d"

lemma reindexed: "reindex kit es acc = (idx, None) \<Longrightarrow> idx = acc @ es"
  by (induction kit es acc rule: reindex.induct) (auto simp: index_add_def split: sum.splits if_splits)

lemma others_counted:
  "length (filter (\<lambda>k. kf_robot k = rid) (keys d)) + length (of_others rid d) = length d"
  using sum_length_filter_compl [of "\<lambda>p. kf_robot (fst p) = rid" d]
  by (simp add: keys_def of_others_def filter_map comp_def case_prod_unfold)

lemma stored_key: "store_ok b \<Longrightarrow> stored b k \<Longrightarrow> k \<in> set (keys (bk_keyframes b))"
  using stored_list by (auto simp: store_ok_def)

lemma without_robot:
  assumes "store_ok b" and "list_all (\<lambda>k. kf_robot k \<noteq> rid) (keys (bk_keyframes b))"
  shows "of_others rid (bk_keyframes b) = bk_keyframes b \<and> filter (edge_without rid) (bk_edges b) = bk_edges b
    \<and> of_others rid (bk_index b) = bk_index b \<and> filter (\<lambda>(t, k). robot_of t \<noteq> rid) (bk_last b) = bk_last b"
proof -
  have other: "stored b k \<Longrightarrow> kf_robot k \<noteq> rid" for k using stored_key [OF assms(1)] assms(2) by (auto simp: list_all_iff)
  have "stored b (e_src e) \<and> stored b (e_dst e)" if "e \<in> set (bk_edges b)" for e using assms(1) that by (simp add: store_ok_def)
  then have "of_others rid (bk_keyframes b) = bk_keyframes b" "filter (edge_without rid) (bk_edges b) = bk_edges b"
    using assms(2) other by (auto simp: of_others_def filter_id_conv list_all_iff keys_def edge_without_def)
  moreover have "of_others rid (bk_index b) = bk_index b" "filter (\<lambda>(t, k). robot_of t \<noteq> rid) (bk_last b) = bk_last b"
    using assms(1) other by (fastforce simp: of_others_def filter_id_conv list_all_iff store_ok_def kf_trajectory_def)+
  ultimately show ?thesis by blast
qed

lemma only_robot:
  assumes "store_ok b" and "list_all (\<lambda>k. kf_robot k = rid) (keys (bk_keyframes b))"
  shows "of_others rid (bk_keyframes b) = [] \<and> filter (edge_without rid) (bk_edges b) = []
    \<and> filter (\<lambda>(t, k). robot_of t \<noteq> rid) (bk_last b) = []"
proof -
  have only: "stored b k \<Longrightarrow> kf_robot k = rid" for k using stored_key [OF assms(1)] assms(2) by (auto simp: list_all_iff)
  have "stored b (e_src e) \<and> stored b (e_dst e)" if "e \<in> set (bk_edges b)" for e using assms(1) that by (simp add: store_ok_def)
  then have "of_others rid (bk_keyframes b) = []" "filter (edge_without rid) (bk_edges b) = []"
    using assms(2) only by (fastforce simp: of_others_def filter_empty_conv list_all_iff keys_def edge_without_def)+
  moreover have "filter (\<lambda>(t, k). robot_of t \<noteq> rid) (bk_last b) = []"
    using assms(1) only by (fastforce simp: filter_empty_conv store_ok_def kf_trajectory_def)
  ultimately show ?thesis by blast
qed

text \<open>C24: Deleting a robot that does not raise leaves exactly the keyframes of the other robots, the edges
  among them and their last keyframes, in their order, and the count it returns is that of the keyframes removed. When
  something was removed and something is left, the place index is that of the keyframes left, the exclusions and the session
  counts are those of the other robots, and the solution is gone and the solver's graph is rebuilt before the next
  solve. When nothing is left the back end is a fresh one. A robot of which no keyframe is stored loses its session count and
  nothing else changes.\<close>

theorem deleted_robot_is_gone:
  assumes "backend_reach kit cfg b" and "delete_robot kit rid b = (b', Inr n)"
  shows "bk_keyframes b' = of_others rid (bk_keyframes b) \<and> bk_edges b' = filter (edge_without rid) (bk_edges b)
    \<and> bk_last b' = filter (\<lambda>(t, _). robot_of t \<noteq> rid) (bk_last b) \<and> of_others rid (bk_index b') = bk_index b'
    \<and> n + length (bk_keyframes b') = length (bk_keyframes b)
    \<and> (if n = 0 then b' = b\<lparr>bk_segments := forget_segments rid (bk_segments b)\<rparr>
       else if bk_keyframes b' = [] then b' = fresh_backend (bk_allow_inter b)
       else bk_index b' = descriptors kit (bk_keyframes b') \<and> bk_excluded b' = {t \<in> bk_excluded b. robot_of t \<noteq> rid}
         \<and> bk_segments b' = forget_segments rid (bk_segments b) \<and> bk_solved b' = None \<and> bk_stale b')"
proof -
  have ok: "store_ok b" using reach_inv [OF assms(1)] by (simp add: backend_inv_def)
  note count = others_counted [of rid "bk_keyframes b"]
  consider (none) "list_all (\<lambda>k. kf_robot k \<noteq> rid) (keys (bk_keyframes b))"
    | (all) "\<not> list_all (\<lambda>k. kf_robot k \<noteq> rid) (keys (bk_keyframes b))" "list_all (\<lambda>k. kf_robot k = rid) (keys (bk_keyframes b))"
    | (some) "\<not> list_all (\<lambda>k. kf_robot k \<noteq> rid) (keys (bk_keyframes b))" "\<not> list_all (\<lambda>k. kf_robot k = rid) (keys (bk_keyframes b))"
    by blast
  then show ?thesis
  proof cases
    case none
    then have b': "b' = b\<lparr>bk_segments := forget_segments rid (bk_segments b)\<rparr>" and n: "n = 0"
      using assms(2) by (auto simp: delete_robot_def Let_def list_all_iff filter_empty_conv)
    show ?thesis using without_robot [OF ok none] by (simp add: b' n)
  next
    case all
    then have b': "b' = fresh_backend (bk_allow_inter b)" and n: "n = length (filter (\<lambda>k. kf_robot k = rid) (keys (bk_keyframes b)))" "n \<noteq> 0"
      using assms(2) all by (auto simp: delete_robot_def Let_def list_all_iff filter_empty_conv split: if_splits)
    show ?thesis using only_robot [OF ok all(2)] count n by (simp add: b' fresh_backend_def of_others_def)
  next
    case some
    then obtain idx where re: "reindex (places kit) (descriptors kit (bk_keyframes (drop_robot rid b))) [] = (idx, None)"
      and b': "b' = after_drop rid (drop_robot rid b\<lparr>bk_index := idx\<rparr>)"
      and n: "n = length (filter (\<lambda>k. kf_robot k = rid) (keys (bk_keyframes b)))" "n \<noteq> 0"
      using assms(2) by (auto simp: delete_robot_def Let_def list_all_iff filter_empty_conv split: if_splits prod.splits option.splits)
    have kfs: "bk_keyframes b' = of_others rid (bk_keyframes b)" by (simp add: b' after_drop_def drop_robot_def of_others_def)
    then have left: "bk_keyframes b' \<noteq> []" using some(2) by (auto simp: of_others_def filter_empty_conv list_all_iff keys_def)
    have idx: "bk_index b' = descriptors kit (bk_keyframes b')" using reindexed [OF re] by (simp add: b' after_drop_def drop_robot_def)
    have "of_others rid (bk_index b') = bk_index b'"
      unfolding idx kfs by (auto simp: of_others_def filter_id_conv descriptors_def)
    then show ?thesis using left idx kfs count n by (simp add: b' after_drop_def drop_robot_def)
  qed
qed

subsection \<open>Sessions of packets without one\<close>

datatype numbering = Packet string int real | Forget string | Forget_All

fun forget_step :: "numbering \<Rightarrow> segments \<Rightarrow> segments" where
  "forget_step (Packet rid seq stamp) gs = fst (session_for gs rid seq stamp)"
| "forget_step (Forget rid) gs = forget_segments rid gs"
| "forget_step Forget_All gs = []"

fun sessions_of :: "segments \<Rightarrow> numbering list \<Rightarrow> string option list" where
  "sessions_of gs [] = []"
| "sessions_of gs (e # es) = (case e of Packet rid seq stamp \<Rightarrow> Some (snd (session_for gs rid seq stamp)) | _ \<Rightarrow> None)
     # sessions_of (forget_step e gs) es"







lemma length_sessions [simp]: "length (sessions_of gs es) = length es"
  by (induction es arbitrary: gs) auto








subsection \<open>A small back end\<close>

definition toy_kit :: "(int, bool, unit, int) slam_kit" where
  "toy_kit = \<lparr>m_mul = (+), m_inv = uminus, m_size = (\<lambda>t. (\<bar>of_int t\<bar>, 0)), m_apart = (\<lambda>a b. \<bar>of_int (a - b)\<bar>),
     odometry_info = (\<lambda>jump. jump), describe = (\<lambda>_. 0), places = plain_kit, verify = (\<lambda>_ _ _ _. None),
     solve = (\<lambda>nodes _. Inr \<lparr>og_poses = map (\<lambda>(k, kf). (k, k_pose kf)) nodes, og_robot_frames = [], og_frames = [], og_components = [], og_error = 0\<rparr>),
     reconstruct = (\<lambda>_. Inl RuntimeError), gauge = (\<lambda>g _. g), render_all = (\<lambda>_ _. ([], [], []))\<rparr>"

definition toy_config :: slam_config where
  "toy_config = \<lparr>min_points = 0, descriptor_k = 3, temporal_window = 5, descriptor_ratio = 0, ambiguity_radius = 5,
     max_speed = 5, max_yaw_rate = 2, min_hop = 1, fallback_hop = 5, legacy_split = True, registration_prior = ''none'',
     odom_free = False\<rparr>"

definition toy_keyframe :: "string \<Rightarrow> int \<Rightarrow> (int, unit, int) keyframe" where
  "toy_keyframe rid seq = \<lparr>k_id = Kf rid seq [], k_stamp = of_int seq, k_pose = seq, k_points = [], k_descriptor = None\<rparr>"

definition toy_take :: "string \<Rightarrow> int \<Rightarrow> (int, bool, unit, int) backend \<Rightarrow> (int, bool, unit, int) backend" where
  "toy_take rid seq b = fst (the (ingest_keyframe toy_kit toy_config (toy_keyframe rid seq) b))"

lemma ingest_returns:
  assumes "\<And>idx. find_candidates kit cfg idx (with_descriptor kit kf) \<noteq> None"
  shows "ingest_keyframe kit cfg kf b \<noteq> None"
proof -
  obtain b1 e where s: "store_keyframe (bk_excluded b) (with_descriptor kit kf) b = (b1, e)"
    by (cases "store_keyframe (bk_excluded b) (with_descriptor kit kf) b")
  have "\<forall>idx. \<exists>out. find_candidates kit cfg idx (with_descriptor kit kf) = Some out" using assms by simp
  then obtain f where "\<forall>idx. find_candidates kit cfg idx (with_descriptor kit kf) = Some (f idx)"
    by (rule choice [elim_format]) blast
  then show ?thesis using s by (cases e) (auto simp: ingest_keyframe_def Let_def split: sum.split)
qed

lemma toy_ingest_returns: "ingest_keyframe toy_kit toy_config (toy_keyframe rid seq) b \<noteq> None"
proof (rule ingest_returns)
  fix idx
  have "\<exists>cs. index_query plain_kit 5 idx 0 3 (Some (Kf rid seq [])) = Some (Inr cs)"
    using query_spec [OF plain_tree, of 0 3 5 idx] by (auto simp: plain_kit_def)
  then show "find_candidates toy_kit toy_config idx (with_descriptor toy_kit (toy_keyframe rid seq)) \<noteq> None"
    by (auto simp: find_candidates_def toy_kit_def toy_config_def toy_keyframe_def with_descriptor_def)
qed

lemma toy_take_reach: "backend_reach toy_kit toy_config b \<Longrightarrow> backend_reach toy_kit toy_config (toy_take rid seq b)"
  using toy_ingest_returns [of rid seq b] by (auto simp: toy_take_def intro: backend_reach.take_in)

definition toy_pair :: "(int, bool, unit, int) backend" where
  "toy_pair = toy_take ''b'' 3 (toy_take ''a'' 0 (fresh_backend True))"

lemma toy_pair_reach: "backend_reach toy_kit toy_config toy_pair"
  unfolding toy_pair_def by (intro toy_take_reach backend_reach.start)

lemmas toy_simps = toy_take_def ingest_keyframe_def Let_def fresh_backend_def toy_keyframe_def toy_config_def with_descriptor_def
  store_keyframe_def included_def solver_add_def new_solver_def registry_key_def trajectory_index_def empty_registry_def
  max_robots_def seq_bits_def link_previous_def find_candidates_def closures_def ambiguous_match_def
  file_keyframe_def index_add_def kf_trajectory_def

lemma toy_kit_simps [simp]:
  "places toy_kit = plain_kit" "describe toy_kit ps = 0" "d_valid plain_kit 0" "verify toy_kit s t y pr = None"
  "d_nearest plain_kit ds d f = [0..<f]" "d_compare plain_kit 0 0 = (0, 0)"
  by (simp_all add: toy_kit_def plain_kit_def)

lemma widen_whole [simp]: "widen nearest ok k n n = Some (filter ok (nearest n))"
  by (subst widen.simps) (simp add: Let_def)

definition toy_nodes :: "(kf_id, (int, unit, int) keyframe) dict" where
  "toy_nodes = [(Kf ''a'' 0 [], (toy_keyframe ''a'' 0)\<lparr>k_descriptor := Some 0\<rparr>), (Kf ''b'' 3 [], (toy_keyframe ''b'' 3)\<lparr>k_descriptor := Some 0\<rparr>)]"

definition toy_keys :: key_registry where
  "toy_keys = \<lparr>kr_index = [(Traj ''a'' [], 0), (Traj ''b'' [], 1)], kr_trajectories = [Traj ''a'' [], Traj ''b'' []]\<rparr>"

lemma toy_pair_value:
  "bk_keyframes toy_pair = toy_nodes" "bk_edges toy_pair = []" "bk_excluded toy_pair = {}" "\<not> bk_stale toy_pair"
  "bk_solver toy_pair = \<lparr>sv_nodes = toy_nodes, sv_keys = toy_keys, sv_edges = []\<rparr>"
  by (simp_all add: toy_pair_def toy_simps index_query_def consider_candidate_def registration_prior_of_def candidate_of_def
      toy_nodes_def toy_keys_def cong: if_cong)

lemma toy_included: "included_keyframes toy_pair = map snd toy_nodes" "included_edges toy_pair = []"
  by (simp_all add: included_keyframes_def included_edges_def toy_pair_value included_def filter_id_conv)

lemma toy_solved:
  "\<exists>g. solve_graph toy_kit toy_config toy_pair = (toy_pair, Inr (g, 0, 0))"
proof -
  have "registry_keys (keys toy_nodes) toy_keys = Inr ([0, 2 ^ 48 OR 3], toy_keys)"
    by (simp add: toy_nodes_def toy_keys_def keys_def registry_key_def trajectory_index_def kf_trajectory_def seq_bits_def push_bit_eq_mult)
  moreover have "toy_nodes \<noteq> []" by (simp add: toy_nodes_def)
  ultimately show ?thesis
    by (simp add: solve_graph_def toy_config_def solver_optimize_def toy_pair_value missing_endpoints_def Let_def toy_included toy_kit_def)
qed

theorem solve_is_of_selection_witness:
  "\<exists>g. solve_graph toy_kit toy_config toy_pair = (toy_pair, Inr (g, 0, 0)) \<and> solve toy_kit (selected toy_pair) (included_edges toy_pair) = Inr g"
proof -
  obtain g where g: "solve_graph toy_kit toy_config toy_pair = (toy_pair, Inr (g, 0, 0))" using toy_solved by blast
  have "\<not> odom_free toy_config" "included_keyframes toy_pair \<noteq> []" by (simp_all add: toy_config_def toy_included toy_nodes_def)
  then show ?thesis using solve_is_of_selection [OF toy_pair_reach _ _ g] g by blast
qed

theorem exclude_include_restores_witness:
  "\<exists>r. snd (solve_graph toy_kit toy_config (fst (set_included (Traj ''a'' []) True
     (fst (set_included (Traj ''a'' []) False toy_pair))))) = Inr r"
proof -
  obtain g where g: "solve_graph toy_kit toy_config toy_pair = (toy_pair, Inr (g, 0, 0))" using toy_solved by blast
  have "\<not> odom_free toy_config" "included_keyframes toy_pair \<noteq> []" "is_included toy_pair (Traj ''a'' [])"
    by (simp_all add: toy_config_def toy_included toy_nodes_def is_included_def toy_pair_value)
  then show ?thesis using exclude_include_restores [OF toy_pair_reach _ _ _ g] by blast
qed

theorem deleted_robot_is_gone_witness:
  "\<exists>b'. delete_robot toy_kit ''a'' toy_pair = (b', Inr 1)
    \<and> bk_keyframes b' = of_others ''a'' (bk_keyframes toy_pair) \<and> length (bk_keyframes b') = 1
    \<and> bk_index b' = descriptors toy_kit (bk_keyframes b') \<and> bk_stale b'"
proof -
  have "\<exists>b'. delete_robot toy_kit ''a'' toy_pair = (b', Inr 1)"
    by (simp add: delete_robot_def Let_def toy_pair_value toy_nodes_def keys_def drop_robot_def descriptors_def toy_keyframe_def
        with_descriptor_def index_add_def)
  then obtain b' where d: "delete_robot toy_kit ''a'' toy_pair = (b', Inr 1)" by blast
  moreover have "length (bk_keyframes toy_pair) = 2" by (simp add: toy_pair_value toy_nodes_def)
  ultimately show ?thesis using deleted_robot_is_gone [OF toy_pair_reach d] by (auto split: if_splits)
qed

end
