(* ===== verification/Keyframe.thy ===== *)
theory Keyframe
  imports Prelude "HOL-Library.Word"
begin

unbundle bit_operations_syntax

text \<open>
  \<^verbatim>\<open>adapters/protocol/swarmdeck_protocol/keyframe.py\<close>: the upload format of keyframes. A blob is a magic
  word, a version and a header length in little-endian words, a JSON header, and a zlib stream of
  16-bit coordinates, descriptor bytes and colours. Bytes are 8-bit words. The text of JSON and the
  compression are a codec argument: what is relied on is stated per header, since a finite text
  cannot tell all reals apart. Arrays of numpy carry their shape, so a descriptor is its two
  dimensions and its bytes.
\<close>

type_synonym byte = "8 word"

subsection \<open>Errors\<close>

text \<open>\<^verbatim>\<open>ProtocolError\<close> is a kind of \<^verbatim>\<open>ValueError\<close>; callers tell it from the errors of the libraries.\<close>

datatype wire_error = Protocol_Error | Raised pyerr

definition wbind :: "(wire_error + 'a) \<Rightarrow> ('a \<Rightarrow> wire_error + 'b) \<Rightarrow> wire_error + 'b" where
  "wbind m f = (case m of Inl e \<Rightarrow> Inl e | Inr x \<Rightarrow> f x)"

lemma wbind_simps [simp]: "wbind (Inl e) f = Inl e" "wbind (Inr x) f = f x"
  by (simp_all add: wbind_def)

lemma wbind_Inr: "wbind m f = Inr y \<longleftrightarrow> (\<exists>x. m = Inr x \<and> f x = Inr y)"
  by (cases m) simp_all

definition protocol_check :: "bool \<Rightarrow> wire_error + unit" where
  "protocol_check b = (if b then Inr () else Inl Protocol_Error)"

lemma protocol_check_simps [simp]: "protocol_check True = Inr ()" "protocol_check False = Inl Protocol_Error"
    "protocol_check b = Inr u \<longleftrightarrow> b"
  by (simp_all add: protocol_check_def)

text \<open>\<^verbatim>\<open>except (...) as exc: raise ProtocolError\<close>\<close>

definition rethrown :: "pyerr set \<Rightarrow> pyerr + 'a \<Rightarrow> wire_error + 'a" where
  "rethrown es m = (case m of Inl e \<Rightarrow> Inl (if e \<in> es then Protocol_Error else Raised e) | Inr x \<Rightarrow> Inr x)"

lemma rethrown_simps [simp]:
  "rethrown es (Inr x) = Inr x" "rethrown es (Inl e) = Inl (if e \<in> es then Protocol_Error else Raised e)"
  by (simp_all add: rethrown_def)

lemma rethrown_Inr: "rethrown es m = Inr x \<longleftrightarrow> m = Inr x"
  by (cases m) simp_all

subsection \<open>Constants and words\<close>

definition KEYFRAME_MAGIC :: "byte list" where "KEYFRAME_MAGIC = [83, 68, 75, 70]"

definition KEYFRAME_WIRE_VERSION :: "16 word" where "KEYFRAME_WIRE_VERSION = 1"

definition MAX_KEYFRAME_BYTES :: nat where "MAX_KEYFRAME_BYTES = 8 * 1024 * 1024"

definition MAX_DECOMPRESSED_BYTES :: nat where "MAX_DECOMPRESSED_BYTES = 64 * 1024 * 1024"

definition MAX_SESSION_CHARS :: nat where "MAX_SESSION_CHARS = 64"

definition INT16_LIMIT :: int where "INT16_LIMIT = 32767"

definition header_struct_size :: nat where "header_struct_size = 10"

definition le16 :: "16 word \<Rightarrow> byte list" where
  "le16 w = [ucast w, ucast (drop_bit 8 w)]"

definition le32 :: "32 word \<Rightarrow> byte list" where
  "le32 w = [ucast w, ucast (drop_bit 8 w), ucast (drop_bit 16 w), ucast (drop_bit 24 w)]"

definition of_le16 :: "byte list \<Rightarrow> 16 word" where
  "of_le16 bs = ucast (bs ! 0) OR push_bit 8 (ucast (bs ! 1))"

definition of_le32 :: "byte list \<Rightarrow> 32 word" where
  "of_le32 bs = ucast (bs ! 0) OR push_bit 8 (ucast (bs ! 1)) OR push_bit 16 (ucast (bs ! 2)) OR push_bit 24 (ucast (bs ! 3))"

lemma le16_roundtrip [simp]: "of_le16 (le16 w) = w"
  by (rule bit_word_eqI) (auto simp: of_le16_def le16_def bit_simps)

lemma le32_roundtrip [simp]: "of_le32 (le32 w) = w"
proof (rule bit_word_eqI)
  fix n assume "n < LENGTH(32)"
  then show "bit (of_le32 (le32 w)) n = bit w n"
    by (cases "n < 16"; cases "n < 24") (auto simp: of_le32_def le32_def bit_simps)
qed

lemma le_length [simp]: "length (le16 w) = 2" "length (le32 v) = 4"
  by (simp_all add: le16_def le32_def)

subsection \<open>The codec\<close>

datatype unzipped = Unzipped "byte list" bool bool | Zip_Error

record codec =
  json_dumps :: "json \<Rightarrow> byte list"
  json_loads :: "byte list \<Rightarrow> pyerr + json"
  zip_bytes :: "byte list \<Rightarrow> byte list"
  unzip_bytes :: "nat \<Rightarrow> byte list \<Rightarrow> unzipped"
  text_of :: "json \<Rightarrow> string"

definition codec_survives :: "codec \<Rightarrow> json \<Rightarrow> bool" where
  "codec_survives c h \<longleftrightarrow> json_loads c (json_dumps c h) = Inr h
     \<and> (\<forall>body. length body < MAX_DECOMPRESSED_BYTES \<longrightarrow>
          unzip_bytes c MAX_DECOMPRESSED_BYTES (zip_bytes c body) = Unzipped body False True)"

subsection \<open>Data\<close>

record descriptor =
  de_kind :: string
  de_rings :: nat
  de_sectors :: nat
  de_data :: "byte list"
  de_max_range :: pyfloat

type_synonym height_band = "pyfloat \<times> pyfloat \<times> pyfloat \<times> pyfloat option"
type_synonym point3 = "pyfloat \<times> pyfloat \<times> pyfloat"
type_synonym rgba = "byte \<times> byte \<times> byte \<times> byte"

record packet =
  pk_robot :: string
  pk_seq :: int
  pk_stamp :: pyfloat
  pk_points :: "point3 list"
  pk_pose :: "pyfloat list"
  pk_descriptor :: "descriptor option"
  pk_session :: string
  pk_band :: "height_band option"
  pk_colors :: "rgba list option"

subsection \<open>Validation\<close>

definition session_char :: "char \<Rightarrow> bool" where
  "session_char c \<longleftrightarrow> c \<in> set ''abcdefghijklmnopqrstuvwxyzABCDEFGHIJKLMNOPQRSTUVWXYZ0123456789._-''"

definition validate_session :: "json \<Rightarrow> wire_error + string" where
  "validate_session j = (case j of
     JNull \<Rightarrow> Inr []
   | JStr s \<Rightarrow> (if MAX_SESSION_CHARS < length s \<or> \<not> list_all session_char s then Inl Protocol_Error else Inr s)
   | _ \<Rightarrow> Inl Protocol_Error)"

fun real_value :: "pyfloat \<Rightarrow> real" where
  "real_value (Fin r) = r"
| "real_value _ = 0"

definition pose_quat_norm :: "pyfloat list \<Rightarrow> real" where
  "pose_quat_norm pose = sqrt (sum_list (map (\<lambda>f. (real_value f)\<^sup>2) (drop 3 pose)))"

definition pose_ok :: "pyfloat list \<Rightarrow> bool" where
  "pose_ok pose \<longleftrightarrow> length pose = 7 \<and> list_all is_finite pose \<and> 9 / 10 < pose_quat_norm pose \<and> pose_quat_norm pose < 11 / 10"

text \<open>\<^verbatim>\<open>np.asarray(v, float64)\<close>: numbers, texts of numbers and null, in nested lists of one shape.\<close>

lemma emap_cong [fundef_cong]: "xs = ys \<Longrightarrow> (\<And>x. x \<in> set ys \<Longrightarrow> f x = g x) \<Longrightarrow> emap f xs = emap g ys"
  by (induction ys arbitrary: xs) auto

fun np_array :: "json \<Rightarrow> pyerr + (nat list \<times> pyfloat list)" where
  "np_array (JList xs) = ebind (emap np_array xs) (\<lambda>rs. case map fst rs of
       [] \<Rightarrow> Inr ([0], [])
     | s # ss \<Rightarrow> if list_all (\<lambda>t. t = s) ss then Inr (length xs # s, concat (map snd rs)) else Inl ValueError)"
| "np_array JNull = Inr ([], [NaN])"
| "np_array v = ebind (float_of v) (\<lambda>f. Inr ([], [f]))"

definition validate_pose :: "json \<Rightarrow> wire_error + pyfloat list" where
  "validate_pose j = wbind (rethrown {} (np_array j)) (\<lambda>(_, pose). wbind (protocol_check (pose_ok pose)) (\<lambda>_. Inr pose))"

definition band_ok :: "height_band \<Rightarrow> bool" where
  "band_ok b = (case b of (ground, low, high, lidar) \<Rightarrow>
     is_finite ground \<and> is_finite low \<and> is_finite high \<and> \<not> flt low (Fin 0) \<and> \<not> fle high low
     \<and> (case lidar of None \<Rightarrow> True | Some l \<Rightarrow> is_finite l \<and> \<not> flt l (Fin 0)))"

definition band_fields :: "json \<Rightarrow> pyerr + height_band" where
  "band_fields spec =
     ebind (ebind (jindex spec ''ground_z'') float_of) (\<lambda>ground.
     ebind (ebind (jindex spec ''min_height'') float_of) (\<lambda>low.
     ebind (ebind (jindex spec ''max_height'') float_of) (\<lambda>high.
     ebind (case jget (obj_fields spec) ''lidar_height'' JNull of JNull \<Rightarrow> Inr None | v \<Rightarrow> ebind (float_of v) (\<lambda>f. Inr (Some f))) (\<lambda>lidar.
     Inr (ground, low, high, lidar)))))"

definition field_errors :: "pyerr set" where "field_errors = {KeyError, TypeError, ValueError}"

definition validate_height_band :: "json \<Rightarrow> wire_error + height_band option" where
  "validate_height_band spec =
     (if spec = JNull then Inr None
      else if \<not> is_obj spec then Inl Protocol_Error
      else wbind (rethrown field_errors (band_fields spec)) (\<lambda>b.
           wbind (protocol_check (band_ok b)) (\<lambda>_. Inr (Some b))))"

subsection \<open>Writing\<close>

text \<open>A coordinate in steps of the scale, when it is a 16-bit number of steps. An infinite scale makes
  every coordinate zero, one that is not a number none.\<close>

fun grid_steps :: "pyfloat \<Rightarrow> pyfloat \<Rightarrow> int option" where
  "grid_steps (Fin s) (Fin x) = Some (round_even (x / s))"
| "grid_steps PInf (Fin x) = Some 0"
| "grid_steps _ _ = None"

definition in_int16 :: "int option \<Rightarrow> bool" where
  "in_int16 q = (case q of None \<Rightarrow> False | Some n \<Rightarrow> \<bar>n\<bar> \<le> INT16_LIMIT)"

definition in_range :: "pyfloat \<Rightarrow> point3 \<Rightarrow> bool" where
  "in_range sc pt = (case pt of (x, y, z) \<Rightarrow> in_int16 (grid_steps sc x) \<and> in_int16 (grid_steps sc y) \<and> in_int16 (grid_steps sc z))"

definition point_bytes :: "pyfloat \<Rightarrow> point3 \<Rightarrow> byte list" where
  "point_bytes sc pt = (case pt of (x, y, z) \<Rightarrow> concat (map (\<lambda>v. le16 (word_of_int (the (grid_steps sc v)))) [x, y, z]))"

definition rgba_bytes :: "rgba \<Rightarrow> byte list" where
  "rgba_bytes q = (case q of (r, g, b, a) \<Rightarrow> [r, g, b, a])"

definition fin_point :: "point3 \<Rightarrow> bool" where
  "fin_point pt = (case pt of (x, y, z) \<Rightarrow> is_finite x \<and> is_finite y \<and> is_finite z)"

record upload =
  up_robot :: string
  up_seq :: int
  up_stamp :: pyfloat
  up_points :: "point3 list"
  up_pose :: "pyfloat list"
  up_descriptor :: "descriptor option"
  up_scale :: pyfloat
  up_session :: json
  up_heights :: "pyfloat option \<times> pyfloat option \<times> pyfloat option \<times> pyfloat option"
  up_colors :: "rgba list option"

definition opt_float :: "pyfloat option \<Rightarrow> json" where
  "opt_float v = (case v of None \<Rightarrow> JNull | Some f \<Rightarrow> JFloat f)"

definition height_spec :: "upload \<Rightarrow> json" where
  "height_spec u = (case up_heights u of (g, lo, hi, li) \<Rightarrow>
     if g = None \<and> lo = None \<and> hi = None \<and> li = None then JNull
     else JObj [(''ground_z'', opt_float g), (''min_height'', opt_float lo), (''max_height'', opt_float hi), (''lidar_height'', opt_float li)])"

definition descriptor_header :: "descriptor option \<Rightarrow> json" where
  "descriptor_header d = (case d of None \<Rightarrow> JNull
     | Some d \<Rightarrow> JObj [(''kind'', JStr (de_kind d)), (''rings'', JInt (int (de_rings d))),
         (''sectors'', JInt (int (de_sectors d))), (''max_range'', JFloat (de_max_range d))])"

definition upload_header :: "upload \<Rightarrow> string \<Rightarrow> json" where
  "upload_header u session = JObj (
     [(''robot_id'', JStr (up_robot u)), (''seq'', JInt (up_seq u)), (''stamp'', JFloat (up_stamp u)),
      (''scale'', JFloat (up_scale u)), (''n_points'', JInt (int (length (filter (in_range (up_scale u)) (up_points u))))),
      (''frame'', JStr ''base''), (''t_odom_base'', JList (map JFloat (up_pose u))),
      (''descriptor'', descriptor_header (up_descriptor u))]
     @ (if session = [] then [] else [(''session'', JStr session)])
     @ (case height_spec u of JObj kvs \<Rightarrow> [(''height_band'', JObj (filter (\<lambda>(_, v). v \<noteq> JNull) kvs))] | _ \<Rightarrow> [])
     @ (case up_colors u of None \<Rightarrow> [] | Some _ \<Rightarrow> [(''color_encoding'', JStr ''rgba8'')]))"

definition upload_body :: "upload \<Rightarrow> byte list" where
  "upload_body u =
     concat (map (point_bytes (up_scale u)) (filter (in_range (up_scale u)) (up_points u)))
     @ (case up_descriptor u of None \<Rightarrow> [] | Some d \<Rightarrow> de_data d)
     @ (case up_colors u of None \<Rightarrow> []
        | Some cs \<Rightarrow> concat (map (rgba_bytes \<circ> snd) (filter (in_range (up_scale u) \<circ> fst) (zip (up_points u) cs))))"

definition encode_keyframe :: "codec \<Rightarrow> upload \<Rightarrow> wire_error + byte list" where
  "encode_keyframe c u =
     wbind (protocol_check (up_robot u \<noteq> [])) (\<lambda>_.
     wbind (protocol_check (\<not> fle (up_scale u) (Fin 0))) (\<lambda>_.
     wbind (protocol_check (list_all fin_point (up_points u))) (\<lambda>_.
     wbind (protocol_check (pose_ok (up_pose u))) (\<lambda>_.
     wbind (validate_session (up_session u)) (\<lambda>session.
     wbind (validate_height_band (height_spec u)) (\<lambda>_.
     wbind (protocol_check (case up_colors u of None \<Rightarrow> True | Some cs \<Rightarrow> length cs = length (up_points u))) (\<lambda>_.
       let header = json_dumps c (upload_header u session);
           blob = KEYFRAME_MAGIC @ le16 KEYFRAME_WIRE_VERSION @ le32 (of_nat (length header)) @ header @ zip_bytes c (upload_body u)
       in wbind (protocol_check (length blob \<le> MAX_KEYFRAME_BYTES)) (\<lambda>_. Inr blob))))))))"

subsection \<open>Reading\<close>

definition peek_keyframe_header :: "codec \<Rightarrow> byte list \<Rightarrow> wire_error + json" where
  "peek_keyframe_header c blob =
     wbind (protocol_check (length blob \<le> MAX_KEYFRAME_BYTES)) (\<lambda>_.
     wbind (protocol_check (header_struct_size \<le> length blob)) (\<lambda>_.
     wbind (protocol_check (take 4 blob = KEYFRAME_MAGIC)) (\<lambda>_.
     wbind (protocol_check (of_le16 (take 2 (drop 4 blob)) = KEYFRAME_WIRE_VERSION)) (\<lambda>_.
       let n = unat (of_le32 (take 4 (drop 6 blob))) in
     wbind (protocol_check (header_struct_size + n \<le> length blob)) (\<lambda>_.
     wbind (rethrown {ValueError} (json_loads c (take n (drop header_struct_size blob)))) (\<lambda>header.
     wbind (protocol_check (is_obj header)) (\<lambda>_. Inr header)))))))"

definition decompress_bounded :: "codec \<Rightarrow> byte list \<Rightarrow> wire_error + byte list" where
  "decompress_bounded c payload = (case unzip_bytes c MAX_DECOMPRESSED_BYTES payload of
     Zip_Error \<Rightarrow> Inl Protocol_Error
   | Unzipped out tail eof \<Rightarrow> if tail \<or> \<not> eof then Inl Protocol_Error else Inr out)"

fun times_scale :: "pyfloat \<Rightarrow> int \<Rightarrow> pyfloat" where
  "times_scale (Fin s) n = Fin (of_int n * s)"
| "times_scale PInf n = (if 0 < n then PInf else if n < 0 then NInf else NaN)"
| "times_scale NInf n = (if 0 < n then NInf else if n < 0 then PInf else NaN)"
| "times_scale NaN n = NaN"

definition coordinate :: "pyfloat \<Rightarrow> byte list \<Rightarrow> pyfloat" where
  "coordinate sc bs = times_scale sc (sint (of_le16 bs))"

fun points_at :: "pyfloat \<Rightarrow> nat \<Rightarrow> byte list \<Rightarrow> point3 list" where
  "points_at sc 0 bs = []"
| "points_at sc (Suc n) bs =
     (coordinate sc (take 2 bs), coordinate sc (take 2 (drop 2 bs)), coordinate sc (take 2 (drop 4 bs))) # points_at sc n (drop 6 bs)"

fun colors_at :: "nat \<Rightarrow> byte list \<Rightarrow> rgba list" where
  "colors_at 0 bs = []"
| "colors_at (Suc n) bs = (bs ! 0, bs ! 1, bs ! 2, bs ! 3) # colors_at n (drop 4 bs)"

definition descriptor_fields :: "codec \<Rightarrow> json \<Rightarrow> pyerr + string \<times> int \<times> int \<times> pyfloat" where
  "descriptor_fields c spec =
     ebind (jindex spec ''kind'') (\<lambda>kind. ebind (ebind (jindex spec ''rings'') py_int) (\<lambda>rings.
     ebind (ebind (jindex spec ''sectors'') py_int) (\<lambda>sectors. ebind (ebind (jindex spec ''max_range'') float_of) (\<lambda>mr.
     Inr (py_str (text_of c) kind, rings, sectors, mr)))))"

definition decode_descriptor :: "codec \<Rightarrow> json \<Rightarrow> byte list \<Rightarrow> nat \<Rightarrow> wire_error + descriptor option" where
  "decode_descriptor c spec body offset =
     (if spec = JNull then Inr None
      else if \<not> is_obj spec then Inl Protocol_Error
      else wbind (rethrown field_errors (descriptor_fields c spec)) (\<lambda>(kind, rings, sectors, mr).
        wbind (protocol_check (0 < rings \<and> 0 < sectors)) (\<lambda>_.
        wbind (protocol_check (int offset + rings * sectors \<le> int (length body))) (\<lambda>_.
        Inr (Some \<lparr>de_kind = kind, de_rings = nat rings, de_sectors = nat sectors,
          de_data = take (nat (rings * sectors)) (drop offset body), de_max_range = mr\<rparr>)))))"

definition decode_colors :: "json \<Rightarrow> byte list \<Rightarrow> nat \<Rightarrow> nat \<Rightarrow> wire_error + rgba list option" where
  "decode_colors enc body offset n =
     (if enc = JNull then Inr None
      else wbind (protocol_check (enc = JStr ''rgba8'')) (\<lambda>_.
           wbind (protocol_check (length body = offset + n * 4)) (\<lambda>_. Inr (Some (colors_at n (drop offset body))))))"

definition header_fields :: "codec \<Rightarrow> json \<Rightarrow> pyerr + string \<times> int \<times> pyfloat \<times> pyfloat \<times> int" where
  "header_fields c h =
     ebind (jindex h ''robot_id'') (\<lambda>rid. ebind (ebind (jindex h ''seq'') py_int) (\<lambda>seq.
     ebind (ebind (jindex h ''stamp'') float_of) (\<lambda>stamp. ebind (ebind (jindex h ''scale'') float_of) (\<lambda>sc.
     ebind (ebind (jindex h ''n_points'') py_int) (\<lambda>n. Inr (py_str (text_of c) rid, seq, stamp, sc, n))))))"

definition decode_keyframe :: "codec \<Rightarrow> byte list \<Rightarrow> wire_error + packet" where
  "decode_keyframe c blob =
     wbind (peek_keyframe_header c blob) (\<lambda>h.
     let field = (\<lambda>k. jget (obj_fields h) k JNull); end_of = header_struct_size + unat (of_le32 (take 4 (drop 6 blob))) in
     wbind (decompress_bounded c (drop end_of blob)) (\<lambda>body.
     wbind (rethrown field_errors (header_fields c h)) (\<lambda>(rid, seq, stamp, sc, n).
     wbind (validate_session (field ''session'')) (\<lambda>session.
     wbind (protocol_check (rid \<noteq> [])) (\<lambda>_.
     wbind (protocol_check (\<not> fle sc (Fin 0))) (\<lambda>_.
     wbind (protocol_check (0 \<le> n)) (\<lambda>_.
     wbind (protocol_check (n * 6 \<le> int (length body))) (\<lambda>_.
     let count = nat n; offset = count * 6 in
     wbind (decode_descriptor c (field ''descriptor'') body offset) (\<lambda>descr.
     wbind (decode_colors (field ''color_encoding'') body
         (offset + (case descr of None \<Rightarrow> 0 | Some d \<Rightarrow> length (de_data d))) count) (\<lambda>colors.
     wbind (validate_pose (field ''t_odom_base'')) (\<lambda>pose.
     wbind (validate_height_band (field ''height_band'')) (\<lambda>band.
     Inr \<lparr>pk_robot = rid, pk_seq = seq, pk_stamp = stamp, pk_points = points_at sc count body, pk_pose = pose,
       pk_descriptor = descr, pk_session = session, pk_band = band, pk_colors = colors\<rparr>))))))))))))"

end
