(* ===== verification/Keyframe_Format.thy ===== *)
theory Keyframe_Format
  imports Keyframe
begin

text \<open>
  What the upload format of keyframes promises: a keyframe that was written is read back, with its
  points on the grid of the scale and those out of its range left out; and whatever bytes arrive, a
  packet that is read has arrays of the declared sizes and a usable pose and session.
\<close>

subsection \<open>Coordinates\<close>

definition snap :: "pyfloat \<Rightarrow> pyfloat \<Rightarrow> pyfloat" where
  "snap sc v = times_scale sc (the (grid_steps sc v))"

definition snap_point :: "pyfloat \<Rightarrow> point3 \<Rightarrow> point3" where
  "snap_point sc pt = (case pt of (x, y, z) \<Rightarrow> (snap sc x, snap sc y, snap sc z))"

lemma sint16: "\<bar>n\<bar> \<le> INT16_LIMIT \<Longrightarrow> sint (word_of_int n :: 16 word) = n"
  by (simp add: INT16_LIMIT_def signed_take_bit_int_eq_self_iff signed_of_int) arith

lemma coordinate_snap: "in_int16 (grid_steps sc v) \<Longrightarrow> coordinate sc (le16 (word_of_int (the (grid_steps sc v)))) = snap sc v"
  by (auto simp: coordinate_def snap_def in_int16_def sint16 split: option.splits)

lemma take_le16 [simp]: "take 2 (le16 w @ bs) = le16 w" "drop 2 (le16 w @ bs) = bs"
  by simp_all

lemma points_at_bytes:
  "list_all (in_range sc) pts \<Longrightarrow> points_at sc (length pts) (concat (map (point_bytes sc) pts) @ rest) = map (snap_point sc) pts"
proof (induction pts)
  case (Cons pt pts)
  obtain x y z where pt: "pt = (x, y, z)" by (cases pt)
  let ?le = "\<lambda>v. le16 (word_of_int (the (grid_steps sc v)))"
  let ?tail = "concat (map (point_bytes sc) pts) @ rest"
  have bytes: "concat (map (point_bytes sc) (pt # pts)) @ rest = ?le x @ ?le y @ ?le z @ ?tail"
    by (simp add: pt point_bytes_def)
  have four: "drop 4 (?le x @ ?le y @ ?le z @ ?tail) = ?le z @ ?tail"
    and six: "drop 6 (?le x @ ?le y @ ?le z @ ?tail) = ?tail" by simp_all
  show ?case using Cons unfolding bytes
    by (simp add: four six pt snap_point_def coordinate_snap in_range_def)
qed simp

lemma length_point_bytes [simp]: "length (point_bytes sc pt) = 6"
  by (simp add: point_bytes_def split: prod.split)

lemma length_points [simp]: "length (concat (map (point_bytes sc) pts)) = length pts * 6"
  by (induction pts) simp_all

lemma colors_at_bytes: "colors_at (length cs) (concat (map rgba_bytes cs)) = cs"
  by (induction cs) (auto simp: rgba_bytes_def)

lemma length_colors [simp]: "length (concat (map rgba_bytes cs)) = length cs * 4"
  by (induction cs) (auto simp: rgba_bytes_def)

lemma snap_close:
  assumes "0 < s" and "in_int16 (grid_steps (Fin s) (Fin x))"
  shows "\<exists>y. snap (Fin s) (Fin x) = Fin y \<and> \<bar>y - x\<bar> \<le> s / 2"
proof -
  have "\<bar>of_int (round_even (x / s)) - x / s\<bar> \<le> 1 / 2" by (rule round_even_close)
  then have "\<bar>of_int (round_even (x / s)) - x / s\<bar> * s \<le> 1 / 2 * s" using assms(1) by (intro mult_right_mono) simp_all
  then have "\<bar>(of_int (round_even (x / s)) - x / s) * s\<bar> \<le> s / 2" using assms(1) by (simp add: abs_mult)
  then show ?thesis using assms(1) by (simp add: snap_def left_diff_distrib)
qed

subsection \<open>The header\<close>

lemma emap_floats: "emap np_array (map JFloat fs) = Inr (map (\<lambda>f. ([], [f])) fs)"
  by (induction fs) simp_all

lemma pose_header: "pose_ok pose \<Longrightarrow> validate_pose (JList (map JFloat pose)) = Inr pose"
  by (cases pose) (auto simp: validate_pose_def emap_floats comp_def pose_ok_def list_all_iff)

lemma validate_session_text:
  "validate_session j = Inr s \<Longrightarrow> validate_session (if s = [] then JNull else JStr s) = Inr s"
  by (cases j) (auto simp: validate_session_def split: if_splits)

lemma opt_float_field: "ebind (Inr (opt_float v)) float_of = (case v of None \<Rightarrow> Inl TypeError | Some f \<Rightarrow> Inr f)"
  by (simp add: opt_float_def split: option.split)

definition band_json :: "upload \<Rightarrow> json" where
  "band_json u = (case height_spec u of JObj kvs \<Rightarrow> JObj (filter (\<lambda>(_, v). v \<noteq> JNull) kvs) | _ \<Rightarrow> JNull)"

lemma band_header:
  assumes "validate_height_band (height_spec u) = Inr band"
  shows "validate_height_band (band_json u) = Inr band"
proof -
  obtain g lo hi li where h: "up_heights u = (g, lo, hi, li)" by (cases "up_heights u")
  show ?thesis using assms
    by (auto simp: band_json_def height_spec_def h validate_height_band_def band_fields_def opt_float_def field_errors_def jget_def
        split: if_splits option.splits)
qed

lemma header_get:
  "jget (obj_fields (upload_header u session)) ''session'' JNull = (if session = [] then JNull else JStr session)"
  "jget (obj_fields (upload_header u session)) ''descriptor'' JNull = descriptor_header (up_descriptor u)"
  "jget (obj_fields (upload_header u session)) ''t_odom_base'' JNull = JList (map JFloat (up_pose u))"
  "jget (obj_fields (upload_header u session)) ''height_band'' JNull = band_json u"
  "jget (obj_fields (upload_header u session)) ''color_encoding'' JNull = (case up_colors u of None \<Rightarrow> JNull | Some _ \<Rightarrow> JStr ''rgba8'')"
  by (simp_all add: upload_header_def jget_def band_json_def map_add_def split: option.split json.split)

lemma header_scalars:
  "header_fields c (upload_header u session) =
     Inr (up_robot u, up_seq u, up_stamp u, up_scale u, int (length (filter (in_range (up_scale u)) (up_points u))))"
  by (simp add: header_fields_def upload_header_def)

lemma header_is_obj: "is_obj (upload_header u session)"
  by (simp add: upload_header_def)

text \<open>The descriptor of an upload is an array with both dimensions positive, as a decoder demands.\<close>

definition descriptor_ok :: "descriptor option \<Rightarrow> bool" where
  "descriptor_ok d = (case d of None \<Rightarrow> True
     | Some d \<Rightarrow> 0 < de_rings d \<and> 0 < de_sectors d \<and> length (de_data d) = de_rings d * de_sectors d)"

lemma descriptor_header_decodes:
  assumes "descriptor_ok d"
  shows "decode_descriptor c (descriptor_header d) (bs @ (case d of None \<Rightarrow> [] | Some d \<Rightarrow> de_data d) @ rest) (length bs) = Inr d"
proof (cases d)
  case None
  then show ?thesis by (simp add: decode_descriptor_def descriptor_header_def)
next
  case (Some e)
  have "nat (int (de_rings e) * int (de_sectors e)) = de_rings e * de_sectors e" by (metis nat_int of_nat_mult)
  moreover have "int (length bs) + int (de_rings e) * int (de_sectors e)
      \<le> int (length bs) + (int (de_rings e) * int (de_sectors e) + int (length rest))" by simp
  ultimately show ?thesis using assms Some
    by (simp add: decode_descriptor_def descriptor_header_def descriptor_fields_def field_errors_def descriptor_ok_def)
qed

subsection \<open>Reading back what was written\<close>

definition kept_points :: "upload \<Rightarrow> point3 list" where
  "kept_points u = filter (in_range (up_scale u)) (up_points u)"

definition kept_colors :: "upload \<Rightarrow> rgba list option" where
  "kept_colors u = map_option (\<lambda>cs. map snd (filter (in_range (up_scale u) \<circ> fst) (zip (up_points u) cs))) (up_colors u)"

definition received :: "upload \<Rightarrow> string \<Rightarrow> height_band option \<Rightarrow> packet" where
  "received u session band = \<lparr>pk_robot = up_robot u, pk_seq = up_seq u, pk_stamp = up_stamp u,
     pk_points = map (snap_point (up_scale u)) (kept_points u), pk_pose = up_pose u, pk_descriptor = up_descriptor u,
     pk_session = session, pk_band = band, pk_colors = kept_colors u\<rparr>"

lemma filter_zip_length: "length cs = length ps \<Longrightarrow> length (filter (P \<circ> fst) (zip ps cs)) = length (filter P ps)"
  by (induction ps cs rule: list_induct2') simp_all

lemma body_colors:
  assumes "case up_colors u of None \<Rightarrow> True | Some cs \<Rightarrow> length cs = length (up_points u)" and "length bs = offset"
  shows "decode_colors (case up_colors u of None \<Rightarrow> JNull | Some _ \<Rightarrow> JStr ''rgba8'')
      (bs @ (case kept_colors u of None \<Rightarrow> [] | Some cs \<Rightarrow> concat (map rgba_bytes cs))) offset (length (kept_points u)) = Inr (kept_colors u)"
proof (cases "up_colors u")
  case None
  then show ?thesis by (simp add: decode_colors_def kept_colors_def)
next
  case (Some cs)
  define ds where "ds = map snd (filter (in_range (up_scale u) \<circ> fst) (zip (up_points u) cs))"
  have "length ds = length (kept_points u)" using assms(1) Some by (simp add: ds_def kept_points_def filter_zip_length)
  moreover have "kept_colors u = Some ds" by (simp add: kept_colors_def Some ds_def)
  ultimately show ?thesis using assms(2) colors_at_bytes [of ds] Some by (simp add: decode_colors_def)
qed

lemma body_parts: "upload_body u = concat (map (point_bytes (up_scale u)) (kept_points u))
    @ (case up_descriptor u of None \<Rightarrow> [] | Some d \<Rightarrow> de_data d)
    @ (case kept_colors u of None \<Rightarrow> [] | Some cs \<Rightarrow> concat (map rgba_bytes cs))"
  by (simp add: upload_body_def kept_points_def kept_colors_def split: option.split)

text \<open>C5: A keyframe that could be written is read back as it was, given that the JSON of its header survives,
  that its body is below the decoder's limit and that its descriptor is not empty: the same identity,
  pose, descriptor, session and heights, the points in the range of the format, each on the grid of
  the scale, with their colours. Points out of range are left out, never moved to the edge.\<close>

theorem keyframe_roundtrip:
  assumes "encode_keyframe c u = Inr blob" and "validate_session (up_session u) = Inr session"
    and "codec_survives c (upload_header u session)" and "length (upload_body u) < MAX_DECOMPRESSED_BYTES"
    and "descriptor_ok (up_descriptor u)"
  shows "\<exists>band. validate_height_band (height_spec u) = Inr band \<and> decode_keyframe c blob = Inr (received u session band)"
proof -
  let ?h = "upload_header u session"
  let ?text = "json_dumps c ?h"
  obtain band where band: "validate_height_band (height_spec u) = Inr band" and robot: "up_robot u \<noteq> []"
    and sc: "\<not> fle (up_scale u) (Fin 0)" and pose: "pose_ok (up_pose u)"
    and colors: "case up_colors u of None \<Rightarrow> True | Some cs \<Rightarrow> length cs = length (up_points u)"
    and blob: "blob = KEYFRAME_MAGIC @ le16 KEYFRAME_WIRE_VERSION @ le32 (of_nat (length ?text)) @ ?text @ zip_bytes c (upload_body u)"
    and small: "length blob \<le> MAX_KEYFRAME_BYTES"
    using assms(1,2) by (auto simp: encode_keyframe_def wbind_Inr Let_def)
  have n: "unat (of_nat (length ?text) :: 32 word) = length ?text"
    using small by (simp add: blob MAX_KEYFRAME_BYTES_def unsigned_of_nat take_bit_nat_eq_self)
  have cut: "take 4 blob = KEYFRAME_MAGIC" "of_le16 (take 2 (drop 4 blob)) = KEYFRAME_WIRE_VERSION"
    "of_le32 (take 4 (drop 6 blob)) = of_nat (length ?text)" "drop header_struct_size blob = ?text @ zip_bytes c (upload_body u)"
    "header_struct_size + length ?text \<le> length blob"
    by (simp_all add: blob KEYFRAME_MAGIC_def header_struct_size_def)
  have peek: "peek_keyframe_header c blob = Inr ?h"
    using small assms(3) cut n header_is_obj [of u session] by (simp add: peek_keyframe_header_def codec_survives_def Let_def)
  have "drop (header_struct_size + length ?text) blob = drop (length ?text) (drop header_struct_size blob)"
    by (simp only: drop_drop add.commute)
  then have "drop (header_struct_size + length ?text) blob = zip_bytes c (upload_body u)" by (simp add: cut(4))
  then have body: "decompress_bounded c (drop (header_struct_size + unat (of_le32 (take 4 (drop 6 blob)))) blob) = Inr (upload_body u)"
    using assms(3,4) by (simp add: decompress_bounded_def codec_survives_def cut(3) n)
  let ?pts = "concat (map (point_bytes (up_scale u)) (kept_points u))"
  have points: "points_at (up_scale u) (length (kept_points u)) (upload_body u) = map (snap_point (up_scale u)) (kept_points u)"
    unfolding body_parts by (rule points_at_bytes) (simp add: kept_points_def list_all_iff)
  have descr: "decode_descriptor c (descriptor_header (up_descriptor u)) (upload_body u) (length (kept_points u) * 6) = Inr (up_descriptor u)"
    unfolding body_parts using descriptor_header_decodes [OF assms(5), of c ?pts] by simp
  have cols: "decode_colors (case up_colors u of None \<Rightarrow> JNull | Some _ \<Rightarrow> JStr ''rgba8'') (upload_body u)
      (length (kept_points u) * 6 + (case up_descriptor u of None \<Rightarrow> 0 | Some d \<Rightarrow> length (de_data d))) (length (kept_points u)) = Inr (kept_colors u)"
    unfolding body_parts append_assoc [symmetric] by (rule body_colors [OF colors]) (simp split: option.split)
  have long: "int (length (kept_points u)) * 6 \<le> int (length (upload_body u))" by (simp add: body_parts)
  have "decode_keyframe c blob = Inr (received u session band)"
    using robot sc points descr cols long peek body
    by (simp add: decode_keyframe_def Let_def header_scalars header_get validate_session_text [OF assms(2)]
        pose_header [OF pose] band_header [OF band] received_def kept_points_def [symmetric])
  then show ?thesis using band by blast
qed

subsection \<open>Reading what anybody wrote\<close>

definition packet_ok :: "packet \<Rightarrow> bool" where
  "packet_ok p \<longleftrightarrow> pk_robot p \<noteq> [] \<and> length (pk_session p) \<le> MAX_SESSION_CHARS \<and> list_all session_char (pk_session p)
     \<and> pose_ok (pk_pose p) \<and> descriptor_ok (pk_descriptor p)
     \<and> (case pk_colors p of None \<Rightarrow> True | Some cs \<Rightarrow> length cs = length (pk_points p))
     \<and> (case pk_band p of None \<Rightarrow> True | Some b \<Rightarrow> band_ok b)"

lemma length_points_at [simp]: "length (points_at sc n bs) = n"
  by (induction sc n bs rule: points_at.induct) simp_all

lemma length_colors_at [simp]: "length (colors_at n bs) = n"
  by (induction n bs rule: colors_at.induct) simp_all

lemma validate_session_ok: "validate_session j = Inr s \<Longrightarrow> length s \<le> MAX_SESSION_CHARS \<and> list_all session_char s"
  by (cases j) (auto simp: validate_session_def split: if_splits)

lemma validate_pose_ok: "validate_pose j = Inr pose \<Longrightarrow> pose_ok pose"
  by (auto simp: validate_pose_def wbind_Inr split: prod.splits)

lemma validate_band_ok: "validate_height_band j = Inr (Some b) \<Longrightarrow> band_ok b"
  by (auto simp: validate_height_band_def wbind_Inr split: if_splits)

lemma decode_descriptor_ok:
  assumes "decode_descriptor c spec body offset = Inr d"
  shows "descriptor_ok d"
proof (cases "spec = JNull")
  case True
  then show ?thesis using assms by (simp add: decode_descriptor_def descriptor_ok_def)
next
  case False
  then obtain kind rings sectors mr where f: "0 < rings" "0 < sectors" "int offset + rings * sectors \<le> int (length body)"
    and d: "d = Some \<lparr>de_kind = kind, de_rings = nat rings, de_sectors = nat sectors,
          de_data = take (nat (rings * sectors)) (drop offset body), de_max_range = mr\<rparr>"
    using assms by (auto simp: decode_descriptor_def wbind_Inr split: if_splits prod.splits)
  have "nat (rings * sectors) \<le> length body - offset" using f(3) by linarith
  moreover have "nat (rings * sectors) = nat rings * nat sectors" using f(1) by (simp add: nat_mult_distrib)
  ultimately show ?thesis using f(1,2) by (simp add: descriptor_ok_def d)
qed

lemma decode_colors_ok: "decode_colors enc body offset n = Inr (Some cs) \<Longrightarrow> length cs = n"
  by (auto simp: decode_colors_def wbind_Inr split: if_splits)

text \<open>C26: Whatever bytes arrive and whatever the libraries answer, a packet that is read names a robot, has a
  session of allowed characters, a finite pose with a quaternion of about unit length, a descriptor
  of exactly its two positive dimensions, one colour per point if any, and a sensible height band.\<close>

theorem decoded_packet_ok:
  assumes "decode_keyframe c blob = Inr p"
  shows "packet_ok p"
proof -
  obtain h body rid seq stamp sc n session descr colors pose band where
    "validate_session (jget (obj_fields h) ''session'' JNull) = Inr session" "rid \<noteq> []"
    "decode_descriptor c (jget (obj_fields h) ''descriptor'' JNull) body (nat n * 6) = Inr descr"
    "decode_colors (jget (obj_fields h) ''color_encoding'' JNull) body
       (nat n * 6 + (case descr of None \<Rightarrow> 0 | Some d \<Rightarrow> length (de_data d))) (nat n) = Inr colors"
    "validate_pose (jget (obj_fields h) ''t_odom_base'' JNull) = Inr pose"
    "validate_height_band (jget (obj_fields h) ''height_band'' JNull) = Inr band"
    and p: "p = \<lparr>pk_robot = rid, pk_seq = seq, pk_stamp = stamp, pk_points = points_at sc (nat n) body, pk_pose = pose,
       pk_descriptor = descr, pk_session = session, pk_band = band, pk_colors = colors\<rparr>"
    using assms by (auto simp: decode_keyframe_def wbind_Inr Let_def split: prod.splits)
  then show ?thesis
    using validate_session_ok validate_pose_ok validate_band_ok decode_descriptor_ok decode_colors_ok
    by (auto simp: packet_ok_def split: option.split)
qed

lemma decode_overflow:
  assumes "peek_keyframe_header c blob = Inr h"
    and "decompress_bounded c (drop (header_struct_size + unat (of_le32 (take 4 (drop 6 blob)))) blob) = Inr body"
    and "jindex h ''robot_id'' = Inr rid" and "jindex h ''seq'' = Inr (JFloat PInf)"
  shows "decode_keyframe c blob = Inl (Raised OverflowError)"
  using assms by (simp add: decode_keyframe_def header_fields_def field_errors_def Let_def)

text \<open>Not every malformed upload is reported as one: a number that is too large for Python's conversion, as
  \<open>1e999\<close> in the place of the sequence number, is an \<^verbatim>\<open>OverflowError\<close>, which is no \<^verbatim>\<open>ProtocolError\<close> and
  no \<^verbatim>\<open>ValueError\<close> either, although the reader promises the former for anything malformed.\<close>

lemma overflow_is_not_reported:
  assumes "peek_keyframe_header c blob = Inr h"
    and "decompress_bounded c (drop (header_struct_size + unat (of_le32 (take 4 (drop 6 blob)))) blob) = Inr body"
    and "jindex h ''robot_id'' = Inr rid" and "jindex h ''seq'' = Inr (JFloat PInf)"
  shows "decode_keyframe c blob = Inl (Raised OverflowError)"
  by (rule decode_overflow [OF assms])

subsection \<open>Examples\<close>

text \<open>A codec that knows one header and does not compress.\<close>

definition one_header :: "json \<Rightarrow> codec" where
  "one_header h = \<lparr>json_dumps = (\<lambda>_. []), json_loads = (\<lambda>_. Inr h), zip_bytes = (\<lambda>b. b),
     unzip_bytes = (\<lambda>_ b. Unzipped b False True), text_of = (\<lambda>_. [])\<rparr>"

definition small_upload :: upload where
  "small_upload = \<lparr>up_robot = ''aslan'', up_seq = 7, up_stamp = Fin 12,
     up_points = [(Fin 1, Fin (-2), Fin (1 / 4)), (Fin 99999, Fin 0, Fin 0)],
     up_pose = [Fin 0, Fin 0, Fin 0, Fin 0, Fin 0, Fin 0, Fin 1],
     up_descriptor = Some \<lparr>de_kind = ''sc'', de_rings = 1, de_sectors = 2, de_data = [3, 4], de_max_range = Fin 80\<rparr>,
     up_scale = Fin (1 / 4), up_session = JStr ''b-1'', up_heights = (None, None, None, None), up_colors = Some [(1, 2, 3, 255), (4, 5, 6, 0)]\<rparr>"

definition small_blob :: "byte list" where
  "small_blob = KEYFRAME_MAGIC @ le16 KEYFRAME_WIRE_VERSION @ le32 0 @ upload_body small_upload"

lemma small_kept: "kept_points small_upload = [(Fin 1, Fin (-2), Fin (1 / 4))]"
  by (simp add: kept_points_def small_upload_def in_range_def in_int16_def INT16_LIMIT_def
      round_even_of_int [of 4, simplified] round_even_of_int [of "-8", simplified] round_even_of_int [of 1, simplified]
      round_even_of_int [of 399996, simplified])

lemma small_session: "validate_session (up_session small_upload) = Inr ''b-1''"
  by (simp add: small_upload_def validate_session_def MAX_SESSION_CHARS_def session_char_def)

lemma small_length: "length (upload_body small_upload) < 100"
  by (simp add: body_parts small_kept) (simp add: kept_colors_def small_upload_def in_range_def in_int16_def INT16_LIMIT_def rgba_bytes_def
      round_even_of_int [of 4, simplified] round_even_of_int [of "-8", simplified] round_even_of_int [of 1, simplified]
      round_even_of_int [of 399996, simplified])

lemma small_encodes: "encode_keyframe (one_header (upload_header small_upload ''b-1'')) small_upload = Inr small_blob"
proof -
  have "pose_ok (up_pose small_upload)" by (simp add: small_upload_def pose_ok_def pose_quat_norm_def)
  moreover have "height_spec small_upload = JNull" by (simp add: small_upload_def height_spec_def)
  moreover have "list_all fin_point (up_points small_upload)" by (simp add: small_upload_def fin_point_def)
  moreover have "length small_blob \<le> MAX_KEYFRAME_BYTES"
    using small_length by (simp add: small_blob_def KEYFRAME_MAGIC_def MAX_KEYFRAME_BYTES_def)
  moreover have "up_robot small_upload \<noteq> []" "\<not> fle (up_scale small_upload) (Fin 0)"
    "case up_colors small_upload of None \<Rightarrow> True | Some cs \<Rightarrow> length cs = length (up_points small_upload)"
    by (simp_all add: small_upload_def)
  ultimately show ?thesis
    unfolding encode_keyframe_def by (simp add: small_session validate_height_band_def one_header_def small_blob_def)
qed

theorem keyframe_roundtrip_witness:
  "\<exists>band. validate_height_band (height_spec small_upload) = Inr band
    \<and> decode_keyframe (one_header (upload_header small_upload ''b-1'')) small_blob = Inr (received small_upload ''b-1'' band)"
  using small_length
  by (intro keyframe_roundtrip [OF small_encodes small_session])
    (simp_all add: one_header_def codec_survives_def MAX_DECOMPRESSED_BYTES_def small_upload_def descriptor_ok_def)

text \<open>A plain header without points.\<close>

definition plain_header :: "json \<Rightarrow> json" where
  "plain_header seq = JObj [(''robot_id'', JStr ''aslan''), (''seq'', seq), (''stamp'', JFloat (Fin 1)), (''scale'', JFloat (Fin 1)),
     (''n_points'', JInt 0), (''t_odom_base'', JList [JInt 0, JInt 0, JInt 0, JInt 0, JInt 0, JInt 0, JInt 1])]"

definition plain_blob :: "byte list" where
  "plain_blob = KEYFRAME_MAGIC @ le16 KEYFRAME_WIRE_VERSION @ le32 0"

lemma plain_peek: "peek_keyframe_header (one_header (plain_header v)) plain_blob = Inr (plain_header v)"
  by (simp add: peek_keyframe_header_def plain_blob_def KEYFRAME_MAGIC_def MAX_KEYFRAME_BYTES_def header_struct_size_def
      one_header_def plain_header_def Let_def)

lemma plain_body: "decompress_bounded (one_header h) bs = Inr bs"
  by (simp add: decompress_bounded_def one_header_def)

lemma plain_length: "drop (header_struct_size + unat (of_le32 (take 4 (drop 6 plain_blob)))) plain_blob = []"
  by (simp add: plain_blob_def header_struct_size_def KEYFRAME_MAGIC_def)

lemma plain_decodes:
  "decode_keyframe (one_header (plain_header (JInt n))) plain_blob = Inr \<lparr>pk_robot = ''aslan'', pk_seq = n, pk_stamp = Fin 1, pk_points = [],
     pk_pose = [Fin 0, Fin 0, Fin 0, Fin 0, Fin 0, Fin 0, Fin 1], pk_descriptor = None, pk_session = [], pk_band = None, pk_colors = None\<rparr>"
  unfolding decode_keyframe_def plain_peek wbind_simps Let_def plain_length plain_body
  by (simp add: plain_header_def header_fields_def field_errors_def jget_def validate_session_def decode_descriptor_def decode_colors_def
      validate_pose_def pose_ok_def pose_quat_norm_def validate_height_band_def float_overflow_def)

theorem decoded_packet_ok_witness:
  "packet_ok \<lparr>pk_robot = ''aslan'', pk_seq = 7, pk_stamp = Fin 1, pk_points = [],
     pk_pose = [Fin 0, Fin 0, Fin 0, Fin 0, Fin 0, Fin 0, Fin 1], pk_descriptor = None, pk_session = [], pk_band = None, pk_colors = None\<rparr>"
  by (rule decoded_packet_ok [OF plain_decodes])

lemma overflow_is_not_reported_witness:
  "decode_keyframe (one_header (plain_header (JFloat PInf))) plain_blob = Inl (Raised OverflowError)"
  by (rule overflow_is_not_reported [OF plain_peek plain_body]) (simp_all add: plain_header_def)

end
