(* ===== verification/Slam_Snapshot.thy ===== *)
theory Slam_Snapshot
  imports Slam_Backend Map_Service
begin

text \<open>
  The end of \<^verbatim>\<open>slam/swarmdeck_slam/backend.py\<close>: which grid is the merged map, the scopes under which grids
  are published, and the JSON of a snapshot as the server takes it in (\<open>Map_Service\<close>). The planar part
  of a pose is an argument. Robots of a component or a grid are lists without repetition.
\<close>

definition majority_component :: "'m slam_snapshot \<Rightarrow> rendered option" where
  "majority_component sn = (case filter (\<lambda>g. 2 \<le> length (rg_robots g)) (map snd (sn_grids sn)) of
     [] \<Rightarrow> None | g # gs \<Rightarrow> Some (first_max (\<lambda>g. (length (rg_robots g), rg_width g * rg_height g)) g gs))"

definition scoped_grids :: "'m slam_snapshot \<Rightarrow> (string \<times> rendered) list" where
  "scoped_grids sn =
     map (\<lambda>(rid, g). (''robot:'' @ rid, g)) (sort_key fst (sn_robot_grids sn))
     @ map (\<lambda>(t, g). (''trajectory:'' @ trajectory_str t, g)) (sort_key fst (sn_trajectory_grids sn))
     @ concat (map (\<lambda>c. case dget (sn_grids sn) (c_id c) of None \<Rightarrow> []
         | Some g \<Rightarrow> [(''component:'' @ dec (c_id c), g)]) (og_components (sn_optimized sn)))"

definition outrank :: "real \<times> trajectory \<Rightarrow> (string, real \<times> trajectory) dict \<Rightarrow> (string, real \<times> trajectory) dict" where
  "outrank r best = (let rid = robot_of (snd r) in
     case dget best rid of None \<Rightarrow> dput rid r best | Some old \<Rightarrow> if old < r then dput rid r best else best)"

definition newest_trajectories :: "'m slam_snapshot \<Rightarrow> (trajectory \<times> real) list" where
  "newest_trajectories sn =
     (let best = fold (\<lambda>t. outrank (snd (ts_stamps t), ts_trajectory t)) (filter ts_included (sn_trajectories sn)) [];
          guessed = fold (\<lambda>t. outrank (0, t)) (remdups (map (kf_trajectory \<circ> fst) (og_poses (sn_optimized sn)))) [] in
      map (\<lambda>(_, stamp, t). (t, stamp)) (if best \<noteq> [] then best else guessed))"

definition newest_trajectory_of :: "'m slam_snapshot \<Rightarrow> string \<Rightarrow> trajectory option" where
  "newest_trajectory_of sn rid = (case filter (\<lambda>(t, _). robot_of t = rid) (newest_trajectories sn) of [] \<Rightarrow> None | (t, _) # _ \<Rightarrow> Some t)"

definition current_component :: "'m slam_snapshot \<Rightarrow> (string, nat) dict" where
  "current_component sn = fold (\<lambda>(t, _) d. case component_of_trajectory (sn_optimized sn) t of None \<Rightarrow> d
     | Some c \<Rightarrow> dput (robot_of t) (c_id c) d) (newest_trajectories sn) []"

definition majority_robots :: "'m slam_snapshot \<Rightarrow> string list" where
  "majority_robots sn = (case majority_component sn of None \<Rightarrow> [] | Some g \<Rightarrow> rg_robots g)"

definition component_name :: "nat \<Rightarrow> string" where
  "component_name n = ''component-'' @ dec n"

definition latest_pose :: "'m slam_snapshot \<Rightarrow> string \<Rightarrow> 'm option" where
  "latest_pose sn rid =
     (case filter (\<lambda>(k, _). Some (kf_trajectory k) = newest_trajectory_of sn rid) (og_poses (sn_optimized sn)) of
        [] \<Rightarrow> None | p # ps \<Rightarrow> Some (snd (first_max (kf_seq \<circ> fst) p ps)))"

definition planar :: "real \<times> real \<times> real \<Rightarrow> (string \<times> json) list" where
  "planar p = (case p of (x, y, yaw) \<Rightarrow> [(''x'', JFloat (Fin x)), (''y'', JFloat (Fin y)), (''yaw'', JFloat (Fin yaw))])"

text \<open>The robots of the solved graph, each once, with the component that holds its current trajectory and its
  frame, in the order in which they are reported.\<close>

definition reported_robots :: "'m slam_snapshot \<Rightarrow> (string \<times> component \<times> 'm) list" where
  "reported_robots sn = concat (map (\<lambda>c. concat (map (\<lambda>rid.
     if (case dget (current_component sn) rid of None \<Rightarrow> c_id c | Some n \<Rightarrow> n) \<noteq> c_id c then []
     else case dget (og_robot_frames (sn_optimized sn)) rid of None \<Rightarrow> [] | Some m \<Rightarrow> [(rid, c, m)])
     (sort (c_robots c)))) (og_components (sn_optimized sn)))"

definition origin_json :: "('m \<Rightarrow> real \<times> real \<times> real) \<Rightarrow> 'm slam_snapshot \<Rightarrow> string \<times> component \<times> 'm \<Rightarrow> json" where
  "origin_json se2 sn r = (case r of (rid, c, m) \<Rightarrow> JObj (planar (se2 m) @
     [(''frame'', JStr (if rid \<in> set (majority_robots sn)
        then (case majority_component sn of None \<Rightarrow> [] | Some g \<Rightarrow> component_name (rg_component g)) else component_name (c_id c)))]))"

definition graph_json :: "'m slam_snapshot \<Rightarrow> string \<times> component \<times> 'm \<Rightarrow> json" where
  "graph_json sn r = (case r of (rid, c, m) \<Rightarrow> JObj
     [(''keyframes'', JInt (int (case dget (sn_counts sn) rid of None \<Rightarrow> 0 | Some n \<Rightarrow> n))),
      (''in_common_frame'', JBool (rid \<in> set (majority_robots sn))),
      (''inter_robot'', JList (map (\<lambda>other. JObj [(''other'', JStr other), (''count'', JInt 1)]) (sort (filter (\<lambda>peer. peer \<noteq> rid) (c_robots c))))),
      (''residual'', JFloat (Fin (og_error (sn_optimized sn))))])"

definition summary_json :: "trajectory_summary \<Rightarrow> json" where
  "summary_json t = JObj [(''id'', JStr (trajectory_str (ts_trajectory t))), (''robot_id'', JStr (robot_of (ts_trajectory t))),
     (''session'', JStr (session_of (ts_trajectory t))), (''keyframes'', JInt (int (ts_keyframes t))),
     (''first_seq'', JInt (fst (ts_seqs t))), (''last_seq'', JInt (snd (ts_seqs t))),
     (''first_stamp'', JFloat (Fin (fst (ts_stamps t)))), (''last_stamp'', JFloat (Fin (snd (ts_stamps t)))),
     (''component'', (case ts_component t of None \<Rightarrow> JNull | Some n \<Rightarrow> JInt (int n))), (''included'', JBool (ts_included t))]"

definition kf_str :: "kf_id \<Rightarrow> string" where
  "kf_str k = trajectory_str (kf_trajectory k) @ ''#'' @ dec_int (kf_seq k)"

definition component_json :: "component \<Rightarrow> json" where
  "component_json c = JObj [(''id'', JInt (int (c_id c))), (''robots'', JList (map JStr (sort (c_robots c)))),
     (''trajectories'', JList (map JStr (sort (map trajectory_str (c_trajectories c))))), (''anchor'', JStr (kf_str (c_anchor c)))]"

text \<open>A robot reported a second time replaces its entry.\<close>

definition by_robot :: "(string \<times> component \<times> 'm \<Rightarrow> json option) \<Rightarrow> 'm slam_snapshot \<Rightarrow> (string, json) dict" where
  "by_robot f sn = fold (\<lambda>r d. case f r of None \<Rightarrow> d | Some j \<Rightarrow> dput (fst r) j d) (reported_robots sn) []"

definition snapshot_update :: "('m \<Rightarrow> real \<times> real \<times> real) \<Rightarrow> 'm slam_snapshot \<Rightarrow> (string \<times> json) list" where
  "snapshot_update se2 sn =
     [(''components'', JList (map component_json (og_components (sn_optimized sn)))),
      (''trajectories'', JList (map summary_json (sn_trajectories sn))),
      (''scopes'', JList (map (JStr \<circ> fst) (scoped_grids sn))),
      (''origins'', JObj (by_robot (Some \<circ> origin_json se2 sn) sn)),
      (''common_poses'', JObj (by_robot (\<lambda>r. map_option (JObj \<circ> planar \<circ> se2) (latest_pose sn (fst r))) sn)),
      (''graphs'', JObj (by_robot (Some \<circ> graph_json sn) sn)),
      (''accepted_closures'', JInt (int (sn_accepted sn))), (''inter_robot_closures'', JInt (int (sn_inter sn))),
      (''stamp'', JFloat (Fin (sn_stamp sn)))]"

end
