(* ===== verification/Slam_Handover.thy ===== *)
theory Slam_Handover
  imports Slam_Snapshot
begin

text \<open>
  The back end and the map service together: what the server knows of the common frame after it has
  taken in a snapshot. Robots of the snapshot are in the common frame exactly when they are in the
  merged grid; a robot the snapshot does not mention keeps what was said of it before.
\<close>

subsection \<open>The entries of a snapshot\<close>

definition mentions :: "'m slam_snapshot \<Rightarrow> string \<Rightarrow> bool" where
  "mentions sn rid \<longleftrightarrow> rid \<in> fst ` set (reported_robots sn)"

lemma by_robot_fold:
  "dget (fold (\<lambda>r d. case f r of None \<Rightarrow> d | Some j \<Rightarrow> dput (fst r) j d) rs d) rid = None \<longleftrightarrow>
     dget d rid = None \<and> list_all (\<lambda>r. fst r \<noteq> rid \<or> f r = None) rs"
  by (induction rs arbitrary: d) (auto simp: dict_simps split: option.split)

lemma by_robot_mentioned: "r \<in> set (reported_robots sn) \<Longrightarrow> f r \<noteq> None \<Longrightarrow> dget (by_robot f sn) (fst r) \<noteq> None"
  unfolding by_robot_def by_robot_fold by (auto simp: list_all_iff)

lemma by_robot_none: "\<not> mentions sn rid \<Longrightarrow> dget (by_robot f sn) rid = None"
  by (auto simp: by_robot_def by_robot_fold mentions_def list_all_iff)

lemma by_robot_fold_some:
  "dget (fold (\<lambda>r d. case f r of None \<Rightarrow> d | Some j \<Rightarrow> dput (fst r) j d) rs d) rid = Some j \<Longrightarrow>
     dget d rid = Some j \<or> (\<exists>r \<in> set rs. fst r = rid \<and> f r = Some j)"
  by (induction rs arbitrary: d) (fastforce simp: dict_simps split: option.splits if_splits)+

lemma by_robot_some: "dget (by_robot f sn) rid = Some j \<Longrightarrow> \<exists>r \<in> set (reported_robots sn). fst r = rid \<and> f r = Some j"
  using by_robot_fold_some [of f "reported_robots sn" "[]" rid j] by (simp add: by_robot_def)

lemma by_robot_wf: "wf_dict (by_robot f sn)"
proof -
  have "wf_dict d \<Longrightarrow> wf_dict (fold (\<lambda>r d. case f r of None \<Rightarrow> d | Some j \<Rightarrow> dput (fst r) j d) rs d)" for rs d
    by (induction rs arbitrary: d) (auto split: option.split)
  then show ?thesis by (simp add: by_robot_def)
qed

lemma update_fields:
  "obj_fields (or_empty_obj (jget (snapshot_update se2 sn) ''graphs'' JNull)) = by_robot (Some \<circ> graph_json sn) sn"
  "obj_fields (or_empty_obj (jget (snapshot_update se2 sn) ''origins'' JNull)) = by_robot (Some \<circ> origin_json se2 sn) sn"
  "obj_fields (or_empty_obj (jget (snapshot_update se2 sn) ''common_poses'' JNull)) =
     by_robot (\<lambda>r. map_option (JObj \<circ> planar \<circ> se2) (latest_pose sn (fst r))) sn"
  "is_obj (or_empty_obj (jget (snapshot_update se2 sn) ''graphs'' JNull))"
  "is_obj (or_empty_obj (jget (snapshot_update se2 sn) ''origins'' JNull))"
  "is_obj (or_empty_obj (jget (snapshot_update se2 sn) ''common_poses'' JNull))"
  by (simp_all add: snapshot_update_def jget_def or_empty_obj_def)

subsection \<open>Taking it in\<close>

definition graph_steps :: "(string, json) dict \<Rightarrow> map_service update list" where
  "graph_steps d = map (\<lambda>(rid, g) s. (if is_obj g then set_slam_graph rid g s else s, None)) d"

definition pose_steps :: "(string, json) dict \<Rightarrow> map_service update list" where
  "pose_steps d = map (\<lambda>(rid, p). if is_obj p then set_common_pose rid p else (\<lambda>s. (s, None))) d"

lemma apply_update:
  "apply_slam_update rep (snapshot_update se2 sn) s = seq_steps
     (graph_steps (by_robot (Some \<circ> graph_json sn) sn) @ map (origin_step rep) (by_robot (Some \<circ> origin_json se2 sn) sn)
      @ pose_steps (by_robot (\<lambda>r. map_option (JObj \<circ> planar \<circ> se2) (latest_pose sn (fst r))) sn) @ [\<lambda>s. (remerge s, None)]) s"
  by (simp add: apply_slam_update_def update_fields Let_def graph_steps_def pose_steps_def)

lemma remerge_fields [simp]:
  "slam_graphs (remerge s) = slam_graphs s" "cslam_frames (remerge s) = cslam_frames s"
  "transforms (remerge s) = transforms s" "common_poses (remerge s) = common_poses s"
  by (simp_all add: remerge_def publish_map_def)

lemma origin_fields [simp]:
  "slam_graphs (set_cslam_origin rid t frame m s) = slam_graphs s"
  "cslam_frames (set_cslam_origin rid t frame m s) = dput rid frame (cslam_frames s)"
  "common_poses (set_cslam_origin rid t frame m s) = common_poses s"
  "r \<noteq> rid \<Longrightarrow> dget (transforms (set_cslam_origin rid t frame m s)) r = dget (transforms s) r"
  by (simp_all add: set_cslam_origin_def Let_def dict_simps)

text \<open>What the server holds of a robot in the common frame: its graph entry, its frame, its transform and its pose.\<close>

definition entries :: "map_service \<Rightarrow> string \<Rightarrow> json option \<times> string option \<times> transform option \<times> transform option" where
  "entries s rid = (dget (slam_graphs s) rid, dget (cslam_frames s) rid, dget (transforms s) rid, dget (common_poses s) rid)"

lemma keeps_other_graphs: "rid \<notin> fst ` set d \<Longrightarrow> list_all (keeps (\<lambda>s. entries s rid = x)) (graph_steps d)"
  by (auto simp: graph_steps_def list_all_iff keeps_def entries_def set_slam_graph_def dict_simps image_iff)

lemma keeps_other_origins: "rid \<notin> fst ` set d \<Longrightarrow> list_all (keeps (\<lambda>s. entries s rid = x)) (map (origin_step rep) d)"
  by (auto simp: origin_step_def list_all_iff keeps_def entries_def assign_def dict_simps image_iff Let_def split: sum.split)

lemma keeps_poses: "rid \<notin> fst ` set d \<Longrightarrow> list_all (keeps (\<lambda>s. entries s rid = x)) (pose_steps d)"
  by (auto simp: pose_steps_def list_all_iff keeps_def entries_def set_common_pose_def assign_def dict_simps image_iff split: sum.split)

lemma handover_remerge: "keeps (\<lambda>s. entries s rid = x) (\<lambda>s. (remerge s, None))"
  by (simp add: keeps_def entries_def)

text \<open>C29: A snapshot says nothing of a robot that has left the graph, because its trajectories were excluded or
  were never placed; the server keeps all it held of the robot, the graph entry, the frame, the transform and the common
  pose, so a robot it had in the common frame it still has there, where it was before.\<close>

theorem absent_robot_keeps_frame:
  assumes "\<not> mentions sn rid"
  shows "entries (fst (apply_slam_update rep (snapshot_update se2 sn) s)) rid = entries s rid
    \<and> graph_flag (fst (apply_slam_update rep (snapshot_update se2 sn) s)) rid = graph_flag s rid"
proof -
  have none: "rid \<notin> fst ` set (by_robot f sn)" for f using by_robot_none [OF assms] by (simp add: map_of_eq_None_iff)
  let ?P = "\<lambda>t. entries t rid = entries s rid"
  have "keeps ?P (\<lambda>s. apply_slam_update rep (snapshot_update se2 sn) s)"
    unfolding apply_update by (intro keeps_seq) (simp add: keeps_other_graphs keeps_other_origins keeps_poses handover_remerge none)
  then have "?P (fst (apply_slam_update rep (snapshot_update se2 sn) s))" by (rule keepsD) simp
  then show ?thesis by (simp add: entries_def graph_flag_def)
qed

subsection \<open>What the server knows of the robots of a snapshot\<close>

lemma seq_steps_ok: "(\<And>f s. f \<in> set fs \<Longrightarrow> snd (f s) = None) \<Longrightarrow> seq_steps fs s = (fold (\<lambda>f s. fst (f s)) fs s, None)"
proof (induction fs arbitrary: s)
  case (Cons f fs)
  have "snd (f s) = None" using Cons.prems by simp
  then obtain t where "f s = (t, None)" by (cases "f s") simp
  then show ?case using Cons.IH [of t] Cons.prems by simp
qed simp

lemma planar_numbers: "pose_numbers (JObj (planar p @ rest)) = Inr p"
  by (cases p) (simp add: pose_numbers_def planar_def jget_def Let_def)

lemma by_robot_in: "(rid, j) \<in> set (by_robot f sn) \<Longrightarrow> \<exists>r \<in> set (reported_robots sn). fst r = rid \<and> f r = Some j"
  using by_robot_some wf_dict_dget [OF by_robot_wf] by metis

lemma origin_numbers: "\<exists>t. pose_numbers (origin_json se2 sn r) = Inr t"
  unfolding origin_json_def by (cases r) (simp only: prod.case planar_numbers, blast)

lemma origin_steps_ok: "f \<in> set (map (origin_step rep) (by_robot (Some \<circ> origin_json se2 sn) sn)) \<Longrightarrow> snd (f s) = None"
proof -
  assume "f \<in> set (map (origin_step rep) (by_robot (Some \<circ> origin_json se2 sn) sn))"
  then obtain rid r where "f = origin_step rep (rid, origin_json se2 sn r)" by (auto dest!: by_robot_in)
  then show ?thesis using origin_numbers [of se2 sn r] by (auto simp: origin_step_def assign_def Let_def)
qed

lemma pose_steps_ok:
  "f \<in> set (pose_steps (by_robot (\<lambda>r. map_option (JObj \<circ> planar \<circ> se2) (latest_pose sn (fst r))) sn)) \<Longrightarrow> snd (f s) = None"
proof -
  assume "f \<in> set (pose_steps (by_robot (\<lambda>r. map_option (JObj \<circ> planar \<circ> se2) (latest_pose sn (fst r))) sn))"
  then obtain rid j where j: "(rid, j) \<in> set (by_robot (\<lambda>r. map_option (JObj \<circ> planar \<circ> se2) (latest_pose sn (fst r))) sn)"
    and f: "f = (if is_obj j then set_common_pose rid j else (\<lambda>s. (s, None)))" by (auto simp: pose_steps_def)
  obtain m where m: "j = JObj (planar (se2 m))" using by_robot_in [OF j] by auto
  show ?thesis using planar_numbers [of "se2 m" "[]"] by (simp add: f m set_common_pose_def assign_def)
qed

lemma graph_steps_ok: "f \<in> set (graph_steps d) \<Longrightarrow> snd (f s) = None"
  by (auto simp: graph_steps_def)

text \<open>After the graphs, every reported robot has its entry.\<close>

lemma graph_steps_fold:
  "wf_dict d \<Longrightarrow> list_all (\<lambda>(_, j). is_obj j) d \<Longrightarrow>
    dget (slam_graphs (fold (\<lambda>f s. fst (f s)) (graph_steps d) s)) rid = (case dget d rid of None \<Rightarrow> dget (slam_graphs s) rid | Some j \<Rightarrow> Some j)"
proof (induction d arbitrary: s)
  case (Cons p d)
  obtain k j where p: "p = (k, j)" by (cases p)
  have "dget d k = None" using Cons.prems(1) by (auto simp: p wf_dict_def map_of_eq_None_iff)
  then show ?case using Cons by (auto simp: p graph_steps_def wf_dict_def set_slam_graph_def dict_simps split: option.split)
qed (simp add: graph_steps_def)

lemma later_steps_graphs:
  "slam_graphs (fold (\<lambda>f s. fst (f s)) (map (origin_step rep) os) s) = slam_graphs s"
  "slam_graphs (fold (\<lambda>f s. fst (f s)) (pose_steps d) s) = slam_graphs s"
proof -
  show "slam_graphs (fold (\<lambda>f s. fst (f s)) (map (origin_step rep) os) s) = slam_graphs s"
    by (induction os arbitrary: s) (auto simp: origin_step_def assign_def Let_def split: sum.split)
  show "slam_graphs (fold (\<lambda>f s. fst (f s)) (pose_steps d) s) = slam_graphs s"
    by (induction d arbitrary: s) (auto simp: pose_steps_def set_common_pose_def assign_def split: sum.split)
qed

lemma graph_json_flag: "truthy (jget (obj_fields (graph_json sn r)) ''in_common_frame'' JNull) = (fst r \<in> set (majority_robots sn))"
  by (cases r) (simp add: graph_json_def jget_def)

text \<open>C28: The server takes in every snapshot of the back end without an error, and then has in the common frame,
  of the robots the snapshot reports, exactly those that are in the merged grid.\<close>

theorem snapshot_sets_membership:
  shows "snd (apply_slam_update rep (snapshot_update se2 sn) s) = None
    \<and> list_all (\<lambda>r. graph_flag (fst (apply_slam_update rep (snapshot_update se2 sn) s)) (fst r) = (fst r \<in> set (majority_robots sn))) (reported_robots sn)"
proof -
  let ?g = "by_robot (Some \<circ> graph_json sn) sn"
  let ?o = "map (origin_step rep) (by_robot (Some \<circ> origin_json se2 sn) sn)"
  let ?p = "pose_steps (by_robot (\<lambda>r. map_option (JObj \<circ> planar \<circ> se2) (latest_pose sn (fst r))) sn)"
  let ?fs = "graph_steps ?g @ ?o @ ?p @ [\<lambda>s. (remerge s, None)]"
  have run: "apply_slam_update rep (snapshot_update se2 sn) s = (fold (\<lambda>f s. fst (f s)) ?fs s, None)"
    unfolding apply_update
  proof (rule seq_steps_ok)
    fix f t assume "f \<in> set ?fs"
    then consider "f \<in> set (graph_steps ?g)" | "f \<in> set ?o" | "f \<in> set ?p" | "f = (\<lambda>s. (remerge s, None))" by (simp only: set_append Un_iff) auto
    then show "snd (f t) = None" by cases (simp_all only: graph_steps_ok origin_steps_ok pose_steps_ok snd_conv)
  qed
  have objs: "list_all (\<lambda>(_, j). is_obj j) ?g"
    by (auto simp: list_all_iff graph_json_def dest!: by_robot_in)
  have graphs: "dget (slam_graphs (fold (\<lambda>f s. fst (f s)) ?fs s)) rid = (case dget ?g rid of None \<Rightarrow> dget (slam_graphs s) rid | Some j \<Rightarrow> Some j)" for rid
    by (simp add: later_steps_graphs graph_steps_fold [OF by_robot_wf objs])
  have "graph_flag (fold (\<lambda>f s. fst (f s)) ?fs s) (fst r) = (fst r \<in> set (majority_robots sn))" if "r \<in> set (reported_robots sn)" for r
  proof -
    have "dget ?g (fst r) \<noteq> None" using by_robot_mentioned [OF that, of "Some \<circ> graph_json sn"] by simp
    then obtain j where j: "dget ?g (fst r) = Some j" by blast
    then obtain q where "q \<in> set (reported_robots sn)" "fst q = fst r" "j = graph_json sn q" using by_robot_some [OF j] by auto
    then show ?thesis unfolding graph_flag_def graphs j by (simp add: graph_json_flag)
  qed
  then show ?thesis by (simp add: run list_all_iff)
qed

subsection \<open>An example\<close>

text \<open>Robots \<open>a\<close> and \<open>b\<close> are in the common frame; then \<open>b\<close> is excluded and the back end reports \<open>a\<close> alone.\<close>

definition lone_snapshot :: "int slam_snapshot" where
  "lone_snapshot = \<lparr>sn_optimized = \<lparr>og_poses = [(Kf ''a'' 0 [], 0)], og_robot_frames = [(''a'', 0)], og_frames = [(Traj ''a'' [], 0)],
       og_components = [\<lparr>c_id = 0, c_robots = [''a''], c_anchor = Kf ''a'' 0 [], c_trajectories = [Traj ''a'' []]\<rparr>], og_error = 0\<rparr>,
     sn_grids = [(0, \<lparr>rg_component = 0, rg_robots = [''a''], rg_width = 1, rg_height = 1\<rparr>)], sn_robot_grids = [], sn_trajectory_grids = [],
     sn_counts = [(''a'', 1)], sn_accepted = 0, sn_inter = 0, sn_trajectories = [], sn_stamp = 1\<rparr>"

definition pair_service :: map_service where
  "pair_service = set_cslam_origin ''b'' (1, 2, 0) ''component-0'' False
     (fold (\<lambda>rid. set_slam_graph rid (JObj [(''in_common_frame'', JBool True)])) [''a'', ''b''] (set_mode ''graph'' (new_map_service (1 / 2) 4)))"

lemma lone_reports: "map fst (reported_robots lone_snapshot) = [''a'']"
  by (simp add: reported_robots_def lone_snapshot_def current_component_def newest_trajectories_def outrank_def
      component_of_trajectory_def in_component_def kf_trajectory_def Let_def)

theorem absent_robot_keeps_frame_witness:
  "graph_flag (fst (apply_slam_update (\<lambda>_. []) (snapshot_update (\<lambda>m. (of_int m, 0, 0)) lone_snapshot) pair_service)) ''b''
    \<and> dget (transforms (fst (apply_slam_update (\<lambda>_. []) (snapshot_update (\<lambda>m. (of_int m, 0, 0)) lone_snapshot) pair_service))) ''b'' = Some (1, 2, 0)"
proof -
  have "\<not> mentions lone_snapshot ''b''" using lone_reports by (simp add: mentions_def flip: set_map)
  moreover have "graph_flag pair_service ''b''" "dget (transforms pair_service) ''b'' = Some (1, 2, 0)"
    by (simp_all add: pair_service_def set_slam_graph_def graph_flag_def jget_def dict_simps set_cslam_origin_def set_mode_def
      is_pose_graph_mode_def Let_def)
  ultimately show ?thesis using absent_robot_keeps_frame [of lone_snapshot "''b''"] by (simp add: entries_def)
qed

end
