(* ===== verification/Slam_Service.thy ===== *)
theory Slam_Service
  imports Slam_Selection Slam_Snapshot Keyframe
begin

text \<open>
  \<^verbatim>\<open>slam/swarmdeck_slam/service.py\<close>: the process around the back end. HTTP handlers queue keyframes and
  commands; one worker takes them, solves and publishes. An event is one handler, one critical
  section of a handler that has two, or one step of the worker, so that every interleaving is a list
  of events. A solve that was begun before a reset is recognised by its generation. A solve is one step: a selection that
  arrives during it counts as before or after it. Cached clouds are
  the snapshot they are built from; times are arguments, and so is whether a solve is due. The lift of
  a quaternion to a pose is an argument; the queue holds at least one blob. A search of the place index
  that would not return counts as an error. A stamp that is no finite number is read as zero; the JSON
  reader is taken to raise nothing but \<^verbatim>\<open>ValueError\<close> when a queue is searched for a robot.
\<close>

type_synonym wire_descriptor = "nat \<times> nat \<times> byte list"
type_synonym ('m, 'i) slam = "('m, 'i, point3, wire_descriptor) backend"
type_synonym ('m, 'i) kit = "('m, 'i, point3, wire_descriptor) slam_kit"

definition keyframe_from_packet :: "('m, 'i) kit \<Rightarrow> (pyfloat list \<Rightarrow> 'm) \<Rightarrow> packet \<Rightarrow> string option \<Rightarrow> ('m, point3, wire_descriptor) keyframe" where
  "keyframe_from_packet kit pose_of p session =
     \<lparr>k_id = Kf (pk_robot p) (pk_seq p) (case session of None \<Rightarrow> pk_session p | Some s \<Rightarrow> s),
      k_stamp = real_value (pk_stamp p), k_pose = pose_of (pk_pose p), k_points = pk_points p,
      k_descriptor = Some (case pk_descriptor p of None \<Rightarrow> describe kit (pk_points p) | Some d \<Rightarrow> (de_rings d, de_sectors d, de_data d))\<rparr>"

definition ingest_packet :: "('m, 'i) kit \<Rightarrow> (pyfloat list \<Rightarrow> 'm) \<Rightarrow> slam_config \<Rightarrow> packet \<Rightarrow> ('m, 'i) slam
    \<Rightarrow> (('m, 'i) slam \<times> (pyerr + bool)) option" where
  "ingest_packet kit pose_of cfg p b =
     (if legacy_split cfg \<and> pk_session p = []
      then let (gs, s) = session_for (bk_segments b) (pk_robot p) (pk_seq p) (real_value (pk_stamp p)) in
        ingest_keyframe kit cfg (keyframe_from_packet kit pose_of p (Some s)) (b\<lparr>bk_segments := gs\<rparr>)
      else ingest_keyframe kit cfg (keyframe_from_packet kit pose_of p None) b)"

subsection \<open>State\<close>

datatype control = Reset_All | Delete_Robot string

text \<open>A request to the server; the flag of a request still to be made says whether the generation is looked at
  before it, which it is before every request but the update.\<close>

datatype 'm request = Post_Grid string rendered | Post_Update "'m slam_snapshot" | Post_Global rendered

definition requests :: "'m slam_snapshot \<Rightarrow> (bool \<times> 'm request) list" where
  "requests sn = map (\<lambda>(scope, g). (True, Post_Grid scope g)) (scoped_grids sn) @ [(False, Post_Update sn)]
     @ (case majority_component sn of None \<Rightarrow> [] | Some g \<Rightarrow> [(True, Post_Global g)])"

text \<open>Where the worker is: at the top of its loop, about to drain the queue, with blobs in hand, about to
  decide on a solve, with a solved snapshot, with one it has checked, with requests to make, or dead of
  an uncaught error. It remembers the generation of the commands it took.\<close>

datatype 'm phase = At_Top | Draining nat | Holding nat "byte list list" | Deciding nat
  | Solved nat "'m slam_snapshot" | Checked nat "'m slam_snapshot" | Sending nat "(bool \<times> 'm request) list" | Crashed

record ('m, 'i) service =
  ss_backend :: "('m, 'i) slam"
  ss_queue :: "byte list list"
  ss_controls :: "control list"
  ss_generation :: nat
  ss_dropped :: nat
  ss_ingested :: nat
  ss_last :: "'m slam_snapshot option"
  ss_cloud :: "'m slam_snapshot option"
  ss_captured :: "(nat \<times> byte list) list"
  ss_next_file :: nat
  ss_phase :: "'m phase"
  ss_sent :: "(nat \<times> 'm request) list"

record ('m, 'i) service_kit =
  sk_codec :: codec
  sk_kit :: "('m, 'i) kit"
  sk_pose :: "pyfloat list \<Rightarrow> 'm"
  sk_config :: slam_config
  sk_queue_cap :: nat
  sk_capture :: bool

definition new_service :: "bool \<Rightarrow> ('m, 'i) service" where
  "new_service allow = \<lparr>ss_backend = fresh_backend allow, ss_queue = [], ss_controls = [], ss_generation = 0, ss_dropped = 0,
     ss_ingested = 0, ss_last = None, ss_cloud = None, ss_captured = [], ss_next_file = 0, ss_phase = At_Top, ss_sent = []\<rparr>"

subsection \<open>Handlers\<close>

definition capture :: "('m, 'i) service_kit \<Rightarrow> byte list \<Rightarrow> ('m, 'i) service \<Rightarrow> ('m, 'i) service" where
  "capture k blob s = (if sk_capture k
     then s\<lparr>ss_captured := ss_captured s @ [(ss_next_file s, blob)], ss_next_file := ss_next_file s + 1\<rparr> else s)"

definition enqueue_blob :: "('m, 'i) service_kit \<Rightarrow> byte list \<Rightarrow> ('m, 'i) service \<Rightarrow> ('m, 'i) service" where
  "enqueue_blob k blob s =
     (if sk_queue_cap k \<le> length (ss_queue s)
      then s\<lparr>ss_queue := tl (ss_queue s) @ [blob], ss_dropped := ss_dropped s + 1\<rparr>
      else s\<lparr>ss_queue := ss_queue s @ [blob]\<rparr>)"

definition post_keyframe :: "('m, 'i) service_kit \<Rightarrow> byte list \<Rightarrow> ('m, 'i) service \<Rightarrow> ('m, 'i) service" where
  "post_keyframe k body s =
     (if body = [] \<or> MAX_KEYFRAME_BYTES < length body then s else enqueue_blob k body (capture k body s))"

definition enqueue_control :: "control \<Rightarrow> ('m, 'i) service \<Rightarrow> ('m, 'i) service" where
  "enqueue_control c s = s\<lparr>ss_generation := ss_generation s + 1, ss_controls := ss_controls s @ [c], ss_last := None\<rparr>"

text \<open>\<open>post_reset\<close> empties queue and restore path under one lock and queues its command after it.\<close>

definition reset_clear :: "('m, 'i) service \<Rightarrow> ('m, 'i) service" where
  "reset_clear s = s\<lparr>ss_queue := [], ss_captured := []\<rparr>"

definition reset_control :: "('m, 'i) service \<Rightarrow> ('m, 'i) service" where
  "reset_control s = (enqueue_control Reset_All s)\<lparr>ss_ingested := 0, ss_dropped := 0\<rparr>"

definition blob_robot :: "codec \<Rightarrow> byte list \<Rightarrow> string option" where
  "blob_robot c blob = (case peek_keyframe_header c blob of Inl _ \<Rightarrow> None
     | Inr h \<Rightarrow> Some (py_str (text_of c) (jget (obj_fields h) ''robot_id'' (JStr []))))"

definition delete_clear :: "('m, 'i) service_kit \<Rightarrow> string \<Rightarrow> ('m, 'i) service \<Rightarrow> ('m, 'i) service" where
  "delete_clear k rid s =
     (if strip rid = [] then s
      else s\<lparr>ss_queue := filter (\<lambda>b. blob_robot (sk_codec k) b \<noteq> Some (strip rid)) (ss_queue s),
        ss_captured := filter (\<lambda>(_, b). blob_robot (sk_codec k) b \<noteq> Some (strip rid)) (ss_captured s)\<rparr>)"

definition delete_control :: "string \<Rightarrow> ('m, 'i) service \<Rightarrow> ('m, 'i) service" where
  "delete_control rid s = (if strip rid = [] then s else enqueue_control (Delete_Robot (strip rid)) s)"

datatype selection = Only "trajectory list" | Change "trajectory list" "trajectory list"

fun select_trajectories :: "selection \<Rightarrow> ('m, 'i) slam \<Rightarrow> ('m, 'i) slam" where
  "select_trajectories (Only ts) b = include_only ts b"
| "select_trajectories (Change excl incl) b =
     fold (\<lambda>t b. fst (set_included t True b)) incl (fold (\<lambda>t b. fst (set_included t False b)) excl b)"

text \<open>What \<^verbatim>\<open>GET /cloud\<close> answers from.\<close>

definition served_cloud :: "('m, 'i) service \<Rightarrow> 'm slam_snapshot option" where
  "served_cloud s = (case ss_cloud s of Some sn \<Rightarrow> Some sn | None \<Rightarrow> ss_last s)"

subsection \<open>The worker\<close>

definition run_control :: "('m, 'i) service_kit \<Rightarrow> control \<Rightarrow> ('m, 'i) slam \<times> bool \<Rightarrow> ('m, 'i) slam \<times> bool" where
  "run_control k c acc = (case acc of (b, dead) \<Rightarrow>
     if dead then (b, True)
     else case c of
       Reset_All \<Rightarrow> (reset_backend b, False)
     | Delete_Robot rid \<Rightarrow> (case delete_robot (sk_kit k) rid b of (b1, Inl _) \<Rightarrow> (b1, True) | (b1, Inr _) \<Rightarrow> (b1, False)))"

definition take_controls :: "('m, 'i) service_kit \<Rightarrow> ('m, 'i) service \<Rightarrow> ('m, 'i) service" where
  "take_controls k s = (case fold (run_control k) (ss_controls s) (ss_backend s, False) of (b, dead) \<Rightarrow>
     s\<lparr>ss_backend := b, ss_controls := [], ss_phase := (if dead then Crashed else Draining (ss_generation s))\<rparr>)"

definition ingest_blob :: "('m, 'i) service_kit \<Rightarrow> byte list \<Rightarrow> ('m, 'i) slam \<Rightarrow> ('m, 'i) slam \<times> (wire_error + bool)" where
  "ingest_blob k blob b =
     (case decode_keyframe (sk_codec k) blob of
        Inl e \<Rightarrow> (b, Inl e)
      | Inr p \<Rightarrow> (case ingest_packet (sk_kit k) (sk_pose k) (sk_config k) p b of
          None \<Rightarrow> (b, Inl (Raised RuntimeError))
        | Some (b1, Inl e) \<Rightarrow> (b1, Inl (Raised e))
        | Some (b1, Inr r) \<Rightarrow> (b1, Inr r)))"

definition caught :: "wire_error \<Rightarrow> bool" where
  "caught e \<longleftrightarrow> e = Protocol_Error \<or> e = Raised ValueError"

definition ingest_next :: "('m, 'i) service_kit \<Rightarrow> nat \<Rightarrow> byte list \<Rightarrow> byte list list \<Rightarrow> ('m, 'i) service \<Rightarrow> ('m, 'i) service" where
  "ingest_next k g blob blobs s =
     (case ingest_blob k blob (ss_backend s) of
        (b, Inr _) \<Rightarrow> s\<lparr>ss_backend := b, ss_ingested := ss_ingested s + 1, ss_phase := Holding g blobs\<rparr>
      | (b, Inl e) \<Rightarrow> s\<lparr>ss_backend := b, ss_phase := (if caught e then Holding g blobs else Crashed)\<rparr>)"

definition decide :: "('m, 'i) service_kit \<Rightarrow> bool \<Rightarrow> real \<Rightarrow> nat \<Rightarrow> ('m, 'i) service \<Rightarrow> ('m, 'i) service" where
  "decide k due now g s =
     (if \<not> (bk_dirty (ss_backend s) \<and> due) then s\<lparr>ss_phase := At_Top\<rparr>
      else case optimize_and_render (sk_kit k) (sk_config k) now (ss_backend s) of
        (b, Inl _) \<Rightarrow> s\<lparr>ss_backend := b, ss_phase := Crashed\<rparr>
      | (b, Inr None) \<Rightarrow> s\<lparr>ss_backend := b, ss_phase := At_Top\<rparr>
      | (b, Inr (Some sn)) \<Rightarrow> s\<lparr>ss_backend := b, ss_phase := Solved g sn\<rparr>)"

definition is_update :: "'m request \<Rightarrow> bool" where
  "is_update r = (case r of Post_Update _ \<Rightarrow> True | _ \<Rightarrow> False)"

text \<open>A request may fail; after a failed update the global map is not sent.\<close>

definition send_next :: "bool \<Rightarrow> nat \<Rightarrow> bool \<times> 'm request \<Rightarrow> (bool \<times> 'm request) list \<Rightarrow> ('m, 'i) service \<Rightarrow> ('m, 'i) service" where
  "send_next arrives g r rs s = (case r of
     (True, req) \<Rightarrow> (if g = ss_generation s then s\<lparr>ss_phase := Sending g ((False, req) # rs)\<rparr> else s\<lparr>ss_phase := At_Top\<rparr>)
   | (False, req) \<Rightarrow> s\<lparr>ss_sent := (if arrives then ss_sent s @ [(g, req)] else ss_sent s),
       ss_phase := (if \<not> arrives \<and> is_update req then At_Top else Sending g rs)\<rparr>)"

definition slam_worker :: "('m, 'i) service_kit \<Rightarrow> bool \<Rightarrow> real \<Rightarrow> bool \<Rightarrow> ('m, 'i) service \<Rightarrow> ('m, 'i) service" where
  "slam_worker k due now arrives s =
     (case ss_phase s of
        At_Top \<Rightarrow> take_controls k s
      | Draining g \<Rightarrow> s\<lparr>ss_phase := Holding g (ss_queue s), ss_queue := []\<rparr>
      | Holding g [] \<Rightarrow> s\<lparr>ss_phase := Deciding g\<rparr>
      | Holding g (blob # blobs) \<Rightarrow> ingest_next k g blob blobs s
      | Deciding g \<Rightarrow> decide k due now g s
      | Solved g sn \<Rightarrow> s\<lparr>ss_phase := (if g = ss_generation s then Checked g sn else At_Top)\<rparr>
      | Checked g sn \<Rightarrow> s\<lparr>ss_last := Some sn, ss_cloud := Some sn, ss_phase := Sending g (requests sn)\<rparr>
      | Sending g [] \<Rightarrow> s\<lparr>ss_phase := At_Top\<rparr>
      | Sending g (r # rs) \<Rightarrow> send_next arrives g r rs s
      | Crashed \<Rightarrow> s)"

subsection \<open>Restoring\<close>

definition restore_one :: "('m, 'i) service_kit \<Rightarrow> byte list \<Rightarrow> ('m, 'i) slam \<times> wire_error option \<Rightarrow> ('m, 'i) slam \<times> wire_error option" where
  "restore_one k blob acc = (case acc of
     (b, Some e) \<Rightarrow> (b, Some e)
   | (b, None) \<Rightarrow> (case ingest_blob k blob b of
       (b1, Inr _) \<Rightarrow> (b1, None) | (b1, Inl e) \<Rightarrow> (b1, if caught e then None else Some e)))"

text \<open>The name of a captured file is its number, padded to six digits; the files are replayed in the order of their
  names as text.\<close>

definition capture_name :: "nat \<Rightarrow> string" where
  "capture_name n = replicate (6 - length (dec n)) (CHR ''0'') @ dec n @ ''.kf''"

definition restore_capture :: "('m, 'i) service_kit \<Rightarrow> (nat \<times> byte list) list \<Rightarrow> ('m, 'i) slam \<Rightarrow> ('m, 'i) slam \<times> wire_error option" where
  "restore_capture k files b = fold (restore_one k) (map snd (sort_key (capture_name \<circ> fst) files)) (b, None)"

datatype service_event = Post_Keyframe "byte list" | Reset_Clear | Reset_Control | Delete_Clear string | Delete_Control string
  | Select_Trajectories selection | Allow_Inter bool | Worker bool real bool

fun service_step :: "('m, 'i) service_kit \<Rightarrow> service_event \<Rightarrow> ('m, 'i) service \<Rightarrow> ('m, 'i) service" where
  "service_step k (Post_Keyframe blob) s = post_keyframe k blob s"
| "service_step k Reset_Clear s = reset_clear s"
| "service_step k Reset_Control s = reset_control s"
| "service_step k (Delete_Clear rid) s = delete_clear k rid s"
| "service_step k (Delete_Control rid) s = delete_control rid s"
| "service_step k (Select_Trajectories sel) s = s\<lparr>ss_backend := select_trajectories sel (ss_backend s)\<rparr>"
| "service_step k (Allow_Inter a) s = s\<lparr>ss_backend := allow_inter_robot a (ss_backend s)\<rparr>"
| "service_step k (Worker due now arrives) s = slam_worker k due now arrives s"

end
