(* ===== verification/Slam_Safety.thy ===== *)
theory Slam_Safety
  imports Slam_Service Slam_Runs Keyframe_Format
begin

text \<open>
  What the process around the back end promises, and where it does not hold: a reset forgets what was
  sent before it, a restart restores what was captured, and two kinds of keyframes stop the worker.
\<close>

subsection \<open>Keyframes that stop the worker\<close>

lemma selection_keeps_keyframes [simp]:
  "bk_keyframes (fst (set_included t i b)) = bk_keyframes b" "bk_keyframes (include_only ts b) = bk_keyframes b"
  by (simp_all add: set_included_def include_only_def selection_changed_def)

lemma select_keeps_keyframes [simp]: "bk_keyframes (select_trajectories sel b) = bk_keyframes b"
proof (cases sel)
  case (Change excl incl)
  have "bk_keyframes (fold (\<lambda>t b. fst (set_included t i b)) ts c) = bk_keyframes c" for ts i and c :: "('a, 'b) slam"
    by (induction ts arbitrary: c) simp_all
  then show ?thesis by (simp add: Change)
qed simp

definition crashed_like :: "('m, 'i) service \<Rightarrow> ('m, 'i) service \<Rightarrow> bool" where
  "crashed_like s0 s \<longleftrightarrow> ss_phase s = Crashed \<and> ss_sent s = ss_sent s0 \<and> bk_keyframes (ss_backend s) = bk_keyframes (ss_backend s0)"

lemma crashed_step: "crashed_like s0 s \<Longrightarrow> crashed_like s0 (service_step k e s)"
  by (cases e) (auto simp: crashed_like_def post_keyframe_def capture_def enqueue_blob_def reset_clear_def reset_control_def
      enqueue_control_def delete_clear_def delete_control_def slam_worker_def allow_inter_robot_def)

interpretation crash: machine "service_step k" "\<lambda>_. True" "crashed_like s0" for k s0
  by unfold_locales (rule crashed_step)

text \<open>C13: One upload ends the worker for good. The blob passes the server's check, which reads only the header;
  its sequence number is \<open>1e999\<close>. When the worker reaches it, the error escapes, and from then on no
  keyframe is taken in and nothing is sent, whatever else happens.\<close>

theorem poisoned_keyframe_stops_worker:
  assumes "ss_phase s = Holding g (blob # blobs)" and "peek_keyframe_header (sk_codec k) blob = Inr h"
    and "decompress_bounded (sk_codec k) (drop (header_struct_size + unat (of_le32 (take 4 (drop 6 blob)))) blob) = Inr body"
    and "jindex h ''robot_id'' = Inr rid" and "jindex h ''seq'' = Inr (JFloat PInf)"
  shows "ss_phase (fold (service_step k) es (service_step k (Worker due now ok) s)) = Crashed
    \<and> ss_sent (fold (service_step k) es (service_step k (Worker due now ok) s)) = ss_sent s
    \<and> bk_keyframes (ss_backend (fold (service_step k) es (service_step k (Worker due now ok) s))) = bk_keyframes (ss_backend s)"
proof -
  have "crashed_like s (service_step k (Worker due now ok) s)"
    by (simp add: slam_worker_def assms(1) ingest_next_def ingest_blob_def decode_overflow [OF assms(2-5)] caught_def crashed_like_def)
  then have "crashed_like s (fold (service_step k) es (service_step k (Worker due now ok) s))"
    by (intro crash.inv_run) (simp_all add: list_all_iff)
  then show ?thesis by (simp add: crashed_like_def)
qed

lemma store_bad_sequence:
  assumes "included (bk_excluded b) (k_id kf)" and "\<not> (0 \<le> kf_seq (k_id kf) \<and> kf_seq (k_id kf) < 2 ^ seq_bits)"
  shows "store_keyframe (bk_excluded b) kf b =
    (b\<lparr>bk_solver := (bk_solver b)\<lparr>sv_nodes := dput (k_id kf) kf (sv_nodes (bk_solver b))\<rparr>\<rparr>, Some ValueError)"
  using assms by (auto simp: store_keyframe_def solver_add_def registry_key_def Let_def)

text \<open>What the worker does that leaves the selection as it is: taking in keyframes, solving, switching closures between
  robots, and deleting a robot of which nothing is stored.\<close>

inductive worked :: "('m, 'i, 'p, 'd) slam_kit \<Rightarrow> slam_config \<Rightarrow> ('m, 'i, 'p, 'd) backend \<Rightarrow> ('m, 'i, 'p, 'd) backend \<Rightarrow> bool"
  for kit cfg b where
  nothing: "worked kit cfg b b"
| took: "worked kit cfg b c \<Longrightarrow> ingest_keyframe kit cfg kf c = Some (d, r) \<Longrightarrow> worked kit cfg b d"
| solving: "worked kit cfg b c \<Longrightarrow> optimize_and_render kit cfg now c = (d, q) \<Longrightarrow> worked kit cfg b d"
| switched: "worked kit cfg b c \<Longrightarrow> worked kit cfg b (allow_inter_robot a c)"
| none_deleted: "worked kit cfg b c \<Longrightarrow> delete_robot kit rid c = (d, Inr 0) \<Longrightarrow> worked kit cfg b d"

definition spoilt :: "kf_id \<Rightarrow> ('m, 'i, 'p, 'd) backend \<Rightarrow> bool" where
  "spoilt k b \<longleftrightarrow> \<not> bk_stale b \<and> k \<in> set (keys (sv_nodes (bk_solver b)))"

lemma keys_dput [simp]: "set (keys (dput k v d)) = insert k (set (keys d))"
  by (simp add: keys_def dom_map_of_conv_image_fst [symmetric] update_conv' insert_absorb)

lemma spoilt_edge [simp]: "spoilt k (add_edge x e b) = spoilt k b"
  by (simp add: spoilt_def add_edge_def solver_edge_def)

lemma spoilt_counters [simp]:
  "spoilt k (b\<lparr>bk_hops := n\<rparr>) = spoilt k b" "spoilt k (b\<lparr>bk_primed := n\<rparr>) = spoilt k b" "spoilt k (b\<lparr>bk_ambiguous := n\<rparr>) = spoilt k b"
  "spoilt k (b\<lparr>bk_accepted := n\<rparr>) = spoilt k b" "spoilt k (b\<lparr>bk_inter := n\<rparr>) = spoilt k b"
  "spoilt k (b\<lparr>bk_segments := gs\<rparr>) = spoilt k b" "spoilt k (b\<lparr>bk_keyframes := kfs\<rparr>) = spoilt k b"
  "spoilt k (b\<lparr>bk_index := idx, bk_last := l, bk_dirty := True, bk_new := n\<rparr>) = spoilt k b"
  by (simp_all add: spoilt_def)

lemma spoilt_link [simp]: "spoilt k (link_previous kit cfg x prev kf b) = spoilt k b"
  by (simp add: link_previous_def Let_def split: option.split)

lemma spoilt_candidate [simp]: "spoilt k (consider_candidate kit cfg x kf c b) = spoilt k b"
  by (simp add: consider_candidate_def Let_def split: option.split)

lemma spoilt_closures [simp]: "spoilt k (closures kit cfg x kf cs b) = spoilt k b"
proof -
  have "spoilt k (fold (consider_candidate kit cfg x kf) cs b) = spoilt k b"
    by (induction cs arbitrary: b) simp_all
  then show ?thesis by (simp add: closures_def)
qed

lemma spoilt_file [simp]: "spoilt k (fst (file_keyframe kit kf b)) = spoilt k b"
  by (simp add: file_keyframe_def split: sum.split)

lemma spoilt_store: "spoilt k b \<Longrightarrow> store_keyframe x kf b = (c, e) \<Longrightarrow> spoilt k c"
  by (auto simp: store_keyframe_def solver_add_def spoilt_def Let_def split: if_splits sum.splits prod.splits option.splits)

lemma spoilt_ingest:
  assumes "spoilt k b" and "ingest_keyframe kit cfg kf b = Some (d, r)"
  shows "spoilt k d"
proof (cases "dget (bk_keyframes b) (k_id kf) \<noteq> None \<or> length (k_points kf) < min_points cfg")
  case True
  then have "ingest_keyframe kit cfg kf b = Some (b, Inr False)" by (auto simp: ingest_keyframe_def)
  then show ?thesis using assms by simp
next
  case False
  let ?kf = "with_descriptor kit kf"
  obtain c e where s: "store_keyframe (bk_excluded b) ?kf b = (c, e)" by (cases "store_keyframe (bk_excluded b) ?kf b")
  have c: "spoilt k c" by (rule spoilt_store [OF assms(1) s])
  show ?thesis
  proof (cases e)
    case None
    let ?c = "link_previous kit cfg (bk_excluded b) (dget (bk_last b) (kf_trajectory (k_id ?kf))) ?kf c"
    obtain out where f: "find_candidates kit cfg (bk_index ?c) ?kf = Some out"
      using assms(2) False s None by (cases "find_candidates kit cfg (bk_index ?c) ?kf") (auto simp: ingest_keyframe_def Let_def)
    show ?thesis
    proof (cases out)
      case (Inl err)
      then have "d = ?c" using False s None f assms(2) by (simp add: ingest_keyframe_def Let_def)
      then show ?thesis using c by simp
    next
      case (Inr cs)
      then have "ingest_keyframe kit cfg kf b = Some (file_keyframe kit ?kf (closures kit cfg (bk_excluded b) ?kf cs ?c))"
        using False s None f by (simp add: ingest_keyframe_def Let_def)
      then have "d = fst (file_keyframe kit ?kf (closures kit cfg (bk_excluded b) ?kf cs ?c))" using assms(2) by (metis fst_conv option.inject)
      then show ?thesis using c by simp
    qed
  qed (use assms(2) c False s in \<open>simp add: ingest_keyframe_def Let_def\<close>)
qed

lemma spoilt_solve:
  assumes "spoilt k b" and "\<not> (0 \<le> kf_seq k \<and> kf_seq k < 2 ^ seq_bits)" and "\<not> odom_free cfg"
  shows "\<exists>err. solve_graph kit cfg b = (b, Inl err)"
proof -
  have "unkeyable (sv_keys (bk_solver b)) k" using assms(2) by (auto simp: unkeyable_def registry_key_def)
  then obtain err where "registry_keys (keys (sv_nodes (bk_solver b))) (sv_keys (bk_solver b)) = Inl err"
    using keys_of_unkeyable assms(1) unfolding spoilt_def by blast
  moreover have "sv_nodes (bk_solver b) \<noteq> []" using assms(1) by (auto simp: spoilt_def keys_def)
  ultimately have "\<exists>err. solver_optimize kit (bk_solver b) = Inl err" by (auto simp: solver_optimize_def Let_def)
  then show ?thesis using assms(1,3) by (auto simp: solve_graph_def spoilt_def)
qed

lemma spoilt_worked:
  assumes "worked kit cfg b c" and "spoilt k b" and "\<not> (0 \<le> kf_seq k \<and> kf_seq k < 2 ^ seq_bits)" and "\<not> odom_free cfg"
  shows "spoilt k c"
  using assms
proof (induction rule: worked.induct)
  case (took c kf d r)
  then show ?case by (simp add: spoilt_ingest)
next
  case (solving c now d q)
  then obtain err where "solve_graph kit cfg c = (c, Inl err)" using spoilt_solve by blast
  then show ?case using solving by (auto simp: optimize_and_render_def split: if_splits)
next
  case (switched c a)
  then show ?case by (simp add: allow_inter_robot_def spoilt_def)
next
  case (none_deleted c rid d)
  then have "d = c\<lparr>bk_segments := forget_segments rid (bk_segments c)\<rparr>"
    by (auto simp: delete_robot_def Let_def split: if_splits prod.splits option.splits)
  then show ?case using none_deleted by simp
qed

text \<open>C27: A keyframe with a sequence number that has no key, such as a negative one, is refused with an error
  the worker catches; but the solver has kept it, and from then on every solve of the graph raises, whatever is taken in
  afterwards and however often it is tried, until the graph is rebuilt: until the selection changes, a robot with stored
  keyframes is deleted or everything is reset. This is for the pose graph, not the odometry-free reconstruction; the
  graph is up to date, the keyframe has enough points, is new and of an included trajectory.\<close>

theorem refused_keyframe_spoils_solves:
  assumes "\<not> odom_free cfg" and "\<not> bk_stale b" and "dget (bk_keyframes b) (k_id kf) = None"
    and "min_points cfg \<le> length (k_points kf)" and "included (bk_excluded b) (k_id kf)"
    and "\<not> (0 \<le> kf_seq (k_id kf) \<and> kf_seq (k_id kf) < 2 ^ seq_bits)"
  shows "\<exists>b'. ingest_keyframe kit cfg kf b = Some (b', Inl ValueError)
    \<and> (\<forall>c. worked kit cfg b' c \<longrightarrow> (\<exists>err. solve_graph kit cfg c = (c, Inl err))
        \<and> (\<forall>now sn. snd (optimize_and_render kit cfg now c) \<noteq> Inr (Some sn)))"
proof -
  let ?kf = "with_descriptor kit kf"
  let ?b = "b\<lparr>bk_solver := (bk_solver b)\<lparr>sv_nodes := dput (k_id kf) ?kf (sv_nodes (bk_solver b))\<rparr>\<rparr>"
  have s: "store_keyframe (bk_excluded b) ?kf b = (?b, Some ValueError)" using store_bad_sequence [of b ?kf] assms(5,6) by simp
  have i: "ingest_keyframe kit cfg kf b = Some (?b, Inl ValueError)"
    using assms(3,4) s by (simp add: ingest_keyframe_def Let_def)
  have "spoilt (k_id kf) ?b" using assms(2) by (simp add: spoilt_def)
  then have raises: "\<exists>err. solve_graph kit cfg c = (c, Inl err)" if "worked kit cfg ?b c" for c
    using spoilt_solve [OF spoilt_worked [OF that _ assms(6,1)] assms(6,1)] by blast
  have "snd (optimize_and_render kit cfg now c) \<noteq> Inr (Some sn)" if "worked kit cfg ?b c" for c now sn
    using raises [OF that] by (auto simp: optimize_and_render_def)
  then show ?thesis using i raises by blast
qed

subsection \<open>The two on small inputs\<close>

definition tiny_kit :: "(int, bool) kit" where
  "tiny_kit = \<lparr>m_mul = (+), m_inv = uminus, m_size = (\<lambda>t. (\<bar>of_int t\<bar>, 0)), m_apart = (\<lambda>a b. \<bar>of_int (a - b)\<bar>),
     odometry_info = (\<lambda>jump. jump), describe = (\<lambda>_. (0, 0, [])),
     places = \<lparr>d_valid = (\<lambda>_. True), d_nearest = (\<lambda>ds d f. [0..<f]), d_compare = (\<lambda>a b. (0, 0))\<rparr>,
     verify = (\<lambda>_ _ _ _. None), solve = (\<lambda>_ _. Inl RuntimeError), reconstruct = (\<lambda>_. Inl RuntimeError),
     gauge = (\<lambda>g _. g), render_all = (\<lambda>_ _. ([], [], []))\<rparr>"

definition tiny_service :: "json \<Rightarrow> (int, bool) service_kit" where
  "tiny_service h = \<lparr>sk_codec = one_header h, sk_kit = tiny_kit, sk_pose = (\<lambda>_. 0), sk_config = toy_config,
     sk_queue_cap = 4, sk_capture = False\<rparr>"

theorem poisoned_keyframe_stops_worker_witness:
  "ss_phase (fold (service_step (tiny_service (plain_header (JFloat PInf)))) [Post_Keyframe [1], Worker True 0 True]
     (service_step (tiny_service (plain_header (JFloat PInf))) (Worker False 0 True)
       ((new_service True)\<lparr>ss_phase := Holding 0 [plain_blob]\<rparr>))) = Crashed"
proof (rule poisoned_keyframe_stops_worker [THEN conjunct1])
  show "ss_phase ((new_service True)\<lparr>ss_phase := Holding 0 [plain_blob]\<rparr>) = Holding 0 (plain_blob # [])" by simp
  show "peek_keyframe_header (sk_codec (tiny_service (plain_header (JFloat PInf)))) plain_blob = Inr (plain_header (JFloat PInf))"
    by (simp add: tiny_service_def plain_peek)
  show "decompress_bounded (sk_codec (tiny_service (plain_header (JFloat PInf))))
      (drop (header_struct_size + unat (of_le32 (take 4 (drop 6 plain_blob)))) plain_blob) = Inr []"
    by (simp add: tiny_service_def plain_body plain_length)
  show "jindex (plain_header (JFloat PInf)) ''robot_id'' = Inr (JStr ''aslan'')" "jindex (plain_header (JFloat PInf)) ''seq'' = Inr (JFloat PInf)"
    by (simp_all add: plain_header_def)
qed

text \<open>After the refused keyframe of the one robot a good one of the other is taken in, and the solve still raises.\<close>

theorem refused_keyframe_spoils_solves_witness:
  "\<exists>b' c r err. ingest_keyframe toy_kit toy_config (toy_keyframe ''a'' (- 1)) toy_pair = Some (b', Inl ValueError)
    \<and> ingest_keyframe toy_kit toy_config (toy_keyframe ''b'' 4) b' = Some (c, r) \<and> solve_graph toy_kit toy_config c = (c, Inl err)"
proof -
  obtain b' where b': "ingest_keyframe toy_kit toy_config (toy_keyframe ''a'' (- 1)) toy_pair = Some (b', Inl ValueError)"
    and raises: "\<And>c. worked toy_kit toy_config b' c \<Longrightarrow> \<exists>err. solve_graph toy_kit toy_config c = (c, Inl err)"
    using refused_keyframe_spoils_solves [of toy_config toy_pair "toy_keyframe ''a'' (- 1)" toy_kit]
    by (auto simp: toy_config_def toy_keyframe_def toy_pair_value toy_nodes_def included_def)
  obtain c r where c: "ingest_keyframe toy_kit toy_config (toy_keyframe ''b'' 4) b' = Some (c, r)"
    using toy_ingest_returns [of "''b''" 4 b'] by auto
  then show ?thesis using b' raises [OF worked.took [OF worked.nothing c]] by blast
qed

end
