(* ===== verification/Slam_Reset.thy ===== *)
theory Slam_Reset
  imports Slam_Safety
begin

text \<open>
  What a reset or a deletion promises once its command is queued: a solve that was under way is recognised by
  its generation, and no update that is sent later mentions a robot of which nothing new has arrived.
\<close>

subsection \<open>Back ends without a robot\<close>

definition lacks :: "string \<Rightarrow> ('m, 'i, 'p, 'd) backend \<Rightarrow> bool" where
  "lacks rid b \<longleftrightarrow> list_all (\<lambda>(k, _). kf_robot k \<noteq> rid) (bk_keyframes b)"

lemma consider_keyframes [simp]: "bk_keyframes (consider_candidate kit cfg x kf c b) = bk_keyframes b"
  by (simp add: consider_candidate_def Let_def split: option.split)

lemma closures_keyframes [simp]: "bk_keyframes (closures kit cfg x kf cs b) = bk_keyframes b"
proof -
  have "bk_keyframes (fold (consider_candidate kit cfg x kf) cs b) = bk_keyframes b"
    by (induction cs arbitrary: b) simp_all
  then show ?thesis by (simp add: closures_def)
qed

lemma link_previous_keyframes [simp]: "bk_keyframes (link_previous kit cfg x prev kf b) = bk_keyframes b"
  by (simp add: link_previous_def Let_def split: option.split)

lemma file_keyframe_keyframes [simp]: "bk_keyframes (fst (file_keyframe kit kf b)) = bk_keyframes b"
  by (simp add: file_keyframe_def split: sum.split)

lemma ingest_keyframes:
  assumes "ingest_keyframe kit cfg kf b = Some (b', r)"
  shows "bk_keyframes b' = bk_keyframes b \<or> bk_keyframes b' = dput (k_id kf) (with_descriptor kit kf) (bk_keyframes b)"
proof (cases "dget (bk_keyframes b) (k_id kf) \<noteq> None \<or> length (k_points kf) < min_points cfg")
  case True
  then have "ingest_keyframe kit cfg kf b = Some (b, Inr False)" by (auto simp: ingest_keyframe_def)
  then show ?thesis using assms by simp
next
  case False
  let ?kf = "with_descriptor kit kf"
  obtain b1 e where s: "store_keyframe (bk_excluded b) ?kf b = (b1, e)" by (cases "store_keyframe (bk_excluded b) ?kf b")
  then have stored: "bk_keyframes b1 = (if e = None then dput (k_id kf) ?kf (bk_keyframes b) else bk_keyframes b)"
    by (auto simp: store_keyframe_def Let_def split: prod.splits option.splits)
  have "bk_keyframes b' = bk_keyframes b1"
  proof (cases e)
    case None
    let ?b = "link_previous kit cfg (bk_excluded b) (dget (bk_last b) (kf_trajectory (k_id kf))) ?kf b1"
    obtain out where f: "find_candidates kit cfg (bk_index ?b) ?kf = Some out"
      using assms False s None by (cases "find_candidates kit cfg (bk_index ?b) ?kf") (auto simp: ingest_keyframe_def Let_def)
    show ?thesis
    proof (cases out)
      case (Inl err)
      then have "ingest_keyframe kit cfg kf b = Some (?b, Inl err)" using False s None f by (simp add: ingest_keyframe_def Let_def)
      then show ?thesis using assms by auto
    next
      case (Inr cs)
      then have "ingest_keyframe kit cfg kf b = Some (file_keyframe kit ?kf (closures kit cfg (bk_excluded b) ?kf cs ?b))"
        using False s None f by (simp add: ingest_keyframe_def Let_def)
      then have "b' = fst (file_keyframe kit ?kf (closures kit cfg (bk_excluded b) ?kf cs ?b))" using assms by (metis fst_conv option.inject)
      then show ?thesis by simp
    qed
  qed (use assms False s in \<open>simp add: ingest_keyframe_def Let_def\<close>)
  then show ?thesis using stored by auto
qed

lemma ingest_lacks:
  assumes "ingest_keyframe kit cfg kf b = Some (b', r)" and "backend_inv b"
  shows "backend_inv b'" and "lacks rid b \<Longrightarrow> kf_robot (k_id kf) \<noteq> rid \<Longrightarrow> lacks rid b'"
  using ingest_inv [OF assms(2,1)] ingest_keyframes [OF assms(1)]
  by (auto simp: lacks_def list_all_iff dest!: set_dput_subset [THEN subsetD])

definition not_from :: "codec \<Rightarrow> string \<Rightarrow> byte list \<Rightarrow> bool" where
  "not_from c rid blob = (case decode_keyframe c blob of Inl _ \<Rightarrow> True | Inr p \<Rightarrow> pk_robot p \<noteq> rid)"

lemma packet_lacks:
  assumes "ingest_packet kit pose_of cfg p b = Some (b', r)" and "backend_inv b"
  shows "backend_inv b'" and "lacks rid b \<Longrightarrow> pk_robot p \<noteq> rid \<Longrightarrow> lacks rid b'"
proof -
  obtain c session where c: "ingest_keyframe kit cfg (keyframe_from_packet kit pose_of p session) c = Some (b', r)"
    and same: "bk_keyframes c = bk_keyframes b" "backend_inv c"
    using assms by (auto simp: ingest_packet_def split: prod.splits if_splits)
  show "backend_inv b'" "lacks rid b \<Longrightarrow> pk_robot p \<noteq> rid \<Longrightarrow> lacks rid b'"
    using ingest_lacks [OF c same(2)] same(1) by (simp_all add: lacks_def keyframe_from_packet_def)
qed

lemma blob_lacks:
  assumes "ingest_blob k blob b = (b', r)" and "backend_inv b"
  shows "backend_inv b'" and "lacks rid b \<Longrightarrow> not_from (sk_codec k) rid blob \<Longrightarrow> lacks rid b'"
  using assms packet_lacks [of "sk_kit k" "sk_pose k" "sk_config k" _ b]
  by (fastforce simp: ingest_blob_def not_from_def split: sum.splits option.splits)+

subsection \<open>Commands\<close>

definition removes :: "string \<Rightarrow> control \<Rightarrow> bool" where
  "removes rid c \<longleftrightarrow> c = Reset_All \<or> c = Delete_Robot rid"

lemma fresh_lacks [simp]: "backend_inv (fresh_backend a)" "lacks rid (fresh_backend a)"
  by (simp_all add: fresh_inv lacks_def) (simp add: fresh_backend_def)

lemma delete_keyframes:
  assumes "delete_robot kit name b = (b', r)"
  shows "bk_keyframes b' = bk_keyframes b \<and> lacks name b \<or> bk_keyframes b' = []
    \<or> bk_keyframes b' = filter (\<lambda>(k, _). kf_robot k \<noteq> name) (bk_keyframes b)"
proof (cases "filter (\<lambda>k. kf_robot k = name) (keys (bk_keyframes b)) = []")
  case True
  then have "lacks name b" by (auto simp: lacks_def keys_def filter_empty_conv list_all_iff)
  then show ?thesis using assms True by (auto simp: delete_robot_def)
next
  case False
  show ?thesis
  proof (cases "list_all (\<lambda>k. kf_robot k = name) (keys (bk_keyframes b))")
    case True
    then show ?thesis using assms False by (auto simp: delete_robot_def fresh_backend_def)
  next
    case some: False
    obtain idx e where "reindex (places kit) (descriptors kit (bk_keyframes (drop_robot name b))) [] = (idx, e)"
      by (cases "reindex (places kit) (descriptors kit (bk_keyframes (drop_robot name b))) []")
    then show ?thesis using assms False some
      by (cases e) (auto simp: delete_robot_def Let_def drop_robot_def after_drop_def)
  qed
qed

lemma delete_lacks:
  assumes "delete_robot kit name b = (b', r)"
  shows "lacks rid b \<Longrightarrow> lacks rid b'" and "lacks name b'"
  using delete_keyframes [OF assms] by (auto simp: lacks_def list_all_iff)

lemma control_lacks:
  assumes "run_control k c (b, d) = (b', d')"
  shows "d \<or> backend_inv b \<Longrightarrow> d' \<or> backend_inv b'" and "lacks rid b \<Longrightarrow> lacks rid b'" and "removes rid c \<Longrightarrow> d' \<or> lacks rid b'"
proof -
  have "(d \<or> backend_inv b \<longrightarrow> d' \<or> backend_inv b') \<and> (lacks rid b \<longrightarrow> lacks rid b') \<and> (removes rid c \<longrightarrow> d' \<or> lacks rid b')"
  proof (cases c)
    case Reset_All
    then show ?thesis using assms by (auto simp: run_control_def reset_backend_def split: if_splits)
  next
    case (Delete_Robot name)
    obtain b1 r where d: "delete_robot (sk_kit k) name b = (b1, r)" by (cases "delete_robot (sk_kit k) name b")
    then show ?thesis using assms Delete_Robot delete_lacks [OF d] delete_inv [of b "sk_kit k" name b1]
      by (auto simp: run_control_def removes_def split: if_splits sum.splits)
  qed
  then show "d \<or> backend_inv b \<Longrightarrow> d' \<or> backend_inv b'" "lacks rid b \<Longrightarrow> lacks rid b'" "removes rid c \<Longrightarrow> d' \<or> lacks rid b'" by simp_all
qed

lemma controls_lack:
  "fold (run_control k) cs (b, d) = (b', d') \<Longrightarrow> d \<or> backend_inv b
    \<Longrightarrow> (d' \<or> backend_inv b') \<and> (d \<longrightarrow> d') \<and> (lacks rid b \<or> d \<or> list_ex (removes rid) cs \<longrightarrow> d' \<or> lacks rid b')"
proof (induction cs arbitrary: b d)
  case (Cons c cs)
  obtain b1 d1 where c: "run_control k c (b, d) = (b1, d1)" by (cases "run_control k c (b, d)")
  moreover have "d \<longrightarrow> d1" using c by (auto simp: run_control_def)
  ultimately show ?case using Cons.prems control_lacks [OF c] Cons.IH [of b1 d1] by auto
qed auto

subsection \<open>Snapshots\<close>

text \<open>What an update is made of: counts, trajectories, components, poses, frames and grids. Each is looked at.\<close>

definition component_lacks :: "string \<Rightarrow> component \<Rightarrow> bool" where
  "component_lacks rid c \<longleftrightarrow> rid \<notin> set (c_robots c) \<and> kf_robot (c_anchor c) \<noteq> rid \<and> list_all (\<lambda>t. robot_of t \<noteq> rid) (c_trajectories c)"

definition graph_lacks :: "string \<Rightarrow> 'm optimized \<Rightarrow> bool" where
  "graph_lacks rid g \<longleftrightarrow> list_all (\<lambda>(k, _). kf_robot k \<noteq> rid) (og_poses g) \<and> list_all (\<lambda>(r, _). r \<noteq> rid) (og_robot_frames g)
     \<and> list_all (\<lambda>(t, _). robot_of t \<noteq> rid) (og_frames g) \<and> list_all (component_lacks rid) (og_components g)"

definition grid_lacks :: "string \<Rightarrow> rendered \<Rightarrow> bool" where
  "grid_lacks rid g \<longleftrightarrow> rid \<notin> set (rg_robots g)"

definition grids_lack :: "string \<Rightarrow> (nat, rendered) dict \<times> (string, rendered) dict \<times> (trajectory, rendered) dict \<Rightarrow> bool" where
  "grids_lack rid gs \<longleftrightarrow> list_all (\<lambda>(_, g). grid_lacks rid g) (fst gs) \<and> list_all (\<lambda>(r, g). r \<noteq> rid \<and> grid_lacks rid g) (fst (snd gs))
     \<and> list_all (\<lambda>(t, g). robot_of t \<noteq> rid \<and> grid_lacks rid g) (snd (snd gs))"

definition snapshot_lacks :: "string \<Rightarrow> 'm slam_snapshot \<Rightarrow> bool" where
  "snapshot_lacks rid sn \<longleftrightarrow> dget (sn_counts sn) rid = None \<and> list_all (\<lambda>t. robot_of (ts_trajectory t) \<noteq> rid) (sn_trajectories sn)
     \<and> graph_lacks rid (sn_optimized sn) \<and> grids_lack rid (sn_grids sn, sn_robot_grids sn, sn_trajectory_grids sn)"

definition scope_lacks :: "string \<Rightarrow> string \<Rightarrow> bool" where
  "scope_lacks rid scope \<longleftrightarrow> (\<exists>r. r \<noteq> rid \<and> scope = ''robot:'' @ r) \<or> (\<exists>t. robot_of t \<noteq> rid \<and> scope = ''trajectory:'' @ trajectory_str t)
     \<or> (\<exists>n. scope = ''component:'' @ dec n)"

definition request_lacks :: "string \<Rightarrow> 'm request \<Rightarrow> bool" where
  "request_lacks rid r = (case r of Post_Update sn \<Rightarrow> snapshot_lacks rid sn | Post_Global g \<Rightarrow> grid_lacks rid g
     | Post_Grid scope g \<Rightarrow> scope_lacks rid scope \<and> grid_lacks rid g)"

text \<open>What the external parts are relied on for: the solver, the reconstruction, the gauge and the renderer name
  only robots of what they are given.\<close>

definition local_kit :: "string \<Rightarrow> ('m, 'i) kit \<Rightarrow> bool" where
  "local_kit rid kit \<longleftrightarrow>
     (\<forall>nodes es g. list_all (\<lambda>(k, _). kf_robot k \<noteq> rid) nodes \<longrightarrow> solve kit nodes es = Inr g \<longrightarrow> graph_lacks rid g)
     \<and> (\<forall>kfs g a i. list_all (\<lambda>kf. kf_robot (k_id kf) \<noteq> rid) kfs \<longrightarrow> reconstruct kit kfs = Inr (g, a, i) \<longrightarrow> graph_lacks rid g)
     \<and> (\<forall>kfs g. list_all (\<lambda>kf. kf_robot (k_id kf) \<noteq> rid) kfs \<longrightarrow> graph_lacks rid g
          \<longrightarrow> graph_lacks rid (gauge kit g kfs) \<and> grids_lack rid (render_all kit g kfs))"

lemma counts_lack: "list_all (\<lambda>k. kf_robot k \<noteq> rid) ks \<Longrightarrow> dget (robot_counts ks) rid = None"
proof -
  have "list_all (\<lambda>k. kf_robot k \<noteq> rid) ks \<Longrightarrow> dget (fold (\<lambda>k d. dput (kf_robot k) (f k d) d) ks d) rid = dget d rid"
    for d :: "(string, nat) dict" and f
    by (induction ks arbitrary: d) (auto simp: dict_simps)
  then show "list_all (\<lambda>k. kf_robot k \<noteq> rid) ks \<Longrightarrow> dget (robot_counts ks) rid = None" by (simp add: robot_counts_def)
qed

lemma solve_keyframes: "solve_graph kit cfg b = (b', r) \<Longrightarrow> bk_keyframes b' = bk_keyframes b"
  by (auto simp: solve_graph_def rebuild_graph_def Let_def split: if_splits prod.splits option.splits)

lemma optimize_keyframes:
  assumes "optimize_and_render kit cfg now b = (b', r)"
  shows "bk_keyframes b' = bk_keyframes b"
proof -
  obtain b1 q where s: "solve_graph kit cfg b = (b1, q)" by (cases "solve_graph kit cfg b")
  then show ?thesis using assms solve_keyframes [OF s]
    by (cases q) (auto simp: optimize_and_render_def Let_def split: prod.splits if_splits)
qed

lemma optimized_from:
  assumes "optimize_and_render kit cfg now b = (b', Inr (Some sn))"
  shows "\<exists>b1 g a i. included_keyframes b \<noteq> [] \<and> solve_graph kit cfg b = (b1, Inr (g, a, i))
    \<and> sn_optimized sn = gauge kit g (included_keyframes b)
    \<and> (sn_grids sn, sn_robot_grids sn, sn_trajectory_grids sn) = render_all kit (gauge kit g (included_keyframes b)) (included_keyframes b)
    \<and> sn_counts sn = robot_counts (map k_id (included_keyframes b)) \<and> (\<exists>g1. sn_trajectories sn = trajectory_summaries g1 b')"
proof -
  have some: "included_keyframes b \<noteq> []" using assms by (auto simp: optimize_and_render_def split: if_splits)
  obtain b1 q where s: "solve_graph kit cfg b = (b1, q)" by (cases "solve_graph kit cfg b")
  then obtain v where q: "q = Inr v" using assms some by (cases q) (auto simp: optimize_and_render_def)
  obtain g a i where v: "v = (g, a, i)" by (cases v)
  obtain x y z where r: "render_all kit (gauge kit g (included_keyframes b)) (included_keyframes b) = (x, y, z)"
    by (cases "render_all kit (gauge kit g (included_keyframes b)) (included_keyframes b)")
  show ?thesis using assms some s q v r by (auto simp: optimize_and_render_def Let_def intro!: exI)
qed

lemma optimize_lacks:
  fixes b :: "('m, 'i) slam"
  assumes "optimize_and_render kit cfg now b = (b', Inr (Some sn))" and "backend_inv b" and "lacks rid b" and "local_kit rid kit"
  shows "snapshot_lacks rid sn"
proof -
  have ok: "store_ok b" using assms(2) by (simp add: backend_inv_def)
  have sel: "list_all (\<lambda>(k, _). kf_robot k \<noteq> rid) (selected b)"
    using assms(3) by (auto simp: selected_def lacks_def list_all_iff)
  have ids: "list_all (\<lambda>kf. kf_robot (k_id kf) \<noteq> rid) (included_keyframes b)"
    using assms(3) ok unfolding included_keyframes_def store_ok_def lacks_def list_all_iff by fastforce
  obtain b1 g a i g1 where sn: "included_keyframes b \<noteq> []" "solve_graph kit cfg b = (b1, Inr (g, a, i))"
    "sn_optimized sn = gauge kit g (included_keyframes b)"
    "(sn_grids sn, sn_robot_grids sn, sn_trajectory_grids sn) = render_all kit (gauge kit g (included_keyframes b)) (included_keyframes b)"
    "sn_counts sn = robot_counts (map k_id (included_keyframes b))" "sn_trajectories sn = trajectory_summaries g1 b'"
    using optimized_from [OF assms(1)] by blast
  have "graph_lacks rid g"
  proof (cases "odom_free cfg")
    case True
    then have "reconstruct kit (included_keyframes b) = Inr (g, a, i)" using sn(2) by (auto simp: solve_graph_def)
    then show ?thesis using assms(4) ids unfolding local_kit_def by blast
  next
    case False
    then have "solve kit (selected b) (included_edges b) = Inr g" using solve_graph_ok(2) [OF assms(2) sn(2) refl] sn(1) by blast
    then show ?thesis using assms(4) sel unfolding local_kit_def by blast
  qed
  then have "graph_lacks rid (sn_optimized sn)" "grids_lack rid (sn_grids sn, sn_robot_grids sn, sn_trajectory_grids sn)"
    using assms(4) ids unfolding sn(3,4) local_kit_def by blast+
  moreover have "dget (sn_counts sn) rid = None"
    using ids sn(5) counts_lack [of rid "map k_id (included_keyframes b)"] by (simp add: list_all_iff)
  moreover have "list_all (\<lambda>t. robot_of t \<noteq> rid) (trajectory_ids b')"
    using assms(3) optimize_keyframes [OF assms(1)] by (auto simp: trajectory_ids_def keys_def lacks_def list_all_iff kf_trajectory_def)
  ultimately show ?thesis using sn(6) by (simp add: snapshot_lacks_def trajectory_summaries_def list_all_iff Let_def)
qed

subsection \<open>Runs\<close>

text \<open>After the command is queued: either the worker has run it and nothing it holds mentions the robot, or it
  still waits and what the worker has in hand is of an older generation.\<close>

definition clear_phase :: "codec \<Rightarrow> string \<Rightarrow> 'm phase \<Rightarrow> bool" where
  "clear_phase c rid p = (case p of
     Holding g blobs \<Rightarrow> list_all (not_from c rid) blobs
   | Solved g sn \<Rightarrow> snapshot_lacks rid sn
   | Checked g sn \<Rightarrow> snapshot_lacks rid sn
   | Sending g rs \<Rightarrow> list_all (request_lacks rid \<circ> snd) rs
   | _ \<Rightarrow> True)"

definition old_phase :: "nat \<Rightarrow> 'm phase \<Rightarrow> bool" where
  "old_phase gen p = (case p of
     At_Top \<Rightarrow> True | Crashed \<Rightarrow> True | Draining g \<Rightarrow> g < gen | Holding g _ \<Rightarrow> g < gen | Deciding g \<Rightarrow> g < gen
   | Solved g _ \<Rightarrow> g < gen | Checked _ _ \<Rightarrow> False | Sending _ _ \<Rightarrow> False)"

text \<open>As long as the worker lives, its back end satisfies the invariant of its store and solver.\<close>

definition sound :: "('m, 'i) service \<Rightarrow> bool" where
  "sound s \<longleftrightarrow> ss_phase s = Crashed \<or> backend_inv (ss_backend s)"

lemma select_sound: "backend_inv b \<Longrightarrow> backend_inv (select_trajectories sel b)"
proof (cases sel)
  case (Change excl incl)
  have all: "backend_inv c \<Longrightarrow> backend_inv (fold (\<lambda>t b. fst (set_included t i b)) ts c)" for ts i and c :: "('a, 'b) slam"
    by (induction ts arbitrary: c) (simp_all add: selection_inv)
  assume "backend_inv b"
  then show ?thesis by (simp add: Change all)
qed (simp add: selection_inv)

lemma worker_sound:
  assumes "sound s"
  shows "sound (slam_worker k due now ok s)"
proof (cases "ss_phase s = Crashed")
  case False
  then have inv: "backend_inv (ss_backend s)" using assms by (simp add: sound_def)
  obtain b d where f: "fold (run_control k) (ss_controls s) (ss_backend s, False) = (b, d)"
    by (cases "fold (run_control k) (ss_controls s) (ss_backend s, False)")
  obtain b1 r1 where o: "optimize_and_render (sk_kit k) (sk_config k) now (ss_backend s) = (b1, r1)"
    by (cases "optimize_and_render (sk_kit k) (sk_config k) now (ss_backend s)")
  have "d \<or> backend_inv b" using controls_lack [OF f] inv by simp
  moreover have "r1 = Inr sn \<Longrightarrow> backend_inv b1" for sn using optimize_inv [OF inv, of "sk_kit k" "sk_config k" now b1] o by simp
  moreover have "backend_inv (fst (ingest_blob k blob (ss_backend s)))" for blob
    using blob_lacks(1) [OF _ inv, of k blob] by (cases "ingest_blob k blob (ss_backend s)") simp
  ultimately show ?thesis using inv f o
    by (auto simp: sound_def slam_worker_def take_controls_def ingest_next_def decide_def send_next_def
        split: phase.splits sum.splits option.splits list.splits prod.splits bool.splits) (metis fst_conv)+
qed (simp add: sound_def slam_worker_def)

lemma sound_step: "sound s \<Longrightarrow> sound (service_step k e s)"
proof (cases e)
  case (Worker due now ok)
  then show "sound s \<Longrightarrow> sound (service_step k e s)" by (simp add: worker_sound)
qed (auto simp: sound_def select_sound allow_inter_robot_def post_keyframe_def capture_def enqueue_blob_def reset_clear_def reset_control_def
    delete_clear_def delete_control_def enqueue_control_def)

definition forgotten :: "codec \<Rightarrow> string \<Rightarrow> ('m, 'i) service \<Rightarrow> ('m, 'i) service \<Rightarrow> bool" where
  "forgotten c rid s0 s \<longleftrightarrow> list_all (not_from c rid) (ss_queue s)
     \<and> (\<exists>sent. ss_sent s = ss_sent s0 @ sent \<and> list_all (request_lacks rid \<circ> snd) sent)
     \<and> ((ss_phase s = Crashed \<or> lacks rid (ss_backend s) \<and> clear_phase c rid (ss_phase s))
        \<or> list_ex (removes rid) (ss_controls s) \<and> old_phase (ss_generation s) (ss_phase s))"

definition upload_of_others :: "codec \<Rightarrow> string \<Rightarrow> service_event \<Rightarrow> bool" where
  "upload_of_others c rid e = (case e of Post_Keyframe blob \<Rightarrow> not_from c rid blob | _ \<Rightarrow> True)"

lemma same_keyframes: "bk_keyframes b' = bk_keyframes b \<Longrightarrow> lacks rid b' = lacks rid b"
  by (simp add: lacks_def)

lemma old_phase_later: "old_phase g p \<Longrightarrow> old_phase (Suc g) p"
  by (auto simp: old_phase_def split: phase.splits)

lemma list_all_tl: "list_all P xs \<Longrightarrow> list_all P (tl xs)"
  by (cases xs) simp_all

lemma forgotten_handler:
  assumes "forgotten c rid s0 s" and "upload_of_others c rid e" and "\<And>d n a. e \<noteq> Worker d n a" and "c = sk_codec k"
  shows "forgotten c rid s0 (service_step k e s)"
proof (cases e)
  case (Post_Keyframe blob)
  then show ?thesis using assms
    by (auto simp: forgotten_def upload_of_others_def post_keyframe_def capture_def enqueue_blob_def list_all_tl)
next
  case (Select_Trajectories sel)
  then show ?thesis using assms same_keyframes [OF select_keeps_keyframes [of sel "ss_backend s"], of rid] by (simp add: forgotten_def)
next
  case (Allow_Inter a)
  have "bk_keyframes (allow_inter_robot a (ss_backend s)) = bk_keyframes (ss_backend s)" by (simp add: allow_inter_robot_def)
  then show ?thesis using assms same_keyframes [of "allow_inter_robot a (ss_backend s)" "ss_backend s" rid] Allow_Inter by (simp add: forgotten_def)
next
  case (Worker d n a)
  then show ?thesis using assms(3) by blast
qed (use assms in \<open>auto simp: forgotten_def reset_clear_def reset_control_def delete_clear_def delete_control_def enqueue_control_def
      list_all_iff old_phase_later\<close>)

lemma scopes_lack:
  assumes "snapshot_lacks rid sn" and "(scope, g) \<in> set (scoped_grids sn)"
  shows "scope_lacks rid scope \<and> grid_lacks rid g"
proof -
  consider (robot) r where "scope = ''robot:'' @ r" "(r, g) \<in> set (sn_robot_grids sn)"
    | (traj) t where "scope = ''trajectory:'' @ trajectory_str t" "(t, g) \<in> set (sn_trajectory_grids sn)"
    | (comp) n where "scope = ''component:'' @ dec n" "dget (sn_grids sn) n = Some g"
    using assms(2) unfolding scoped_grids_def by (auto split: option.split_asm)
  then show ?thesis
  proof cases
    case robot
    then have "r \<noteq> rid \<and> grid_lacks rid g" using assms(1) by (auto simp: snapshot_lacks_def grids_lack_def list_all_iff)
    then show ?thesis using robot(1) unfolding scope_lacks_def by blast
  next
    case traj
    then have "robot_of t \<noteq> rid \<and> grid_lacks rid g" using assms(1) by (auto simp: snapshot_lacks_def grids_lack_def list_all_iff)
    then show ?thesis using traj(1) unfolding scope_lacks_def by blast
  next
    case comp
    then have "grid_lacks rid g" using assms(1) map_of_SomeD [OF comp(2)] by (auto simp: snapshot_lacks_def grids_lack_def list_all_iff)
    then show ?thesis using comp(1) unfolding scope_lacks_def by blast
  qed
qed

lemma majority_lacks:
  assumes "snapshot_lacks rid sn" and "majority_component sn = Some g"
  shows "grid_lacks rid g"
proof -
  let ?gs = "filter (\<lambda>g. 2 \<le> length (rg_robots g)) (map snd (sn_grids sn))"
  obtain h hs where "?gs = h # hs" "g = first_max (\<lambda>g. (length (rg_robots g), rg_width g * rg_height g)) h hs"
    using assms(2) by (cases ?gs) (simp_all add: majority_component_def)
  then have "g \<in> set ?gs" by (metis first_max_in list.simps(15))
  then have "g \<in> snd ` set (sn_grids sn)" by simp
  then show ?thesis using assms(1) by (auto simp: snapshot_lacks_def grids_lack_def list_all_iff)
qed

lemma requests_lack:
  fixes sn :: "'m slam_snapshot"
  assumes sn: "snapshot_lacks rid sn"
  shows "list_all (request_lacks rid \<circ> snd) (requests sn)"
proof -
  have "list_all (\<lambda>p. request_lacks rid (snd (case p of (scope, g) \<Rightarrow> (True, Post_Grid scope g :: 'm request)))) (scoped_grids sn)"
    using scopes_lack [OF sn] by (auto simp: request_lacks_def list_all_iff)
  then show ?thesis using sn majority_lacks [OF sn]
    by (simp add: requests_def request_lacks_def list.pred_map comp_def split: option.split)
qed

lemma worker_in_time:
  assumes "forgotten c rid s0 s" and "sound s" and "local_kit rid (sk_kit k)" and "c = sk_codec k" and "ss_phase s = Crashed \<or> lacks rid (ss_backend s) \<and> clear_phase c rid (ss_phase s)"
  shows "forgotten c rid s0 (slam_worker k due now ok s)"
proof (cases "ss_phase s")
  case At_Top
  obtain b d where f: "fold (run_control k) (ss_controls s) (ss_backend s, False) = (b, d)"
    by (cases "fold (run_control k) (ss_controls s) (ss_backend s, False)")
  have inv: "backend_inv (ss_backend s)" using assms(2) At_Top by (simp add: sound_def)
  show ?thesis using assms At_Top f controls_lack [OF f, of rid] inv
    by (auto simp: forgotten_def slam_worker_def take_controls_def clear_phase_def)
next
  case (Holding g blobs)
  show ?thesis
  proof (cases blobs)
    case (Cons blob rest)
    obtain b r where i: "ingest_blob k blob (ss_backend s) = (b, r)" by (cases "ingest_blob k blob (ss_backend s)")
    have inv: "backend_inv (ss_backend s)" using assms(2) Holding by (simp add: sound_def)
    show ?thesis using assms Holding Cons i blob_lacks(2) [OF i inv, of rid]
      by (auto simp: forgotten_def slam_worker_def ingest_next_def clear_phase_def split: sum.splits)
  qed (use assms Holding in \<open>auto simp: forgotten_def slam_worker_def clear_phase_def\<close>)
next
  case (Deciding g)
  obtain b r where o: "optimize_and_render (sk_kit k) (sk_config k) now (ss_backend s) = (b, r)"
    by (cases "optimize_and_render (sk_kit k) (sk_config k) now (ss_backend s)")
  have same: "lacks rid b = lacks rid (ss_backend s)"
    using same_keyframes [OF optimize_keyframes [OF o]] .
  have "lacks rid (ss_backend s)" "backend_inv (ss_backend s)" using assms Deciding by (simp_all add: sound_def)
  then have "r = Inr (Some sn) \<Longrightarrow> snapshot_lacks rid sn" for sn using optimize_lacks [OF _ _ _ assms(3)] o by blast
  then show ?thesis using assms Deciding o same
    by (auto simp: forgotten_def slam_worker_def decide_def clear_phase_def split: sum.splits option.splits)
next
  case (Sending g rs)
  then show ?thesis using assms
    by (cases rs) (auto simp: forgotten_def slam_worker_def send_next_def clear_phase_def split: prod.splits bool.splits)
qed (use assms requests_lack in \<open>auto simp: forgotten_def slam_worker_def clear_phase_def\<close>)

lemma worker_in_old:
  assumes "forgotten c rid s0 s" and "sound s" and "c = sk_codec k" and "list_ex (removes rid) (ss_controls s)" and "old_phase (ss_generation s) (ss_phase s)"
  shows "forgotten c rid s0 (slam_worker k due now ok s)"
proof (cases "ss_phase s")
  case At_Top
  obtain b d where f: "fold (run_control k) (ss_controls s) (ss_backend s, False) = (b, d)"
    by (cases "fold (run_control k) (ss_controls s) (ss_backend s, False)")
  have inv: "backend_inv (ss_backend s)" using assms(2) At_Top by (simp add: sound_def)
  show ?thesis using assms At_Top f controls_lack [OF f, of rid] inv
    by (auto simp: forgotten_def slam_worker_def take_controls_def clear_phase_def)
next
  case (Holding g blobs)
  show ?thesis
  proof (cases blobs)
    case (Cons blob rest)
    obtain b r where i: "ingest_blob k blob (ss_backend s) = (b, r)" by (cases "ingest_blob k blob (ss_backend s)")
    then show ?thesis using assms Holding Cons blob_lacks(1) [OF i]
      by (auto simp: forgotten_def slam_worker_def ingest_next_def old_phase_def split: sum.splits)
  qed (use assms Holding in \<open>auto simp: forgotten_def slam_worker_def old_phase_def\<close>)
next
  case (Deciding g)
  obtain b r where o: "optimize_and_render (sk_kit k) (sk_config k) now (ss_backend s) = (b, r)"
    by (cases "optimize_and_render (sk_kit k) (sk_config k) now (ss_backend s)")
  then show ?thesis using assms Deciding o
    by (auto simp: forgotten_def slam_worker_def decide_def old_phase_def split: sum.splits option.splits)
qed (use assms in \<open>auto simp: forgotten_def slam_worker_def old_phase_def\<close>)

interpretation forget: machine "service_step k" "upload_of_others (sk_codec k) rid"
    "\<lambda>s. local_kit rid (sk_kit k) \<and> sound s \<and> forgotten (sk_codec k) rid s0 s" for k rid s0
proof (unfold_locales, goal_cases)
  case (1 e s)
  then have kit: "local_kit rid (sk_kit k)" and ok: "sound s" and f: "forgotten (sk_codec k) rid s0 s" by simp_all
  have "forgotten (sk_codec k) rid s0 (service_step k e s)"
  proof (cases e)
    case (Worker d n a)
    have "ss_phase s = Crashed \<or> lacks rid (ss_backend s) \<and> clear_phase (sk_codec k) rid (ss_phase s)
        \<or> list_ex (removes rid) (ss_controls s) \<and> old_phase (ss_generation s) (ss_phase s)"
      using f by (simp add: forgotten_def)
    then show ?thesis using worker_in_time [OF f ok kit refl, of d n a] worker_in_old [OF f ok refl, of d n a] Worker by auto
  qed (use 1(1) f forgotten_handler [of "sk_codec k" rid s0 s e k] in auto)
  then show ?case using kit sound_step [OF ok, of k e] by simp
qed

text \<open>The worker never holds a generation that has not been reached.\<close>

definition generations_ok :: "('m, 'i) service \<Rightarrow> bool" where
  "generations_ok s \<longleftrightarrow> sound s \<and> (case ss_phase s of
     Draining g \<Rightarrow> g \<le> ss_generation s | Holding g _ \<Rightarrow> g \<le> ss_generation s | Deciding g \<Rightarrow> g \<le> ss_generation s
   | Solved g _ \<Rightarrow> g \<le> ss_generation s | _ \<Rightarrow> True)"

lemma generations_step:
  assumes "generations_ok s"
  shows "generations_ok (service_step k e s)"
proof -
  have "sound (service_step k e s)" using assms by (intro sound_step) (simp add: generations_ok_def)
  then show ?thesis using assms
    by (cases e) (auto simp: generations_ok_def post_keyframe_def capture_def enqueue_blob_def reset_clear_def reset_control_def
      delete_clear_def delete_control_def enqueue_control_def slam_worker_def take_controls_def ingest_next_def decide_def send_next_def
      split: phase.splits sum.splits option.splits list.splits prod.splits bool.splits)
qed

interpretation gens: machine "service_step k" "\<lambda>_. True" generations_ok for k
  by unfold_locales (rule generations_step)

definition publishing :: "'m phase \<Rightarrow> bool" where
  "publishing p = (case p of Checked _ _ \<Rightarrow> True | Sending _ _ \<Rightarrow> True | _ \<Rightarrow> False)"

text \<open>C4: Once a reset, or the deletion of a robot, is queued while the worker is not publishing, nothing that is sent
  afterwards mentions the robot: it is not counted or listed, it is in no component, has no pose and no frame, and no grid
  is of it or is drawn from it, whatever solve was under way and whatever else happens, as long as no keyframe of that robot
  is queued or uploaded. The solver, the reconstruction, the gauge and the renderer are taken to name only robots of
  the keyframes they are given.\<close>

theorem forgotten_robot_stays_off_map:
  assumes "s = fold (service_step k) before (new_service allow)" and "\<not> publishing (ss_phase s)"
    and "e = Reset_Control \<or> e = Delete_Control name \<and> strip name = rid \<and> rid \<noteq> []"
    and "list_all (not_from (sk_codec k) rid) (ss_queue s)" and "list_all (upload_of_others (sk_codec k) rid) es"
    and "local_kit rid (sk_kit k)"
  shows "\<exists>sent. ss_sent (fold (service_step k) (e # es) s) = ss_sent s @ sent \<and> list_all (request_lacks rid \<circ> snd) sent"
proof -
  have "generations_ok (new_service allow)" by (simp add: generations_ok_def sound_def new_service_def)
  then have ok: "generations_ok s" unfolding assms(1) by (intro gens.inv_run) (simp_all add: list_all_iff)
  have "old_phase (Suc (ss_generation s)) (ss_phase s)"
    using ok assms(2) by (auto simp: generations_ok_def old_phase_def publishing_def split: phase.splits)
  then have "forgotten (sk_codec k) rid s (service_step k e s)"
    using assms(3,4) by (auto simp: forgotten_def reset_control_def delete_control_def enqueue_control_def removes_def)
  moreover have "sound (service_step k e s)" using ok by (intro sound_step) (simp add: generations_ok_def)
  ultimately have "forgotten (sk_codec k) rid s (fold (service_step k) es (service_step k e s))"
    using forget.inv_run [OF assms(5), of "service_step k e s" s] assms(6) by blast
  then show ?thesis by (simp add: forgotten_def)
qed

text \<open>A keyframe of one robot waits in the queue when the deletion of another is asked for.\<close>

definition solving_kit :: "(int, bool) kit" where
  "solving_kit = tiny_kit\<lparr>solve := \<lambda>nodes _. Inr \<lparr>og_poses = map (\<lambda>(k, kf). (k, k_pose kf)) nodes, og_robot_frames = [],
     og_frames = [], og_components = [], og_error = 0\<rparr>\<rparr>"

definition solving_service :: "(int, bool) service_kit" where
  "solving_service = (tiny_service (plain_header (JInt 3)))\<lparr>sk_kit := solving_kit\<rparr>"

lemma solving_local: "local_kit rid solving_kit"
  by (auto simp: local_kit_def solving_kit_def tiny_kit_def graph_lacks_def grids_lack_def list_all_iff)

definition working :: "service_event list" where
  "working = replicate 20 (Worker True 0 True)"

theorem forgotten_robot_stays_off_map_witness:
  "\<exists>sent. ss_sent (fold (service_step solving_service) (Delete_Control ''bravo'' # working)
      (fold (service_step solving_service) [Post_Keyframe plain_blob] (new_service True)))
    = ss_sent (fold (service_step solving_service) [Post_Keyframe plain_blob] (new_service True)) @ sent
    \<and> list_all (request_lacks ''bravo'' \<circ> snd) sent"
proof (rule forgotten_robot_stays_off_map [OF refl])
  let ?s = "fold (service_step solving_service) [Post_Keyframe plain_blob] (new_service True)"
  have blob: "plain_blob \<noteq> []" "\<not> MAX_KEYFRAME_BYTES < length plain_blob"
    by (simp_all add: plain_blob_def KEYFRAME_MAGIC_def MAX_KEYFRAME_BYTES_def le16_def le32_def)
  show "\<not> publishing (ss_phase ?s)"
    using blob by (simp add: post_keyframe_def enqueue_blob_def capture_def new_service_def publishing_def)
  show "Delete_Control ''bravo'' = Reset_Control \<or> Delete_Control ''bravo'' = Delete_Control ''bravo'' \<and> strip ''bravo'' = ''bravo'' \<and> ''bravo'' \<noteq> []"
    by (intro disjI2 conjI refl) (code_simp | simp)+
  have "sk_codec solving_service = one_header (plain_header (JInt 3))" by (simp add: solving_service_def tiny_service_def)
  then have "not_from (sk_codec solving_service) ''bravo'' plain_blob" by (simp add: not_from_def plain_decodes)
  then show "list_all (not_from (sk_codec solving_service) ''bravo'') (ss_queue ?s)"
    using blob by (simp add: post_keyframe_def enqueue_blob_def capture_def new_service_def solving_service_def tiny_service_def)
  show "list_all (upload_of_others (sk_codec solving_service) ''bravo'') working"
    by (simp add: working_def upload_of_others_def list_all_iff)
  show "local_kit ''bravo'' (sk_kit solving_service)" by (simp add: solving_service_def solving_local)
qed

end
