(* ===== verification/Slam_Restart.thy ===== *)
theory Slam_Restart
  imports Slam_Safety
begin

text \<open>
  What a restart restores: replaying the captured keyframes gives the graph there was. Without priors from
  earlier solves, taking in a keyframe does not look at the last solve; what a solve changes (its result, the
  flag and the count that ask for it) is left out of the comparison. Files are replayed in the order of their names, which is that of their numbers as long as
  these have six digits.
\<close>

definition graph_of :: "('m, 'i, 'p, 'd) backend \<Rightarrow> ('m, 'i, 'p, 'd) backend" where
  "graph_of b = b\<lparr>bk_solved := None, bk_dirty := False, bk_new := 0\<rparr>"

definition same_graph :: "('m, 'i, 'p, 'd) backend \<Rightarrow> ('m, 'i, 'p, 'd) backend \<Rightarrow> bool" where
  "same_graph b c \<longleftrightarrow> graph_of b = graph_of c"

lemma same_graph_refl [simp]: "same_graph b b"
  by (simp add: same_graph_def)

lemma same_graph_expand:
  assumes "same_graph b c"
  shows "\<exists>s d n. c = b\<lparr>bk_solved := s, bk_dirty := d, bk_new := n\<rparr>"
proof -
  have "c = b\<lparr>bk_solved := bk_solved c, bk_dirty := bk_dirty c, bk_new := bk_new c\<rparr>"
    using assms by (cases b; cases c) (simp add: same_graph_def graph_of_def)
  then show ?thesis by blast
qed

lemma same_graph_updates [simp]: "same_graph b (b\<lparr>bk_solved := s, bk_dirty := d, bk_new := n\<rparr>)"
  by (simp add: same_graph_def graph_of_def)

subsection \<open>Taking in a keyframe\<close>

lemma prior_none: "registration_prior cfg = ''none'' \<Longrightarrow> registration_prior_of kit cfg g source target = None"
  by (simp add: registration_prior_of_def Let_def)

lemma add_edge_solved [simp]:
  "add_edge x e (b\<lparr>bk_solved := s, bk_dirty := d, bk_new := n\<rparr>) = (add_edge x e b)\<lparr>bk_solved := s, bk_dirty := d, bk_new := n\<rparr>"
  by (simp add: add_edge_def)

lemma consider_solved:
  assumes "registration_prior cfg = ''none''"
  shows "consider_candidate kit cfg x kf c (b\<lparr>bk_solved := s, bk_dirty := d, bk_new := n\<rparr>)
    = (consider_candidate kit cfg x kf c b)\<lparr>bk_solved := s, bk_dirty := d, bk_new := n\<rparr>"
  by (cases "dget (bk_keyframes b) (pc_id c)")
    (simp_all add: consider_candidate_def Let_def prior_none [OF assms] add_edge_def split: option.split)

lemma closures_solved:
  assumes "registration_prior cfg = ''none''"
  shows "closures kit cfg x kf cs (b\<lparr>bk_solved := s, bk_dirty := d, bk_new := n\<rparr>)
    = (closures kit cfg x kf cs b)\<lparr>bk_solved := s, bk_dirty := d, bk_new := n\<rparr>"
proof -
  have "fold (consider_candidate kit cfg x kf) cs (b\<lparr>bk_solved := s, bk_dirty := d, bk_new := n\<rparr>)
    = (fold (consider_candidate kit cfg x kf) cs b)\<lparr>bk_solved := s, bk_dirty := d, bk_new := n\<rparr>"
    by (induction cs arbitrary: b) (simp_all add: consider_solved [OF assms])
  then show ?thesis by (simp add: closures_def)
qed

lemma link_previous_solved:
  "link_previous kit cfg x prev kf (b\<lparr>bk_solved := s, bk_dirty := d, bk_new := n\<rparr>)
    = (link_previous kit cfg x prev kf b)\<lparr>bk_solved := s, bk_dirty := d, bk_new := n\<rparr>"
  by (cases "Option.bind prev (dget (bk_keyframes b))") (simp_all add: link_previous_def Let_def add_edge_def)

lemma store_solved:
  "store_keyframe x kf (b\<lparr>bk_solved := s, bk_dirty := d, bk_new := n\<rparr>)
    = (case store_keyframe x kf b of (b1, e) \<Rightarrow> (b1\<lparr>bk_solved := s, bk_dirty := d, bk_new := n\<rparr>, e))"
  by (cases "included x (k_id kf)") (simp_all add: store_keyframe_def Let_def split: prod.split option.split)

lemma file_solved:
  "same_graph (fst (file_keyframe kit kf b)) (fst (file_keyframe kit kf (b\<lparr>bk_solved := s, bk_dirty := d, bk_new := n\<rparr>)))
   \<and> snd (file_keyframe kit kf (b\<lparr>bk_solved := s, bk_dirty := d, bk_new := n\<rparr>)) = snd (file_keyframe kit kf b)"
  by (cases "index_add (places kit) (k_id kf) (the (k_descriptor kf)) (bk_index b)")
    (simp_all add: file_keyframe_def same_graph_def graph_of_def)

definition same_outcome :: "(('m, 'i, 'p, 'd) backend \<times> 'r) option \<Rightarrow> (('m, 'i, 'p, 'd) backend \<times> 'r) option \<Rightarrow> bool" where
  "same_outcome = rel_option (rel_prod same_graph (=))"

lemma ingest_solved:
  assumes prior: "registration_prior cfg = ''none''" and "c = b\<lparr>bk_solved := s, bk_dirty := d, bk_new := n\<rparr>"
  shows "same_outcome (ingest_keyframe kit cfg kf b) (ingest_keyframe kit cfg kf c)"
proof (cases "dget (bk_keyframes b) (k_id kf) \<noteq> None \<or> length (k_points kf) < min_points cfg")
  case True
  then have "ingest_keyframe kit cfg kf b = Some (b, Inr False)" "ingest_keyframe kit cfg kf c = Some (c, Inr False)"
    using assms(2) by (auto simp: ingest_keyframe_def)
  then show ?thesis using assms(2) by (simp add: same_outcome_def)
next
  case False
  let ?kf = "with_descriptor kit kf" and ?u = "\<lambda>b. b\<lparr>bk_solved := s, bk_dirty := d, bk_new := n\<rparr>"
  obtain b1 e where st: "store_keyframe (bk_excluded b) ?kf b = (b1, e)" by (cases "store_keyframe (bk_excluded b) ?kf b")
  then have st': "store_keyframe (bk_excluded b) ?kf c = (?u b1, e)" by (simp add: store_solved assms(2))
  note simps = ingest_keyframe_def Let_def same_outcome_def assms(2)
  show ?thesis
  proof (cases e)
    case None
    let ?b = "link_previous kit cfg (bk_excluded b) (dget (bk_last b) (kf_trajectory (k_id kf))) ?kf b1"
    have lp: "link_previous kit cfg (bk_excluded b) (dget (bk_last b) (kf_trajectory (k_id kf))) ?kf (?u b1) = ?u ?b"
      by (rule link_previous_solved)
    show ?thesis
    proof (cases "find_candidates kit cfg (bk_index ?b) ?kf")
      case None
      then show ?thesis using False st st' lp \<open>e = None\<close> by (simp add: simps)
    next
      case (Some out)
      show ?thesis
      proof (cases out)
        case (Inl err)
        then show ?thesis using False st st' lp \<open>e = None\<close> Some by (simp add: simps)
      next
        case (Inr cs)
        have "ingest_keyframe kit cfg kf b = Some (file_keyframe kit ?kf (closures kit cfg (bk_excluded b) ?kf cs ?b))"
          using False st \<open>e = None\<close> Some Inr by (simp add: simps)
        moreover have "ingest_keyframe kit cfg kf c = Some (file_keyframe kit ?kf (?u (closures kit cfg (bk_excluded b) ?kf cs ?b)))"
          using False st' lp \<open>e = None\<close> Some Inr by (simp add: simps closures_solved [OF prior])
        ultimately show ?thesis using file_solved [where kit = kit and kf = ?kf and b = "closures kit cfg (bk_excluded b) ?kf cs ?b" and s = s and d = d and n = n]
          by (simp add: same_outcome_def rel_prod_sel)
      qed
    qed
  qed (use False st st' in \<open>simp add: simps\<close>)
qed

lemma ingest_same:
  assumes "registration_prior cfg = ''none''" and "same_graph b c"
  shows "same_outcome (ingest_keyframe kit cfg kf b) (ingest_keyframe kit cfg kf c)"
  using same_graph_expand [OF assms(2)] ingest_solved [OF assms(1)] by blast

lemma blob_same:
  assumes "registration_prior (sk_config k) = ''none''" and "same_graph b c"
  shows "rel_prod same_graph (=) (ingest_blob k blob b) (ingest_blob k blob c)"
proof (cases "decode_keyframe (sk_codec k) blob")
  case (Inr p)
  have "same_outcome (ingest_packet (sk_kit k) (sk_pose k) (sk_config k) p b) (ingest_packet (sk_kit k) (sk_pose k) (sk_config k) p c)"
  proof -
    have seg: "bk_segments b = bk_segments c" and upd: "same_graph (b\<lparr>bk_segments := gs\<rparr>) (c\<lparr>bk_segments := gs\<rparr>)" for gs
      using same_graph_expand [OF assms(2)] by (auto simp: same_graph_def graph_of_def)
    show ?thesis using ingest_same [OF assms(1)] assms(2) seg upd
      by (auto simp: ingest_packet_def split: prod.split)
  qed
  then show ?thesis using Inr assms(2)
    by (auto simp: ingest_blob_def same_outcome_def rel_prod_sel split: option.splits sum.splits elim!: option.rel_cases)
qed (simp add: ingest_blob_def assms(2))

subsection \<open>Runs\<close>

text \<open>A run of uploads and the worker. What was captured is what has been taken in, what the worker has in hand
  and what is queued, in this order.\<close>

definition in_hand :: "'m phase \<Rightarrow> byte list list" where
  "in_hand p = (case p of Holding g blobs \<Rightarrow> blobs | _ \<Rightarrow> [])"

definition undisturbed :: "service_event \<Rightarrow> bool" where
  "undisturbed e = (case e of Post_Keyframe _ \<Rightarrow> True | Worker _ _ _ \<Rightarrow> True | _ \<Rightarrow> False)"

definition replayed :: "('m, 'i) service_kit \<Rightarrow> byte list list \<Rightarrow> bool \<Rightarrow> ('m, 'i) slam \<times> wire_error option" where
  "replayed k blobs allow = fold (restore_one k) blobs (fresh_backend allow, None)"

definition captured_all :: "('m, 'i) service_kit \<Rightarrow> bool \<Rightarrow> ('m, 'i) service \<Rightarrow> bool" where
  "captured_all k allow s \<longleftrightarrow> map fst (ss_captured s) = [0..<ss_next_file s] \<and> ss_controls s = []
     \<and> \<not> bk_stale (ss_backend s)
     \<and> (0 < ss_dropped s \<or> ss_phase s = Crashed
        \<or> (\<exists>taken b. map snd (ss_captured s) = taken @ in_hand (ss_phase s) @ ss_queue s
             \<and> replayed k taken allow = (b, None) \<and> same_graph b (ss_backend s)))"

lemma not_stale [simp]:
  "bk_stale (add_edge x e b) = bk_stale b" "bk_stale (link_previous kit cfg x prev kf b) = bk_stale b"
  "bk_stale (consider_candidate kit cfg x kf c b) = bk_stale b" "bk_stale (fst (file_keyframe kit kf b)) = bk_stale b"
  "bk_stale (fst (store_keyframe x kf b)) = bk_stale b"
  by (simp_all add: add_edge_def link_previous_def consider_candidate_def file_keyframe_def store_keyframe_def Let_def
      split: option.split sum.split prod.split)

lemma closures_not_stale [simp]: "bk_stale (closures kit cfg x kf cs b) = bk_stale b"
proof -
  have "bk_stale (fold (consider_candidate kit cfg x kf) cs b) = bk_stale b" by (induction cs arbitrary: b) simp_all
  then show ?thesis by (simp add: closures_def)
qed

lemma ingest_not_stale:
  assumes "ingest_keyframe kit cfg kf b = Some (b', r)"
  shows "bk_stale b' = bk_stale b"
proof (cases "dget (bk_keyframes b) (k_id kf) \<noteq> None \<or> length (k_points kf) < min_points cfg")
  case True
  then have "ingest_keyframe kit cfg kf b = Some (b, Inr False)" by (auto simp: ingest_keyframe_def)
  then show ?thesis using assms by simp
next
  case False
  let ?kf = "with_descriptor kit kf" and ?x = "bk_excluded b"
  obtain b1 e where s: "store_keyframe ?x ?kf b = (b1, e)" by (cases "store_keyframe ?x ?kf b")
  have b1: "bk_stale b1 = bk_stale b" using s not_stale(5) [of ?x ?kf b] by simp
  show ?thesis
  proof (cases e)
    case None
    let ?b = "link_previous kit cfg ?x (dget (bk_last b) (kf_trajectory (k_id kf))) ?kf b1"
    have "b' = ?b \<or> (\<exists>cs. b' = fst (file_keyframe kit ?kf (closures kit cfg ?x ?kf cs ?b)))"
      using assms False s None by (auto simp: ingest_keyframe_def Let_def split: option.splits sum.splits) (metis fst_conv)
    then show ?thesis using b1 by auto
  qed (use assms False s b1 in \<open>simp add: ingest_keyframe_def Let_def\<close>)
qed

lemma blob_not_stale [simp]: "bk_stale (fst (ingest_blob k blob b)) = bk_stale b"
  by (auto simp: ingest_blob_def ingest_packet_def dest: ingest_not_stale split: sum.split option.split prod.splits if_splits)

lemma optimize_same:
  assumes "\<not> bk_stale b" and "optimize_and_render kit cfg now b = (b', r)"
  shows "same_graph b b'" and "\<not> bk_stale b'"
proof -
  have "fst (solve_graph kit cfg b) = b" using assms(1) by (simp add: solve_graph_def)
  then obtain q where q: "solve_graph kit cfg b = (b, q)" by (cases "solve_graph kit cfg b") simp
  have "b' = b \<or> (\<exists>g. b' = b\<lparr>bk_solved := Some g, bk_dirty := False, bk_new := 0\<rparr>)"
  proof (cases q)
    case (Inr v)
    obtain g a i where "v = (g, a, i)" by (cases v)
    then show ?thesis using assms(2) q Inr by (auto simp: optimize_and_render_def Let_def split: prod.splits if_splits)
  qed (use assms(2) q in \<open>auto simp: optimize_and_render_def split: if_splits\<close>)
  then show "same_graph b b'" "\<not> bk_stale b'" using assms(1) by auto
qed

lemma replayed_next:
  "replayed k (taken @ [blob]) allow = restore_one k blob (replayed k taken allow)"
  by (simp add: replayed_def)

lemma same_graph_trans: "same_graph a b \<Longrightarrow> same_graph b c \<Longrightarrow> same_graph a c"
  by (simp add: same_graph_def)

lemma replayed_blob:
  assumes "registration_prior (sk_config k) = ''none''" and "replayed k taken allow = (b, None)" and "same_graph b c"
    and "ingest_blob k blob c = (c1, r)" and "\<And>e. r = Inl e \<Longrightarrow> caught e"
  shows "\<exists>b1. replayed k (taken @ [blob]) allow = (b1, None) \<and> same_graph b1 c1"
proof -
  obtain b1 r1 where b1: "ingest_blob k blob b = (b1, r1)" by (cases "ingest_blob k blob b")
  then have "same_graph b1 c1" "r1 = r" using blob_same [OF assms(1,3), of blob] assms(4) by simp_all
  then show ?thesis using assms(2,5) b1 by (cases r) (auto simp: replayed_next restore_one_def)
qed

lemma captured_step:
  assumes prior: "registration_prior (sk_config k) = ''none''" and on: "sk_capture k" and e: "undisturbed e"
    and inv: "captured_all k allow s"
  shows "captured_all k allow (service_step k e s)"
proof (cases e)
  case (Post_Keyframe blob)
  then show ?thesis using inv on
    by (auto simp: captured_all_def post_keyframe_def capture_def enqueue_blob_def)
next
  case (Worker due now ok)
  have w: "ss_controls s = []" "\<not> bk_stale (ss_backend s)" using inv by (simp_all add: captured_all_def)
  show ?thesis
  proof (cases "ss_phase s")
    case (Holding g blobs)
    show ?thesis
    proof (cases blobs)
      case (Cons blob rest)
      obtain c r where i: "ingest_blob k blob (ss_backend s) = (c, r)" by (cases "ingest_blob k blob (ss_backend s)")
      have stale: "\<not> bk_stale c" using w(2) i blob_not_stale [of k blob "ss_backend s"] by simp
      show ?thesis
      proof (cases "\<exists>e. r = Inl e \<and> \<not> caught e")
        case True
        then show ?thesis using inv Worker Holding Cons i stale
          by (auto simp: captured_all_def slam_worker_def ingest_next_def)
      next
        case False
        then have ok: "\<And>e. r = Inl e \<Longrightarrow> caught e" by blast
        have "0 < ss_dropped s \<or> (\<exists>taken b. map snd (ss_captured s) = taken @ blobs @ ss_queue s
            \<and> replayed k taken allow = (b, None) \<and> same_graph b (ss_backend s))"
          using inv Holding by (auto simp: captured_all_def in_hand_def)
        then have "0 < ss_dropped s \<or> (\<exists>taken b. map snd (ss_captured s) = taken @ rest @ ss_queue s
            \<and> replayed k taken allow = (b, None) \<and> same_graph b c)"
          using replayed_blob [OF prior _ _ i ok] Cons by (metis append.assoc append_Cons append_Nil)
        then show ?thesis using inv Worker Holding Cons i stale w ok
          by (auto simp: captured_all_def slam_worker_def ingest_next_def in_hand_def split: sum.split)
      qed
    qed (use inv Worker Holding in \<open>auto simp: captured_all_def slam_worker_def in_hand_def\<close>)
  next
    case (Deciding g)
    obtain c r where o: "optimize_and_render (sk_kit k) (sk_config k) now (ss_backend s) = (c, r)"
      by (cases "optimize_and_render (sk_kit k) (sk_config k) now (ss_backend s)")
    show ?thesis using inv Worker Deciding o optimize_same [OF w(2) o]
      by (auto simp: captured_all_def slam_worker_def decide_def in_hand_def dest: same_graph_trans split: sum.split option.split)
  next
    case (Sending g rs)
    then show ?thesis using inv Worker
      by (cases rs) (auto simp: captured_all_def slam_worker_def send_next_def in_hand_def split: prod.splits bool.splits)
  qed (use inv Worker w in \<open>auto simp: captured_all_def slam_worker_def take_controls_def in_hand_def\<close>)
qed (use e in \<open>simp_all add: undisturbed_def\<close>)

interpretation kept: machine "service_step k" undisturbed "\<lambda>s. registration_prior (sk_config k) = ''none'' \<and> sk_capture k \<and> captured_all k allow s"
  for k allow
  by unfold_locales (blast intro: captured_step)

subsection \<open>The order of the captured files\<close>

fun fixed :: "nat \<Rightarrow> nat \<Rightarrow> string" where
  "fixed 0 n = []"
| "fixed (Suc w) n = fixed w (n div 10) @ [digit (n mod 10)]"

lemma length_fixed [simp]: "length (fixed w n) = w"
  by (induction w arbitrary: n) simp_all

lemma fixed_zero: "fixed w 0 = replicate w (CHR ''0'')"
proof (induction w)
  case (Suc w)
  have "digit 0 = CHR ''0''" by code_simp
  then show ?case using Suc by (simp add: replicate_append_same)
qed simp

lemma padded_dec:
  assumes "n < 10 ^ w" and "0 < w"
  shows "length (dec n) \<le> w \<and> replicate (w - length (dec n)) (CHR ''0'') @ dec n = fixed w n"
  using assms
proof (induction w arbitrary: n)
  case (Suc w)
  show ?case
  proof (cases "n < 10")
    case True
    then have "dec n = [digit n]" by (subst dec.simps) simp
    then show ?thesis using True by (simp add: fixed_zero)
  next
    case False
    then have d: "dec n = dec (n div 10) @ [digit (n mod 10)]" by (subst dec.simps) simp
    have "n div 10 < 10 ^ w" using Suc.prems(1) by (simp add: less_mult_imp_div_less mult.commute)
    moreover have "0 < w" using Suc.prems(1) False by (cases w) auto
    ultimately show ?thesis using Suc.IH [of "n div 10"] d by auto
  qed
qed simp

lemma digit_less: "a < b \<Longrightarrow> b < 10 \<Longrightarrow> digit a < digit b"
proof -
  assume ab: "a < b" "b < 10"
  then have "of_char (digit a) < (of_char (digit b) :: nat)" by (simp add: digit_def)
  then show ?thesis by (simp add: less_char_def)
qed

lemma longer_less: "length xs = length ys \<Longrightarrow> xs < ys \<Longrightarrow> xs @ us < ys @ (vs :: string)"
proof (induction xs ys rule: list_induct2)
  case (Cons x xs y ys)
  then show ?case by auto
qed simp

lemma fixed_less: "m < n \<Longrightarrow> n < 10 ^ w \<Longrightarrow> fixed w m < fixed w n"
proof (induction w arbitrary: m n)
  case (Suc w)
  have n: "n div 10 < 10 ^ w" using Suc.prems(2) by (simp add: less_mult_imp_div_less mult.commute)
  have "m div 10 \<le> n div 10" using Suc.prems(1) by (simp add: div_le_mono)
  then consider "m div 10 < n div 10" | (same) "m div 10 = n div 10" "m mod 10 < n mod 10"
    using Suc.prems(1) by (metis div_mult_mod_eq le_neq_implies_less nat_add_left_cancel_less)
  then show ?case
  proof cases
    case 1
    then show ?thesis using Suc.IH [OF _ n] by (simp add: longer_less)
  next
    case same
    have "xs @ [digit a] < xs @ [digit b]" if "a < b" "b < 10" for xs a b
      using digit_less [OF that] by (induction xs) simp_all
    then show ?thesis using same by simp
  qed
qed simp

lemma capture_name_less: "m < n \<Longrightarrow> n < 10 ^ 6 \<Longrightarrow> capture_name m < capture_name n"
proof -
  assume "m < n" "n < 10 ^ 6"
  then have "fixed 6 m < fixed 6 n" by (rule fixed_less)
  moreover have "capture_name k = fixed 6 k @ ''.kf''" if "k < 10 ^ 6" for k
    using padded_dec [OF that] by (simp add: capture_name_def flip: append_assoc)
  ultimately show ?thesis using \<open>m < n\<close> \<open>n < 10 ^ 6\<close> by (simp add: longer_less)
qed

lemma captured_in_order:
  assumes "map fst files = [0..<n]" and "n \<le> 10 ^ 6"
  shows "sort_key (capture_name \<circ> fst) files = files"
proof (rule sort_key_id_if_sorted)
  have "sorted (map capture_name [0..<n])"
    unfolding sorted_iff_nth_mono_less
  proof (intro allI impI)
    fix i j assume ij: "i < j" "j < length (map capture_name [0..<n])"
    then have "capture_name i < capture_name j" using assms(2) by (intro capture_name_less) simp_all
    then show "map capture_name [0..<n] ! i \<le> map capture_name [0..<n] ! j" using ij by simp
  qed
  then show "sorted (map (capture_name \<circ> fst) files)" using assms(1) by (simp flip: map_map)
qed

text \<open>From a million files on the order of the names is no longer that of the numbers: the millionth comes
  before the last of six digits.\<close>

lemma millionth_file_comes_early: "capture_name 1000000 < capture_name 999999"
proof -
  have "digit 0 = CHR ''0''" "digit 1 = CHR ''1''" "digit 9 = CHR ''9''" by code_simp+
  then have names: "capture_name 1000000 = ''1000000.kf''" "capture_name 999999 = ''999999.kf''" 
    by (simp_all add: capture_name_def dec.simps [of 1000000] dec.simps [of 100000] dec.simps [of 10000] dec.simps [of 1000]
      dec.simps [of 100] dec.simps [of 10] dec.simps [of "Suc 0"] dec.simps [of 999999] dec.simps [of 99999] dec.simps [of 9999]
      dec.simps [of 999] dec.simps [of 99] dec.simps [of 9])
  show ?thesis unfolding names by (simp add: less_char_def)
qed

subsection \<open>Restoring\<close>

text \<open>C8: A restart restores the graph: after a run of uploads and of the worker in which no blob was dropped, when the
  queue is empty and the worker idle, replaying the captured files in the order of their names raises nothing and
  gives the keyframes, edges, place index and solver of the live back end. Registration uses no prior from earlier solves,
  and there are at most a million files.\<close>

theorem restart_restores_graph:
  assumes "registration_prior (sk_config k) = ''none''" and "sk_capture k" and "list_all undisturbed es"
    and "s = fold (service_step k) es (new_service allow)"
    and "ss_dropped s = 0" and "ss_queue s = []" and "ss_phase s = At_Top" and "ss_next_file s \<le> 10 ^ 6"
  shows "\<exists>b. restore_capture k (ss_captured s) (fresh_backend allow) = (b, None) \<and> same_graph b (ss_backend s)"
proof -
  have "captured_all k allow (new_service allow)"
    by (simp add: captured_all_def new_service_def replayed_def in_hand_def fresh_backend_def)
  then have inv: "captured_all k allow s" using kept.inv_run [OF assms(3), of k allow "new_service allow"] assms(1,2,4) by simp
  then have "sort_key (capture_name \<circ> fst) (ss_captured s) = ss_captured s"
    using assms(8) by (intro captured_in_order) (simp_all add: captured_all_def)
  then show ?thesis using inv assms(5-7) by (auto simp: captured_all_def in_hand_def restore_capture_def replayed_def)
qed

definition small_run :: "service_event list" where
  "small_run = [Post_Keyframe plain_blob, Worker False 0 True, Worker False 0 True, Worker False 0 True, Worker False 0 True, Worker False 0 True]"

abbreviation recorder :: "(int, bool) service_kit" where
  "recorder \<equiv> (tiny_service (plain_header (JInt 3)))\<lparr>sk_capture := True\<rparr>"

lemma tiny_kit_simps [simp]:
  "d_valid (places tiny_kit) d" "describe tiny_kit ps = (0, 0, [])"
  by (simp_all add: tiny_kit_def)

lemma recorder_simps:
  "sk_codec recorder = one_header (plain_header (JInt 3))" "sk_kit recorder = tiny_kit" "sk_config recorder = toy_config"
  "sk_pose recorder = (\<lambda>_. 0)"
  by (simp_all add: tiny_service_def)

lemma first_blob: "\<exists>b. ingest_blob recorder plain_blob (fresh_backend True) = (b, Inr True)"
  unfolding ingest_blob_def recorder_simps plain_decodes sum.case
  by (simp add: ingest_packet_def toy_config_def session_for_def fresh_backend_def
      keyframe_from_packet_def ingest_keyframe_def Let_def with_descriptor_def store_keyframe_def included_def solver_add_def
      new_solver_def registry_key_def trajectory_index_def empty_registry_def max_robots_def seq_bits_def link_previous_def
      find_candidates_def index_query_def closures_def ambiguous_match_def file_keyframe_def index_add_def)

lemma small_run_end:
  "\<exists>b. fold (service_step recorder) small_run (new_service True) = (new_service True)\<lparr>ss_backend := b, ss_captured := [(0, plain_blob)],
     ss_next_file := 1, ss_ingested := 1\<rparr>"
proof -
  obtain b where b: "ingest_blob recorder plain_blob (fresh_backend True) = (b, Inr True)" using first_blob by blast
  have "plain_blob \<noteq> []" "\<not> MAX_KEYFRAME_BYTES < length plain_blob"
    by (simp_all add: plain_blob_def KEYFRAME_MAGIC_def MAX_KEYFRAME_BYTES_def le16_def le32_def)
  then have "fold (service_step recorder) small_run (new_service True) = (new_service True)\<lparr>ss_backend := b, ss_captured := [(0, plain_blob)],
     ss_next_file := 1, ss_ingested := 1\<rparr>"
    using b by (simp add: small_run_def post_keyframe_def capture_def enqueue_blob_def new_service_def slam_worker_def
        take_controls_def ingest_next_def decide_def tiny_service_def)
  then show ?thesis by blast
qed

theorem restart_restores_graph_witness:
  "\<exists>b. restore_capture recorder (ss_captured (fold (service_step recorder) small_run (new_service True))) (fresh_backend True) = (b, None)
     \<and> same_graph b (ss_backend (fold (service_step recorder) small_run (new_service True)))
     \<and> ss_captured (fold (service_step recorder) small_run (new_service True)) = [(0, plain_blob)]"
proof -
  obtain c where c: "fold (service_step recorder) small_run (new_service True) = (new_service True)\<lparr>ss_backend := c,
      ss_captured := [(0, plain_blob)], ss_next_file := 1, ss_ingested := 1\<rparr>"
    using small_run_end by blast
  have "\<exists>b. restore_capture recorder (ss_captured (fold (service_step recorder) small_run (new_service True))) (fresh_backend True) = (b, None)
     \<and> same_graph b (ss_backend (fold (service_step recorder) small_run (new_service True)))"
  proof (rule restart_restores_graph [OF _ _ _ refl])
    show "registration_prior (sk_config recorder) = ''none''" by (simp add: recorder_simps toy_config_def)
    show "sk_capture recorder" "list_all undisturbed small_run" by (simp_all add: small_run_def undisturbed_def)
    show "ss_dropped (fold (service_step recorder) small_run (new_service True)) = 0"
      "ss_queue (fold (service_step recorder) small_run (new_service True)) = []"
      "ss_phase (fold (service_step recorder) small_run (new_service True)) = At_Top"
      "ss_next_file (fold (service_step recorder) small_run (new_service True)) \<le> 10 ^ 6"
      unfolding c by (simp_all add: new_service_def)
  qed
  then show ?thesis using c by simp
qed

end
