(* ===== verification/Missions.thy ===== *)
theory Missions
  imports Prelude
begin

text \<open>
  Mission plans of the agent (\<^verbatim>\<open>agent/agent_cortex/missions.py\<close>): the check that a plan's
  dependencies are a graph without cycles (\<open>MissionPlan.validate_graph\<close>), the choice of the
  tasks to run next (\<open>MissionExecutive.ready_wave\<close>) and the recording of results. The checking
  of field types and the invention of ids belong to the validation library; Python's limit on
  the depth of recursion is not modelled.
\<close>

subsection \<open>Plans\<close>

datatype task_status = Pending | Ready | Running | Succeeded | Failed | Blocked | Cancelled

datatype task_action = Doctor | Deploy | Drive | Navigate | Cancel | Stop | Body

record mission_task =
  k_id :: string
  k_robot :: string
  k_action :: task_action
  k_params :: json
  k_depends :: "string list"
  k_requires :: bool
  k_approved :: bool
  k_status :: task_status

text \<open>The depth-first search of \<open>visit\<close>. The set of tasks being visited is restored when a visit
  returns, so it is passed down; the set of finished ones is threaded.\<close>

function visit_all :: "(string, string list) dict \<Rightarrow> string set \<Rightarrow> string list \<Rightarrow> string set
    \<Rightarrow> pyerr + string set" where
  "visit_all deps visiting [] visited = Inr visited"
| "visit_all deps visiting (t # ts) visited =
     (if t \<in> visiting then Inl ValueError
      else if t \<in> visited then visit_all deps visiting ts visited
      else case dget deps t of None \<Rightarrow> Inl KeyError
      | Some ds \<Rightarrow> (case visit_all deps (insert t visiting) ds visited of Inl e \<Rightarrow> Inl e
          | Inr done \<Rightarrow> visit_all deps visiting ts (insert t done)))"
  by pat_completeness auto

termination
proof (relation "measures [\<lambda>(deps, visiting, ts, visited). card (fst ` set deps - visiting),
                           \<lambda>(deps, visiting, ts, visited). length ts]")
  fix deps :: "(string, string list) dict" and visiting t ts and visited :: "string set" and ds
  assume "t \<notin> visiting" and "dget deps t = Some ds"
  then have "fst ` set deps - insert t visiting \<subset> fst ` set deps - visiting"
    by (force dest: map_of_SomeD)
  then have "card (fst ` set deps - insert t visiting) < card (fst ` set deps - visiting)"
    by (rule psubset_card_mono [rotated]) simp
  then show "((deps, insert t visiting, ds, visited), (deps, visiting, t # ts, visited))
    \<in> measures [\<lambda>(deps, visiting, ts, visited). card (fst ` set deps - visiting),
                \<lambda>(deps, visiting, ts, visited). length ts]"
    by simp
qed simp_all

definition dependencies_of :: "mission_task list \<Rightarrow> (string, string list) dict" where
  "dependencies_of ts = fold (\<lambda>t. dput (k_id t) (k_depends t)) ts []"

definition known_deps :: "mission_task list \<Rightarrow> bool" where
  "known_deps ts = list_all (\<lambda>t. set (k_depends t) \<subseteq> set (map k_id ts) \<and> k_id t \<notin> set (k_depends t)) ts"

definition validate_graph :: "mission_task list \<Rightarrow> pyerr + mission_task list" where
  "validate_graph ts =
     (if \<not> distinct (map k_id ts) then Inl ValueError
      else if \<not> known_deps ts then Inl ValueError
      else ebind (visit_all (dependencies_of ts) {} (map k_id ts) {}) (\<lambda>_. Inr ts))"

subsection \<open>Waves\<close>

text \<open>A plan's tasks keep their places; a task is named by its place, as the code holds the object.\<close>

definition set_status :: "nat \<Rightarrow> task_status \<Rightarrow> mission_task list \<Rightarrow> mission_task list" where
  "set_status i st ts = ts[i := (ts ! i)\<lparr>k_status := st\<rparr>]"

definition status_of :: "mission_task list \<Rightarrow> string \<Rightarrow> pyerr + task_status" where
  "status_of ts tid = (case dget (rev (map (\<lambda>t. (k_id t, k_status t)) ts)) tid of
     None \<Rightarrow> Inl KeyError | Some st \<Rightarrow> Inr st)"

fun screen :: "nat list \<Rightarrow> mission_task list \<Rightarrow> pyerr + nat list \<times> mission_task list" where
  "screen [] ts = Inr ([], ts)"
| "screen (i # is) ts =
     (let t = ts ! i in
      if k_status t \<notin> {Pending, Ready} then screen is ts
      else ebind (emap (status_of ts) (k_depends t)) (\<lambda>deps.
        if \<exists>st \<in> set deps. st \<in> {Failed, Blocked, Cancelled} then screen is (set_status i Blocked ts)
        else if \<not> list_all (\<lambda>st. st = Succeeded) deps then screen is ts
        else if k_requires t \<and> \<not> k_approved t then screen is ts
        else ebind (screen is ts) (\<lambda>(cs, ts'). Inr (i # cs, ts'))))"

fun pick :: "nat list \<Rightarrow> string set \<Rightarrow> mission_task list \<Rightarrow> nat list \<times> mission_task list" where
  "pick [] occupied ts = ([], ts)"
| "pick (i # is) occupied ts =
     (if k_robot (ts ! i) \<in> occupied then pick is occupied ts
      else (let (wave, ts') = pick is (insert (k_robot (ts ! i)) occupied) (set_status i Ready ts) in
            (i # wave, ts')))"

definition urgency :: "mission_task list \<Rightarrow> nat \<Rightarrow> nat" where
  "urgency ts i = (if k_action (ts ! i) = Stop then 0 else 1)"

definition ready_wave :: "mission_task list \<Rightarrow> pyerr + nat list \<times> mission_task list" where
  "ready_wave ts = ebind (screen [0..<length ts] ts)
     (\<lambda>(cs, ts'). Inr (pick (sort_key (urgency ts') cs) {} ts'))"

definition mark_result :: "nat \<Rightarrow> bool \<Rightarrow> mission_task list \<Rightarrow> pyerr + mission_task list" where
  "mark_result i succeeded ts =
     (if k_status (ts ! i) \<notin> {Ready, Running} then Inl ValueError
      else Inr (set_status i (if succeeded then Succeeded else Failed) ts))"

subsection \<open>The search finds exactly the cycles\<close>

definition needs :: "(string, string list) dict \<Rightarrow> (string \<times> string) set" where
  "needs deps = {(t, d). \<exists>ds. dget deps t = Some ds \<and> d \<in> set ds}"

text \<open>A finished set: closed under dependencies, and none of its tasks on a cycle.\<close>

definition finished :: "(string, string list) dict \<Rightarrow> string set \<Rightarrow> bool" where
  "finished deps D = (needs deps `` D \<subseteq> D \<and> (\<forall>t \<in> D. (t, t) \<notin> (needs deps)\<^sup>+))"

lemma finished_reach:
  assumes "finished deps D" and "(a, b) \<in> (needs deps)\<^sup>*" and "a \<in> D"
  shows "b \<in> D"
  using assms(2,3,1) by (induction rule: rtrancl_induct) (auto simp: finished_def)

lemma finished_insert:
  assumes D: "finished deps D" and t: "dget deps t = Some ds" and ds: "set ds \<subseteq> D"
  shows "finished deps (insert t D)"
proof -
  have "(t, t) \<notin> (needs deps)\<^sup>+"
  proof
    assume cycle: "(t, t) \<in> (needs deps)\<^sup>+"
    then obtain d where d: "(t, d) \<in> needs deps" "(d, t) \<in> (needs deps)\<^sup>*"
      by (blast dest: tranclD)
    then have "d \<in> D" using t ds by (auto simp: needs_def)
    with D d(2) have "t \<in> D" by (blast intro: finished_reach)
    with D cycle show False by (simp add: finished_def)
  qed
  moreover have "needs deps `` {t} \<subseteq> D" using t ds by (auto simp: needs_def)
  ultimately show ?thesis using D by (auto simp: finished_def)
qed

lemma visit_all_finished:
  "visit_all deps visiting ts D = Inr D' \<Longrightarrow> finished deps D \<Longrightarrow>
    finished deps D' \<and> D \<subseteq> D' \<and> set ts \<subseteq> D'"
proof (induction deps visiting ts D arbitrary: D' rule: visit_all.induct)
  case (1 deps visiting visited)
  then show ?case by simp
next
  case (2 deps visiting t ts visited)
  have new: "t \<notin> visiting" using "2.prems"(1) by (auto split: if_splits)
  show ?case
  proof (cases "t \<in> visited")
    case True
    then have "visit_all deps visiting ts visited = Inr D'" using "2.prems"(1) new by simp
    from "2.IH"(1) [OF new True this "2.prems"(2)] True show ?thesis by auto
  next
    case False
    obtain ds D1 where ds: "dget deps t = Some ds"
      and D1: "visit_all deps (insert t visiting) ds visited = Inr D1"
      and rest: "visit_all deps visiting ts (insert t D1) = Inr D'"
      using "2.prems"(1) new False by (auto split: option.splits sum.splits)
    have f1: "finished deps D1" "visited \<subseteq> D1" "set ds \<subseteq> D1"
      using "2.IH"(2) [OF new False ds D1 "2.prems"(2)] by auto
    from "2.IH"(3) [OF new False ds D1 rest finished_insert [OF f1(1) ds f1(3)]] f1(2)
    show ?thesis by auto
  qed
qed

lemma visit_all_acyclic:
  assumes "acyclic (needs deps)" and "\<forall>(a, b) \<in> needs deps. dget deps b \<noteq> None"
  shows "\<forall>t \<in> set ts. dget deps t \<noteq> None \<Longrightarrow> \<forall>v \<in> visiting. \<forall>t \<in> set ts. (v, t) \<in> (needs deps)\<^sup>+ \<Longrightarrow>
    \<exists>D'. visit_all deps visiting ts D = Inr D'"
  using assms
proof (induction deps visiting ts D rule: visit_all.induct)
  case (1 deps visiting visited)
  then show ?case by simp
next
  case (2 deps visiting t ts visited)
  have new: "t \<notin> visiting"
    using "2.prems"(2,3) by (simp only: list.set ball_simps acyclic_def) blast
  have tail: "\<forall>t \<in> set ts. dget deps t \<noteq> None"
    using "2.prems"(1) by (simp only: list.set ball_simps) blast
  have reach: "\<forall>v \<in> visiting. \<forall>t \<in> set ts. (v, t) \<in> (needs deps)\<^sup>+"
    using "2.prems"(2) by (simp only: list.set ball_simps) blast
  show ?case
  proof (cases "t \<in> visited")
    case True
    obtain D' where "visit_all deps visiting ts visited = Inr D'"
      using "2.IH"(1) [OF new True tail reach "2.prems"(3,4)] by blast
    with new True show ?thesis by simp
  next
    case False
    obtain ds where ds: "dget deps t = Some ds" using "2.prems"(1) by (simp only: list.set ball_simps) blast
    have edge: "(t, d) \<in> needs deps" if "d \<in> set ds" for d using ds that by (auto simp: needs_def)
    have path: "\<forall>v \<in> insert t visiting. \<forall>d \<in> set ds. (v, d) \<in> (needs deps)\<^sup>+"
      using "2.prems"(2) edge by (auto intro: trancl_into_trancl)
    have known: "\<forall>d \<in> set ds. dget deps d \<noteq> None"
      using "2.prems"(4) edge by blast
    obtain D1 where D1: "visit_all deps (insert t visiting) ds visited = Inr D1"
      using "2.IH"(2) [OF new False ds known path "2.prems"(3,4)] by blast
    obtain D' where "visit_all deps visiting ts (insert t D1) = Inr D'"
      using "2.IH"(3) [OF new False ds D1 tail reach "2.prems"(3,4)] by blast
    with new False ds D1 show ?thesis by simp
  qed
qed

lemma visit_all_error:
  "visit_all deps visiting ts D = Inl e \<Longrightarrow> \<forall>(a, b) \<in> needs deps. dget deps b \<noteq> None \<Longrightarrow>
    \<forall>t \<in> set ts. dget deps t \<noteq> None \<Longrightarrow> e = ValueError"
proof (induction deps visiting ts D rule: visit_all.induct)
  case (1 deps visiting visited)
  then show ?case by simp
next
  case (2 deps visiting t ts visited)
  have tail: "\<forall>t \<in> set ts. dget deps t \<noteq> None"
    using "2.prems"(3) by (simp only: list.set ball_simps) blast
  obtain ds where ds: "dget deps t = Some ds"
    using "2.prems"(3) by (simp only: list.set ball_simps) blast
  show ?case
  proof (cases "t \<in> visiting")
    case True
    then show ?thesis using "2.prems"(1) by simp
  next
    case new: False
    show ?thesis
    proof (cases "t \<in> visited")
      case True
      then have "visit_all deps visiting ts visited = Inl e" using "2.prems"(1) new by simp
      from "2.IH"(1) [OF new True this "2.prems"(2) tail] show ?thesis .
    next
      case False
      have "(t, d) \<in> needs deps" if "d \<in> set ds" for d using ds that by (auto simp: needs_def)
      then have known: "\<forall>d \<in> set ds. dget deps d \<noteq> None" using "2.prems"(2) by blast
      show ?thesis
      proof (cases "visit_all deps (insert t visiting) ds visited")
        case (Inl e')
        then have "visit_all deps (insert t visiting) ds visited = Inl e" using "2.prems"(1) new False ds by simp
        from "2.IH"(2) [OF new False ds this "2.prems"(2) known] show ?thesis .
      next
        case (Inr D1)
        then have "visit_all deps visiting ts (insert t D1) = Inl e" using "2.prems"(1) new False ds by simp
        from "2.IH"(3) [OF new False ds Inr this "2.prems"(2) tail] show ?thesis .
      qed
    qed
  qed
qed

lemma dependencies_of_distinct:
  "distinct (map k_id ts) \<Longrightarrow> dependencies_of ts = map (\<lambda>t. (k_id t, k_depends t)) ts"
proof -
  have "distinct (map k_id ts) \<Longrightarrow> fst ` set acc \<inter> k_id ` set ts = {} \<Longrightarrow>
      fold (\<lambda>t. dput (k_id t) (k_depends t)) ts acc = acc @ map (\<lambda>t. (k_id t, k_depends t)) ts" for acc
  proof (induction ts arbitrary: acc)
    case (Cons t ts)
    have "dput (k_id t) (k_depends t) acc = acc @ [(k_id t, k_depends t)]"
      using Cons.prems(2) by (intro dput_new) auto
    moreover have "fst ` set (acc @ [(k_id t, k_depends t)]) \<inter> k_id ` set ts = {}"
      using Cons.prems by auto
    ultimately show ?case using Cons.IH [of "acc @ [(k_id t, k_depends t)]"] Cons.prems(1) by simp
  qed simp
  then show "distinct (map k_id ts) \<Longrightarrow> dependencies_of ts = map (\<lambda>t. (k_id t, k_depends t)) ts"
    by (simp add: dependencies_of_def)
qed

definition depends_on :: "mission_task list \<Rightarrow> (string \<times> string) set" where
  "depends_on ts = {(a, b). \<exists>t \<in> set ts. k_id t = a \<and> b \<in> set (k_depends t)}"

definition plan_ok :: "mission_task list \<Rightarrow> bool" where
  "plan_ok ts = (distinct (map k_id ts) \<and> list_all (\<lambda>t. set (k_depends t) \<subseteq> k_id ` set ts) ts)"

lemma needs_dependencies:
  assumes "distinct (map k_id ts)"
  shows "needs (dependencies_of ts) = depends_on ts"
    and "dget (dependencies_of ts) tid \<noteq> None \<longleftrightarrow> tid \<in> k_id ` set ts"
proof -
  have "dget (dependencies_of ts) a = Some ds \<longleftrightarrow> (\<exists>t \<in> set ts. k_id t = a \<and> k_depends t = ds)" for a ds
    using assms by (auto simp: dependencies_of_distinct map_of_eq_Some_iff comp_def)
  then show "needs (dependencies_of ts) = depends_on ts"
    by (auto simp: needs_def depends_on_def)
  show "dget (dependencies_of ts) tid \<noteq> None \<longleftrightarrow> tid \<in> k_id ` set ts"
    using assms by (auto simp: dependencies_of_distinct map_of_eq_None_iff image_iff)
qed

lemma search_verdict:
  assumes "plan_ok ts"
  shows "visit_all (dependencies_of ts) {} (map k_id ts) {} = Inl ValueError \<longleftrightarrow> \<not> acyclic (depends_on ts)"
    and "(\<exists>D. visit_all (dependencies_of ts) {} (map k_id ts) {} = Inr D) \<longleftrightarrow> acyclic (depends_on ts)"
proof -
  let ?deps = "dependencies_of ts" and ?run = "visit_all (dependencies_of ts) {} (map k_id ts) {}"
  have distinct: "distinct (map k_id ts)" using assms by (simp add: plan_ok_def)
  note needs = needs_dependencies [OF distinct]
  have known: "\<forall>t \<in> set (map k_id ts). dget ?deps t \<noteq> None" by (simp only: needs(2)) simp
  have edges: "\<forall>(a, b) \<in> needs ?deps. dget ?deps b \<noteq> None"
    using assms unfolding needs by (auto simp: needs(2) depends_on_def plan_ok_def list_all_iff)
  have sound: "acyclic (depends_on ts)" if "?run = Inr D" for D
  proof -
    have D: "finished ?deps D" "set (map k_id ts) \<subseteq> D"
      using visit_all_finished [OF that] by (simp_all add: finished_def)
    have "(a, a) \<notin> (needs ?deps)\<^sup>+" for a
    proof (cases "a \<in> D")
      case True
      then show ?thesis using D(1) by (simp add: finished_def)
    next
      case False
      then have "a \<notin> Domain (needs ?deps)" using D(2) unfolding needs by (auto simp: depends_on_def)
      then show ?thesis by (metis trancl_domain DomainI)
    qed
    then show ?thesis unfolding needs(1) [symmetric] by (simp add: acyclic_def)
  qed
  have succeeds: "\<exists>D. ?run = Inr D" if "acyclic (depends_on ts)"
    using visit_all_acyclic [of ?deps "map k_id ts" "{}" "{}"] that known edges by (simp add: needs(1))
  show "(\<exists>D. ?run = Inr D) \<longleftrightarrow> acyclic (depends_on ts)" using sound succeeds by blast
  show "?run = Inl ValueError \<longleftrightarrow> \<not> acyclic (depends_on ts)"
  proof (cases ?run)
    case (Inl e)
    then have "e = ValueError" using visit_all_error [OF _ edges known] by blast
    then show ?thesis using Inl succeeds by auto
  next
    case (Inr D)
    then show ?thesis using Inr sound by auto
  qed
qed

lemma validated:
  "validate_graph ts = (if plan_ok ts \<and> acyclic (depends_on ts) then Inr ts else Inl ValueError)"
proof (cases "distinct (map k_id ts) \<and> known_deps ts")
  case True
  then have ok: "plan_ok ts" by (auto simp: plan_ok_def known_deps_def list_all_iff)
  show ?thesis
  proof (cases "acyclic (depends_on ts)")
    case acyclic: True
    then obtain D where "visit_all (dependencies_of ts) {} (map k_id ts) {} = Inr D"
      using search_verdict(2) [OF ok] by blast
    then show ?thesis using True ok acyclic by (simp add: validate_graph_def)
  next
    case False
    then have "visit_all (dependencies_of ts) {} (map k_id ts) {} = Inl ValueError"
      using search_verdict(1) [OF ok] by blast
    then show ?thesis using True ok False by (simp add: validate_graph_def)
  qed
next
  case False
  have "\<not> acyclic (depends_on ts)" if ok: "plan_ok ts"
  proof -
    have "distinct (map k_id ts)" using ok by (simp add: plan_ok_def)
    then obtain t where t: "t \<in> set ts" "k_id t \<in> set (k_depends t)"
      using False ok by (auto simp: plan_ok_def known_deps_def list_all_iff)
    then have "(k_id t, k_id t) \<in> depends_on ts" by (auto simp: depends_on_def)
    then show ?thesis by (auto simp: acyclic_def)
  qed
  with False show ?thesis by (auto simp: validate_graph_def)
qed

subsection \<open>What a wave holds\<close>

text \<open>A task may run when it waits, everything it depends on has succeeded, and it is approved or
  needs no approval.\<close>

definition achieved :: "mission_task list \<Rightarrow> string set" where
  "achieved ts = {k_id t | t. t \<in> set ts \<and> k_status t = Succeeded}"

definition eligible :: "mission_task list \<Rightarrow> mission_task \<Rightarrow> bool" where
  "eligible ts t = (k_status t \<in> {Pending, Ready} \<and> set (k_depends t) \<subseteq> achieved ts
     \<and> (k_requires t \<longrightarrow> k_approved t))"

lemma set_status_nth:
  "set_status i st ts ! j = (if j = i \<and> i < length ts then (ts ! i)\<lparr>k_status := st\<rparr> else ts ! j)"
  by (cases "i < length ts"; cases "j = i"; simp add: set_status_def not_less list_update_beyond)

lemma set_status_simps [simp]:
  "length (set_status i st ts) = length ts"
  "k_robot (set_status i st ts ! j) = k_robot (ts ! j)"
  "k_action (set_status i st ts ! j) = k_action (ts ! j)"
  "j \<noteq> i \<Longrightarrow> set_status i st ts ! j = ts ! j"
  by (simp add: set_status_def) (simp_all add: set_status_nth)

lemma map_set_status:
  assumes "\<And>t. f (t\<lparr>k_status := st\<rparr>) = f t"
  shows "map f (set_status i st ts) = map f ts"
  by (rule nth_equalityI) (simp_all add: set_status_nth assms)

lemma status_of_distinct:
  assumes "distinct (map k_id ts)"
  shows "status_of ts d = Inr st \<longleftrightarrow> (\<exists>t \<in> set ts. k_id t = d \<and> k_status t = st)"
proof -
  have "distinct (map fst (rev (map (\<lambda>t. (k_id t, k_status t)) ts)))"
    using assms by (simp add: rev_map [symmetric] comp_def)
  then have "dget (rev (map (\<lambda>t. (k_id t, k_status t)) ts)) d = Some st
      \<longleftrightarrow> (\<exists>t \<in> set ts. k_id t = d \<and> k_status t = st)"
    by (auto simp: map_of_eq_Some_iff)
  moreover have "status_of ts d = Inr st \<longleftrightarrow> dget (rev (map (\<lambda>t. (k_id t, k_status t)) ts)) d = Some st"
    by (simp add: status_of_def split: option.split)
  ultimately show ?thesis by simp
qed

lemma status_of_known:
  assumes "plan_ok ts" and "t \<in> set ts"
  shows "\<exists>sts. emap (status_of ts) (k_depends t) = Inr sts
    \<and> (list_all (\<lambda>st. st = Succeeded) sts \<longleftrightarrow> set (k_depends t) \<subseteq> achieved ts)"
proof -
  have distinct: "distinct (map k_id ts)" using assms(1) by (simp add: plan_ok_def)
  have "\<exists>st. status_of ts d = Inr st" if "d \<in> set (k_depends t)" for d
  proof -
    have "d \<in> k_id ` set ts" using assms that by (auto simp: plan_ok_def list_all_iff)
    then obtain u where "u \<in> set ts" "k_id u = d" by blast
    then have "status_of ts d = Inr (k_status u)" using status_of_distinct [OF distinct] by blast
    then show ?thesis ..
  qed
  then have "\<exists>f. \<forall>d \<in> set (k_depends t). status_of ts d = Inr (f d)" by (intro bchoice) blast
  then obtain f where f: "\<And>d. d \<in> set (k_depends t) \<Longrightarrow> status_of ts d = Inr (f d)" by blast
  have "f d = Succeeded \<longleftrightarrow> d \<in> achieved ts" if "d \<in> set (k_depends t)" for d
  proof -
    have "f d = Succeeded \<longleftrightarrow> status_of ts d = Inr Succeeded" using f [OF that] by simp
    also have "\<dots> \<longleftrightarrow> d \<in> achieved ts"
      unfolding status_of_distinct [OF distinct] achieved_def by blast
    finally show ?thesis .
  qed
  moreover have "emap (status_of ts) (k_depends t) = Inr (map f (k_depends t))"
    by (rule emap_Inr) (rule f)
  ultimately show ?thesis by (auto simp: list_all_iff)
qed

lemma achieved_waiting:
  assumes "i < length ts" and "k_status (ts ! i) \<noteq> Succeeded" and "st \<noteq> Succeeded"
  shows "achieved (set_status i st ts) = achieved ts"
proof -
  have *: "achieved us = {k_id (us ! j) | j. j < length us \<and> k_status (us ! j) = Succeeded}" for us
    by (force simp: achieved_def in_set_conv_nth)
  have "k_status (set_status i st ts ! j) = Succeeded \<longleftrightarrow> k_status (ts ! j) = Succeeded" for j
    using assms by (simp add: set_status_nth)
  moreover have "k_id (set_status i st ts ! j) = k_id (ts ! j)" for j by (simp add: set_status_nth)
  ultimately show ?thesis by (simp add: *)
qed

lemma plan_ok_set_status:
  "plan_ok (set_status i st ts) = plan_ok ts"
proof -
  have depends: "map k_depends (set_status i st ts) = map k_depends ts"
    by (rule map_set_status) simp
  have ids: "map k_id (set_status i st ts) = map k_id ts" by (rule map_set_status) simp
  have *: "plan_ok us \<longleftrightarrow> distinct (map k_id us) \<and> list_all (\<lambda>ds. set ds \<subseteq> set (map k_id us)) (map k_depends us)" for us
    by (auto simp: plan_ok_def list_all_iff)
  show ?thesis unfolding * depends ids ..
qed

lemma screen_spec:
  assumes "distinct is" and "set is \<subseteq> {..<length ts}" and "plan_ok ts"
  shows "\<exists>ts'. screen is ts = Inr (filter (\<lambda>i. eligible ts (ts ! i)) is, ts')
    \<and> length ts' = length ts \<and> map k_robot ts' = map k_robot ts \<and> map k_action ts' = map k_action ts"
  using assms
proof (induction "is" arbitrary: ts)
  case (Cons i "is")
  have i: "i < length ts" and mem: "ts ! i \<in> set ts" using Cons.prems(2) by auto
  have rest: "distinct is" "set is \<subseteq> {..<length ts}" using Cons.prems(1,2) by auto
  note IH = Cons.IH [OF rest Cons.prems(3)]
  obtain sts where sts: "emap (status_of ts) (k_depends (ts ! i)) = Inr sts"
      "list_all (\<lambda>st. st = Succeeded) sts \<longleftrightarrow> set (k_depends (ts ! i)) \<subseteq> achieved ts"
    using status_of_known [OF Cons.prems(3) mem] by blast
  show ?case
  proof (cases "k_status (ts ! i) \<in> {Pending, Ready} \<and> (\<exists>st \<in> set sts. st \<in> {Failed, Blocked, Cancelled})")
    case True
    let ?ts = "set_status i Blocked ts"
    have same: "achieved ?ts = achieved ts"
      by (rule achieved_waiting [OF i]) (use True in auto)
    have "eligible ?ts (?ts ! j) = eligible ts (ts ! j)" if "j \<in> set is" for j
    proof -
      have "j \<noteq> i" using that Cons.prems(1) by auto
      then show ?thesis by (simp add: eligible_def same)
    qed
    then have "filter (\<lambda>j. eligible ?ts (?ts ! j)) is = filter (\<lambda>j. eligible ts (ts ! j)) is"
      by (rule filter_cong [OF refl])
    moreover have "\<not> eligible ts (ts ! i)"
      using True sts(2) by (auto simp: eligible_def list_all_iff)
    moreover have "map k_robot ?ts = map k_robot ts" "map k_action ?ts = map k_action ts"
      by (simp_all add: map_set_status)
    moreover have "set is \<subseteq> {..<length ?ts}" using rest(2) by simp
    ultimately show ?thesis
      using Cons.IH [OF rest(1), of ?ts] True sts(1) Cons.prems(3) by (auto simp: plan_ok_set_status Let_def)
  next
    case False
    then show ?thesis
      using IH sts by (auto simp: Let_def eligible_def)
  qed
qed simp

lemma pick_spec:
  "distinct cs \<Longrightarrow> sorted (map u cs) \<Longrightarrow> set cs \<subseteq> {..<length ts} \<Longrightarrow>
   (let (wave, ts') = pick cs occ ts in
    set wave \<subseteq> set cs \<and> distinct (map (\<lambda>i. k_robot (ts ! i)) wave)
    \<and> (\<forall>i \<in> set wave. k_robot (ts ! i) \<notin> occ \<and> k_status (ts' ! i) = Ready)
    \<and> (\<forall>i. i \<notin> set cs \<longrightarrow> ts' ! i = ts ! i)
    \<and> (\<forall>c \<in> set cs. k_robot (ts ! c) \<notin> occ \<longrightarrow> (\<exists>i \<in> set wave. k_robot (ts ! i) = k_robot (ts ! c) \<and> u i \<le> u c)))"
proof (induction cs occ ts rule: pick.induct)
  case (1 occ ts)
  then show ?case by simp
next
  case (2 c cs occ ts)
  show ?case
  proof (cases "k_robot (ts ! c) \<in> occ")
    case True
    then show ?thesis using "2.IH"(1) [OF True] "2.prems" by (auto simp: Let_def case_prod_unfold)
  next
    case False
    let ?occ = "insert (k_robot (ts ! c)) occ" and ?ts = "set_status c Ready ts"
    obtain wave ts' where p: "pick cs ?occ ?ts = (wave, ts')" by fastforce
    have c: "c < length ts" "c \<notin> set cs" using "2.prems" by auto
    have IH: "set wave \<subseteq> set cs" "distinct (map (\<lambda>i. k_robot (ts ! i)) wave)"
        "\<forall>i \<in> set wave. k_robot (ts ! i) \<notin> ?occ \<and> k_status (ts' ! i) = Ready"
        "\<forall>i. i \<notin> set cs \<longrightarrow> ts' ! i = ?ts ! i"
        "\<forall>d \<in> set cs. k_robot (ts ! d) \<notin> ?occ \<longrightarrow> (\<exists>i \<in> set wave. k_robot (ts ! i) = k_robot (ts ! d) \<and> u i \<le> u d)"
      using "2.IH"(2) [OF False] "2.prems" p by (auto simp: Let_def)
    have "\<exists>i \<in> set (c # wave). k_robot (ts ! i) = k_robot (ts ! d) \<and> u i \<le> u d"
      if d: "d \<in> set (c # cs)" "k_robot (ts ! d) \<notin> occ" for d
    proof (cases "k_robot (ts ! d) = k_robot (ts ! c)")
      case True
      moreover have "u c \<le> u d" using d(1) "2.prems"(2) by auto
      ultimately show ?thesis by auto
    next
      case False
      then have "d \<in> set cs" using d(1) by auto
      then show ?thesis using IH(5) d(2) False by auto
    qed
    moreover have "k_status (ts' ! c) = Ready" using IH(4) c by (simp add: set_status_nth)
    moreover have "ts' ! i = ts ! i" if "i \<notin> set (c # cs)" for i using IH(4) that by simp
    moreover have "distinct (map (\<lambda>i. k_robot (ts ! i)) (c # wave))" using IH(2,3) by auto
    ultimately show ?thesis using False IH(1,3) p by (auto simp: Let_def)
  qed
qed

lemma ready_wave_spec:
  assumes "plan_ok ts"
  shows "\<exists>wave ts'. ready_wave ts = Inr (wave, ts') \<and> distinct (map (\<lambda>i. k_robot (ts ! i)) wave)
    \<and> (\<forall>i \<in> set wave. i < length ts \<and> eligible ts (ts ! i) \<and> k_status (ts' ! i) = Ready)
    \<and> (\<forall>i < length ts. eligible ts (ts ! i) \<longrightarrow> (\<exists>j \<in> set wave. k_robot (ts ! j) = k_robot (ts ! i)
          \<and> urgency ts j \<le> urgency ts i))"
proof -
  let ?ok = "\<lambda>i. eligible ts (ts ! i)"
  let ?cs = "filter ?ok [0..<length ts]"
  obtain ts1 where ts1: "screen [0..<length ts] ts = Inr (?cs, ts1)" "length ts1 = length ts"
      "map k_robot ts1 = map k_robot ts" "map k_action ts1 = map k_action ts"
    using screen_spec [of "[0..<length ts]" ts] assms by (auto simp: atLeast0LessThan)
  have robot: "k_robot (ts1 ! i) = k_robot (ts ! i)" if "i < length ts" for i
    using nth_map [of i ts1 k_robot] nth_map [of i ts k_robot] that ts1(2,3) by simp
  have urgent: "urgency ts1 i = urgency ts i" if "i < length ts" for i
    using nth_map [of i ts1 k_action] nth_map [of i ts k_action] that ts1(2,4) by (simp add: urgency_def)
  let ?sorted = "sort_key (urgency ts1) ?cs"
  obtain wave ts' where p: "pick ?sorted {} ts1 = (wave, ts')" by fastforce
  have spec: "set wave \<subseteq> set ?cs" "distinct (map (\<lambda>i. k_robot (ts1 ! i)) wave)"
      "\<forall>i \<in> set wave. k_status (ts' ! i) = Ready"
      "\<forall>c \<in> set ?cs. \<exists>i \<in> set wave. k_robot (ts1 ! i) = k_robot (ts1 ! c) \<and> urgency ts1 i \<le> urgency ts1 c"
    using pick_spec [of ?sorted "urgency ts1" ts1 "{}"] p ts1(2) by auto
  have range: "i < length ts \<and> eligible ts (ts ! i)" if "i \<in> set wave" for i using spec(1) that by auto
  have eq: "map (\<lambda>i. k_robot (ts1 ! i)) wave = map (\<lambda>i. k_robot (ts ! i)) wave"
    by (rule map_cong) (use range robot in auto)
  have "distinct (map (\<lambda>i. k_robot (ts ! i)) wave)" using spec(2) unfolding eq .
  moreover have "\<exists>j \<in> set wave. k_robot (ts ! j) = k_robot (ts ! i) \<and> urgency ts j \<le> urgency ts i"
    if i: "i < length ts" "eligible ts (ts ! i)" for i
  proof -
    obtain j where j: "j \<in> set wave" "k_robot (ts1 ! j) = k_robot (ts1 ! i)" "urgency ts1 j \<le> urgency ts1 i"
      using spec(4) i by auto
    then show ?thesis using range [OF j(1)] robot urgent i(1) by auto
  qed
  ultimately show ?thesis using ts1(1) p range spec(3) by (auto simp: ready_wave_def)
qed

subsection \<open>Properties\<close>

text \<open>C10: A plan is accepted exactly when its task ids are distinct, every dependency names a task of
  the plan, and no task depends on itself through any chain; it is refused with ValueError
  otherwise. The search always ends.\<close>

theorem mission_accepted_iff_acyclic:
  "validate_graph ts = (if plan_ok ts \<and> acyclic (depends_on ts) then Inr ts else Inl ValueError)"
  by (rule validated)

text \<open>C6: For a validated plan the next wave is computed without error, sends each robot at most one
  task, holds only waiting tasks whose dependencies have all succeeded and which are approved
  or need no approval, leaves no robot idle that has such a task, and gives an emergency stop
  precedence over any other task of its robot.\<close>

theorem wave_is_safe_and_complete:
  assumes "validate_graph ts = Inr ts"
  shows "\<exists>wave ts'. ready_wave ts = Inr (wave, ts') \<and> distinct (map (\<lambda>i. k_robot (ts ! i)) wave)
    \<and> (\<forall>i \<in> set wave. i < length ts \<and> eligible ts (ts ! i) \<and> k_status (ts' ! i) = Ready)
    \<and> (\<forall>i < length ts. eligible ts (ts ! i) \<longrightarrow> (\<exists>j \<in> set wave. k_robot (ts ! j) = k_robot (ts ! i)
          \<and> (k_action (ts ! i) = Stop \<longrightarrow> k_action (ts ! j) = Stop)))"
proof -
  have "plan_ok ts" using assms unfolding validated by (simp split: if_splits)
  from ready_wave_spec [OF this] show ?thesis
    by (elim exE conjE) (intro exI conjI, assumption+, fastforce simp: urgency_def split: if_splits)
qed

definition errand :: "string \<Rightarrow> string \<Rightarrow> task_action \<Rightarrow> string list \<Rightarrow> task_status \<Rightarrow> mission_task" where
  "errand tid rid act deps st = \<lparr>k_id = tid, k_robot = rid, k_action = act, k_params = JObj [], k_depends = deps,
     k_requires = True, k_approved = True, k_status = st\<rparr>"

definition small_plan :: "mission_task list" where
  "small_plan = [errand ''a'' ''r1'' Drive [] Succeeded, errand ''b'' ''r1'' Navigate [''a''] Pending,
     errand ''c'' ''r1'' Stop [''a''] Pending, errand ''d'' ''r2'' Drive [''b''] Pending]"

theorem wave_is_safe_and_complete_witness:
  "\<exists>wave ts'. ready_wave small_plan = Inr (wave, ts') \<and> distinct (map (\<lambda>i. k_robot (small_plan ! i)) wave)"
proof -
  have "validate_graph small_plan = Inr small_plan" by code_simp
  from wave_is_safe_and_complete [OF this] show ?thesis by blast
qed

text \<open>C11: A validated plan never gets stuck: as long as nothing is running, nothing failed or was
  blocked or cancelled, and every waiting task is cleared, an unfinished plan has a next wave.\<close>

theorem mission_makes_progress:
  assumes "validate_graph ts = Inr ts"
    and "list_all (\<lambda>t. k_status t \<in> {Pending, Ready, Succeeded} \<and> (k_requires t \<longrightarrow> k_approved t)) ts"
    and "\<not> list_all (\<lambda>t. k_status t = Succeeded) ts"
  shows "\<exists>i wave ts'. ready_wave ts = Inr (i # wave, ts')"
proof -
  have ok: "plan_ok ts" and acyclic: "acyclic (depends_on ts)"
    using assms(1) unfolding validated by (simp_all split: if_splits)
  have "finite (depends_on ts)"
    by (rule finite_subset [of _ "k_id ` set ts \<times> (\<Union>t \<in> set ts. set (k_depends t))"]) (auto simp: depends_on_def)
  then have wf: "wf ((depends_on ts)\<inverse>)" by (rule finite_acyclic_wf_converse [OF _ acyclic])
  let ?waiting = "{k_id t | t. t \<in> set ts \<and> k_status t \<noteq> Succeeded}"
  obtain t0 where "t0 \<in> set ts" "k_status t0 \<noteq> Succeeded" using assms(3) by (auto simp: list_all_iff)
  then have "k_id t0 \<in> ?waiting" by blast
  from wfE_min [OF wf this] obtain a where a: "a \<in> ?waiting"
      "\<And>b. (a, b) \<in> depends_on ts \<Longrightarrow> b \<notin> ?waiting" by auto
  then obtain t where t: "t \<in> set ts" "k_id t = a" "k_status t \<noteq> Succeeded" by blast
  have "d \<in> achieved ts" if d: "d \<in> set (k_depends t)" for d
  proof -
    have "(a, d) \<in> depends_on ts" using t d by (auto simp: depends_on_def)
    then have "d \<notin> ?waiting" by (rule a(2))
    moreover obtain u where "u \<in> set ts" "k_id u = d"
      using ok t(1) d by (auto simp: plan_ok_def list_all_iff)
    ultimately show ?thesis by (auto simp: achieved_def)
  qed
  then have "eligible ts t" using assms(2) t by (auto simp: eligible_def list_all_iff)
  moreover obtain i where "i < length ts" "ts ! i = t" using t(1) by (auto simp: in_set_conv_nth)
  moreover obtain wave ts' where "ready_wave ts = Inr (wave, ts')"
      "\<forall>i < length ts. eligible ts (ts ! i) \<longrightarrow> (\<exists>j \<in> set wave. k_robot (ts ! j) = k_robot (ts ! i)
          \<and> urgency ts j \<le> urgency ts i)"
    using ready_wave_spec [OF ok] by blast
  ultimately show ?thesis by (cases wave) auto
qed

theorem mission_makes_progress_witness:
  "\<exists>i wave ts'. ready_wave small_plan = Inr (i # wave, ts')"
proof (rule mission_makes_progress)
  show "validate_graph small_plan = Inr small_plan" by code_simp
  show "list_all (\<lambda>t. k_status t \<in> {Pending, Ready, Succeeded} \<and> (k_requires t \<longrightarrow> k_approved t)) small_plan"
    by code_simp
  show "\<not> list_all (\<lambda>t. k_status t = Succeeded) small_plan" by code_simp
qed

text \<open>A wave does not look at what is already running: a robot with a running task is given a
  second one, although tasks of one robot are meant to be serialized.\<close>

lemma running_robot_gets_second_task:
  "let plan = [errand ''a'' ''r1'' Drive [] Running, errand ''b'' ''r1'' Drive [] Pending] in
   validate_graph plan = Inr plan \<and> map_sum id fst (ready_wave plan) = Inr [1]"
  by code_simp

end
