(* ===== verification/Fleet_Tools.thy ===== *)
theory Fleet_Tools
  imports Prelude
begin

text \<open>
  The agent's authority over robots (\<^verbatim>\<open>agent/agent_cortex/fleet_tools.py\<close>): which command lines a
  typed action becomes, and the results it reports. Running a command belongs to the operating
  system: the runner is an argument. A number on a command line is kept as a number instead of
  its decimal text, and the text of an error is shortened. Checking that an action has one of the eight names belongs to the
  validation library.
\<close>

subsection \<open>Actions\<close>

datatype fleet_verb = V_Doctor | V_Battery | V_Deploy | V_Drive | V_Navigate | V_Cancel | V_Stop | V_Body

record fleet_action =
  verb :: fleet_verb
  targets :: "string list"
  params :: "(string \<times> json) list"

definition read_only :: "fleet_verb \<Rightarrow> bool" where
  "read_only v = (v = V_Doctor \<or> v = V_Battery)"

definition target_char :: "char \<Rightarrow> bool" where
  "target_char c = (let n = of_char c :: nat in (48 \<le> n \<and> n \<le> 57) \<or> (65 \<le> n \<and> n \<le> 90) \<or> (97 \<le> n \<and> n \<le> 122)
     \<or> c = CHR ''_'' \<or> c = CHR ''-'')"

definition safe_target :: "string \<Rightarrow> bool" where
  "safe_target s = (1 \<le> length s \<and> length s \<le> 64 \<and> list_all target_char s)"

definition target_of :: "string \<Rightarrow> pyerr + string" where
  "target_of s = (if safe_target s then Inr s else Inl ValueError)"

definition aliases :: "(string, string) dict" where
  "aliases = [(''asimov'', ''asimov_0''), (''aslan'', ''aslan_0''), (''botman'', ''botman_0''), (''scout'', ''tars_0''),
     (''spot'', ''spot_0''), (''tars'', ''tars_0'')]"

definition canonical_id :: "string \<Rightarrow> pyerr + string" where
  "canonical_id s = ebind (target_of s) (\<lambda>t. Inr (case dget aliases (lower t) of None \<Rightarrow> t | Some r \<Rightarrow> r))"

definition profiles :: "(string, string) dict" where
  "profiles = [(''all'', ''all''), (''aslan'', ''aslan''), (''aslan_0'', ''aslan''), (''botman'', ''botman''),
     (''botman_0'', ''botman''), (''scout'', ''scout''), (''scout_0'', ''scout''), (''tars'', ''scout''),
     (''tars_0'', ''scout''), (''spot'', ''spot''), (''spot_0'', ''spot''), (''asimov'', ''asimov''), (''asimov_0'', ''asimov'')]"

definition postures :: "string list" where
  "postures = [''claim'', ''release'', ''stand'', ''sit'', ''damping'', ''lie_to_stand'', ''lock_stand'', ''walk_mode'',
     ''run_mode'', ''wave'', ''set_height'']"

text \<open>A finite number within its limits; a value that does not convert is refused.\<close>

definition number_in :: "(string \<times> json) list \<Rightarrow> string \<Rightarrow> bool \<Rightarrow> real \<Rightarrow> real \<Rightarrow> pyerr + real" where
  "number_in ps name required lo hi =
     (if required \<and> \<not> jhas ps name then Inl ValueError
      else case float_of (jget ps name (JFloat (Fin 0))) of
        Inl e \<Rightarrow> Inl (if e \<in> {TypeError, ValueError} then ValueError else e)
      | Inr (Fin x) \<Rightarrow> if lo \<le> x \<and> x \<le> hi then Inr x else Inl ValueError
      | Inr _ \<Rightarrow> Inl ValueError)"

subsection \<open>Command lines\<close>

datatype arg = Word string | Number real

record command =
  c_robot :: string
  c_argv :: "arg list"
  c_timeout :: real

record tool =
  executable :: string
  script :: string
  server_url :: string

definition base :: "tool \<Rightarrow> arg list" where
  "base t = [Word (executable t), Word (script t), Word ''--json'', Word ''--server'', Word (server_url t)]"

definition not_all :: "string \<Rightarrow> pyerr + unit" where
  "not_all robot = (if robot = ''all'' then Inl ValueError else Inr ())"

definition drive_args :: "(string \<times> json) list \<Rightarrow> string \<Rightarrow> pyerr + arg list \<times> real" where
  "drive_args ps robot = ebind (not_all robot) (\<lambda>_.
     ebind (number_in ps ''linear'' False (- 3 / 2) (3 / 2)) (\<lambda>l.
     ebind (number_in ps ''angular'' False (- 3) 3) (\<lambda>a.
     ebind (number_in ps ''duration'' False 0 30) (\<lambda>d.
       Inr ([Word ''drive'', Word robot, Word ''--linear'', Number l, Word ''--angular'', Number a,
             Word ''--duration'', Number d], d + 30)))))"

text \<open>The float \<^verbatim>\<open>math.tau\<close>.\<close>

definition tau :: real where "tau = 6283185307179586 / 1000000000000000"

definition navigate_args :: "(string \<times> json) list \<Rightarrow> string \<Rightarrow> pyerr + arg list \<times> real" where
  "navigate_args ps robot = ebind (not_all robot) (\<lambda>_.
     ebind (number_in ps ''x'' True (- 10000) 10000) (\<lambda>x.
     ebind (number_in ps ''y'' True (- 10000) 10000) (\<lambda>y.
     ebind (number_in ps ''yaw'' False (- tau) tau) (\<lambda>w.
       Inr ([Word ''navigate'', Word robot, Word ''--x'', Number x, Word ''--y'', Number y, Word ''--yaw'', Number w],
            30)))))"

definition body_args :: "(string \<times> json) list \<Rightarrow> string \<Rightarrow> pyerr + arg list \<times> real" where
  "body_args ps robot = ebind (not_all robot) (\<lambda>_.
     let act = jget ps ''action'' JNull in
     if \<not> hashable act then Inl TypeError
     else case act of JStr a \<Rightarrow>
         if a \<notin> set postures then Inl ValueError
         else ebind (if a = ''set_height''
                     then ebind (number_in ps ''height'' True (- 1) 1) (\<lambda>h. Inr [Word ''--height'', Number h])
                     else Inr []) (\<lambda>extra.
                Inr ([Word ''body'', Word robot, Word ''--action'', Word a] @ extra, 30))
     | _ \<Rightarrow> Inl ValueError)"

definition args_of :: "fleet_verb \<Rightarrow> (string \<times> json) list \<Rightarrow> string \<Rightarrow> pyerr + arg list \<times> real" where
  "args_of v ps robot = (case v of
     V_Doctor \<Rightarrow> Inr ([Word ''doctor'', Word robot]
                   @ (if truthy (jget ps ''services'' (JBool True)) then [Word ''--services''] else []), 90)
   | V_Battery \<Rightarrow> Inr ([Word ''list''], 30)
   | V_Deploy \<Rightarrow> (case dget profiles robot of None \<Rightarrow> Inl ValueError
                   | Some p \<Rightarrow> Inr ([Word ''deploy'', Word p], 360))
   | V_Drive \<Rightarrow> drive_args ps robot
   | V_Navigate \<Rightarrow> navigate_args ps robot
   | V_Cancel \<Rightarrow> ebind (not_all robot) (\<lambda>_. Inr ([Word ''cancel'', Word robot], 30))
   | V_Stop \<Rightarrow> Inr ([Word ''stop'', Word robot], 30)
   | V_Body \<Rightarrow> body_args ps robot)"

definition build_commands :: "tool \<Rightarrow> fleet_action \<Rightarrow> bool \<Rightarrow> pyerr + command list" where
  "build_commands t a approved =
     (if targets a = [] then Inl ValueError
      else if \<not> read_only (verb a) \<and> \<not> approved then Inl PermissionError
      else ebind (emap target_of (targets a)) (\<lambda>robots.
        if verb a = V_Battery
        then Inr [\<lparr>c_robot = ''all'', c_argv = base t @ [Word ''list''], c_timeout = 30\<rparr>]
        else emap (\<lambda>robot. ebind (args_of (verb a) (params a) robot) (\<lambda>(argv, timeout).
               Inr \<lparr>c_robot = robot, c_argv = base t @ argv, c_timeout = timeout\<rparr>)) robots))"

subsection \<open>Results\<close>

type_synonym result = "(string \<times> json) list"

text \<open>\<^verbatim>\<open>v == 0\<close>\<close>

definition is_zero :: "json \<Rightarrow> bool" where
  "is_zero v = (v = JInt 0 \<or> v = JFloat (Fin 0) \<or> v = JBool False)"

definition is_int :: "json \<Rightarrow> bool" where
  "is_int v = (case v of JInt _ \<Rightarrow> True | JBool _ \<Rightarrow> True | _ \<Rightarrow> False)"

definition succeeded :: "result \<Rightarrow> bool" where
  "succeeded r = is_zero (jget r ''returncode'' JNull)"

definition no_telemetry :: "string \<Rightarrow> json \<Rightarrow> json \<Rightarrow> result" where
  "no_telemetry robot code err = [(''robot_id'', JStr robot), (''returncode'', code), (''battery_fraction'', JNull),
     (''battery_percent'', JNull), (''online'', JNull), (''error'', err)]"

definition fraction_of :: "json \<Rightarrow> pyerr + real option" where
  "fraction_of b = (if b = JNull then Inr None
     else ebind (catching {TypeError, ValueError} None (ebind (float_of b) (\<lambda>f. Inr (Some f)))) (\<lambda>f.
       Inr (case f of Some (Fin x) \<Rightarrow> Some x | _ \<Rightarrow> None)))"

definition battery_of :: "(string, result) dict \<Rightarrow> string \<Rightarrow> pyerr + result" where
  "battery_of fleet robot = (case dget fleet robot of
     None \<Rightarrow> Inr (no_telemetry robot (JInt 1) (JStr ''not found in the fleet snapshot''))
   | Some tele \<Rightarrow> ebind (fraction_of (jget tele ''battery'' JNull)) (\<lambda>f. Inr
       [(''robot_id'', JStr robot), (''returncode'', JInt 0),
        (''battery_fraction'', (case f of None \<Rightarrow> JNull | Some x \<Rightarrow> JFloat (Fin x))),
        (''battery_percent'', (case f of None \<Rightarrow> JNull | Some x \<Rightarrow> JFloat (Fin (py_round 1 (x * 100))))),
        (''online'', jget tele ''online'' JNull)]))"

definition fleet_of :: "json list \<Rightarrow> (string, result) dict" where
  "fleet_of items = fold (\<lambda>item d. case item of
       JObj kvs \<Rightarrow> (case jget kvs ''robot_id'' JNull of JStr rid \<Rightarrow> dput rid kvs d | _ \<Rightarrow> d) | _ \<Rightarrow> d) items []"

definition battery_results :: "string list \<Rightarrow> result \<Rightarrow> pyerr + result list" where
  "battery_results requested snap =
     ebind (emap canonical_id requested) (\<lambda>robots.
       let code = jget snap ''returncode'' JNull in
       case (is_zero code, jget snap ''payload'' JNull) of
         (True, JList items) \<Rightarrow>
           (let fleet = fleet_of items in
            emap (battery_of fleet) (if robots = [''all''] then keys fleet else robots))
       | _ \<Rightarrow>
           (let e = jget snap ''stderr'' JNull;
                err = (if truthy e then e else JStr ''robot list returned invalid JSON'') in
            Inr (map (\<lambda>r. no_telemetry r (if is_int code then code else JInt 1) err) robots)))"

record report =
  ok :: bool
  r_verb :: fleet_verb
  results :: "result list"

definition invoke :: "tool \<Rightarrow> (arg list \<Rightarrow> real \<Rightarrow> pyerr + result) \<Rightarrow> fleet_action \<Rightarrow> bool \<Rightarrow> pyerr + report" where
  "invoke t runner a approved =
     ebind (build_commands t a approved) (\<lambda>cs.
     ebind (if verb a = V_Battery
            then (case cs of [] \<Rightarrow> Inl IndexError
                  | c # _ \<Rightarrow> ebind (runner (c_argv c) (c_timeout c)) (battery_results (targets a)))
            else emap (\<lambda>c. ebind (runner (c_argv c) (c_timeout c)) (\<lambda>r.
                   Inr (fold (\<lambda>(k, v). dput k v) r [(''robot_id'', JStr (c_robot c))]))) cs) (\<lambda>rs.
       Inr \<lparr>ok = list_all succeeded rs, r_verb = verb a, results = rs\<rparr>))"

subsection \<open>What a command line can hold\<close>

lemma ebind_Inr_iff: "ebind m f = Inr y \<longleftrightarrow> (\<exists>x. m = Inr x \<and> f x = Inr y)"
  by (cases m) simp_all

lemma emap_Inr_iff: "emap f xs = Inr ys \<longleftrightarrow> list_all2 (\<lambda>x y. f x = Inr y) xs ys"
  by (induction xs arbitrary: ys) (auto simp: ebind_Inr_iff list_all2_Cons1)

lemma number_in_range: "number_in ps name req lo hi = Inr x \<Longrightarrow> lo \<le> x \<and> x \<le> hi"
  by (auto simp: number_in_def split: if_splits sum.splits pyfloat.splits)

text \<open>The drive commands an approved action can lead to.\<close>

definition bounded_drive :: "tool \<Rightarrow> command \<Rightarrow> bool" where
  "bounded_drive t c = (\<exists>l w d. c_argv c = base t @ [Word ''drive'', Word (c_robot c), Word ''--linear'', Number l,
       Word ''--angular'', Number w, Word ''--duration'', Number d]
     \<and> \<bar>l\<bar> \<le> 3 / 2 \<and> \<bar>w\<bar> \<le> 3 \<and> 0 \<le> d \<and> d \<le> 30 \<and> c_robot c \<noteq> ''all'' \<and> safe_target (c_robot c))"

definition inspects :: "tool \<Rightarrow> command \<Rightarrow> bool" where
  "inspects t c = (c_argv c = base t @ [Word ''list''] \<or> (\<exists>rest. c_argv c = base t @ Word ''doctor'' # rest))"

lemma built_commands:
  assumes "build_commands t a approved = Inr cs" and "verb a \<noteq> V_Battery"
  shows "list_all (\<lambda>c. safe_target (c_robot c) \<and> (\<exists>argv timeout. args_of (verb a) (params a) (c_robot c) = Inr (argv, timeout)
    \<and> c_argv c = base t @ argv \<and> c_timeout c = timeout)) cs"
proof -
  obtain robots where robots: "emap target_of (targets a) = Inr robots"
      "emap (\<lambda>robot. ebind (args_of (verb a) (params a) robot) (\<lambda>(argv, timeout).
               Inr \<lparr>c_robot = robot, c_argv = base t @ argv, c_timeout = timeout\<rparr>)) robots = Inr cs"
    using assms by (auto simp: build_commands_def ebind_Inr_iff split: if_splits)
  have "safe_target r" if "r \<in> set robots" for r
    using robots(1) that
    by (auto simp: emap_Inr_iff target_of_def list_all2_conv_all_nth in_set_conv_nth split: if_splits)
  moreover have "list_all2 (\<lambda>r c. \<exists>argv timeout. args_of (verb a) (params a) r = Inr (argv, timeout)
      \<and> c = \<lparr>c_robot = r, c_argv = base t @ argv, c_timeout = timeout\<rparr>) robots cs"
    using robots(2) unfolding emap_Inr_iff
    by (rule list_all2_mono) (auto simp: ebind_Inr_iff split: prod.splits)
  ultimately show ?thesis
    by (fastforce simp: list_all_iff list_all2_conv_all_nth in_set_conv_nth)
qed

lemma doctor_inspects:
  assumes "build_commands t a False = Inr cs"
  shows "list_all (inspects t) cs"
proof (cases "verb a")
  case V_Battery
  then show ?thesis
    using assms by (auto simp: build_commands_def inspects_def ebind_Inr_iff read_only_def split: if_splits)
next
  case V_Doctor
  with built_commands [OF assms] show ?thesis
    by (auto simp: args_of_def inspects_def list_all_iff)
qed (use assms in \<open>simp_all add: build_commands_def read_only_def split: if_splits\<close>)

lemma drive_args_bounded:
  assumes "drive_args ps r = Inr (argv, timeout)"
  shows "\<exists>l w d. argv = [Word ''drive'', Word r, Word ''--linear'', Number l, Word ''--angular'', Number w,
       Word ''--duration'', Number d] \<and> \<bar>l\<bar> \<le> 3 / 2 \<and> \<bar>w\<bar> \<le> 3 \<and> 0 \<le> d \<and> d \<le> 30 \<and> r \<noteq> ''all''"
proof -
  obtain l w d where n: "number_in ps ''linear'' False (- 3 / 2) (3 / 2) = Inr l"
      "number_in ps ''angular'' False (- 3) 3 = Inr w" "number_in ps ''duration'' False 0 30 = Inr d"
    and argv: "argv = [Word ''drive'', Word r, Word ''--linear'', Number l, Word ''--angular'', Number w,
       Word ''--duration'', Number d]" and r: "r \<noteq> ''all''"
    using assms by (auto simp: drive_args_def not_all_def ebind_Inr_iff split: if_splits)
  have "\<bar>l\<bar> \<le> 3 / 2 \<and> \<bar>w\<bar> \<le> 3 \<and> 0 \<le> d \<and> d \<le> 30"
    using number_in_range [OF n(1)] number_in_range [OF n(2)] number_in_range [OF n(3)] by auto
  with argv r show ?thesis by blast
qed

subsection \<open>Properties\<close>

text \<open>Without the operator's approval nothing but inspection is ever run: a mutating action is
  refused before any command line exists, whatever the runner, and a read-only action leads
  only to \<open>list\<close> and \<open>doctor\<close>.\<close>

lemma nothing_moves_without_approval:
  "if read_only (verb a)
   then (case build_commands t a False of Inl e \<Rightarrow> invoke t runner a False = Inl e | Inr cs \<Rightarrow> list_all (inspects t) cs)
   else invoke t runner a False = Inl (if targets a = [] then ValueError else PermissionError)"
  using doctor_inspects [of t a]
  by (auto simp: invoke_def build_commands_def [of t a False] split: sum.split)

text \<open>An approved drive action becomes one command for each named robot, never for the whole
  fleet, with finite speeds and a duration within the limits.\<close>

lemma approved_drive_is_bounded:
  assumes "build_commands t a approved = Inr cs" and "verb a = V_Drive"
  shows "approved \<and> map c_robot cs = targets a \<and> list_all (bounded_drive t) cs"
proof -
  have yes: approved using assms by (auto simp: build_commands_def read_only_def split: if_splits)
  have names: "map c_robot cs = targets a"
  proof -
    obtain robots where r: "emap target_of (targets a) = Inr robots"
        "emap (\<lambda>robot. ebind (args_of (verb a) (params a) robot) (\<lambda>(argv, timeout).
               Inr \<lparr>c_robot = robot, c_argv = base t @ argv, c_timeout = timeout\<rparr>)) robots = Inr cs"
      using assms by (auto simp: build_commands_def ebind_Inr_iff split: if_splits)
    have "list_all2 (\<lambda>x y. y = x) (targets a) robots"
      using r(1) unfolding emap_Inr_iff by (rule list_all2_mono) (simp add: target_of_def split: if_splits)
    moreover have "list_all2 (\<lambda>r c. c_robot c = r) robots cs"
      using r(2) unfolding emap_Inr_iff by (rule list_all2_mono) (auto simp: ebind_Inr_iff)
    ultimately show ?thesis by (simp add: list_all2_conv_all_nth list_eq_iff_nth_eq)
  qed
  have "bounded_drive t c" if c: "safe_target (c_robot c)" "drive_args (params a) (c_robot c) = Inr (argv, timeout)"
      "c_argv c = base t @ argv" for c argv timeout
    using drive_args_bounded [OF c(2)] c(1,3) unfolding bounded_drive_def by blast
  then have "list_all (bounded_drive t) cs"
    using built_commands [OF assms(1)] assms(2) by (fastforce simp: list_all_iff args_of_def)
  with yes names show ?thesis by blast
qed

definition nudge :: fleet_action where
  "nudge = \<lparr>verb = V_Drive, targets = [''aslan_0''], params = [(''linear'', JInt 1), (''duration'', JInt 2)]\<rparr>"

definition robot_tool :: tool where
  "robot_tool = \<lparr>executable = ''python'', script = ''robot_tool.py'', server_url = ''http://server:8080''\<rparr>"

lemma approved_drive_is_bounded_witness:
  "list_all (bounded_drive robot_tool) (case build_commands robot_tool nudge True of Inr cs \<Rightarrow> cs | Inl e \<Rightarrow> [])"
proof -
  have "build_commands robot_tool nudge True = Inr (case build_commands robot_tool nudge True of Inr cs \<Rightarrow> cs | Inl e \<Rightarrow> [])"
    "verb nudge = V_Drive" by code_simp+
  from approved_drive_is_bounded [OF this] show ?thesis by blast
qed

text \<open>A target may look like an option: this stop of a robot called \<open>-h\<close> asks the tool for help
  instead, which succeeds.\<close>

lemma option_taken_for_target:
  "map_sum id (map c_argv) (build_commands robot_tool \<lparr>verb = V_Stop, targets = [''-h''], params = []\<rparr> True)
   = Inr [base robot_tool @ [Word ''stop'', Word ''-h'']]"
  by code_simp

end
