(* ===== verification/Cortex_Store.thy ===== *)
theory Cortex_Store
  imports Prelude
begin

text \<open>
  The agent's durable state (\<^verbatim>\<open>agent/agent_cortex/store.py\<close>): jobs, their append-only events,
  memory candidates and compactions. A table is a list of rows in order of insertion; the
  database's own rules that the code relies on are written out: a reference to a missing job
  violates a foreign key, a statement that fails changes nothing. Fresh ids and the clock are
  arguments. Rows that two statements of one call touch are written in one transaction.
\<close>

subsection \<open>Tables\<close>

record job =
  j_id :: string
  j_conversation :: "string option"
  j_kind :: string
  j_phase :: string
  j_provider :: string
  j_robot :: "string option"
  j_request :: string
  j_metadata :: json
  j_error :: "string option"
  j_created :: real
  j_updated :: real

record event =
  v_id :: nat
  v_job :: string
  v_seq :: int
  v_type :: string
  v_payload :: json
  v_created :: real

record memory =
  m_id :: string
  m_scope :: string
  m_key :: string
  m_value :: json
  m_status :: string
  m_confidence :: pyfloat
  m_source :: "string option"
  m_created :: real
  m_reviewed :: "real option"

record compaction =
  n_id :: string
  n_job :: string
  n_through :: int
  n_summary :: string
  n_created :: real

record db =
  jobs :: "job list"
  events :: "event list"
  memories :: "memory list"
  compactions :: "compaction list"
  next_event :: nat

datatype store_error = Integrity | Bad_Value | Bad_Type

definition empty_db :: db where
  "empty_db = \<lparr>jobs = [], events = [], memories = [], compactions = [], next_event = 1\<rparr>"

definition has_job :: "db \<Rightarrow> string \<Rightarrow> bool" where
  "has_job d jid = (jid \<in> j_id ` set (jobs d))"

subsection \<open>Jobs and events\<close>

definition create_job :: "string \<Rightarrow> real \<Rightarrow> string \<Rightarrow> string \<Rightarrow> string \<Rightarrow> string option \<Rightarrow> string option \<Rightarrow> json
    \<Rightarrow> db \<Rightarrow> store_error + string \<times> db" where
  "create_job jid now kind provider request conv robot meta d =
     (if has_job d jid then Inl Integrity
      else Inr (jid, d\<lparr>jobs := jobs d @ [\<lparr>j_id = jid, j_conversation = conv, j_kind = kind, j_phase = ''running'',
        j_provider = provider, j_robot = robot, j_request = request,
        j_metadata = (if truthy meta then meta else JObj []), j_error = None, j_created = now, j_updated = now\<rparr>]\<rparr>))"

definition of_job :: "string \<Rightarrow> db \<Rightarrow> event list" where
  "of_job jid d = filter (\<lambda>v. v_job v = jid) (events d)"

definition next_seq :: "string \<Rightarrow> db \<Rightarrow> int" where
  "next_seq jid d = foldr (\<lambda>v. max (v_seq v)) (of_job jid d) 0 + 1"

definition touch :: "real \<Rightarrow> string \<Rightarrow> job list \<Rightarrow> job list" where
  "touch now jid = map (\<lambda>j. if j_id j = jid then j\<lparr>j_updated := now\<rparr> else j)"

definition append_event :: "real \<Rightarrow> string \<Rightarrow> string \<Rightarrow> json \<Rightarrow> db \<Rightarrow> store_error + int \<times> db" where
  "append_event now jid ty payload d =
     (if \<not> has_job d jid then Inl Integrity
      else let n = next_seq jid d in
        Inr (n, d\<lparr>events := events d @ [\<lparr>v_id = next_event d, v_job = jid, v_seq = n, v_type = ty,
                                          v_payload = payload, v_created = now\<rparr>],
                  next_event := next_event d + 1, jobs := touch now jid (jobs d)\<rparr>))"

definition set_phase :: "real \<Rightarrow> string \<Rightarrow> string \<Rightarrow> string option \<Rightarrow> db \<Rightarrow> db" where
  "set_phase now jid phase err d = d\<lparr>jobs := map (\<lambda>j. if j_id j = jid
     then j\<lparr>j_phase := phase, j_error := err, j_updated := now\<rparr> else j) (jobs d)\<rparr>"

definition restart_error :: string where
  "restart_error = ''Cortex restarted before the provider stream completed''"

definition interrupt_running_jobs :: "real \<Rightarrow> db \<Rightarrow> nat \<times> db" where
  "interrupt_running_jobs now d =
     (length (filter (\<lambda>j. j_phase j = ''running'') (jobs d)),
      d\<lparr>jobs := map (\<lambda>j. if j_phase j = ''running''
        then j\<lparr>j_phase := ''interrupted'', j_error := Some restart_error, j_updated := now\<rparr> else j) (jobs d)\<rparr>)"

definition get_job :: "string \<Rightarrow> db \<Rightarrow> job option" where
  "get_job jid d = find (\<lambda>j. j_id j = jid) (jobs d)"

text \<open>Equal times may come in any order; here in the order of the rows.\<close>

definition list_jobs :: "json \<Rightarrow> db \<Rightarrow> pyerr + job list" where
  "list_jobs n d = ebind (py_int n) (\<lambda>n. Inr (take (nat (max 1 (min n 500))) (sort_key (\<lambda>j. - j_updated j) (jobs d))))"

definition get_events :: "string \<Rightarrow> db \<Rightarrow> event list" where
  "get_events jid d = sort_key v_seq (of_job jid d)"

subsection \<open>Memories and compactions\<close>

definition propose_memory :: "string \<Rightarrow> real \<Rightarrow> string \<Rightarrow> string \<Rightarrow> json \<Rightarrow> pyfloat \<Rightarrow> string option \<Rightarrow> db
    \<Rightarrow> store_error + string \<times> db" where
  "propose_memory mid now scope key v confidence source d =
     (if mid \<in> m_id ` set (memories d) \<or> (case source of None \<Rightarrow> False | Some j \<Rightarrow> \<not> has_job d j) then Inl Integrity
      else Inr (mid, d\<lparr>memories := memories d @ [\<lparr>m_id = mid, m_scope = scope, m_key = key, m_value = v,
        m_status = ''candidate'', m_confidence = py_max (Fin 0) (py_min confidence (Fin 1)), m_source = source,
        m_created = now, m_reviewed = None\<rparr>]\<rparr>))"

definition review_memory :: "real \<Rightarrow> string \<Rightarrow> string \<Rightarrow> db \<Rightarrow> store_error + db" where
  "review_memory now mid status d =
     (if status \<notin> {''confirmed'', ''rejected''} then Inl Bad_Value
      else Inr (d\<lparr>memories := map (\<lambda>m. if m_id m = mid then m\<lparr>m_status := status, m_reviewed := Some now\<rparr> else m)
                               (memories d)\<rparr>))"

definition list_memories :: "string option \<Rightarrow> string option \<Rightarrow> db \<Rightarrow> memory list" where
  "list_memories scope status d = sort_key (\<lambda>m. - m_created m)
     (filter (\<lambda>m. (scope = None \<or> scope = Some (m_scope m)) \<and> (status = None \<or> status = Some (m_status m)))
       (memories d))"

definition add_compaction :: "string \<Rightarrow> real \<Rightarrow> string \<Rightarrow> int \<Rightarrow> string \<Rightarrow> db \<Rightarrow> store_error + string \<times> db" where
  "add_compaction cid now jid through summary d =
     (if cid \<in> n_id ` set (compactions d) \<or> \<not> has_job d jid then Inl Integrity
      else Inr (cid, d\<lparr>compactions := compactions d @ [\<lparr>n_id = cid, n_job = jid, n_through = through,
                        n_summary = summary, n_created = now\<rparr>]\<rparr>))"

text \<open>The compaction that reaches furthest; of those, the newest.\<close>

definition supersedes :: "compaction \<Rightarrow> compaction \<Rightarrow> bool" where
  "supersedes a b = (n_through b < n_through a \<or> n_through a = n_through b \<and> n_created b < n_created a)"

definition latest_compaction :: "string \<Rightarrow> db \<Rightarrow> compaction option" where
  "latest_compaction jid d = fold (\<lambda>c best. case best of None \<Rightarrow> Some c
     | Some b \<Rightarrow> if supersedes c b then Some c else best) (filter (\<lambda>c. n_job c = jid) (compactions d)) None"

record replay =
  y_summary :: "string option"
  y_through :: int
  y_events :: "event list"

definition get_replay_context :: "string \<Rightarrow> db \<Rightarrow> replay" where
  "get_replay_context jid d =
     (let c = latest_compaction jid d; through = (case c of None \<Rightarrow> 0 | Some c \<Rightarrow> n_through c) in
      \<lparr>y_summary = map_option n_summary c, y_through = through,
       y_events = sort_key v_seq (filter (\<lambda>v. through < v_seq v) (of_job jid d))\<rparr>)"

subsection \<open>The invariant\<close>

datatype store_event =
    Create string real string string string "string option" "string option" json
  | Append real string string json
  | Phase real string string "string option"
  | Interrupt real
  | Propose string real string string json pyfloat "string option"
  | Review real string string
  | Compact string real string int string

definition kept :: "db \<Rightarrow> store_error + 'a \<times> db \<Rightarrow> db" where
  "kept d r = (case r of Inl e \<Rightarrow> d | Inr (x, d') \<Rightarrow> d')"

fun store_step :: "store_event \<Rightarrow> db \<Rightarrow> db" where
  "store_step (Create jid now kind provider request conv robot meta) d
     = kept d (create_job jid now kind provider request conv robot meta d)"
| "store_step (Append now jid ty payload) d = kept d (append_event now jid ty payload d)"
| "store_step (Phase now jid phase err) d = set_phase now jid phase err d"
| "store_step (Interrupt now) d = snd (interrupt_running_jobs now d)"
| "store_step (Propose mid now scope key v confidence source) d
     = kept d (propose_memory mid now scope key v confidence source d)"
| "store_step (Review now mid status) d = (case review_memory now mid status d of Inl e \<Rightarrow> d | Inr d' \<Rightarrow> d')"
| "store_step (Compact cid now jid through summary) d = kept d (add_compaction cid now jid through summary d)"

text \<open>The events of a job are numbered from one without gaps, in the order they were appended.\<close>

definition gapless :: "event list \<Rightarrow> bool" where
  "gapless vs = (map v_seq vs = map int [1..<Suc (length vs)])"

text \<open>A memory is a candidate until someone has reviewed it, and its confidence is a fraction.\<close>

definition memory_ok :: "memory \<Rightarrow> bool" where
  "memory_ok m = ((if m_reviewed m = None then m_status m = ''candidate'' else m_status m \<in> {''confirmed'', ''rejected''})
     \<and> (\<exists>r. m_confidence m = Fin r \<and> 0 \<le> r \<and> r \<le> 1))"

definition store_ok :: "db \<Rightarrow> bool" where
  "store_ok d = (distinct (map j_id (jobs d)) \<and> (\<forall>jid. gapless (of_job jid d))
     \<and> (\<forall>v \<in> set (events d). has_job d (v_job v)) \<and> (\<forall>c \<in> set (compactions d). has_job d (n_job c))
     \<and> (\<forall>m \<in> set (memories d). memory_ok m))"

lemma foldr_max_upt: "0 \<le> m \<Longrightarrow> foldr max (map int [1..<Suc n]) m = max (int n) m"
  by (induction n arbitrary: m) auto

lemma next_seq_gapless:
  assumes "gapless (of_job jid d)"
  shows "next_seq jid d = int (length (of_job jid d)) + 1"
proof -
  have "foldr (\<lambda>v. max (v_seq v)) (of_job jid d) 0 = foldr max (map v_seq (of_job jid d)) 0"
    by (simp add: foldr_map comp_def)
  also have "\<dots> = max (int (length (of_job jid d))) 0"
    unfolding assms [unfolded gapless_def] by (rule foldr_max_upt) simp
  finally show ?thesis by (simp add: next_seq_def)
qed

lemma touched_ids:
  assumes "\<And>j. j_id (f j) = j_id j"
  shows "map j_id (map f js) = map j_id js" and "has_job (d\<lparr>jobs := map f js\<rparr>) jid \<longleftrightarrow> jid \<in> j_id ` set js"
  using assms by (auto simp: has_job_def image_image)

lemma store_ok_jobs:
  assumes "store_ok d" and "map j_id js = map j_id (jobs d)"
  shows "store_ok (d\<lparr>jobs := js\<rparr>)"
proof -
  have "j_id ` set js = j_id ` set (jobs d)" using assms(2) by (metis list.set_map)
  then show ?thesis using assms by (auto simp: store_ok_def has_job_def of_job_def)
qed

lemma store_ok_append:
  assumes "store_ok d" and "has_job d jid"
  shows "store_ok (kept d (append_event now jid ty payload d))"
proof -
  let ?v = "\<lparr>v_id = next_event d, v_job = jid, v_seq = next_seq jid d, v_type = ty, v_payload = payload, v_created = now\<rparr>"
  let ?d = "d\<lparr>events := events d @ [?v], next_event := next_event d + 1\<rparr>"
  have "gapless (of_job k ?d)" for k
  proof (cases "k = jid")
    case True
    then have "of_job k ?d = of_job jid d @ [?v]" by (simp add: of_job_def)
    moreover have "gapless (of_job jid d)" using assms(1) by (simp add: store_ok_def)
    ultimately show ?thesis using next_seq_gapless [of jid d] by (simp add: gapless_def)
  next
    case False
    then have "of_job k ?d = of_job k d" by (simp add: of_job_def)
    then show ?thesis using assms(1) by (simp add: store_ok_def)
  qed
  then have "store_ok ?d" using assms by (auto simp: store_ok_def has_job_def)
  from store_ok_jobs [OF this, of "touch now jid (jobs d)"] show ?thesis
    using assms(2) by (simp add: append_event_def kept_def Let_def touch_def comp_def if_distrib cong: if_cong)
qed

lemma store_step_ok:
  assumes "store_ok d"
  shows "store_ok (store_step e d)"
proof (cases e)
  case (Create jid now kind provider request conv robot meta)
  then show ?thesis
    using assms by (auto simp: create_job_def kept_def store_ok_def has_job_def of_job_def)
next
  case (Append now jid ty payload)
  then show ?thesis
    using assms store_ok_append [OF assms, of jid] by (cases "has_job d jid") (auto simp: append_event_def kept_def)
next
  case (Phase now jid phase err)
  then show ?thesis
    unfolding Phase by (simp add: set_phase_def) (rule store_ok_jobs [OF assms], simp)
next
  case (Interrupt now)
  then show ?thesis
    unfolding Interrupt by (simp add: interrupt_running_jobs_def) (rule store_ok_jobs [OF assms], simp)
next
  case (Propose mid now scope key v confidence source)
  have "\<exists>r. py_max (Fin 0) (py_min confidence (Fin 1)) = Fin r \<and> 0 \<le> r \<and> r \<le> 1"
    by (cases confidence) (auto simp: py_max_def py_min_def)
  then show ?thesis
    using assms Propose by (auto simp: propose_memory_def kept_def store_ok_def has_job_def of_job_def memory_ok_def)
next
  case (Review now mid status)
  then show ?thesis
    using assms by (auto simp: review_memory_def store_ok_def has_job_def of_job_def memory_ok_def)
next
  case (Compact cid now jid through summary)
  then show ?thesis
    using assms by (auto simp: add_compaction_def kept_def store_ok_def has_job_def of_job_def)
qed

interpretation store: machine store_step "\<lambda>_. True" store_ok
  by unfold_locales (rule store_step_ok)

lemma all_events_allowed: "list_all (\<lambda>_. True) xs"
  by (simp add: list_all_iff)

lemma empty_db_ok: "store_ok empty_db"
  by (simp add: store_ok_def empty_db_def of_job_def gapless_def)

lemma gapless_sorted: "gapless vs \<Longrightarrow> sort_key v_seq vs = vs"
  by (rule sort_key_id_if_sorted) (simp add: gapless_def sorted_map sorted_wrt_upt del: upt_Suc)

lemma gapless_filter:
  assumes "gapless vs"
  shows "filter (\<lambda>v. n < v_seq v) vs = drop (nat n) vs"
proof -
  have seq: "v_seq (vs ! i) = int i + 1" if "i < length vs" for i
    using arg_cong [OF assms [unfolded gapless_def], of "\<lambda>xs. xs ! i"] that by (simp del: upt_Suc)
  have "filter (\<lambda>v. n < v_seq v) (take (nat n) vs) = []"
    by (auto simp: filter_empty_conv in_set_conv_nth seq)
  moreover have "filter (\<lambda>v. n < v_seq v) (drop (nat n) vs) = drop (nat n) vs"
    by (auto simp: filter_id_conv in_set_conv_nth seq)
  ultimately have "filter (\<lambda>v. n < v_seq v) (take (nat n) vs @ drop (nat n) vs) = drop (nat n) vs"
    by (simp only: filter_append append_Nil)
  then show ?thesis by simp
qed

lemma gapless_of_job: "store_ok d \<Longrightarrow> gapless (of_job jid d)"
  by (simp add: store_ok_def)

text \<open>After any sequence of store operations starting from an empty database, including the refused
  ones, job ids are unique, every event and compaction belongs to a job, the events of each job
  are numbered 1, 2, 3, ... in the order they were appended, an unreviewed memory is still a
  candidate and every confidence lies between 0 and 1.\<close>

lemma store_reachable_ok: "store_ok (fold store_step es empty_db)"
  by (rule store.inv_run [OF all_events_allowed empty_db_ok])

text \<open>Compaction loses nothing: in any reachable database, the events replayed to a resumed job are
  exactly the job's full record without its first \<^verbatim>\<open>through_sequence\<close> events, and taking another
  compaction leaves the full record as it was.\<close>

lemma replay_is_suffix:
  "let d = fold store_step es empty_db; y = get_replay_context jid d in
     y_events y = drop (nat (y_through y)) (get_events jid d)
     \<and> get_events jid (store_step (Compact cid now jid' through summary) d) = get_events jid d"
proof -
  define d where "d = fold store_step es empty_db"
  have g: "gapless (of_job jid d)"
    unfolding d_def using store.inv_run [OF all_events_allowed empty_db_ok] by (rule gapless_of_job)
  have "sort_key v_seq (filter (\<lambda>v. n < v_seq v) (of_job jid d)) = drop (nat n) (of_job jid d)" for n
    using filter_sort [of "\<lambda>v. n < v_seq v" v_seq "of_job jid d"]
    by (simp only: gapless_sorted [OF g] gapless_filter [OF g])
  then have "y_events (get_replay_context jid d) = drop (nat (y_through (get_replay_context jid d))) (get_events jid d)"
    by (simp add: get_replay_context_def Let_def get_events_def gapless_sorted [OF g])
  moreover have "get_events jid (store_step (Compact cid now jid' through summary) d) = get_events jid d"
    by (simp add: add_compaction_def kept_def get_events_def of_job_def)
  ultimately show ?thesis by (simp add: d_def Let_def)
qed

end
