(* ===== verification/Robot.thy ===== *)
theory Robot
  imports Prelude
begin

text \<open>
  A robot's side of a goal: \<^verbatim>\<open>adapters/adapter_ros2/adapter_ros2.py\<close> (\<open>drive\<close>, \<open>cancel_goal\<close>,
  \<open>navigate_to\<close> with Nav2 or with Spot's trajectory action and its rotate, drive and turn steps)
  and the deadman policy of \<^verbatim>\<open>adapters/runtime.py\<close> (\<open>AdapterLinkMixin\<close>).

  What reaches the robot is the list \<open>sent\<close>. Action servers, services and the transform tree
  belong to ROS: they are arguments (\<open>ros\<close>). While a handler waits for a service another one
  may run; \<open>waiting\<close> is what it does to the state. An angle and the unit quaternion that
  carries it are identified, and the constant fields of a trajectory goal are left out.
  Entries of the configuration are numbers that fit a float, as they are in every profile; the
  checks of the velocity limit are the program's own.
\<close>

subsection \<open>State\<close>

datatype motor =
    Velocity pyfloat pyfloat
  | Send_Nav nat pyfloat pyfloat pyfloat
  | Send_Traj nat string "real \<times> real \<times> real"
  | Cancel_Handle nat
  | Stop_Service
  | Set_Limit pyfloat pyfloat pyfloat
  | Plan_Start nat
  | Plan_Stop
  | Body_Command json json

record bridge =
  gen :: nat
  handle :: "nat option"
  b_goal :: "json option"
  nav :: string
  b_mode :: json
  b_paths :: "json list"
  aim :: "json option"
  step_name :: string
  steps :: nat
  step_error :: "real option"
  last_drive :: real
  last_link_at :: real
  pending_drive :: "(pyfloat \<times> pyfloat) option"
  sent :: "motor list"

record rigid =
  q_x :: real
  q_y :: real
  q_z :: real
  q_w :: real
  p_x :: real
  p_y :: real
  p_z :: real

datatype limit_reply = No_Service | No_Answer | Raised_Limit | Answered bool

record ros =
  has_cmd :: bool
  has_nav :: bool
  has_traj :: bool
  traj_types :: bool
  has_velocity :: bool
  stop_ready :: bool
  server_ready :: bool
  submits :: bool
  tf :: "string \<Rightarrow> rigid option"
  limit_answer :: limit_reply
  waiting :: "bridge \<Rightarrow> bridge"
  control_mode :: string
  traj_frame :: string
  feed_frame :: string
  limit :: "(string \<times> json) list"
  max_steps :: int
  position_tolerance :: real
  heading_tolerance :: real
  min_progress_m :: real
  min_progress_rad :: real
  drive_timeout :: real
  link_timeout :: real

definition put :: "motor \<Rightarrow> bridge \<Rightarrow> bridge" where
  "put m b = b\<lparr>sent := sent b @ [m]\<rparr>"

subsection \<open>Geometry\<close>

definition quat_norm :: "rigid \<Rightarrow> real" where
  "quat_norm t = hypot (hypot (q_x t) (q_y t)) (hypot (q_z t) (q_w t))"

text \<open>\<^verbatim>\<open>v + w * 2(q x v) + q x (2(q x v))\<close> with the normalised quaternion, then the translation.\<close>

definition transform_point :: "real \<times> real \<times> real \<Rightarrow> rigid \<Rightarrow> (real \<times> real \<times> real) option" where
  "transform_point v t = (let n = quat_norm t in if n < 1 / 10 ^ 9 then None else
     (let (x, y, z) = v; a = q_x t / n; b = q_y t / n; c = q_z t / n; w = q_w t / n;
          cx = 2 * (b * z - c * y); cy = 2 * (c * x - a * z); cz = 2 * (a * y - b * x) in
      Some (x + w * cx + (b * cz - c * cy) + p_x t,
            y + w * cy + (c * cx - a * cz) + p_y t,
            z + w * cz + (a * cy - b * cx) + p_z t)))"

definition atan2 :: "real \<Rightarrow> real \<Rightarrow> real" where
  "atan2 y x = Arg (Complex x y)"

definition heading :: "real \<Rightarrow> real \<times> real \<times> real" where
  "heading w = (cos w, sin w, 0)"

text \<open>Evaluation at the angle zero; elsewhere these functions have no executable form.\<close>

lemma atan2_code [code]:
  "atan2 y x = (if y = 0 \<and> 0 \<le> x then 0 else Code.abort (STR ''irrational angle'') (\<lambda>_. atan2 y x))"
proof -
  have "atan2 0 x = 0" if "0 \<le> x"
  proof (cases "x = 0")
    case True
    then show ?thesis by (simp add: atan2_def Arg_def complex_eq_iff flip: complex_of_real_def zero_complex.code)
  next
    case False
    with that have "Arg (complex_of_real x) = 0" by (intro cis_Arg_unique) (simp_all add: sgn_of_real)
    then show ?thesis by (simp add: atan2_def flip: complex_of_real_def)
  qed
  then show ?thesis by (simp add: Code.abort_def)
qed

lemma heading_code [code]:
  "heading w = (if w = 0 then (1, 0, 0) else Code.abort (STR ''irrational angle'') (\<lambda>_. heading w))"
  by (simp add: heading_def Code.abort_def)

definition fin :: "pyfloat \<Rightarrow> real option" where
  "fin f = (case f of Fin r \<Rightarrow> Some r | _ \<Rightarrow> None)"

text \<open>The goal in the robot's frame. The point must be finite; a yaw that is infinite makes
  \<^verbatim>\<open>math.cos\<close> raise, one that is not a number is refused with the point it would give.\<close>

definition coord :: "string \<Rightarrow> json \<Rightarrow> pyerr + pyfloat" where
  "coord k goal = ebind (jindex goal k) float_of"

definition yaw_field :: "json \<Rightarrow> json option" where
  "yaw_field goal = (case jget (obj_fields goal) ''yaw'' JNull of JNull \<Rightarrow> None | v \<Rightarrow> Some v)"

definition body_yaw :: "json \<Rightarrow> rigid \<Rightarrow> pyerr + real option" where
  "body_yaw goal t = (case yaw_field goal of None \<Rightarrow> Inr (Some 0)
     | Some v \<Rightarrow> ebind (float_of v) (\<lambda>yaw. case yaw of
         Fin w \<Rightarrow> Inr (map_option (\<lambda>(hx, hy, hz). atan2 hy hx)
           (transform_point (heading w) (t\<lparr>p_x := 0, p_y := 0, p_z := 0\<rparr>)))
       | NaN \<Rightarrow> Inr None
       | _ \<Rightarrow> Inl ValueError))"

definition goal_in_body :: "ros \<Rightarrow> string \<Rightarrow> json \<Rightarrow> pyerr + (real \<times> real \<times> real) option" where
  "goal_in_body rs frame goal =
     (case tf rs frame of None \<Rightarrow> Inr None | Some t \<Rightarrow>
      ebind (coord ''x'' goal) (\<lambda>gx. ebind (coord ''y'' goal) (\<lambda>gy.
      (case (fin gx, fin gy) of
        (Some x, Some y) \<Rightarrow>
          (case transform_point (x, y, 0) t of None \<Rightarrow> Inr None
           | Some (bx, by, bz) \<Rightarrow> ebind (body_yaw goal t) (\<lambda>w. Inr (map_option (\<lambda>w. (bx, by, w)) w)))
      | _ \<Rightarrow> Inr None))))"

subsection \<open>Ending and replacing goals\<close>

definition finish_goal :: "string \<Rightarrow> bridge \<Rightarrow> bridge" where
  "finish_goal st b = b\<lparr>nav := st, b_mode := JStr ''idle'', b_goal := None, b_paths := [], handle := None,
     aim := None, step_name := [], steps := 0, step_error := None\<rparr>"

definition cancel_goal :: "ros \<Rightarrow> bridge \<Rightarrow> bridge" where
  "cancel_goal rs b =
     (let b1 = b\<lparr>gen := gen b + 1\<rparr>;
          b2 = (case handle b1 of None \<Rightarrow> b1 | Some h \<Rightarrow> (put (Cancel_Handle h) b1)\<lparr>handle := None\<rparr>);
          b3 = b2\<lparr>b_goal := None, b_paths := [], nav := ''cancelled'', b_mode := JStr ''idle'', aim := None,
                  step_name := [], steps := 0, step_error := None\<rparr> in
      if has_traj rs
      then (let b4 = (if has_cmd rs then put (Velocity (Fin 0) (Fin 0)) b3 else b3) in
            if stop_ready rs then put Stop_Service b4 else b4)
      else b3)"

definition moves :: "pyfloat \<Rightarrow> bool" where
  "moves v = flt (Fin (1 / 1000)) (fabs v)"

definition drive :: "ros \<Rightarrow> real \<Rightarrow> pyfloat \<Rightarrow> pyfloat \<Rightarrow> bridge \<Rightarrow> bridge" where
  "drive rs now lin ang b =
     (if \<not> has_cmd rs then b
      else (let moving = (moves lin \<or> moves ang);
                b1 = (if moving \<and> nav b = ''active'' then cancel_goal rs b else b);
                b2 = put (Velocity lin ang) b1 in
            b2\<lparr>b_mode := (if moving then JStr ''teleop'' else b_mode b2), last_drive := (if moving then now else 0)\<rparr>))"

subsection \<open>Pursuing a goal\<close>

definition goal_point :: "json \<Rightarrow> pyerr + json" where
  "goal_point goal = ebind (coord ''x'' goal) (\<lambda>x. ebind (coord ''y'' goal) (\<lambda>y.
     Inr (JObj [(''x'', JFloat x), (''y'', JFloat y)])))"

definition arm_goal :: "json \<Rightarrow> bridge update" where
  "arm_goal goal b = (case goal_point goal of Inl e \<Rightarrow> (b, Some e)
     | Inr g \<Rightarrow> (b\<lparr>b_goal := Some g, nav := ''active'', b_mode := JStr ''nav''\<rparr>, None))"

definition send_pose :: "ros \<Rightarrow> real \<times> real \<times> real \<Rightarrow> nat \<Rightarrow> string \<Rightarrow> bridge \<Rightarrow> bridge" where
  "send_pose rs pose g step b =
     (let b1 = b\<lparr>step_name := step\<rparr> in
      if submits rs then put (Send_Traj g step pose) b1 else finish_goal ''failed'' b1)"

definition progress_frame :: "ros \<Rightarrow> string" where
  "progress_frame rs = (if strip (feed_frame rs) \<noteq> [] then strip (feed_frame rs) else traj_frame rs)"

text \<open>The next step towards a target: its name, the pose to command and the error it works on;
  \<open>None\<close> when the target is reached.\<close>

definition next_step :: "ros \<Rightarrow> json \<Rightarrow> real \<times> real \<times> real \<Rightarrow> (string \<times> (real \<times> real \<times> real) \<times> real) option" where
  "next_step rs goal pose =
     (case pose of (dx, dy, w) \<Rightarrow>
      let ptol = max (1 / 100) (position_tolerance rs); htol = max (1 / 100) (heading_tolerance rs) in
      if ptol < hypot dx dy then
        (if ptol < \<bar>dy\<bar> then Some (''align'', (0, 0, atan2 dy dx), \<bar>atan2 dy dx\<bar>)
         else Some (''drive'', (dx, 0, 0), hypot dx dy))
      else if yaw_field goal \<noteq> None then
        (if \<bar>w\<bar> \<le> htol then None else Some (''final_turn'', (0, 0, w), \<bar>w\<bar>))
      else None)"

definition continue_diff :: "ros \<Rightarrow> nat \<Rightarrow> bridge update" where
  "continue_diff rs g b =
     (case aim b of None \<Rightarrow> (b, None) | Some goal \<Rightarrow>
      if g \<noteq> gen b then (b, None)
      else if max 1 (max_steps rs) \<le> int (steps b) then (finish_goal ''failed'' b, None)
      else (case goal_in_body rs (progress_frame rs) goal of
          Inl e \<Rightarrow> (b, Some e)
        | Inr None \<Rightarrow> (finish_goal ''failed'' b, None)
        | Inr (Some pose) \<Rightarrow> (case next_step rs goal pose of
            None \<Rightarrow> (finish_goal ''succeeded'' b, None)
          | Some (step, out, err) \<Rightarrow>
              (send_pose rs out g step (b\<lparr>steps := steps b + 1, step_error := Some err\<rparr>), None))))"

definition is_diff :: "ros \<Rightarrow> bool" where
  "is_diff rs =
     (if strip (lower (control_mode rs)) \<noteq> [] then strip (lower (control_mode rs)) = ''differential''
      else (case float_of (jget (limit rs) ''linear_y'' (JFloat (Fin 1))) of
          Inr (Fin v) \<Rightarrow> \<bar>v\<bar> \<le> 1 / 10 ^ 9 | _ \<Rightarrow> False))"

definition limit_values :: "(string \<times> json) list \<Rightarrow> (pyfloat \<times> pyfloat \<times> pyfloat) option" where
  "limit_values kvs = (case ebind (coord ''linear_x'' (JObj kvs)) (\<lambda>x.
       ebind (float_of (jget kvs ''linear_y'' (JFloat x))) (\<lambda>y.
       ebind (coord ''angular_z'' (JObj kvs)) (\<lambda>z. Inr (x, y, z)))) of
     Inl e \<Rightarrow> None
   | Inr (x, y, z) \<Rightarrow>
       if is_finite x \<and> is_finite y \<and> is_finite z \<and> flt (Fin 0) x \<and> fle (Fin 0) y \<and> flt (Fin 0) z
       then Some (x, y, z) else None)"

definition apply_limit :: "ros \<Rightarrow> bridge \<Rightarrow> bridge \<times> bool" where
  "apply_limit rs b =
     (if limit rs = [] then (b, True)
      else if \<not> has_velocity rs \<or> limit_answer rs = No_Service then (b, False)
      else (case limit_values (limit rs) of None \<Rightarrow> (b, False)
        | Some (x, y, z) \<Rightarrow> (waiting rs (put (Set_Limit x y z) b), limit_answer rs = Answered True)))"

definition navigate_trajectory :: "ros \<Rightarrow> json \<Rightarrow> bridge update" where
  "navigate_trajectory rs goal b =
     (if \<not> traj_types rs then (b\<lparr>nav := ''failed''\<rparr>, None)
      else let b = waiting rs b in
      if \<not> server_ready rs then (b\<lparr>nav := ''failed''\<rparr>, None)
      else (case goal_in_body rs (traj_frame rs) goal of
          Inl e \<Rightarrow> (b, Some e)
        | Inr None \<Rightarrow> (b\<lparr>nav := ''failed''\<rparr>, None)
        | Inr (Some pose) \<Rightarrow>
            (let (b1, ok) = apply_limit rs b in
             if \<not> ok then (b1\<lparr>nav := ''failed'', b_mode := JStr ''idle''\<rparr>, None)
             else (case arm_goal goal (b1\<lparr>gen := gen b1 + 1\<rparr>) of
                 (b2, Some e) \<Rightarrow> (b2, Some e)
               | (b2, None) \<Rightarrow>
                   if is_diff rs then
                     (case (goal_point goal, map_option float_of (yaw_field goal)) of
                        (Inr p, None) \<Rightarrow> continue_diff rs (gen b2) (b2\<lparr>aim := Some p, steps := 0\<rparr>)
                      | (Inr p, Some (Inr w)) \<Rightarrow> continue_diff rs (gen b2)
                          (b2\<lparr>aim := Some (JObj (obj_fields p @ [(''yaw'', JFloat w)])), steps := 0\<rparr>)
                      | (Inr p, Some (Inl e)) \<Rightarrow> (b2\<lparr>aim := Some p\<rparr>, Some e)
                      | (Inl e, _) \<Rightarrow> (b2, Some e))
                   else (send_pose rs pose (gen b2) ''holonomic'' (b2\<lparr>aim := None\<rparr>), None)))))"

definition navigate_to :: "ros \<Rightarrow> json \<Rightarrow> bridge update" where
  "navigate_to rs goal b =
     (if has_traj rs then navigate_trajectory rs goal b
      else if \<not> has_nav rs then (b, None)
      else (let b1 = waiting rs b in
        if \<not> server_ready rs then (b1\<lparr>nav := ''failed''\<rparr>, None)
        else (let b2 = b1\<lparr>gen := gen b1 + 1, aim := None, step_name := [], steps := 0, step_error := None\<rparr> in
          (case ebind (coord ''x'' goal) (\<lambda>x. ebind (coord ''y'' goal) (\<lambda>y.
                ebind (float_of (jget (obj_fields goal) ''yaw'' (JFloat (Fin 0)))) (\<lambda>w.
                  if w \<in> {PInf, NInf} then Inl ValueError else Inr (x, y, w)))) of
             Inl e \<Rightarrow> (b2, Some e)
           | Inr (x, y, w) \<Rightarrow> (case arm_goal goal b2 of
                 (b3, Some e) \<Rightarrow> (b3, Some e)
               | (b3, None) \<Rightarrow> (put (Send_Nav (gen b2) x y w) b3, None))))))"

subsection \<open>Answers of the action server\<close>

datatype response = Lost | Rejected | Accepted nat

definition on_goal_response :: "response \<Rightarrow> nat \<Rightarrow> bridge \<Rightarrow> bridge" where
  "on_goal_response r g b = (case r of
     Lost \<Rightarrow> if g \<noteq> gen b then b else finish_goal ''failed'' b
   | Rejected \<Rightarrow> if g \<noteq> gen b then b else finish_goal ''failed'' b
   | Accepted h \<Rightarrow> if g \<noteq> gen b then put (Cancel_Handle h) b else b\<lparr>handle := Some h\<rparr>)"

datatype goal_status = Status_Succeeded | Status_Canceled | Status_Other

datatype goal_outcome = Unreadable | Outcome goal_status bool string

definition made_progress :: "ros \<Rightarrow> bridge \<Rightarrow> pyerr + bool" where
  "made_progress rs b = (case (aim b, step_error b) of
     (Some goal, Some before) \<Rightarrow>
       ebind (goal_in_body rs (progress_frame rs) goal) (\<lambda>rel. case rel of None \<Rightarrow> Inr False
       | Some (dx, dy, w) \<Rightarrow>
           (let ok = (\<lambda>after tol minimum. after \<le> tol \<or> after \<le> before - minimum);
                htol = max (1 / 100) (heading_tolerance rs); hmin = max (5 / 1000) (min_progress_rad rs) in
            Inr (if step_name b = ''drive'' then ok (hypot dx dy) (max (1 / 100) (position_tolerance rs))
                       (max (5 / 1000) (min_progress_m rs))
                 else if step_name b = ''align'' then ok \<bar>atan2 dy dx\<bar> htol hmin
                 else if step_name b = ''final_turn'' then ok \<bar>w\<bar> htol hmin
                 else False)))
   | _ \<Rightarrow> Inr False)"

definition on_goal_result :: "ros \<Rightarrow> goal_outcome \<Rightarrow> nat \<Rightarrow> bridge update" where
  "on_goal_result rs out g b =
     (if g \<noteq> gen b then (b, None)
      else case out of Unreadable \<Rightarrow> (finish_goal ''failed'' b, None)
      | Outcome st success msg \<Rightarrow>
          if st = Status_Succeeded \<and> success then
            (if aim b \<noteq> None then continue_diff rs g (b\<lparr>handle := None\<rparr>) else (finish_goal ''succeeded'' b, None))
          else if st = Status_Canceled then (finish_goal ''cancelled'' b, None)
          else if aim b \<noteq> None \<and> msg = ''not at goal'' then
            (case made_progress rs b of Inl e \<Rightarrow> (b, Some e)
             | Inr True \<Rightarrow> continue_diff rs g (b\<lparr>handle := None\<rparr>)
             | Inr False \<Rightarrow> (finish_goal ''failed'' b, None))
          else (finish_goal ''failed'' b, None))"

subsection \<open>Deadman\<close>

definition note_drive_command :: "real \<Rightarrow> json \<Rightarrow> json \<Rightarrow> bridge update" where
  "note_drive_command now lin ang b =
     (case ebind (float_of lin) (\<lambda>l. ebind (float_of ang) (\<lambda>a. Inr (l, a))) of
        Inl e \<Rightarrow> (b, Some e) | Inr la \<Rightarrow> (b\<lparr>pending_drive := Some la, last_link_at := now\<rparr>, None))"

definition apply_pending_drive :: "ros \<Rightarrow> real \<Rightarrow> bridge \<Rightarrow> bridge" where
  "apply_pending_drive rs now b = (case pending_drive b of None \<Rightarrow> b
     | Some (lin, ang) \<Rightarrow> drive rs now lin ang (b\<lparr>pending_drive := None\<rparr>))"

definition drive_watchdog :: "ros \<Rightarrow> real \<Rightarrow> bridge \<Rightarrow> bridge" where
  "drive_watchdog rs now b =
     (if b_mode b \<noteq> JStr ''teleop'' \<or> last_drive b = 0 then b
      else if drive_timeout rs < now - last_drive b
      then (drive rs now (Fin 0) (Fin 0) b)\<lparr>b_mode := JStr ''idle'', last_drive := 0\<rparr>
      else b)"

definition link_ok :: "ros \<Rightarrow> real \<Rightarrow> bridge \<Rightarrow> bool" where
  "link_ok rs now b = (now - last_link_at b \<le> link_timeout rs)"

definition note_link_activity :: "real \<Rightarrow> bridge \<Rightarrow> bridge" where
  "note_link_activity now b = b\<lparr>last_link_at := now\<rparr>"

definition link_watchdog :: "ros \<Rightarrow> real \<Rightarrow> bridge \<Rightarrow> bridge" where
  "link_watchdog rs now b = (if nav b \<noteq> ''active'' \<or> link_ok rs now b then b
     else drive rs now (Fin 0) (Fin 0) (cancel_goal rs b))"

definition watchdogs :: "ros \<Rightarrow> real \<Rightarrow> bridge \<Rightarrow> bridge" where
  "watchdogs rs now b = link_watchdog rs now (drive_watchdog rs now (apply_pending_drive rs now b))"

definition on_nav_cmd_vel :: "ros \<Rightarrow> real \<Rightarrow> pyfloat \<Rightarrow> pyfloat \<Rightarrow> bridge \<Rightarrow> bridge" where
  "on_nav_cmd_vel rs now lin ang b =
     (if nav b = ''active'' \<and> has_cmd rs \<and> link_ok rs now b then put (Velocity lin ang) b else b)"

subsection \<open>Everything that can happen to a goal\<close>

datatype goal_event =
    Navigate ros json
  | Response response nat
  | Result ros goal_outcome nat
  | Abort ros
  | Teleop ros real pyfloat pyfloat
  | Watch ros real
  | Relay ros real pyfloat pyfloat

fun goal_step :: "goal_event \<Rightarrow> bridge \<Rightarrow> bridge" where
  "goal_step (Navigate rs goal) b = fst (navigate_to rs goal b)"
| "goal_step (Response r g) b = on_goal_response r g b"
| "goal_step (Result rs out g) b = fst (on_goal_result rs out g b)"
| "goal_step (Abort rs) b = cancel_goal rs b"
| "goal_step (Teleop rs now lin ang) b = drive rs now lin ang b"
| "goal_step (Watch rs now) b = watchdogs rs now b"
| "goal_step (Relay rs now lin ang) b = on_nav_cmd_vel rs now lin ang b"

definition steps_of :: "nat \<Rightarrow> motor list \<Rightarrow> nat" where
  "steps_of g ms = length (filter (\<lambda>m. case m of Send_Traj g' _ _ \<Rightarrow> g' = g | _ \<Rightarrow> False) ms)"

text \<open>Within a budget of \<open>k\<close> steps: no goal has had more, none in the future has had any, and the
  steps of the target being pursued are counted.\<close>

definition paced :: "nat \<Rightarrow> bridge \<Rightarrow> bool" where
  "paced k b = ((\<forall>g. steps_of g (sent b) \<le> k) \<and> (\<forall>g > gen b. steps_of g (sent b) = 0)
     \<and> (aim b \<noteq> None \<longrightarrow> steps_of (gen b) (sent b) \<le> steps b))"

text \<open>What an event's environment may do: the budget is the configured one, and whatever runs
  while a service is waited for keeps the pace and never takes the generation back.\<close>

definition ros_of :: "goal_event \<Rightarrow> ros option" where
  "ros_of e = (case e of Navigate rs _ \<Rightarrow> Some rs | Result rs _ _ \<Rightarrow> Some rs | Abort rs \<Rightarrow> Some rs
     | Teleop rs _ _ _ \<Rightarrow> Some rs | Watch rs _ \<Rightarrow> Some rs | Relay rs _ _ _ \<Rightarrow> Some rs | Response _ _ \<Rightarrow> None)"

definition tame :: "nat \<Rightarrow> ros \<Rightarrow> bool" where
  "tame k rs = (max 1 (max_steps rs) \<le> int k
     \<and> (\<forall>b. paced k b \<longrightarrow> paced k (waiting rs b) \<and> gen b \<le> gen (waiting rs b)))"

definition tame_event :: "nat \<Rightarrow> goal_event \<Rightarrow> bool" where
  "tame_event k e = (case ros_of e of None \<Rightarrow> True | Some rs \<Rightarrow> tame k rs)"

text \<open>One generation after another, with nothing lost: the relation every handler keeps.\<close>

definition onward :: "nat \<Rightarrow> bridge \<Rightarrow> bridge \<Rightarrow> bool" where
  "onward k b b' = (paced k b \<longrightarrow> paced k b' \<and> gen b \<le> gen b')"

lemma steps_of_snoc:
  "steps_of g (ms @ [m]) = steps_of g ms + (case m of Send_Traj g' _ _ \<Rightarrow> if g' = g then 1 else 0 | _ \<Rightarrow> 0)"
  by (cases m) (simp_all add: steps_of_def)

lemma put_simps [simp]:
  "gen (put m b) = gen b" "aim (put m b) = aim b" "steps (put m b) = steps b" "nav (put m b) = nav b"
  "sent (put m b) = sent b @ [m]" "handle (put m b) = handle b" "b_mode (put m b) = b_mode b"
  "pending_drive (put m b) = pending_drive b" "last_link_at (put m b) = last_link_at b"
  "last_drive (put m b) = last_drive b" "step_error (put m b) = step_error b"
  by (simp_all add: put_def)

lemma onward_refl [simp]: "onward k b b"
  by (simp add: onward_def)

lemma onward_trans [trans]: "onward k a b \<Longrightarrow> onward k b c \<Longrightarrow> onward k a c"
  by (auto simp: onward_def)

lemma onwardI:
  assumes "gen b \<le> gen b'" and "\<And>g. steps_of g (sent b') = steps_of g (sent b)"
    and "aim b' = None \<or> gen b < gen b' \<or> (gen b' = gen b \<and> aim b' = aim b \<and> steps b \<le> steps b')"
  shows "onward k b b'"
  unfolding onward_def paced_def
proof (intro impI, elim conjE, intro conjI allI impI)
  assume all: "\<forall>g. steps_of g (sent b) \<le> k" and later: "\<forall>g > gen b. steps_of g (sent b) = 0"
    and now: "aim b \<noteq> None \<longrightarrow> steps_of (gen b) (sent b) \<le> steps b"
  show "steps_of g (sent b') \<le> k" for g using all by (simp add: assms(2))
  show "steps_of g (sent b') = 0" if "gen b' < g" for g using later that assms(1) by (simp add: assms(2))
  show "steps_of (gen b') (sent b') \<le> steps b'" if "aim b' \<noteq> None"
    using assms(3) that now later by (auto simp: assms(2))
  show "gen b \<le> gen b'" by (rule assms(1))
qed

lemma onward_finish: "onward k b (finish_goal st b)"
  by (rule onwardI) (simp_all add: finish_goal_def)

lemma onward_nav: "onward k b (b\<lparr>nav := n\<rparr>)" "onward k b (b\<lparr>nav := n, b_mode := m\<rparr>)"
    "onward k b (b\<lparr>handle := h\<rparr>)" "onward k b (b\<lparr>pending_drive := d\<rparr>)"
    "onward k b (b\<lparr>b_mode := m, last_drive := t\<rparr>)"
  by ((rule onwardI; simp), (rule onwardI; simp), (rule onwardI; simp), (rule onwardI; simp), (rule onwardI; simp))

lemma onward_put: "(\<And>g st p. m \<noteq> Send_Traj g st p) \<Longrightarrow> onward k b (put m b)"
  by (rule onwardI) (simp_all add: steps_of_snoc split: motor.split)

lemma cancel_goal_simps [simp]:
  "gen (cancel_goal rs b) = gen b + 1" "aim (cancel_goal rs b) = None" "nav (cancel_goal rs b) = ''cancelled''"
  "b_goal (cancel_goal rs b) = None" "handle (cancel_goal rs b) = None" "b_mode (cancel_goal rs b) = JStr ''idle''"
  "pending_drive (cancel_goal rs b) = pending_drive b" "steps_of g (sent (cancel_goal rs b)) = steps_of g (sent b)"
  "last_link_at (cancel_goal rs b) = last_link_at b"
  by (simp_all add: cancel_goal_def Let_def put_def steps_of_def split: option.split)

lemma onward_cancel: "onward k b (cancel_goal rs b)"
  by (rule onwardI) simp_all

lemma onward_drive: "onward k b (drive rs now lin ang b)"
proof (cases "has_cmd rs")
  case True
  let ?b = "if (moves lin \<or> moves ang) \<and> nav b = ''active'' then cancel_goal rs b else b"
  have "onward k b ?b" by (simp add: onward_cancel)
  also have "onward k ?b (put (Velocity lin ang) ?b)" by (rule onward_put) simp
  also have "onward k (put (Velocity lin ang) ?b) (drive rs now lin ang b)"
    unfolding drive_def Let_def using True by (simp only: not_True_eq_False if_False) (rule onward_nav)
  finally show ?thesis .
qed (simp add: drive_def)

lemma onward_watchdogs: "onward k b (watchdogs rs now b)"
proof -
  have "onward k b (apply_pending_drive rs now b)"
    by (cases "pending_drive b") (auto simp: apply_pending_drive_def intro: onward_trans [OF onward_nav(4) onward_drive])
  also have "onward k c (drive_watchdog rs now c)" for c
    by (auto simp: drive_watchdog_def intro: onward_trans [OF onward_drive onward_nav(5)])
  also have "onward k c (link_watchdog rs now c)" for c
    by (auto simp: link_watchdog_def intro: onward_trans [OF onward_cancel onward_drive])
  finally show ?thesis by (simp add: watchdogs_def)
qed

lemma onward_send_step:
  assumes "gen b' = gen b" and "sent b' = sent b" and "steps_of (gen b) (sent b) < k"
    and "aim b' \<noteq> None \<longrightarrow> steps_of (gen b) (sent b) < steps b'"
  shows "onward k b (send_pose rs pose (gen b) step b')"
proof (cases "submits rs")
  case True
  have "paced k (send_pose rs pose (gen b) step b')" if "paced k b"
    using that assms True by (auto simp: paced_def send_pose_def Let_def steps_of_snoc)
  then show ?thesis using assms(1) True by (simp add: onward_def send_pose_def Let_def)
next
  case False
  have "onward k b (finish_goal ''failed'' (b'\<lparr>step_name := step\<rparr>))"
    by (rule onwardI) (simp_all add: finish_goal_def assms)
  then show ?thesis using False by (simp add: send_pose_def Let_def)
qed

lemma onward_continue:
  assumes "max 1 (max_steps rs) \<le> int k"
  shows "onward k b (fst (continue_diff rs g b))"
proof (cases "aim b = None \<or> g \<noteq> gen b \<or> max 1 (max_steps rs) \<le> int (steps b)")
  case True
  then show ?thesis by (auto simp: continue_diff_def onward_finish split: option.split)
next
  case False
  then obtain goal where goal: "aim b = Some goal" and g: "g = gen b" and room: "steps b < k"
    using assms by auto
  show ?thesis
  proof (cases "goal_in_body rs (progress_frame rs) goal")
    case (Inl e)
    then show ?thesis using False goal by (auto simp: continue_diff_def onward_finish)
  next
    case (Inr r)
    show ?thesis
    proof (cases "case r of None \<Rightarrow> None | Some pose \<Rightarrow> next_step rs goal pose")
      case None
      then show ?thesis using False goal Inr by (auto simp: continue_diff_def onward_finish split: option.splits)
    next
      case (Some so)
      then obtain pose step out err where so: "r = Some pose" "next_step rs goal pose = Some (step, out, err)"
        by (cases so) (auto split: option.splits)
      have "onward k b (send_pose rs out (gen b) step (b\<lparr>steps := steps b + 1, step_error := Some err\<rparr>))"
      proof (cases "paced k b")
        case True
        then have "steps_of (gen b) (sent b) \<le> steps b" using goal by (simp add: paced_def)
        with room show ?thesis by (intro onward_send_step) simp_all
      qed (simp add: onward_def)
      then show ?thesis using False goal g Inr so by (auto simp: continue_diff_def onward_finish)
    qed
  qed
qed

lemma onward_waiting: "tame k rs \<Longrightarrow> onward k b (waiting rs b)"
  by (simp add: tame_def onward_def)

lemma arm_goal_cases:
  "arm_goal goal b = (b', err) \<Longrightarrow> gen b' = gen b \<and> sent b' = sent b \<and> aim b' = aim b \<and> steps b' = steps b"
  by (auto simp: arm_goal_def split: sum.splits)

lemma onward_limit: "tame k rs \<Longrightarrow> apply_limit rs b = (b', ok) \<Longrightarrow> onward k b b'"
  by (auto simp: apply_limit_def intro: onward_trans [OF onward_put onward_waiting] split: if_splits option.splits prod.splits)

lemma onward_fresh:
  assumes "gen b < gen b'" and "sent b' = sent b"
  shows "onward k b b'"
  by (rule onwardI) (simp_all add: assms less_imp_le)

lemma fresh_none: "paced k b \<Longrightarrow> gen b < g \<Longrightarrow> steps_of g (sent b) = 0"
  by (simp add: paced_def)

text \<open>What \<open>navigate_trajectory\<close> does once a new generation has been opened.\<close>

lemma onward_pursue:
  assumes tame: "tame k rs" and new: "gen b < gen c" "sent c = sent b"
  shows "onward k b (fst (continue_diff rs (gen c) c))"
    and "aim c = None \<Longrightarrow> onward k b (send_pose rs pose (gen c) step c)"
proof -
  have k: "max 1 (max_steps rs) \<le> int k" using tame by (simp add: tame_def)
  have fresh: "onward k b c" by (rule onward_fresh [OF new(1,2)])
  then show "onward k b (fst (continue_diff rs (gen c) c))"
    by (rule onward_trans) (rule onward_continue [OF k])
  show "onward k b (send_pose rs pose (gen c) step c)" if "aim c = None"
  proof (cases "paced k b")
    case True
    then have "steps_of (gen c) (sent c) = 0" using fresh_none new by simp
    then have "onward k c (send_pose rs pose (gen c) step c)"
      using k that by (intro onward_send_step) auto
    with fresh show ?thesis by (rule onward_trans)
  qed (simp add: onward_def)
qed

lemma onward_navigate_trajectory:
  assumes tame: "tame k rs"
  shows "onward k b (fst (navigate_trajectory rs goal b))"
proof (cases "traj_types rs")
  case types: True
  let ?b = "waiting rs b"
  have w: "onward k b ?b" by (rule onward_waiting [OF tame])
  have "onward k ?b (fst (navigate_trajectory rs goal b))"
  proof (cases "server_ready rs")
    case ready: True
    show ?thesis
    proof (cases "goal_in_body rs (traj_frame rs) goal")
      case (Inl e)
      then show ?thesis using types ready by (simp add: navigate_trajectory_def)
    next
      case r: (Inr r)
      show ?thesis
      proof (cases r)
        case None
        then show ?thesis using types ready r by (simp add: navigate_trajectory_def onward_nav)
      next
        case (Some pose)
        obtain b1 ok where b1: "apply_limit rs ?b = (b1, ok)" by fastforce
        have o1: "onward k ?b b1" by (rule onward_limit [OF tame b1])
        obtain b2 err where b2: "arm_goal goal (b1\<lparr>gen := gen b1 + 1\<rparr>) = (b2, err)" by fastforce
        have g2: "gen b1 < gen b2" "sent b2 = sent b1" using arm_goal_cases [OF b2] by simp_all
        have fresh: "onward k b1 (b2\<lparr>aim := a, steps := n\<rparr>)" "onward k b1 (b2\<lparr>aim := a\<rparr>)" "onward k b1 b2" for a n
          using g2 by (auto intro!: onward_fresh)
        have diff: "onward k b1 (fst (continue_diff rs (gen b2) (b2\<lparr>aim := a, steps := 0\<rparr>)))" for a
          using onward_pursue(1) [OF tame, of b1 "b2\<lparr>aim := a, steps := 0\<rparr>"] g2 by simp
        have hol: "onward k b1 (send_pose rs pose (gen b2) ''holonomic'' (b2\<lparr>aim := None\<rparr>))"
          using onward_pursue(2) [OF tame, of b1 "b2\<lparr>aim := None\<rparr>"] g2 by simp
        have "onward k b1 (fst (navigate_trajectory rs goal b))"
          using types ready r Some b1 b2
          by (auto simp: navigate_trajectory_def onward_nav fresh diff hol Let_def split: sum.split option.split)
        with o1 show ?thesis by (rule onward_trans)
      qed
    qed
  qed (simp add: navigate_trajectory_def onward_nav types)
  with w show ?thesis by (rule onward_trans)
qed (simp add: navigate_trajectory_def onward_nav)

lemma onward_navigate:
  assumes tame: "tame k rs"
  shows "onward k b (fst (navigate_to rs goal b))"
proof (cases "has_traj rs \<or> \<not> has_nav rs")
  case True
  then show ?thesis by (auto simp: navigate_to_def onward_navigate_trajectory [OF tame])
next
  case False
  let ?b = "waiting rs b"
  let ?b2 = "?b\<lparr>gen := gen ?b + 1, aim := None, step_name := [], steps := 0, step_error := None\<rparr>"
  have w: "onward k b ?b" by (rule onward_waiting [OF tame])
  have fresh: "onward k ?b ?b2" by (rule onward_fresh) simp_all
  have armed: "onward k ?b b3" if "arm_goal goal ?b2 = (b3, err)" for b3 err
    using arm_goal_cases [OF that] by (intro onward_fresh) simp_all
  have sent: "onward k ?b (put (Send_Nav g x y w) b3)" if "arm_goal goal ?b2 = (b3, err)" for g x y w b3 err
    using armed [OF that] by (rule onward_trans) (rule onward_put, simp)
  have "onward k ?b (fst (navigate_to rs goal b))"
    using False armed sent
    by (auto simp: navigate_to_def Let_def onward_nav fresh [unfolded Suc_eq_plus1 [symmetric]] split: sum.split prod.split option.split)
  with w show ?thesis by (rule onward_trans)
qed

lemma onward_result:
  assumes "tame k rs"
  shows "onward k b (fst (on_goal_result rs out g b))"
proof -
  have k: "max 1 (max_steps rs) \<le> int k" using assms by (simp add: tame_def)
  have "onward k b (fst (continue_diff rs g (b\<lparr>handle := None\<rparr>)))"
    by (rule onward_trans [OF onward_nav(3) onward_continue [OF k]])
  then show ?thesis
    by (auto simp: on_goal_result_def onward_finish split: goal_outcome.split sum.split bool.split)
qed

lemma onward_step:
  assumes "tame_event k e"
  shows "onward k b (goal_step e b)"
proof (cases e)
  case (Response r g)
  then show ?thesis
    by (auto simp: on_goal_response_def onward_finish onward_nav intro: onward_put split: response.split)
next
  case (Relay rs now lin ang)
  then show ?thesis by (auto simp: on_nav_cmd_vel_def intro: onward_put)
qed (use assms in \<open>simp_all add: tame_event_def ros_of_def onward_navigate onward_result onward_cancel
       onward_drive onward_watchdogs\<close>)

interpretation goals: generation_machine goal_step "tame_event k" "paced k" gen for k
proof unfold_locales
  show "tame_event k e \<Longrightarrow> paced k s \<Longrightarrow> paced k (goal_step e s)" for e s
    using onward_step [of k e s] by (simp add: onward_def)
  show "tame_event k e \<Longrightarrow> paced k s \<Longrightarrow> gen s \<le> gen (goal_step e s)" for e s
    using onward_step [of k e s] by (simp add: onward_def)
qed

definition idle_bridge :: bridge where
  "idle_bridge = \<lparr>gen = 0, handle = None, b_goal = None, nav = ''idle'', b_mode = JStr ''idle'', b_paths = [],
     aim = None, step_name = [], steps = 0, step_error = None, last_drive = 0, last_link_at = 0,
     pending_drive = None, sent = []\<rparr>"

lemma paced_idle: "paced k idle_bridge"
  by (simp add: paced_def idle_bridge_def steps_of_def)

subsection \<open>Properties\<close>

text \<open>C7: However goals, cancellations, teleoperation, watchdogs and the answers of the action server
  interleave, one goal never gets more trajectory commands than the configured number of
  steps: the rotate, drive and turn loop always ends.\<close>

theorem trajectory_commands_bounded:
  assumes "list_all (tame_event k) es"
  shows "steps_of g (sent (fold goal_step es idle_bridge)) \<le> k"
  using goals.inv_run [OF assms paced_idle] by (simp add: paced_def)

text \<open>C12: Once a goal is cancelled, no later answer about it brings it back: whatever happened in
  between, an acceptance of an older goal is answered with a cancellation of that handle and
  changes nothing else, and its result is ignored.\<close>

theorem cancelled_goal_stays_cancelled:
  assumes "list_all (tame_event k) es" and "paced k b" and "g \<le> gen b"
  shows "on_goal_response (Accepted h) g (fold goal_step es (cancel_goal rs b))
       = put (Cancel_Handle h) (fold goal_step es (cancel_goal rs b))
    \<and> on_goal_result rs' out g (fold goal_step es (cancel_goal rs b))
       = (fold goal_step es (cancel_goal rs b), None)"
proof -
  have "paced k (cancel_goal rs b)" using assms(2) onward_cancel by (auto simp: onward_def)
  from goals.stale_for_ever [OF assms(1) this, of g] assms(3)
  have "g \<noteq> gen (fold goal_step es (cancel_goal rs b))" by simp
  then show ?thesis by (simp add: on_goal_response_def on_goal_result_def)
qed

definition spot :: ros where
  "spot = \<lparr>has_cmd = True, has_nav = False, has_traj = True, traj_types = True, has_velocity = False, stop_ready = True,
     server_ready = True, submits = True,
     tf = (\<lambda>_. Some \<lparr>q_x = 0, q_y = 0, q_z = 0, q_w = 1, p_x = 0, p_y = 0, p_z = 0\<rparr>),
     limit_answer = No_Service, waiting = (\<lambda>b. b), control_mode = ''differential'', traj_frame = ''body'',
     feed_frame = [], limit = [], max_steps = 2, position_tolerance = 3 / 20, heading_tolerance = 2 / 25,
     min_progress_m = 3 / 100, min_progress_rad = 1 / 50, drive_timeout = 9 / 20, link_timeout = 3 / 2\<rparr>"

text \<open>A goal straight ahead that the robot never gets nearer to.\<close>

definition ahead :: json where
  "ahead = JObj [(''x'', JFloat (Fin 2)), (''y'', JFloat (Fin 0))]"

definition stuck_run :: "goal_event list" where
  "stuck_run = [Navigate spot ahead, Response (Accepted 7) 1, Result spot (Outcome Status_Succeeded True []) 1,
     Response (Accepted 8) 1, Result spot (Outcome Status_Succeeded True []) 1]"

lemma spot_tame: "tame_event 2 (Navigate spot goal)" "tame_event 2 (Response r g)" "tame_event 2 (Result spot out g)"
  by (simp_all add: tame_event_def ros_of_def tame_def spot_def)

theorem trajectory_commands_bounded_witness:
  "steps_of 1 (sent (fold goal_step stuck_run idle_bridge)) \<le> 2"
  by (rule trajectory_commands_bounded) (simp add: stuck_run_def spot_tame)

lemma stuck_run_fails:
  "nav (fold goal_step stuck_run idle_bridge) = ''failed''
   \<and> sent (fold goal_step stuck_run idle_bridge) = [Send_Traj 1 ''drive'' (2, 0, 0), Send_Traj 1 ''drive'' (2, 0, 0)]"
  by code_simp

theorem cancelled_goal_stays_cancelled_witness:
  "on_goal_response (Accepted 7) 1 (fold goal_step [Navigate spot ahead] (cancel_goal spot (goal_step (Navigate spot ahead) idle_bridge)))
     = put (Cancel_Handle 7) (fold goal_step [Navigate spot ahead] (cancel_goal spot (goal_step (Navigate spot ahead) idle_bridge)))"
proof -
  have run: "list_all (tame_event 2) [Navigate spot ahead]" by (simp add: spot_tame)
  have paced: "paced 2 (goal_step (Navigate spot ahead) idle_bridge)"
    using goals.inv_run [OF run paced_idle] by simp
  have "1 \<le> gen (goal_step (Navigate spot ahead) idle_bridge)" by code_simp
  from cancelled_goal_stays_cancelled [OF run paced this] show ?thesis by blast
qed

end
