(* ===== verification/Exploration.thy ===== *)
theory Exploration
  imports Robot
begin

text \<open>
  The exploration session of a robot (\<^verbatim>\<open>adapters/exploration.py\<close>, class \<open>MggExploration\<close>) on
  top of its goals, the \<open>stop\<close> of \<^verbatim>\<open>adapters/runtime.py\<close>, and the commands of a WebSocket
  session (\<^verbatim>\<open>adapters/session.py\<close>: \<open>dispatch_command\<close>, \<open>_rx\<close>, \<open>_stop_on_disconnect\<close>).

  The planner's services are arguments (\<open>site\<close>): whether they are ready, whether a call raises,
  which requests are done. A request is a number. \<open>meanwhile\<close> is what other handlers do while
  a navigation request is prepared. The clock does not advance within a handler.
\<close>

subsection \<open>State\<close>

record explorer =
  x_enabled :: bool
  x_active :: bool
  x_awaiting :: bool
  x_status :: string
  x_gen :: nat
  x_started :: int
  x_pending :: "nat option"
  x_pending_stop :: "nat option"
  x_deadline :: real
  x_stop_deadline :: real
  x_last_link :: real
  x_next :: nat

record adapter =
  ex :: explorer
  br :: bridge

record site =
  robot_site :: ros
  start_service :: bool
  stop_service :: bool
  start_raises :: bool
  stop_raises :: bool
  answered :: "nat \<Rightarrow> bool"
  plan_frame :: string
  meanwhile :: "adapter \<Rightarrow> adapter"

definition halt_robot :: "ros \<Rightarrow> real \<Rightarrow> bridge \<Rightarrow> bridge" where
  "halt_robot rs now b = drive rs now (Fin 0) (Fin 0) (cancel_goal rs b)"

subsection \<open>Sessions\<close>

definition x_stop :: "site \<Rightarrow> real \<Rightarrow> bool \<Rightarrow> string \<Rightarrow> adapter \<Rightarrow> adapter" where
  "x_stop si now notify st a =
     (let e = ex a;
          e1 = e\<lparr>x_status := st, x_awaiting := False, x_active := False, x_gen := x_gen e + 1\<rparr> in
      if \<not> x_active e then a\<lparr>ex := e1\<rparr>
      else (let asks = notify \<and> stop_service si \<and> \<not> stop_raises si;
                e2 = (if asks then e1\<lparr>x_pending_stop := Some (x_next e1), x_next := x_next e1 + 1,
                                     x_stop_deadline := now + 30\<rparr> else e1);
                b1 = (if asks then put Plan_Stop (br a) else br a) in
            a\<lparr>ex := e2, br := halt_robot (robot_site si) now b1\<rparr>))"

definition x_start :: "site \<Rightarrow> real \<Rightarrow> int \<Rightarrow> adapter \<Rightarrow> adapter" where
  "x_start si now clock a =
     (let e = ex a; busy = (\<lambda>r. case r of None \<Rightarrow> False | Some f \<Rightarrow> \<not> answered si f) in
      if x_active e \<or> busy (x_pending e) \<or> busy (x_pending_stop e) \<or> \<not> start_service si \<or> \<not> stop_service si then a
      else (let b1 = cancel_goal (robot_site si) (br a);
                e1 = e\<lparr>x_gen := x_gen e + 1, x_started := clock, x_awaiting := False, x_status := ''starting'',
                       x_active := True, x_deadline := now + 30\<rparr> in
            if start_raises si then x_stop si now True ''stopped'' (a\<lparr>ex := e1, br := b1\<rparr>)
            else a\<lparr>ex := e1\<lparr>x_pending := Some (x_next e1), x_next := x_next e1 + 1\<rparr>,
                   br := put (Plan_Start (x_next e1)) b1\<rparr>))"

datatype start_answer = Start_Granted | Start_Refused | Start_Raised

definition x_started_answer :: "site \<Rightarrow> real \<Rightarrow> nat \<Rightarrow> start_answer \<Rightarrow> nat \<Rightarrow> adapter \<Rightarrow> adapter" where
  "x_started_answer si now f r g a =
     (let a1 = (if x_pending (ex a) = Some f then a\<lparr>ex := (ex a)\<lparr>x_pending := None\<rparr>\<rparr> else a) in
      if g \<noteq> x_gen (ex a1) \<or> r = Start_Granted then a1 else x_stop si now True ''stopped'' a1)"

definition x_tick :: "site \<Rightarrow> real \<Rightarrow> adapter \<Rightarrow> adapter" where
  "x_tick si now a =
     (let a1 = (if x_pending (ex a) \<noteq> None \<and> x_deadline (ex a) < now
                then (let a0 = a\<lparr>ex := (ex a)\<lparr>x_pending := None\<rparr>\<rparr> in
                      if x_active (ex a0) then x_stop si now True ''stopped'' a0 else a0)
                else a);
          a2 = (if x_pending_stop (ex a1) \<noteq> None \<and> x_stop_deadline (ex a1) < now
                then a1\<lparr>ex := (ex a1)\<lparr>x_pending_stop := None\<rparr>\<rparr> else a1) in
      if x_active (ex a2) \<and> link_timeout (robot_site si) < now - x_last_link (ex a2)
      then x_stop si now True ''stopped'' a2 else a2)"

text \<open>A status report: \<open>None\<close> when it is not JSON. An error the handler does not catch leaves it.\<close>

definition x_on_status :: "site \<Rightarrow> real \<Rightarrow> json option \<Rightarrow> adapter update" where
  "x_on_status si now report a =
     (case report of None \<Rightarrow> (a, None) | Some v \<Rightarrow>
      (case ebind (jindex v ''stamp_ns'') (\<lambda>s. ebind (py_int s) (\<lambda>stamp.
            ebind (jindex v ''state'') (\<lambda>state. Inr (stamp, state)))) of
        Inl e \<Rightarrow> (a, if e \<in> {ValueError, TypeError, KeyError} then None else Some e)
      | Inr (stamp, state) \<Rightarrow>
          (if stamp < x_started (ex a) \<or> x_started (ex a) = 0 then (a, None)
           else if state \<in> {JStr ''complete'', JStr ''blocked''} then
             (if x_active (ex a) \<or> x_awaiting (ex a)
              then (let a1 = x_stop si now False (case state of JStr s \<Rightarrow> s | _ \<Rightarrow> []) a in
                    a1\<lparr>ex := (ex a1)\<lparr>x_awaiting := False\<rparr>\<rparr>)
              else a, None)
           else if state \<in> {JStr ''starting'', JStr ''exploring''} \<and> x_active (ex a)
           then (a\<lparr>ex := (ex a)\<lparr>x_status := (case state of JStr s \<Rightarrow> s | _ \<Rightarrow> [])\<rparr>\<rparr>, None)
           else (a, None))))"

text \<open>A planned path: its stamp, its frame and, for the last pose, position and yaw.\<close>

record planned =
  stamp_sec :: int
  stamp_nanosec :: int
  path_frame :: string
  last_pose :: "(pyfloat \<times> pyfloat \<times> pyfloat) option"

definition lstrip_slash :: "string \<Rightarrow> string" where
  "lstrip_slash s = dropWhile (\<lambda>c. c = CHR ''/'') s"

definition x_on_path :: "site \<Rightarrow> real \<Rightarrow> planned \<Rightarrow> adapter \<Rightarrow> adapter" where
  "x_on_path si now p a =
     (if \<not> x_active (ex a) then a
      else if stamp_sec p * 1000000000 + stamp_nanosec p < x_started (ex a) then a
      else case last_pose p of
        None \<Rightarrow> (let a1 = x_stop si now False ''stopped'' a in a1\<lparr>ex := (ex a1)\<lparr>x_awaiting := True\<rparr>\<rparr>)
      | Some (gx, gy, gw) \<Rightarrow>
          if lstrip_slash (path_frame p) \<noteq> plan_frame si then x_stop si now True ''stopped'' a
          else if \<not> (is_finite gx \<and> is_finite gy \<and> is_finite gw) then x_stop si now True ''stopped'' a
          else (let g = x_gen (ex a);
                    a1 = meanwhile si (a\<lparr>ex := (ex a)\<lparr>x_status := ''exploring''\<rparr>\<rparr>);
                    goal = JObj [(''x'', JFloat gx), (''y'', JFloat gy), (''yaw'', JFloat gw)];
                    (b, err) = navigate_to (robot_site si) goal (br a1);
                    a2 = a1\<lparr>br := b\<rparr>;
                    a3 = (if err \<noteq> None then x_stop si now True ''stopped'' a2 else a2) in
                if \<not> x_active (ex a3) \<or> g \<noteq> x_gen (ex a3)
                then a3\<lparr>br := halt_robot (robot_site si) now (br a3)\<rparr> else a3))"

subsection \<open>Commands of the server\<close>

definition robot_stop :: "site \<Rightarrow> real \<Rightarrow> adapter \<Rightarrow> adapter" where
  "robot_stop si now a =
     (let a1 = (if x_enabled (ex a) then x_stop si now True ''stopped'' a else a);
          b = cancel_goal (robot_site si) (drive (robot_site si) now (Fin 0) (Fin 0) (br a1)) in
      a1\<lparr>br := b\<lparr>b_mode := JStr ''estop''\<rparr>\<rparr>)"

definition preempting :: "string list" where
  "preempting = [''navigate_to'', ''cancel_goal'', ''drive'', ''stop'', ''reset'', ''body_command'']"

text \<open>With a forward speed the turn is not compared, only converted, so that it may be the text of a number.\<close>

definition dispatch_drive :: "ros \<Rightarrow> real \<Rightarrow> (string \<times> json) list \<Rightarrow> bridge update" where
  "dispatch_drive rs now msg b =
     (let lin = jget msg ''linear'' (JFloat (Fin 0)); ang = jget msg ''angular'' (JFloat (Fin 0)) in
      case note_drive_command now lin ang b of
        (b1, Some e) \<Rightarrow> (b1, Some e)
      | (b1, None) \<Rightarrow>
          if \<not> has_cmd rs then (b1, None)
          else (case ebind (number lin) (\<lambda>l. ebind (if moves l then float_of ang else number ang) (\<lambda>w. Inr (l, w))) of
              Inl e \<Rightarrow> (b1, Some e) | Inr (l, w) \<Rightarrow> (drive rs now l w b1, None)))"

definition dispatch_command :: "site \<Rightarrow> real \<Rightarrow> int \<Rightarrow> (string \<times> json) list \<Rightarrow> adapter update" where
  "dispatch_command si now clock msg a =
     (let k = jget msg ''type'' JNull; rs = robot_site si; kind = (case k of JStr s \<Rightarrow> s | _ \<Rightarrow> []) in
      if x_enabled (ex a) \<and> kind = ''explore'' then
        (if jget msg ''enabled'' JNull = JBool True then x_start si now clock a else x_stop si now True ''stopped'' a, None)
      else (let a = (if x_enabled (ex a) \<and> kind \<in> set preempting then x_stop si now True ''stopped'' a else a) in
      if kind = ''navigate_to'' then
        (let (b, err) = navigate_to rs (jget msg ''goal'' (JObj [])) (br a) in (a\<lparr>br := b\<rparr>, err))
      else if kind = ''cancel_goal'' then (a\<lparr>br := cancel_goal rs (br a)\<rparr>, None)
      else if kind = ''drive'' then
        (let (b, err) = dispatch_drive rs now msg (br a) in (a\<lparr>br := b\<rparr>, err))
      else if kind = ''stop'' then (robot_stop si now a, None)
      else if kind = ''set_mode'' then
        (a\<lparr>br := (br a)\<lparr>b_mode := jget msg ''mode'' (b_mode (br a))\<rparr>\<rparr>, None)
      else if kind = ''body_command'' then
        (a\<lparr>br := put (Body_Command (jget msg ''action'' (JStr [])) (jget msg ''height'' JNull)) (br a)\<rparr>, None)
      else (a, None)))"

text \<open>One message of the receive loop; one that is not JSON only counts as activity.\<close>

definition receive :: "site \<Rightarrow> real \<Rightarrow> int \<Rightarrow> json option \<Rightarrow> adapter update" where
  "receive si now clock m a =
     (let a = a\<lparr>br := note_link_activity now (br a)\<rparr> in
      case m of None \<Rightarrow> (a, None)
      | Some (JObj msg) \<Rightarrow> dispatch_command si now clock msg a
      | Some _ \<Rightarrow> (a, Some AttributeError))"

definition stop_on_disconnect :: "site \<Rightarrow> real \<Rightarrow> adapter \<Rightarrow> adapter" where
  "stop_on_disconnect si now a =
     (let a1 = (if x_enabled (ex a) then x_stop si now True ''stopped'' a else a) in
      a1\<lparr>br := halt_robot (robot_site si) now (br a1)\<rparr>)"

subsection \<open>A robot at rest\<close>

datatype adapter_event =
    Planner_Answer site real nat start_answer nat
  | Planner_Tick site real
  | Planner_Status site real "json option"
  | Planner_Path site real planned
  | Goal_Event goal_event
  | Link_Alive real
  | Message site real int "json option"
  | Disconnected site real

fun adapter_step :: "adapter_event \<Rightarrow> adapter \<Rightarrow> adapter" where
  "adapter_step (Planner_Answer si now f r g) a = x_started_answer si now f r g a"
| "adapter_step (Planner_Tick si now) a = x_tick si now a"
| "adapter_step (Planner_Status si now report) a = fst (x_on_status si now report a)"
| "adapter_step (Planner_Path si now p) a = x_on_path si now p a"
| "adapter_step (Goal_Event e) a = a\<lparr>br := goal_step e (br a)\<rparr>"
| "adapter_step (Link_Alive now) a = a\<lparr>ex := (ex a)\<lparr>x_last_link := now\<rparr>\<rparr>"
| "adapter_step (Message si now clock m) a = fst (receive si now clock m a)"
| "adapter_step (Disconnected si now) a = stop_on_disconnect si now a"

text \<open>What happens without a message from the server: answers, timers, planner, link.\<close>

definition autonomous :: "adapter_event \<Rightarrow> bool" where
  "autonomous e = (case e of Message _ _ _ _ \<Rightarrow> False
     | Goal_Event (Navigate _ _) \<Rightarrow> False | Goal_Event (Teleop _ _ _ _) \<Rightarrow> False | _ \<Rightarrow> True)"

definition still :: "motor \<Rightarrow> bool" where
  "still m = (case m of Velocity lin ang \<Rightarrow> lin = Fin 0 \<and> ang = Fin 0
     | Cancel_Handle _ \<Rightarrow> True | Stop_Service \<Rightarrow> True | Plan_Stop \<Rightarrow> True | _ \<Rightarrow> False)"

definition quiet :: "bridge \<Rightarrow> bool" where
  "quiet b = (nav b \<noteq> ''active'' \<and> pending_drive b = None \<and> aim b = None)"

text \<open>At rest since the output was \<open>base\<close>: no session, no goal, no drive waiting, and nothing
  but stops sent since.\<close>

definition calm :: "motor list \<Rightarrow> bridge \<Rightarrow> bool" where
  "calm base b = (\<exists>ms. sent b = base @ ms \<and> list_all still ms)"

definition resting :: "motor list \<Rightarrow> adapter \<Rightarrow> bool" where
  "resting base a = (\<not> x_active (ex a) \<and> quiet (br a) \<and> calm base (br a))"

lemma calm_put: "calm base b \<Longrightarrow> still m \<Longrightarrow> calm base (put m b)"
  by (auto simp: calm_def)

lemma calm_same: "sent b' = sent b \<Longrightarrow> calm base b' = calm base b"
  by (simp add: calm_def)

lemma calm_cancel: "calm base b \<Longrightarrow> calm base (cancel_goal rs b)"
  by (auto simp: cancel_goal_def Let_def calm_def put_def still_def split: option.split)

lemma drive_zero:
  "drive rs now (Fin 0) (Fin 0) b = (if has_cmd rs then (put (Velocity (Fin 0) (Fin 0)) b)\<lparr>last_drive := 0\<rparr> else b)"
  by (simp add: drive_def moves_def fabs_def)

lemma calm_halt: "calm base b \<Longrightarrow> calm base (drive rs now (Fin 0) (Fin 0) b)"
  unfolding drive_zero using calm_put [of base b "Velocity (Fin 0) (Fin 0)"]
  by (auto simp: still_def calm_def)

lemma drive_zero_fields [simp]:
  "nav (drive rs now (Fin 0) (Fin 0) b) = nav b" "aim (drive rs now (Fin 0) (Fin 0) b) = aim b"
  "pending_drive (drive rs now (Fin 0) (Fin 0) b) = pending_drive b"
  by (simp_all add: drive_zero)

lemma quiet_watch: "quiet b \<Longrightarrow> calm base b \<Longrightarrow> quiet (watchdogs rs now b) \<and> calm base (watchdogs rs now b)"
  unfolding watchdogs_def quiet_def
  by (auto simp: apply_pending_drive_def drive_watchdog_def link_watchdog_def calm_halt
      intro: calm_same [THEN iffD2])

lemma quiet_finish: "st \<noteq> ''active'' \<Longrightarrow> quiet b \<Longrightarrow> calm base b \<Longrightarrow> quiet (finish_goal st b) \<and> calm base (finish_goal st b)"
  by (auto simp: finish_goal_def quiet_def calm_def)

lemma quiet_goal_step:
  assumes "autonomous (Goal_Event e)" and "quiet b" and "calm base b"
  shows "quiet (goal_step e b) \<and> calm base (goal_step e b)"
proof (cases e)
  case (Response r g)
  have "still (Cancel_Handle h)" for h by (simp add: still_def)
  then show ?thesis
    using assms(2,3) Response
    by (auto simp: on_goal_response_def quiet_finish split: response.split)
       (auto simp: quiet_def calm_def)
next
  case (Result rs out g)
  have "aim b = None" using assms(2) by (simp add: quiet_def)
  then show ?thesis
    using assms(2,3) Result by (auto simp: on_goal_result_def quiet_finish split: goal_outcome.split)
next
  case (Abort rs)
  then show ?thesis using assms(2) calm_cancel [OF assms(3)] by (simp add: quiet_def)
next
  case (Watch rs now)
  then show ?thesis using quiet_watch [OF assms(2,3)] by simp
next
  case (Relay rs now lin ang)
  then show ?thesis using assms(2,3) by (simp add: on_nav_cmd_vel_def quiet_def)
qed (use assms(1) in \<open>simp_all add: autonomous_def\<close>)

lemma x_stop_idle: "\<not> x_active (ex a) \<Longrightarrow> br (x_stop si now notify st a) = br a \<and> \<not> x_active (ex (x_stop si now notify st a))"
  by (simp add: x_stop_def Let_def)

lemma resting_stop: "resting base a \<Longrightarrow> resting base (x_stop si now notify st a)"
  using x_stop_idle [of a si now notify st] by (simp add: resting_def)

lemma resting_ex: "resting base a \<Longrightarrow> x_active e = x_active (ex a) \<Longrightarrow> resting base (a\<lparr>ex := e\<rparr>)"
  by (simp add: resting_def)

lemma resting_step:
  assumes "autonomous e" and "resting base a"
  shows "resting base (adapter_step e a)"
proof (cases e)
  case (Planner_Answer si now f r g)
  then show ?thesis
    using assms(2) by (auto simp: x_started_answer_def Let_def intro!: resting_stop resting_ex)
next
  case (Planner_Tick si now)
  then show ?thesis
    using assms(2) by (auto simp: x_tick_def Let_def resting_def)
next
  case (Planner_Status si now report)
  have "\<not> x_active (ex a)" using assms(2) by (simp add: resting_def)
  then show ?thesis
    using assms(2) Planner_Status
    by (auto simp: x_on_status_def Let_def intro!: resting_ex resting_stop split: option.split sum.split)
next
  case (Planner_Path si now p)
  then show ?thesis using assms(2) by (simp add: x_on_path_def resting_def)
next
  case (Goal_Event e')
  then show ?thesis
    using assms quiet_goal_step [of e' "br a" base] by (simp add: resting_def)
next
  case (Link_Alive now)
  then show ?thesis using assms(2) by (simp add: resting_def)
next
  case (Disconnected si now)
  then show ?thesis
    using assms(2) resting_stop [OF assms(2), of si now True "''stopped''"]
    by (auto simp: stop_on_disconnect_def Let_def halt_robot_def resting_def quiet_def intro!: calm_halt calm_cancel)
qed (use assms(1) in \<open>simp add: autonomous_def\<close>)

interpretation rest: machine adapter_step autonomous "resting base" for base
  by unfold_locales (rule resting_step)

lemma halt_robot_simps [simp]:
  "nav (halt_robot rs now b) = ''cancelled''" "aim (halt_robot rs now b) = None"
  "pending_drive (halt_robot rs now b) = pending_drive b"
  "has_cmd rs \<Longrightarrow> last (sent (halt_robot rs now b)) = Velocity (Fin 0) (Fin 0)"
  by (simp_all add: halt_robot_def drive_zero)

lemma calm_x_stop: "calm base (br a) \<Longrightarrow> calm base (br (x_stop si now notify st a))"
  by (auto simp: x_stop_def Let_def halt_robot_def still_def intro!: calm_halt calm_cancel calm_put)

lemma x_stop_fields [simp]:
  "\<not> x_active (ex (x_stop si now notify st a))"
  "pending_drive (br (x_stop si now notify st a)) = pending_drive (br a)"
  "x_gen (ex (x_stop si now notify st a)) = x_gen (ex a) + 1"
  by (simp_all add: x_stop_def Let_def)

lemma x_stop_active:
  "x_active (ex a) \<Longrightarrow> br (x_stop si now notify st a)
     = halt_robot (robot_site si) now (if notify \<and> stop_service si \<and> \<not> stop_raises si then put Plan_Stop (br a) else br a)"
  by (simp add: x_stop_def Let_def)

lemma robot_stop_rests:
  assumes "pending_drive (br a) = None" and "x_enabled (ex a) \<or> \<not> x_active (ex a)" and "calm base (br a)"
  shows "resting base (robot_stop si now a)"
proof -
  let ?a = "if x_enabled (ex a) then x_stop si now True ''stopped'' a else a"
  have a: "\<not> x_active (ex ?a)" "pending_drive (br ?a) = None" "calm base (br ?a)"
    using assms by (auto simp: calm_x_stop)
  have "calm base (cancel_goal (robot_site si) (drive (robot_site si) now (Fin 0) (Fin 0) (br ?a)))"
    by (intro calm_cancel calm_halt a)
  then show ?thesis using a by (simp add: robot_stop_def Let_def resting_def quiet_def calm_def)
qed

lemma stop_message_rests:
  assumes "jget msg ''type'' JNull = JStr ''stop''"
    and "pending_drive (br a) = None" and "x_enabled (ex a) \<or> \<not> x_active (ex a)"
  shows "resting (sent (br a)) (fst (receive si now clock (Some (JObj msg)) a))"
proof -
  let ?a = "a\<lparr>br := note_link_activity now (br a)\<rparr>"
  let ?a' = "if x_enabled (ex ?a) then x_stop si now True ''stopped'' ?a else ?a"
  have "calm (sent (br a)) (br ?a)" by (simp add: calm_def note_link_activity_def)
  then have "calm (sent (br a)) (br ?a')" by (simp add: calm_x_stop)
  moreover have "pending_drive (br ?a') = None" using assms(2) by (simp add: note_link_activity_def)
  moreover have "x_enabled (ex ?a') \<or> \<not> x_active (ex ?a')" using assms(3) by auto
  ultimately have "resting (sent (br a)) (robot_stop si now ?a')" by (intro robot_stop_rests)
  moreover have "fst (receive si now clock (Some (JObj msg)) a) = robot_stop si now ?a'"
    using assms(1) by (simp add: receive_def dispatch_command_def Let_def preempting_def)
  ultimately show ?thesis by simp
qed

text \<open>When a stop arrives: while no handler runs, or in the middle of the handler of a planned path, when its
  navigation request is being prepared; other handlers may then run before the request goes out.\<close>

datatype arrival = Between_Handlers | During_Path site real planned "adapter_event list"

fun stopped :: "site \<Rightarrow> real \<Rightarrow> int \<Rightarrow> (string \<times> json) list \<Rightarrow> arrival \<Rightarrow> adapter \<Rightarrow> adapter" where
  "stopped si now clock msg Between_Handlers a = fst (receive si now clock (Some (JObj msg)) a)"
| "stopped si now clock msg (During_Path sp t p after) a =
     x_on_path (sp\<lparr>meanwhile := \<lambda>b. fold adapter_step after (fst (receive si now clock (Some (JObj msg)) b))\<rparr>) t p a"

text \<open>Whether the handler of a path comes to prepare a navigation request.\<close>

definition path_taken :: "site \<Rightarrow> planned \<Rightarrow> adapter \<Rightarrow> bool" where
  "path_taken si p a \<longleftrightarrow> x_active (ex a) \<and> x_started (ex a) \<le> stamp_sec p * 1000000000 + stamp_nanosec p
     \<and> lstrip_slash (path_frame p) = plan_frame si
     \<and> (case last_pose p of None \<Rightarrow> False | Some (gx, gy, gw) \<Rightarrow> is_finite gx \<and> is_finite gy \<and> is_finite gw)"

fun arrival_ok :: "arrival \<Rightarrow> adapter \<Rightarrow> bool" where
  "arrival_ok Between_Handlers a = True"
| "arrival_ok (During_Path sp t p after) a = (path_taken sp p a \<and> list_all autonomous after)"

text \<open>The output from which on only stops follow, and the condition the robot is in there.\<close>

fun output_at :: "arrival \<Rightarrow> adapter \<Rightarrow> adapter \<Rightarrow> motor list" where
  "output_at Between_Handlers a a1 = sent (br a)"
| "output_at (During_Path sp t p after) a a1 = sent (br a1)"

fun ends_halted :: "arrival \<Rightarrow> adapter \<Rightarrow> bool" where
  "ends_halted Between_Handlers a1 = True"
| "ends_halted (During_Path sp t p after) a1 =
     (nav (br a1) = ''cancelled'' \<and> (has_cmd (robot_site sp) \<longrightarrow> last (sent (br a1)) = Velocity (Fin 0) (Fin 0)))"

lemma inactive_step:
  assumes "autonomous e" and "\<not> x_active (ex a)"
  shows "\<not> x_active (ex (adapter_step e a))"
proof (cases e)
  case (Planner_Status si now report)
  then show ?thesis using assms(2) by (auto simp: x_on_status_def Let_def split: option.split sum.split)
qed (use assms in \<open>auto simp: autonomous_def x_started_answer_def x_tick_def x_on_path_def stop_on_disconnect_def Let_def\<close>)

lemma inactive_run: "list_all autonomous es \<Longrightarrow> \<not> x_active (ex a) \<Longrightarrow> \<not> x_active (ex (fold adapter_step es a))"
  by (induction es arbitrary: a) (simp_all add: inactive_step)

lemma stop_message_ends_session:
  assumes "jget msg ''type'' JNull = JStr ''stop''" and "x_enabled (ex a) \<or> \<not> x_active (ex a)"
  shows "\<not> x_active (ex (fst (receive si now clock (Some (JObj msg)) a)))"
  using assms by (auto simp: receive_def dispatch_command_def robot_stop_def Let_def preempting_def)

lemma interrupted_path:
  assumes "path_taken sp p a" and "\<And>b. x_enabled (ex b) = x_enabled (ex a) \<Longrightarrow> \<not> x_active (ex (f b))"
  shows "\<not> x_active (ex (x_on_path (sp\<lparr>meanwhile := f\<rparr>) t p a)) \<and> nav (br (x_on_path (sp\<lparr>meanwhile := f\<rparr>) t p a)) = ''cancelled''
    \<and> aim (br (x_on_path (sp\<lparr>meanwhile := f\<rparr>) t p a)) = None
    \<and> (has_cmd (robot_site sp) \<longrightarrow> last (sent (br (x_on_path (sp\<lparr>meanwhile := f\<rparr>) t p a))) = Velocity (Fin 0) (Fin 0))"
proof -
  have "\<not> x_active (ex (f (a\<lparr>ex := (ex a)\<lparr>x_status := ''exploring''\<rparr>\<rparr>)))" by (rule assms(2)) simp
  then show ?thesis using assms(1)
    by (auto simp: x_on_path_def path_taken_def Let_def case_prod_unfold split: option.splits)
qed

lemma stopped_rests:
  assumes "jget msg ''type'' JNull = JStr ''stop''" and "x_enabled (ex a) \<or> \<not> x_active (ex a)"
    and "arrival_ok w a" and "pending_drive (br (stopped si now clock msg w a)) = None"
  shows "resting (output_at w a (stopped si now clock msg w a)) (stopped si now clock msg w a)
    \<and> ends_halted w (stopped si now clock msg w a)"
proof (cases w)
  case Between_Handlers
  have "pending_drive (br (fst (receive si now clock (Some (JObj msg)) a))) = pending_drive (br a)"
    using assms(1) by (simp add: receive_def dispatch_command_def robot_stop_def note_link_activity_def Let_def preempting_def)
  then show ?thesis using assms Between_Handlers stop_message_rests [OF assms(1)] by simp
next
  case (During_Path sp t p after)
  let ?f = "\<lambda>b. fold adapter_step after (fst (receive si now clock (Some (JObj msg)) b))"
  have taken: "path_taken sp p a" "list_all autonomous after" using assms(3) During_Path by simp_all
  have "\<not> x_active (ex (?f b))" if "x_enabled (ex b) = x_enabled (ex a)" for b
    using that assms(2) taken stop_message_ends_session [OF assms(1), of b] by (intro inactive_run) (auto simp: path_taken_def)
  from interrupted_path [OF taken(1) this] show ?thesis
    using During_Path assms(4) by (simp add: resting_def quiet_def calm_def)
qed

subsection \<open>Properties\<close>

text \<open>C1: After a stop command of the server the robot stays still until the server speaks again: whatever the planner, the
  action server, the watchdogs, the relay and the link do, no goal is active and nothing but stops is sent. When the stop
  arrives while the navigation request of a planned path is being prepared, that request may still go out; the path's
  handler then ends with the goal cancelled and a zero velocity sent, and only stops follow. It is assumed that no drive
  command still waits for the timer when the stop has been handled, and that a session only runs where exploration is
  configured.\<close>

theorem stopped_robot_stays_still:
  assumes "jget msg ''type'' JNull = JStr ''stop''" and "list_all autonomous es"
    and "x_enabled (ex a) \<or> \<not> x_active (ex a)"
    and "arrival_ok w a" and "pending_drive (br (stopped si now clock msg w a)) = None"
  shows "\<exists>ms. sent (br (fold adapter_step es (stopped si now clock msg w a))) = output_at w a (stopped si now clock msg w a) @ ms
    \<and> list_all still ms \<and> nav (br (fold adapter_step es (stopped si now clock msg w a))) \<noteq> ''active''
    \<and> ends_halted w (stopped si now clock msg w a)"
  using rest.inv_run [OF assms(2) stopped_rests [OF assms(1,3,4,5), THEN conjunct1]] stopped_rests [OF assms(1,3,4,5)]
  by (simp add: resting_def calm_def quiet_def)

definition no_session :: explorer where
  "no_session = \<lparr>x_enabled = True, x_active = False, x_awaiting = False, x_status = ''idle'', x_gen = 0, x_started = 0,
     x_pending = None, x_pending_stop = None, x_deadline = 0, x_stop_deadline = 0, x_last_link = 0, x_next = 0\<rparr>"

definition bunker :: site where
  "bunker = \<lparr>robot_site = spot\<lparr>has_traj := False, has_nav := True\<rparr>, start_service = True, stop_service = True,
     start_raises = False, stop_raises = False, answered = (\<lambda>_. True), plan_frame = ''r1/map'', meanwhile = (\<lambda>a. a)\<rparr>"

definition told :: "real \<Rightarrow> (string \<times> json) list \<Rightarrow> adapter_event" where
  "told now msg = Message bunker now 5 (Some (JObj msg))"

definition new_path :: planned where
  "new_path = \<lparr>stamp_sec = 9, stamp_nanosec = 0, path_frame = ''/r1/map'', last_pose = Some (Fin 1, Fin 2, Fin 0)\<rparr>"

text \<open>A robot exploring towards a goal of the planner.\<close>

definition exploring :: adapter where
  "exploring = fold adapter_step
     [told 1 [(''type'', JStr ''explore''), (''enabled'', JBool True)], Planner_Path bunker 2 new_path]
     \<lparr>ex = no_session, br = idle_bridge\<rparr>"

definition stop_words :: "(string \<times> json) list" where
  "stop_words = [(''type'', JStr ''stop'')]"

text \<open>The stop arrives while the request of a further path is being prepared.\<close>

definition late_stop :: arrival where
  "late_stop = During_Path bunker 3 new_path [Link_Alive 3]"

theorem stopped_robot_stays_still_witness:
  "\<exists>ms. sent (br (fold adapter_step [Planner_Path bunker 4 new_path, Goal_Event (Watch spot 5)]
      (stopped bunker 3 5 stop_words late_stop exploring))) = output_at late_stop exploring (stopped bunker 3 5 stop_words late_stop exploring) @ ms
    \<and> list_all still ms \<and> nav (br (fold adapter_step [Planner_Path bunker 4 new_path, Goal_Event (Watch spot 5)]
        (stopped bunker 3 5 stop_words late_stop exploring))) \<noteq> ''active''
    \<and> ends_halted late_stop (stopped bunker 3 5 stop_words late_stop exploring)"
proof (rule stopped_robot_stays_still)
  show "jget stop_words ''type'' JNull = JStr ''stop''" by code_simp
  show "list_all autonomous [Planner_Path bunker 4 new_path, Goal_Event (Watch spot 5)]" by code_simp
  show "x_enabled (ex exploring) \<or> \<not> x_active (ex exploring)" "arrival_ok late_stop exploring" by code_simp+
  show "pending_drive (br (stopped bunker 3 5 stop_words late_stop exploring)) = None" by code_simp
qed

text \<open>The stop does not drop a drive command that is still waiting for the watchdog timer: the
  next tick drives the stopped robot again at full speed.\<close>

lemma pending_drive_overrides_stop:
  "let a = fold adapter_step [told 3 [(''type'', JStr ''drive''), (''linear'', JFloat (Fin (4/5)))], told 4 stop_words]
         \<lparr>ex = no_session, br = idle_bridge\<rparr>;
       a' = adapter_step (Goal_Event (Watch (robot_site bunker) 4)) a in
   b_mode (br a) = JStr ''estop'' \<and> sent (br a') = sent (br a) @ [Velocity (Fin (4/5)) (Fin 0)]
   \<and> b_mode (br a') = JStr ''teleop''"
  by code_simp

text \<open>A planned path cannot outrun a stop: if the session a path belongs to has ended by the
  time the path has been handled, even while its navigation request was being prepared, the
  robot is left without an active goal and the last it was sent is a zero velocity.\<close>

lemma path_cannot_outrun_stop:
  assumes "x_gen (ex (x_on_path si now p a)) \<noteq> x_gen (ex a)"
  shows "nav (br (x_on_path si now p a)) = ''cancelled''
    \<and> (has_cmd (robot_site si) \<longrightarrow> last (sent (br (x_on_path si now p a))) = Velocity (Fin 0) (Fin 0))"
  using assms
  by (auto simp: x_on_path_def Let_def x_stop_active case_prod_unfold split: option.splits if_splits)

lemma path_cannot_outrun_stop_witness:
  "nav (br (x_on_path (bunker\<lparr>meanwhile := (\<lambda>a. fst (receive bunker 6 5 (Some (JObj stop_words)) a))\<rparr>) 6 new_path exploring))
   = ''cancelled''"
proof -
  let ?si = "bunker\<lparr>meanwhile := (\<lambda>a. fst (receive bunker 6 5 (Some (JObj stop_words)) a))\<rparr>"
  have "x_gen (ex (x_on_path ?si 6 new_path exploring)) \<noteq> x_gen (ex exploring)" by code_simp
  from path_cannot_outrun_stop [OF this] show ?thesis by blast
qed

end
