(* ===== verification/Frontiers.thy ===== *)
theory Frontiers
  imports Geometry "HOL-Library.List_Lexorder" "HOL-Library.Char_ord" "HOL-Library.Product_Lexorder"
begin

text \<open>
  \<^verbatim>\<open>swarmdeck_ros/.../scenario/frontier_planner.py\<close>, the first half: the union of the robots' occupancy grids
  and the frontiers between free and unknown space. A grid is a total function of row and column with
  its size beside it, and is only looked at within its size. \<open>set.pop\<close> takes any element; which one is
  an argument. The resolution of a union is positive, as \<open>merge_grids\<close> sees to.
\<close>

subsection \<open>Grids\<close>

type_synonym rowcol = "int \<times> int"
type_synonym spot = "real \<times> real"
type_synonym raster = "int \<Rightarrow> int \<Rightarrow> int"
type_synonym mask = "int \<Rightarrow> int \<Rightarrow> bool"

record grid_snapshot =
  gs_rows :: int
  gs_cols :: int
  gs_cells :: raster
  gs_res :: real
  gs_origin :: transform

definition new_grid_snapshot :: "int \<Rightarrow> int \<Rightarrow> raster \<Rightarrow> pyfloat \<Rightarrow> transform \<Rightarrow> pyerr + grid_snapshot" where
  "new_grid_snapshot rows cols cs res org =
     (case res of Fin r \<Rightarrow> if r \<le> 0 then Inl ValueError
        else Inr \<lparr>gs_rows = rows, gs_cols = cols, gs_cells = cs, gs_res = r, gs_origin = org\<rparr>
      | _ \<Rightarrow> Inl ValueError)"

record common_grid =
  cg_size :: "int \<times> int"
  cg_cells :: raster
  cg_seen :: "int \<Rightarrow> int \<Rightarrow> nat"
  cg_res :: real
  cg_origin :: spot

definition grid_cell :: "common_grid \<Rightarrow> spot \<Rightarrow> rowcol" where
  "grid_cell g p = (\<lfloor>(snd p - snd (cg_origin g)) / cg_res g\<rfloor>, \<lfloor>(fst p - fst (cg_origin g)) / cg_res g\<rfloor>)"

definition grid_point :: "common_grid \<Rightarrow> rowcol \<Rightarrow> spot" where
  "grid_point g n = (fst (cg_origin g) + (of_int (snd n) + 1 / 2) * cg_res g, snd (cg_origin g) + (of_int (fst n) + 1 / 2) * cg_res g)"

definition moved :: "transform \<Rightarrow> spot \<Rightarrow> spot" where
  "moved t p = (case t of (tx, ty, yaw) \<Rightarrow>
     (tx + fst p * cos yaw - snd p * sin yaw, ty + fst p * sin yaw + snd p * cos yaw))"

definition moved_back :: "transform \<Rightarrow> spot \<Rightarrow> spot" where
  "moved_back t p = (case t of (tx, ty, yaw) \<Rightarrow> let x = fst p - tx; y = snd p - ty in
     (x * cos yaw + y * sin yaw, - x * sin yaw + y * cos yaw))"

definition inside :: "int \<times> int \<Rightarrow> rowcol \<Rightarrow> bool" where
  "inside sz n \<longleftrightarrow> 0 \<le> fst n \<and> fst n < fst sz \<and> 0 \<le> snd n \<and> snd n < snd sz"

definition every_cell :: "int \<times> int \<Rightarrow> rowcol list" where
  "every_cell sz = concat (map (\<lambda>r. map (\<lambda>c. (r, c)) [0..snd sz - 1]) [0..fst sz - 1])"

lemma set_every_cell [simp]: "set (every_cell sz) = {n. inside sz n}"
  by (auto simp: every_cell_def inside_def)

subsection \<open>The union of the maps\<close>

definition FREE_MAX :: int where "FREE_MAX = 20"
definition OCCUPIED_MIN :: int where "OCCUPIED_MIN = 65"

text \<open>The known cells of one map with their values, as cells of the union.\<close>

definition marks :: "common_grid \<Rightarrow> transform \<Rightarrow> grid_snapshot \<Rightarrow> (rowcol \<times> int) list" where
  "marks u t g = filter (inside (cg_size u) \<circ> fst)
     (map (\<lambda>(r, c). (grid_cell u (moved t (moved (gs_origin g) ((of_int c + 1 / 2) * gs_res g, (of_int r + 1 / 2) * gs_res g))),
         gs_cells g r c))
       (filter (\<lambda>(r, c). 0 \<le> gs_cells g r c) (every_cell (gs_rows g, gs_cols g))))"

definition marked :: "(rowcol \<times> int) list \<Rightarrow> (int \<Rightarrow> bool) \<Rightarrow> mask" where
  "marked ms P r c \<longleftrightarrow> list_ex (\<lambda>(n, v). n = (r, c) \<and> P v) ms"

definition mark_cell :: "bool \<Rightarrow> bool \<Rightarrow> bool \<Rightarrow> int \<Rightarrow> int" where
  "mark_cell occupied_wins free occupied v =
     (if occupied_wins then if occupied then 100 else if free \<and> v < 0 then 0 else v
      else if free then 0 else if occupied \<and> v < 0 then 100 else v)"

definition add_map :: "bool \<Rightarrow> (rowcol \<times> int) list \<Rightarrow> common_grid \<Rightarrow> common_grid" where
  "add_map occupied_wins ms u = u\<lparr>
     cg_seen := (\<lambda>r c. if marked ms (\<lambda>_. True) r c then min 255 (cg_seen u r c + 1) else cg_seen u r c),
     cg_cells := (\<lambda>r c. mark_cell occupied_wins (marked ms (\<lambda>v. v \<le> FREE_MAX) r c) (marked ms (\<lambda>v. OCCUPIED_MIN \<le> v) r c) (cg_cells u r c))\<rparr>"

definition empty_grid :: "real \<Rightarrow> real \<Rightarrow> spot \<Rightarrow> common_grid" where
  "empty_grid size_m res centre =
     (let n = \<lceil>size_m / res\<rceil> in
      \<lparr>cg_size = (n, n), cg_cells = (\<lambda>_ _. - 1), cg_seen = (\<lambda>_ _. 0), cg_res = res,
       cg_origin = (fst centre - of_int n * res / 2, snd centre - of_int n * res / 2)\<rparr>)"

definition placed_maps :: "common_grid \<Rightarrow> (string, grid_snapshot) dict \<Rightarrow> (string, transform) dict \<Rightarrow> (rowcol \<times> int) list list" where
  "placed_maps u grids placing =
     concat (map (\<lambda>(rid, g). case dget placing rid of None \<Rightarrow> [] | Some t \<Rightarrow> [marks u t g]) (sort_key fst grids))"

definition merge_grids :: "bool \<Rightarrow> real \<Rightarrow> real \<Rightarrow> spot \<Rightarrow> (string, transform) dict \<Rightarrow> (string, grid_snapshot) dict \<Rightarrow> pyerr + common_grid" where
  "merge_grids occupied_wins size_m res centre placing grids =
     (if size_m \<le> 0 \<or> res \<le> 0 then Inl ValueError
      else let u = empty_grid size_m res centre in Inr (fold (add_map occupied_wins) (placed_maps u grids placing) u))"

lemma marked_any: "marked ms P r c \<Longrightarrow> marked ms (\<lambda>_. True) r c"
  by (auto simp: marked_def list_ex_iff)

lemma union_seen:
  "cg_seen u r c \<le> 255 \<Longrightarrow>
     cg_seen (fold (add_map ow) mss u) r c = min 255 (cg_seen u r c + length (filter (\<lambda>ms. marked ms (\<lambda>_. True) r c) mss))"
proof (induction mss arbitrary: u)
  case (Cons ms mss)
  have "cg_seen (add_map ow ms u) r c \<le> 255" using Cons.prems by (simp add: add_map_def)
  moreover have "cg_seen (add_map ow ms u) r c = (if marked ms (\<lambda>_. True) r c then min 255 (cg_seen u r c + 1) else cg_seen u r c)"
    by (simp add: add_map_def)
  ultimately show ?case using Cons.IH [of "add_map ow ms u"] by (simp split: if_splits)
qed simp

lemma union_occupied:
  assumes "cg_cells u r c \<in> {- 1, 0, 100}"
  shows "cg_cells (fold (add_map True) mss u) r c =
     (if cg_cells u r c = 100 \<or> (\<exists>ms \<in> set mss. marked ms (\<lambda>v. OCCUPIED_MIN \<le> v) r c) then 100
      else if cg_cells u r c = 0 \<or> (\<exists>ms \<in> set mss. marked ms (\<lambda>v. v \<le> FREE_MAX) r c) then 0 else - 1)"
  using assms by (induction mss arbitrary: u) (auto simp: add_map_def mark_cell_def)

lemma union_free:
  assumes "cg_cells u r c \<in> {- 1, 0, 100}"
  shows "cg_cells (fold (add_map False) mss u) r c =
     (if cg_cells u r c = 0 \<or> (\<exists>ms \<in> set mss. marked ms (\<lambda>v. v \<le> FREE_MAX) r c) then 0
      else if cg_cells u r c = 100 \<or> (\<exists>ms \<in> set mss. marked ms (\<lambda>v. OCCUPIED_MIN \<le> v) r c) then 100 else - 1)"
  using assms by (induction mss arbitrary: u) (auto simp: add_map_def mark_cell_def)

subsection \<open>Frontiers\<close>

definition around :: "rowcol \<Rightarrow> rowcol list" where
  "around n = concat (map (\<lambda>dr. map (\<lambda>dc. (fst n + dr, snd n + dc)) [- 1, 0, 1]) [- 1, 0, 1])"

definition dilate_once :: "int \<times> int \<Rightarrow> mask \<Rightarrow> mask" where
  "dilate_once sz m = (\<lambda>r c. inside sz (r, c) \<and> list_ex (\<lambda>(r, c). inside sz (r, c) \<and> m r c) (around (r, c)))"

definition widened :: "int \<times> int \<Rightarrow> mask \<Rightarrow> int \<Rightarrow> mask" where
  "widened sz m n = (dilate_once sz ^^ nat n) m"

text \<open>One connected group: a worklist of cells whose neighbours are still to be looked at.\<close>

function flood :: "rowcol list \<Rightarrow> rowcol list \<Rightarrow> rowcol list \<Rightarrow> rowcol list \<times> rowcol list" where
  "flood [] remaining members = (members, remaining)"
| "flood (n # queue) remaining members =
     (let new = filter (\<lambda>x. x \<in> set remaining) (around n) in
      flood (rev new @ queue) (filter (\<lambda>x. x \<notin> set new) remaining) (members @ new))"
  by pat_completeness auto

lemma around_distinct: "distinct (around n)"
  by (cases n) (simp add: around_def)

lemma in_around: "x \<in> set (around n) \<longleftrightarrow> \<bar>fst x - fst n\<bar> \<le> 1 \<and> \<bar>snd x - snd n\<bar> \<le> 1"
proof -
  have "\<bar>a - b\<bar> \<le> 1 \<longleftrightarrow> a = b - 1 \<or> a = b \<or> a = b + 1" for a b :: int by arith
  then show ?thesis by (cases x) (auto simp: around_def)
qed

lemma around_sym: "x \<in> set (around n) \<longleftrightarrow> n \<in> set (around x)"
  by (simp add: in_around abs_minus_commute)

lemma filter_out_shorter:
  "distinct new \<Longrightarrow> set new \<subseteq> set xs \<Longrightarrow> length (filter (\<lambda>x. x \<notin> set new) xs) + length new \<le> length xs"
proof -
  assume new: "distinct new" "set new \<subseteq> set xs"
  have "length new = card (set new)" using new(1) by (simp add: distinct_card)
  also have "\<dots> \<le> card (set (filter (\<lambda>x. x \<in> set new) xs))" using new(2) by (intro card_mono) auto
  also have "\<dots> \<le> length (filter (\<lambda>x. x \<in> set new) xs)" by (rule card_length)
  finally show ?thesis using sum_length_filter_compl [of "\<lambda>x. x \<in> set new" xs] by simp
qed

termination flood
proof (relation "measure (\<lambda>(queue, remaining, _). length queue + 2 * length remaining)")
  fix n queue remaining members and new :: "rowcol list"
  assume new: "new = filter (\<lambda>x. x \<in> set remaining) (around n)"
  have "length (filter (\<lambda>x. x \<notin> set new) remaining) + length new \<le> length remaining"
    by (rule filter_out_shorter) (auto simp: new around_distinct)
  then show "((rev new @ queue, filter (\<lambda>x. x \<notin> set new) remaining, members @ new), n # queue, remaining, members)
      \<in> measure (\<lambda>(queue, remaining, _). length queue + 2 * length remaining)"
    by simp
qed simp

lemma flood_shrinks: "length (snd (flood queue remaining members)) \<le> length remaining"
proof (induction queue remaining members rule: flood.induct)
  case (2 n queue remaining members)
  show ?case using 2 [OF refl] by (simp add: Let_def) (meson le_trans length_filter_le)
qed simp

text \<open>\<open>pop_at\<close> stands for the order in which a set gives up its elements.\<close>

function component_groups :: "(rowcol list \<Rightarrow> nat) \<Rightarrow> rowcol list \<Rightarrow> rowcol list list" where
  "component_groups pop_at [] = []"
| "component_groups pop_at (x # xs) =
     (let seed = (x # xs) ! (pop_at (x # xs) mod length (x # xs));
          (members, rest) = flood [seed] (remove1 seed (x # xs)) [seed] in members # component_groups pop_at rest)"
  by pat_completeness auto

termination component_groups
proof (relation "measure (length \<circ> snd)")
  fix pop_at x xs seed and p :: "rowcol list \<times> rowcol list" and members rest
  assume seed: "seed = (x # xs) ! (pop_at (x # xs) mod length (x # xs))"
    and p: "p = flood [seed] (remove1 seed (x # xs)) [seed]" "(members, rest) = p"
  have "pop_at (x # xs) mod length (x # xs) < length (x # xs)" by (rule mod_less_divisor) simp
  then have "seed \<in> set (x # xs)" unfolding seed by (rule nth_mem)
  then have "length (remove1 seed (x # xs)) = length xs" by (auto simp: length_remove1 dest: length_pos_if_in_set)
  moreover have "length rest \<le> length (remove1 seed (x # xs))"
    using flood_shrinks [of "[seed]" "remove1 seed (x # xs)" "[seed]"] p by (metis snd_conv)
  ultimately show "((pop_at, rest), pop_at, x # xs) \<in> measure (length \<circ> snd)" by simp
qed simp

text \<open>Two cells are linked if a chain of marked cells, each around the next, leads from one to the other.\<close>

definition linked :: "rowcol set \<Rightarrow> (rowcol \<times> rowcol) set" where
  "linked A = {(x, y). x \<in> A \<and> y \<in> A \<and> y \<in> set (around x)}\<^sup>*"

lemma linked_sym: "(x, y) \<in> linked A \<Longrightarrow> (y, x) \<in> linked A"
proof -
  have "sym {(x, y). x \<in> A \<and> y \<in> A \<and> y \<in> set (around x)}" by (auto intro!: symI simp: around_sym)
  then show "(x, y) \<in> linked A \<Longrightarrow> (y, x) \<in> linked A" unfolding linked_def by (meson sym_rtrancl symD)
qed

lemma linked_trans: "(x, y) \<in> linked A \<Longrightarrow> (y, z) \<in> linked A \<Longrightarrow> (x, z) \<in> linked A"
  unfolding linked_def by (rule rtrancl_trans)

lemma linked_mono: "A \<subseteq> B \<Longrightarrow> linked A \<subseteq> linked B"
  unfolding linked_def by (rule rtrancl_mono) auto

definition sealed :: "rowcol set \<Rightarrow> rowcol set \<Rightarrow> bool" where
  "sealed A B \<longleftrightarrow> A \<inter> B = {} \<and> (\<forall>x \<in> A. set (around x) \<inter> B = {})"

lemma flood_spec:
  assumes "flood queue remaining members = (g, rest)" and "set queue \<subseteq> set members" and "set members \<inter> set remaining = {}"
    and "\<forall>x \<in> set members - set queue. set (around x) \<inter> set remaining = {}"
    and "distinct remaining" and "distinct members"
  shows "set g \<union> set rest = set members \<union> set remaining \<and> sealed (set g) (set rest) \<and> distinct g \<and> distinct rest
    \<and> set members \<subseteq> set g \<and> (\<forall>y \<in> set g. \<exists>x \<in> set members. (x, y) \<in> linked (set g))"
  using assms
proof (induction queue remaining members rule: flood.induct)
  case (1 remaining members)
  then show ?case by (auto simp: sealed_def linked_def)
next
  case (2 n queue remaining members)
  define new where "new = filter (\<lambda>x. x \<in> set remaining) (around n)"
  let ?rest = "filter (\<lambda>x. x \<notin> set new) remaining"
  have n: "n \<in> set members" using 2(3) by simp
  have new: "set new \<subseteq> set remaining" "distinct new" "set (around n) \<inter> set ?rest = {}"
    by (auto simp: new_def around_distinct)
  have "set g \<union> set rest = set (members @ new) \<union> set ?rest \<and> sealed (set g) (set rest) \<and> distinct g \<and> distinct rest
    \<and> set (members @ new) \<subseteq> set g \<and> (\<forall>y \<in> set g. \<exists>x \<in> set (members @ new). (x, y) \<in> linked (set g))"
    by (rule 2(1) [OF new_def]) (use 2(2-) new n in \<open>auto simp: new_def Let_def\<close>)
  then have ih: "set g \<union> set rest = set members \<union> set remaining" "sealed (set g) (set rest)" "distinct g" "distinct rest"
    "set members \<subseteq> set g" "set new \<subseteq> set g" and reach: "\<forall>y \<in> set g. \<exists>x \<in> set members \<union> set new. (x, y) \<in> linked (set g)"
    using new(1) by auto
  have "(n, x) \<in> linked (set g)" if "x \<in> set new" for x
    using that n ih(5,6) by (auto simp: linked_def new_def intro!: r_into_rtrancl)
  then have "\<forall>y \<in> set g. \<exists>x \<in> set members. (x, y) \<in> linked (set g)" using reach n linked_trans by (metis Un_iff)
  then show ?case using ih by simp
qed

lemma sealed_sym: "sealed A B \<Longrightarrow> sealed B A"
  unfolding sealed_def using around_sym by blast

lemma sealed_links:
  assumes "sealed A B" and "(x, y) \<in> linked (A \<union> B)" and "x \<in> A"
  shows "y \<in> A \<and> (x, y) \<in> linked A"
  using assms(2) unfolding linked_def
proof (induction rule: rtrancl_induct)
  case (step y z)
  then have "z \<in> A" using assms(1) by (auto simp: sealed_def)
  then show ?case using step by (auto intro: rtrancl_into_rtrancl)
qed (simp add: assms(3))

lemma groups_spec:
  assumes "distinct cs"
  shows "\<Union> (set ` set (component_groups pop_at cs)) = set cs
    \<and> distinct (concat (component_groups pop_at cs)) \<and> [] \<notin> set (component_groups pop_at cs)
    \<and> (\<forall>x \<in> set cs. \<forall>y \<in> set cs. (\<exists>g \<in> set (component_groups pop_at cs). x \<in> set g \<and> y \<in> set g) \<longleftrightarrow> (x, y) \<in> linked (set cs))"
  using assms
proof (induction pop_at cs rule: component_groups.induct)
  case (2 pop_at x xs)
  let ?cs = "x # xs"
  define seed where "seed = ?cs ! (pop_at ?cs mod length ?cs)"
  obtain g rest where f: "flood [seed] (remove1 seed ?cs) [seed] = (g, rest)" by (cases "flood [seed] (remove1 seed ?cs) [seed]")
  have "pop_at ?cs mod length ?cs < length ?cs" by (rule mod_less_divisor) simp
  then have seed: "seed \<in> set ?cs" unfolding seed_def by (rule nth_mem)
  have u: "{seed} \<union> set (remove1 seed ?cs) = set ?cs" and apart: "{seed} \<inter> set (remove1 seed ?cs) = {}"
    using seed 2(2) by (auto simp: set_remove1_eq)
  have spec: "set g \<union> set rest = set ?cs" "sealed (set g) (set rest)" "distinct g" "distinct rest" "seed \<in> set g"
    and reach: "\<And>y. y \<in> set g \<Longrightarrow> (seed, y) \<in> linked (set g)"
    using flood_spec [OF f] u apart 2(2) by (auto simp: distinct_remove1)
  have eq: "component_groups pop_at ?cs = g # component_groups pop_at rest"
    using f by (simp add: seed_def Let_def)
  have ih: "\<Union> (set ` set (component_groups pop_at rest)) = set rest"
    "distinct (concat (component_groups pop_at rest))" "[] \<notin> set (component_groups pop_at rest)"
    "\<And>x y. x \<in> set rest \<Longrightarrow> y \<in> set rest \<Longrightarrow>
       (\<exists>g \<in> set (component_groups pop_at rest). x \<in> set g \<and> y \<in> set g) \<longleftrightarrow> (x, y) \<in> linked (set rest)"
    using 2(1) [OF seed_def f [symmetric] refl spec(4)] by auto
  have "(\<exists>h \<in> set (g # component_groups pop_at rest). a \<in> set h \<and> b \<in> set h) \<longleftrightarrow> (a, b) \<in> linked (set ?cs)"
    if ab: "a \<in> set ?cs" "b \<in> set ?cs" for a b
  proof (cases "a \<in> set g")
    case True
    have "b \<in> set g \<longleftrightarrow> (a, b) \<in> linked (set ?cs)"
    proof
      assume "b \<in> set g"
      then have "(a, b) \<in> linked (set g)" using reach True linked_sym linked_trans by blast
      then show "(a, b) \<in> linked (set ?cs)" using linked_mono [of "set g" "set ?cs"] spec(1) by blast
    next
      assume "(a, b) \<in> linked (set ?cs)"
      then show "b \<in> set g" using sealed_links [OF spec(2) _ True] spec(1) by simp
    qed
    moreover have "a \<notin> set h" if "h \<in> set (component_groups pop_at rest)" for h
      using that True ih(1) spec(2) by (auto simp: sealed_def)
    ultimately show ?thesis using True by auto
  next
    case False
    then have a: "a \<in> set rest" using ab spec(1) by auto
    have "(\<exists>h \<in> set (component_groups pop_at rest). a \<in> set h \<and> b \<in> set h) \<longleftrightarrow> (a, b) \<in> linked (set ?cs)"
    proof
      assume "\<exists>h \<in> set (component_groups pop_at rest). a \<in> set h \<and> b \<in> set h"
      moreover from this have "b \<in> set rest" using ih(1) by blast
      ultimately have "(a, b) \<in> linked (set rest)" using ih(4) a by blast
      then show "(a, b) \<in> linked (set ?cs)" using linked_mono [of "set rest" "set ?cs"] spec(1) by blast
    next
      assume "(a, b) \<in> linked (set ?cs)"
      then have "b \<in> set rest \<and> (a, b) \<in> linked (set rest)"
        using sealed_links [OF sealed_sym [OF spec(2)] _ a] spec(1) by (simp add: Un_commute)
      then show "\<exists>h \<in> set (component_groups pop_at rest). a \<in> set h \<and> b \<in> set h" using ih(4) a by blast
    qed
    then show ?thesis using False by simp
  qed
  moreover have "g \<noteq> []" using spec(5) by auto
  moreover have "distinct (concat (g # component_groups pop_at rest))" using spec(2,3) ih(1,2) by (simp add: sealed_def)
  ultimately show ?case using spec ih(1,3) unfolding eq by auto
qed simp

lemma toward:
  fixes r r' :: int
  assumes "\<bar>r - r'\<bar> \<le> int (Suc k)"
  shows "\<bar>r + sgn (r' - r) - r\<bar> \<le> 1 \<and> \<bar>r + sgn (r' - r) - r'\<bar> \<le> int k
    \<and> (lo \<le> r \<longrightarrow> lo \<le> r' \<longrightarrow> lo \<le> r + sgn (r' - r)) \<and> (r < hi \<longrightarrow> r' < hi \<longrightarrow> r + sgn (r' - r) < hi)"
  using assms by (auto simp: sgn_if)

lemma dilate_times:
  "inside sz (r, c) \<Longrightarrow> (dilate_once sz ^^ k) m r c
    \<longleftrightarrow> (\<exists>r' c'. inside sz (r', c') \<and> m r' c' \<and> \<bar>r - r'\<bar> \<le> int k \<and> \<bar>c - c'\<bar> \<le> int k)"
proof (induction k arbitrary: r c)
  case (Suc k)
  have "(dilate_once sz ^^ Suc k) m r c
      \<longleftrightarrow> (\<exists>x y. \<bar>x - r\<bar> \<le> 1 \<and> \<bar>y - c\<bar> \<le> 1 \<and> inside sz (x, y) \<and> (dilate_once sz ^^ k) m x y)"
    using Suc.prems by (auto simp: dilate_once_def list_ex_iff in_around) blast
  also have "\<dots> \<longleftrightarrow> (\<exists>x y. \<bar>x - r\<bar> \<le> 1 \<and> \<bar>y - c\<bar> \<le> 1 \<and> inside sz (x, y)
      \<and> (\<exists>r' c'. inside sz (r', c') \<and> m r' c' \<and> \<bar>x - r'\<bar> \<le> int k \<and> \<bar>y - c'\<bar> \<le> int k))"
    using Suc.IH by blast
  also have "\<dots> \<longleftrightarrow> (\<exists>r' c'. inside sz (r', c') \<and> m r' c' \<and> \<bar>r - r'\<bar> \<le> int (Suc k) \<and> \<bar>c - c'\<bar> \<le> int (Suc k))"
  proof
    assume "\<exists>x y. \<bar>x - r\<bar> \<le> 1 \<and> \<bar>y - c\<bar> \<le> 1 \<and> inside sz (x, y)
      \<and> (\<exists>r' c'. inside sz (r', c') \<and> m r' c' \<and> \<bar>x - r'\<bar> \<le> int k \<and> \<bar>y - c'\<bar> \<le> int k)"
    then show "\<exists>r' c'. inside sz (r', c') \<and> m r' c' \<and> \<bar>r - r'\<bar> \<le> int (Suc k) \<and> \<bar>c - c'\<bar> \<le> int (Suc k)"
      by (elim exE conjE, intro exI conjI) (assumption | linarith)+
  next
    assume "\<exists>r' c'. inside sz (r', c') \<and> m r' c' \<and> \<bar>r - r'\<bar> \<le> int (Suc k) \<and> \<bar>c - c'\<bar> \<le> int (Suc k)"
    then obtain r' c' where far: "inside sz (r', c')" "m r' c'" "\<bar>r - r'\<bar> \<le> int (Suc k)" "\<bar>c - c'\<bar> \<le> int (Suc k)" by blast
    have "inside sz (r + sgn (r' - r), c + sgn (c' - c))"
      using Suc.prems far(1) toward [OF far(3), of 0 "fst sz"] toward [OF far(4), of 0 "snd sz"] by (simp add: inside_def)
    then show "\<exists>x y. \<bar>x - r\<bar> \<le> 1 \<and> \<bar>y - c\<bar> \<le> 1 \<and> inside sz (x, y)
      \<and> (\<exists>r' c'. inside sz (r', c') \<and> m r' c' \<and> \<bar>x - r'\<bar> \<le> int k \<and> \<bar>y - c'\<bar> \<le> int k)"
      using far toward [OF far(3)] toward [OF far(4)] by blast
  qed
  finally show ?case .
qed auto

lemma widened_iff:
  "inside sz (r, c) \<Longrightarrow> widened sz m n r c
    \<longleftrightarrow> (\<exists>r' c'. inside sz (r', c') \<and> m r' c' \<and> \<bar>r - r'\<bar> \<le> max 0 n \<and> \<bar>c - c'\<bar> \<le> max 0 n)"
  by (simp add: widened_def dilate_times)

subsection \<open>Candidates\<close>

record frontier =
  fr_cell :: rowcol
  fr_at :: spot
  fr_cells :: nat
  fr_info :: real

definition free_cell :: "common_grid \<Rightarrow> mask" where
  "free_cell g r c \<longleftrightarrow> 0 \<le> cg_cells g r c \<and> cg_cells g r c \<le> FREE_MAX"

definition unknown_cell :: "common_grid \<Rightarrow> mask" where
  "unknown_cell g r c \<longleftrightarrow> cg_cells g r c < 0"

definition occupied_cell :: "common_grid \<Rightarrow> mask" where
  "occupied_cell g r c \<longleftrightarrow> OCCUPIED_MIN \<le> cg_cells g r c"

definition beside_unknown :: "common_grid \<Rightarrow> mask" where
  "beside_unknown g r c \<longleftrightarrow> list_ex (\<lambda>(r, c). inside (cg_size g) (r, c) \<and> unknown_cell g r c) [(r + 1, c), (r - 1, c), (r, c + 1), (r, c - 1)]"

definition inflation :: "common_grid \<Rightarrow> real \<Rightarrow> int" where
  "inflation g clearance_m = \<lceil>max 0 clearance_m / cg_res g\<rceil>"

definition frontier_mask :: "common_grid \<Rightarrow> real \<Rightarrow> mask" where
  "frontier_mask g clearance_m r c \<longleftrightarrow> free_cell g r c \<and> beside_unknown g r c
     \<and> \<not> widened (cg_size g) (occupied_cell g) (inflation g clearance_m) r c"

definition frontier_cells :: "common_grid \<Rightarrow> real \<Rightarrow> rowcol list" where
  "frontier_cells g clearance_m = filter (\<lambda>(r, c). frontier_mask g clearance_m r c) (every_cell (cg_size g))"

definition medoid :: "rowcol list \<Rightarrow> rowcol" where
  "medoid ns = (let mean = (\<lambda>f. sum_list (map (\<lambda>n. of_int (f n)) ns) / of_nat (length ns)) in
     first_max (\<lambda>n. - ((of_int (fst n) - mean fst)\<^sup>2 + (of_int (snd n) - mean snd)\<^sup>2 :: real)) (hd ns) (tl ns))"

definition gain_cells :: "common_grid \<Rightarrow> real \<Rightarrow> int" where
  "gain_cells g gain_radius_m = max 1 \<lceil>gain_radius_m / cg_res g\<rceil>"

definition unknown_around :: "common_grid \<Rightarrow> int \<Rightarrow> rowcol \<Rightarrow> nat" where
  "unknown_around g n cell = (case cell of (row, col) \<Rightarrow>
     length (filter (\<lambda>(r, c). unknown_cell g r c \<and> (r - row)\<^sup>2 + (c - col)\<^sup>2 \<le> n\<^sup>2)
       (concat (map (\<lambda>r. map (\<lambda>c. (r, c)) [max 0 (col - n)..min (snd (cg_size g)) (col + n + 1) - 1])
         [max 0 (row - n)..min (fst (cg_size g)) (row + n + 1) - 1]))))"

definition candidate_frontier :: "common_grid \<Rightarrow> real \<Rightarrow> rowcol list \<Rightarrow> frontier" where
  "candidate_frontier g gain_radius_m ns =
     (let cell = medoid ns in
      \<lparr>fr_cell = cell, fr_at = grid_point g cell, fr_cells = length ns,
       fr_info = of_nat (unknown_around g (gain_cells g gain_radius_m) cell) * (cg_res g)\<^sup>2\<rparr>)"

definition spot_distance :: "spot \<Rightarrow> spot \<Rightarrow> real" where
  "spot_distance a b = hypot (fst a - fst b) (snd a - snd b)"

fun kept_apart :: "real \<Rightarrow> nat \<Rightarrow> frontier list \<Rightarrow> frontier list \<Rightarrow> frontier list" where
  "kept_apart sep limit kept [] = kept"
| "kept_apart sep limit kept (f # fs) =
     (if list_ex (\<lambda>k. spot_distance (fr_at f) (fr_at k) < sep) kept then kept_apart sep limit kept fs
      else if limit \<le> length kept + 1 then kept @ [f] else kept_apart sep limit (kept @ [f]) fs)"

text \<open>A sort in reverse keeps equal elements in their order.\<close>

definition by_gain :: "frontier list \<Rightarrow> frontier list" where
  "by_gain fs = rev (sort_key (\<lambda>f. (fr_info f, fr_cells f)) (rev fs))"

definition extract_frontiers :: "(rowcol list \<Rightarrow> nat) \<Rightarrow> common_grid \<Rightarrow> real \<Rightarrow> real \<Rightarrow> nat \<Rightarrow> real \<Rightarrow> nat \<Rightarrow> frontier list" where
  "extract_frontiers pop_at g clearance_m gain_radius_m min_cells sep limit =
     kept_apart sep limit [] (by_gain (map (candidate_frontier g gain_radius_m)
       (filter (\<lambda>ns. min_cells \<le> length ns) (component_groups pop_at (frontier_cells g clearance_m)))))"

subsection \<open>What the candidates are\<close>

lemma kept_extends: "\<exists>new. kept_apart sep limit kept fs = kept @ new"
  by (induction sep limit kept fs rule: kept_apart.induct) auto

lemma kept_set: "set (kept_apart sep limit kept fs) \<subseteq> set kept \<union> set fs"
  by (induction sep limit kept fs rule: kept_apart.induct) auto

lemma kept_spaced:
  "sorted_wrt (\<lambda>a b. sep \<le> spot_distance (fr_at b) (fr_at a)) kept
    \<Longrightarrow> sorted_wrt (\<lambda>a b. sep \<le> spot_distance (fr_at b) (fr_at a)) (kept_apart sep limit kept fs)"
  by (induction sep limit kept fs rule: kept_apart.induct) (auto simp: sorted_wrt_append list_ex_iff not_less)

lemma kept_length: "length kept < max 1 limit \<Longrightarrow> length (kept_apart sep limit kept fs) \<le> max 1 limit"
  by (induction sep limit kept fs rule: kept_apart.induct) auto

lemma kept_none: "kept_apart sep limit [] fs = [] \<longleftrightarrow> fs = []"
proof (cases fs)
  case (Cons f fs')
  then show ?thesis using kept_extends [of sep limit "[f]" fs'] by auto
qed simp

lemma by_gain_set [simp]: "set (by_gain fs) = set fs"
  by (simp add: by_gain_def)

lemma by_gain_none [simp]: "by_gain fs = [] \<longleftrightarrow> fs = []"
  by (metis by_gain_set set_empty)

lemma medoid_in: "ns \<noteq> [] \<Longrightarrow> medoid ns \<in> set ns"
  using first_max_in [of _ "hd ns" "tl ns"] by (cases ns) (auto simp: medoid_def Let_def)

lemma every_cell_distinct: "distinct (every_cell sz)"
proof -
  have "distinct (concat (map (\<lambda>r. map (\<lambda>c. (r, c)) cs) rs))" if "distinct rs" "distinct cs" for rs cs :: "int list"
    using that by (induction rs) (auto simp: distinct_map inj_on_def)
  then show ?thesis by (simp add: every_cell_def)
qed

definition frontier_group :: "common_grid \<Rightarrow> real \<Rightarrow> rowcol \<Rightarrow> rowcol set" where
  "frontier_group g clearance_m n = {m. m \<in> set (frontier_cells g clearance_m) \<and> (n, m) \<in> linked (set (frontier_cells g clearance_m))}"

lemma group_is_class:
  assumes "distinct cs" and "ns \<in> set (component_groups pop_at cs)" and "n \<in> set ns"
  shows "{m. m \<in> set cs \<and> (n, m) \<in> linked (set cs)} = set ns" and "card (set ns) = length ns"
proof -
  note spec = groups_spec [OF assms(1), of pop_at]
  have one: "h = ns" if "h \<in> set (component_groups pop_at cs)" "n \<in> set h" for h
  proof -
    have "\<forall>ys zs. ys \<in> set (component_groups pop_at cs) \<and> zs \<in> set (component_groups pop_at cs) \<and> ys \<noteq> zs \<longrightarrow> set ys \<inter> set zs = {}"
      using spec by (simp add: distinct_concat_iff)
    then show ?thesis using that assms(2,3) by blast
  qed
  have sub: "set ns \<subseteq> set cs" using spec assms(2) by blast
  then have n: "n \<in> set cs" using assms(3) by blast
  show "{m. m \<in> set cs \<and> (n, m) \<in> linked (set cs)} = set ns"
  proof (intro set_eqI iffI)
    fix m assume "m \<in> {m. m \<in> set cs \<and> (n, m) \<in> linked (set cs)}"
    then obtain h where "h \<in> set (component_groups pop_at cs)" "n \<in> set h" "m \<in> set h" using spec n by blast
    then show "m \<in> set ns" using one by blast
  next
    fix m assume "m \<in> set ns"
    then show "m \<in> {m. m \<in> set cs \<and> (n, m) \<in> linked (set cs)}" using spec n sub assms(2,3) by blast
  qed
  have "distinct ns" using spec assms(2) by (auto simp: distinct_concat_iff)
  then show "card (set ns) = length ns" by (rule distinct_card)
qed

lemma big_group_iff:
  assumes "distinct cs"
  shows "(\<exists>ns \<in> set (component_groups pop_at cs). k \<le> length ns) \<longleftrightarrow> (\<exists>n \<in> set cs. k \<le> card {m. m \<in> set cs \<and> (n, m) \<in> linked (set cs)})"
proof
  assume "\<exists>ns \<in> set (component_groups pop_at cs). k \<le> length ns"
  then obtain ns where ns: "ns \<in> set (component_groups pop_at cs)" "k \<le> length ns" by blast
  then have "ns \<noteq> []" using groups_spec [OF assms, of pop_at] by auto
  then have hd: "hd ns \<in> set ns" by simp
  then have "hd ns \<in> set cs" using ns(1) groups_spec [OF assms, of pop_at] by blast
  moreover have "k \<le> card {m. m \<in> set cs \<and> (hd ns, m) \<in> linked (set cs)}"
    using ns(2) group_is_class [OF assms ns(1) hd] by simp
  ultimately show "\<exists>n \<in> set cs. k \<le> card {m. m \<in> set cs \<and> (n, m) \<in> linked (set cs)}" by blast
next
  assume "\<exists>n \<in> set cs. k \<le> card {m. m \<in> set cs \<and> (n, m) \<in> linked (set cs)}"
  then obtain n where n: "n \<in> set cs" "k \<le> card {m. m \<in> set cs \<and> (n, m) \<in> linked (set cs)}" by blast
  then obtain ns where ns: "ns \<in> set (component_groups pop_at cs)" "n \<in> set ns" using groups_spec [OF assms, of pop_at] by blast
  then have "k \<le> length ns" using n(2) group_is_class [OF assms ns] by simp
  then show "\<exists>ns \<in> set (component_groups pop_at cs). k \<le> length ns" using ns(1) by blast
qed

text \<open>C18: Every frontier offered to a robot is a free cell next to unknown space with no obstacle within the clearance;
  any two are at least the separation apart and there are no more than the limit; and none is offered exactly when
  every connected stretch of such cells is smaller than the least size. The clearance is in cells, rounded up; the distance of two
  cells is the larger of the two differences; the limit is at least one.\<close>

theorem frontiers_are_safe_and_complete:
  "list_all (\<lambda>f. frontier_mask g clearance_m (fst (fr_cell f)) (snd (fr_cell f)) \<and> inside (cg_size g) (fr_cell f)
       \<and> \<not> (\<exists>r c. inside (cg_size g) (r, c) \<and> occupied_cell g r c
          \<and> max \<bar>fst (fr_cell f) - r\<bar> \<bar>snd (fr_cell f) - c\<bar> \<le> max 0 (inflation g clearance_m)))
     (extract_frontiers pop_at g clearance_m gain min_cells sep limit)
   \<and> sorted_wrt (\<lambda>a b. sep \<le> spot_distance (fr_at b) (fr_at a)) (extract_frontiers pop_at g clearance_m gain min_cells sep limit)
   \<and> length (extract_frontiers pop_at g clearance_m gain min_cells sep limit) \<le> max 1 limit
   \<and> (extract_frontiers pop_at g clearance_m gain min_cells sep limit = []
      \<longleftrightarrow> list_all (\<lambda>n. card (frontier_group g clearance_m n) < min_cells) (frontier_cells g clearance_m))"
proof -
  let ?cs = "frontier_cells g clearance_m"
  let ?groups = "filter (\<lambda>ns. min_cells \<le> length ns) (component_groups pop_at ?cs)"
  let ?fs = "extract_frontiers pop_at g clearance_m gain min_cells sep limit"
  have cs: "distinct ?cs" by (simp add: frontier_cells_def every_cell_distinct)
  note spec = groups_spec [OF cs, of pop_at]
  have cell: "fr_cell f \<in> set ?cs" if "f \<in> set ?fs" for f
  proof -
    have "f \<in> candidate_frontier g gain ` set ?groups"
      using that kept_set [of sep limit "[]"] by (fastforce simp: extract_frontiers_def)
    then obtain ns where ns: "ns \<in> set (component_groups pop_at ?cs)" "fr_cell f = medoid ns"
      by (auto simp: candidate_frontier_def Let_def)
    have "ns \<noteq> []" using spec ns(1) by auto
    then have "medoid ns \<in> set ns" by (rule medoid_in)
    then show ?thesis using spec ns by auto
  qed
  have "list_all (\<lambda>f. frontier_mask g clearance_m (fst (fr_cell f)) (snd (fr_cell f)) \<and> inside (cg_size g) (fr_cell f)
       \<and> \<not> (\<exists>r c. inside (cg_size g) (r, c) \<and> occupied_cell g r c
          \<and> max \<bar>fst (fr_cell f) - r\<bar> \<bar>snd (fr_cell f) - c\<bar> \<le> max 0 (inflation g clearance_m))) ?fs"
  proof (unfold list_all_iff, intro ballI)
    fix f assume "f \<in> set ?fs"
    then have m: "frontier_mask g clearance_m (fst (fr_cell f)) (snd (fr_cell f))" "inside (cg_size g) (fr_cell f)"
      using cell by (auto simp: frontier_cells_def case_prod_beta)
    then have "\<not> widened (cg_size g) (occupied_cell g) (inflation g clearance_m) (fst (fr_cell f)) (snd (fr_cell f))"
      by (simp add: frontier_mask_def)
    then show "frontier_mask g clearance_m (fst (fr_cell f)) (snd (fr_cell f)) \<and> inside (cg_size g) (fr_cell f)
       \<and> \<not> (\<exists>r c. inside (cg_size g) (r, c) \<and> occupied_cell g r c
          \<and> max \<bar>fst (fr_cell f) - r\<bar> \<bar>snd (fr_cell f) - c\<bar> \<le> max 0 (inflation g clearance_m))"
      using m widened_iff [of "cg_size g" "fst (fr_cell f)" "snd (fr_cell f)"] by simp
  qed
  moreover have "sorted_wrt (\<lambda>a b. sep \<le> spot_distance (fr_at b) (fr_at a)) ?fs"
    unfolding extract_frontiers_def by (rule kept_spaced) simp
  moreover have "length ?fs \<le> max 1 limit"
    unfolding extract_frontiers_def by (rule kept_length) simp
  moreover have "?fs = [] \<longleftrightarrow> \<not> (\<exists>ns \<in> set (component_groups pop_at ?cs). min_cells \<le> length ns)"
    by (simp add: extract_frontiers_def kept_none filter_empty_conv)
  then have "?fs = [] \<longleftrightarrow> list_all (\<lambda>n. card (frontier_group g clearance_m n) < min_cells) ?cs"
    using big_group_iff [OF cs, of pop_at min_cells] by (simp add: frontier_group_def list_all_iff not_le)
  ultimately show ?thesis by blast
qed

end
