(* ===== verification/Spec2Isabelle.thy ===== *)
theory Spec2Isabelle
  imports Trajectory Consistency Components Registry Review Review_Contract Review_File Settings
    Operator Map_Frames Gui Detections Adapter_Socket Map_Merge Map_Sync Map_Service
    Map_Registration Map_Products Path_Planner Place_Index Slam_Backend Slam_Selection Slam_Runs
    Keyframe Keyframe_Format Slam_Snapshot Slam_Handover Slam_Service Slam_Safety Slam_Reset Slam_Restart
    Missions Fleet_Tools Cortex_Store Robot Exploration Frontiers
begin

text \<open>
  SwarmDeck drives a mixed fleet of robots from one server. Robots run an adapter that speaks one
  WebSocket protocol; dashboards and a language-model agent give orders; a graph solver puts the
  robots' maps together. This development models the parts in which decisions are made.

  Parts and their theories.

  \<^item> \<open>Prelude\<close>: Python values and errors (JSON, floats with infinities and NaN, conversion and
    rounding, insertion-ordered dictionaries), sequences of fallible updates, and two locales that
    every stateful part interprets: \<open>machine\<close> (an invariant kept by every step) and
    \<open>generation_machine\<close> (a counter no step lowers, which tells stale answers from current ones).
  \<^item> \<open>Trajectory\<close>, \<open>Consistency\<close>, \<open>Components\<close>: \<^verbatim>\<open>slam/swarmdeck_slam/types.py\<close> and \<^verbatim>\<open>graph.py\<close>.
    Names of trajectories and keyframes and their integer keys; the pairwise consistency filter
    with its greedy clique; connected components by union-find and the decision which robots are
    published in one frame. Union-find parents and clique search are loops with a fuel equal to
    the number of nodes; the theorems state that the fuel suffices.
  \<^item> \<open>Place_Index\<close>, \<open>Slam_Backend\<close>, \<open>Slam_Selection\<close>, \<open>Slam_Runs\<close>: \<^verbatim>\<open>slam/swarmdeck_slam/descriptors.py\<close> and \<^verbatim>\<open>backend.py\<close>. The
    search for similar places; the store of keyframes and edges, the selection of trajectories and the
    solver's copy of it; the invariant by rule induction over what can be done to it; deletion and the sessions of packets without
    one. The solver, the registration of clouds and the descriptors are the functions of a kit.
  \<^item> \<open>Slam_Snapshot\<close>, \<open>Slam_Handover\<close>: the end of \<^verbatim>\<open>backend.py\<close>. What is published of a solve, and what the map service makes of it.
  \<^item> \<open>Keyframe\<close>, \<open>Keyframe_Format\<close>: \<^verbatim>\<open>adapters/protocol/swarmdeck_protocol/keyframe.py\<close>. The bytes of a keyframe, with machine words;
    the codecs of JSON and of the compression are arguments.
  \<^item> \<open>Slam_Service\<close>, \<open>Slam_Safety\<close>, \<open>Slam_Reset\<close>, \<open>Slam_Restart\<close>: \<^verbatim>\<open>slam/swarmdeck_slam/service.py\<close>. The handlers and the worker of the
    SLAM process as a machine whose steps are one handler or one stretch of the worker; keyframes that stop it, resets and
    deletions against solves under way, and the replay of captured files in the order of their names.
  \<^item> \<open>Registry\<close>: \<^verbatim>\<open>server/.../fleet/registry.py\<close>. Robots, sockets, hello and state messages, sending, and what
    the handlers of goals, cancellations, stops and settings write into a robot.
  \<^item> \<open>Review\<close>, \<open>Review_Contract\<close>, \<open>Review_File\<close>: \<^verbatim>\<open>server/.../detect/review.py\<close>. The queue of sightings
    an operator answers, the contracts of its operations, and its file.
  \<^item> \<open>Settings\<close>: \<^verbatim>\<open>server/.../config/settings.py\<close> and \<^verbatim>\<open>detection.py\<close>. Validation of saved settings and
    the thresholds at which detections are captured and shown.
  \<^item> \<open>Operator\<close>, \<open>Gui\<close>: \<^verbatim>\<open>server/.../api/teleop_routes.py\<close>, \<^verbatim>\<open>control_routes.py\<close>, \<^verbatim>\<open>app.py\<close>. The server's
    state (a record holding the registry, the review store, the settings, alerts, timers), the
    REST commands and every message of a dashboard. A handler's effects are its trace. The
    interface between a handler and the transport is the locale \<open>command_link\<close>.
  \<^item> \<open>Map_Frames\<close>, \<open>Detections\<close>, \<open>Adapter_Socket\<close>: the same \<^verbatim>\<open>app.py\<close>. The frames in which poses
    are exchanged; what a detection batch and a change of the settings do to the shared objects;
    the messages of an adapter, the life of its socket, the check of the fleet that raises
    alerts, and the reset of a simulated fleet.
  \<^item> \<open>Geometry\<close>, \<open>Map_Merge\<close>, \<open>Map_Sync\<close>: \<^verbatim>\<open>server/.../mapsvc/service.py\<close>, \<^verbatim>\<open>snapshot.py\<close>, \<^verbatim>\<open>synchronization.py\<close> and
    the canvas of \<^verbatim>\<open>ui/src/lib/stores/mapstore.svelte.ts\<close>. Warping and voting of the robots' grids, the
    growth of the merged extent, and the patches that carry the map to a dashboard; the canvas
    refines the server's map.
  \<^item> \<open>Map_Service\<close>, \<open>Map_Registration\<close>, \<open>Map_Products\<close>: the state of \<^verbatim>\<open>mapsvc/service.py\<close> with \<^verbatim>\<open>cslam.py\<close> and
    \<^verbatim>\<open>nav_map.py\<close>. Uploads, registration with its hysteresis, membership, resets, the snapshots of the
    pose-graph back end and the cached planning grids; an event is one call, and two interpretations
    of \<open>machine\<close> lift the invariants of registration and of the cache to runs.
  \<^item> \<open>Path_Planner\<close>: \<^verbatim>\<open>mapsvc/planner.py\<close> and \<open>plan_path\<close>. The search on a grid for robots without a planner of
    their own. Its loop has the code's limit of 40000 expansions as fuel; following the predecessors
    back is a partial function that is shown to return.
  \<^item> \<open>Missions\<close>, \<open>Fleet_Tools\<close>, \<open>Cortex_Store\<close>: \<^verbatim>\<open>agent/agent_cortex/missions.py\<close>, \<^verbatim>\<open>fleet_tools.py\<close>,
    \<^verbatim>\<open>store.py\<close>. Plans of the agent with acyclic dependencies and waves; the approval gate and the
    command lines of its tools; the tables of jobs, events, memories and compactions.
  \<^item> \<open>Robot\<close>, \<open>Exploration\<close>: \<^verbatim>\<open>adapters/adapter_ros2/adapter_ros2.py\<close>, \<^verbatim>\<open>runtime.py\<close>, \<^verbatim>\<open>exploration.py\<close>,
    \<^verbatim>\<open>session.py\<close>. The robot's side: goals and the answers of the action server, the deadman
    timers, exploration sessions, and the dispatch of the server's commands.
  \<^item> \<open>Frontiers\<close>: \<^verbatim>\<open>swarmdeck_ros/.../scenario/frontier_planner.py\<close>, the first half. The union of the robots' grids and the
    frontiers between free and unknown space; the flood of a group is a function with its termination proof.

  How they interact. A dashboard message or REST call (\<open>Gui\<close>, \<open>Operator\<close>) is checked against the
  settings and the registry, planned by the map service and handed to the robot's socket
  (\<open>Registry\<close>); the adapter's session dispatches it (\<open>Exploration\<close>) to the robot (\<open>Robot\<close>).
  Asynchronous code is modelled as handlers that run to completion except at the points where the
  code awaits, where an argument says what other handlers did (\<open>net\<close>, \<open>waiting\<close>, \<open>meanwhile\<close>).

  What the groups of lemmas show. Each stateful part has an invariant, a lemma that every
  operation keeps it, and an interpretation of \<open>machine\<close> that lifts it to runs. On top stand
  functional descriptions (routing of sightings, waves, stops), safety properties (stale answers
  are refused, stopped robots stay still, disabled robots are not driven), bounds (clamped
  speeds, validated settings, limited retries), equivalence with a reference notion (components
  and reachability, validation and acyclicity), round trips (ids, the review file), and progress
  (a mission never gets stuck). Some properties state defects, as the findings of the manifest.

  Arguments of the model are what is not in the repository: transports, the action servers and
  services of ROS, the transform tree, clocks, and the map service as seen by the handlers. Every
  time is a real number read once per handler.

  Assumptions of the data. Finite floats are reals: no rounding and no overflow of arithmetic, except where
  a value can become infinite or NaN by a conversion, which is written out with the type \<open>pyfloat\<close>. A grid is a total
  function of row and column beside its size and is only read within it. A solve of the SLAM worker, the warp of a planning
  grid and a batch of detections are one step, although other handlers may run during them; the theories say where.

  Not modelled: the reconstruction without odometry, the rendering of solved maps, nonlinear optimisation, the registration of
  point clouds and image processing, which are numerical code; the evaluation and fault injection of experiments; the
  adapters for ROS 1 and the simulator, variants of the modelled one; the keyframe producer and perception of the robots; the
  language-model providers, supervisor and server of the agent; the travel costs, auction and node of coordinated exploration; uploads, files, sockets
  and process management; ROS callbacks that only convert messages; launch files, scenario generation and calibration scripts.
\<close>

end
